(* ===== verification/Prelude.thy ===== *)
theory Prelude
  imports Main "HOL-Library.Word"
begin

text \<open>
  The shared prelude: results that are either an error or a value, Python slices, the
  \<open>for _ in range(n)\<close> loop that reads consecutive items of a buffer, and the interface
  (\<open>item_decoder\<close>, \<open>item_codec\<close>) that every item format of the wire protocol implements.
  The lemmas about counted blocks are proved once here, inside the interface, and reused by
  link specifiers, certificates, certificate extensions and NETINFO addresses.
\<close>

named_theorems raises_intros \<open>introduction rules for \<open>raises_only\<close>\<close>
named_theorems byte_simps \<open>lengths and shapes of encoded integers and headers\<close>

section \<open>Results: an error on the left, a value on the right\<close>

definition rbind :: "'e + 'a \<Rightarrow> ('a \<Rightarrow> 'e + 'b) \<Rightarrow> 'e + 'b" where
  "rbind m f = (case m of Inl e \<Rightarrow> Inl e | Inr a \<Rightarrow> f a)"

lemma rbind_simps [simp]:
  "rbind (Inl e) f = Inl e"
  "rbind (Inr a) f = f a"
  by (simp_all add: rbind_def)

lemma rbind_Inr_iff [simp]:
  "rbind m f = Inr b \<longleftrightarrow> (\<exists>a. m = Inr a \<and> f a = Inr b)"
  by (cases m) auto

lemma Inr_rbind_iff [simp]:
  "Inr b = rbind m f \<longleftrightarrow> (\<exists>a. m = Inr a \<and> f a = Inr b)"
  by (cases m) auto

lemma rbind_Inl_iff:
  "rbind m f = Inl e \<longleftrightarrow> m = Inl e \<or> (\<exists>a. m = Inr a \<and> f a = Inl e)"
  by (cases m) auto

lemma rbind_assoc: "rbind (rbind m f) g = rbind m (\<lambda>a. rbind (f a) g)"
  by (cases m) auto

lemma rbind_cong [fundef_cong]:
  "m = m' \<Longrightarrow> (\<And>a. m' = Inr a \<Longrightarrow> f a = f' a) \<Longrightarrow> rbind m f = rbind m' f'"
  by (cases m') auto

text \<open>\<open>try: m; except <classes> as exc: h exc\<close>, the classes given as a predicate.\<close>

definition rcatch :: "'e + 'a \<Rightarrow> ('e \<Rightarrow> bool) \<Rightarrow> ('e \<Rightarrow> 'e + 'a) \<Rightarrow> 'e + 'a" where
  "rcatch m p h = (case m of Inl e \<Rightarrow> if p e then h e else Inl e | Inr a \<Rightarrow> Inr a)"

lemma rcatch_simps [simp]:
  "rcatch (Inr a) p h = Inr a"
  "p e \<Longrightarrow> rcatch (Inl e) p h = h e"
  "\<not> p e \<Longrightarrow> rcatch (Inl e) p h = Inl e"
  by (simp_all add: rcatch_def)

lemma rcatch_Inr_iff:
  "rcatch m p h = Inr b \<longleftrightarrow> m = Inr b \<or> (\<exists>e. m = Inl e \<and> p e \<and> h e = Inr b)"
  by (cases m) (auto simp: rcatch_def)

text \<open>The only errors a computation can end with are those of a set.\<close>

definition raises_only :: "'e set \<Rightarrow> 'e + 'a \<Rightarrow> bool" where
  "raises_only S m \<longleftrightarrow> (\<forall>e. m = Inl e \<longrightarrow> e \<in> S)"

lemma raises_only_Inr [raises_intros]: "raises_only S (Inr a)"
  by (simp add: raises_only_def)

lemma raises_only_Inl [raises_intros]: "e \<in> S \<Longrightarrow> raises_only S (Inl e)"
  by (simp add: raises_only_def)

lemma raises_only_rbind [raises_intros]:
  "raises_only S m \<Longrightarrow> (\<And>a. m = Inr a \<Longrightarrow> raises_only S (f a)) \<Longrightarrow> raises_only S (rbind m f)"
  by (cases m) (auto simp: raises_only_def)

lemma raises_only_if [raises_intros]:
  "(b \<Longrightarrow> raises_only S x) \<Longrightarrow> (\<not> b \<Longrightarrow> raises_only S y) \<Longrightarrow> raises_only S (if b then x else y)"
  by simp

lemma raises_only_let [raises_intros]:
  "raises_only S (f x) \<Longrightarrow> raises_only S (let y = x in f y)"
  by simp

lemma raises_only_prod [raises_intros]:
  "(\<And>x y. p = (x, y) \<Longrightarrow> raises_only S (f x y)) \<Longrightarrow> raises_only S (case p of (x, y) \<Rightarrow> f x y)"
  by (cases p) simp

lemma raises_only_option [raises_intros]:
  "(z = None \<Longrightarrow> raises_only S x) \<Longrightarrow> (\<And>y. z = Some y \<Longrightarrow> raises_only S (f y))
    \<Longrightarrow> raises_only S (case z of None \<Rightarrow> x | Some y \<Rightarrow> f y)"
  by (cases z) simp_all

lemma raises_only_list [raises_intros]:
  "(z = [] \<Longrightarrow> raises_only S x) \<Longrightarrow> (\<And>y ys. z = y # ys \<Longrightarrow> raises_only S (f y ys))
    \<Longrightarrow> raises_only S (case z of [] \<Rightarrow> x | y # ys \<Rightarrow> f y ys)"
  by (cases z) simp_all

lemma raises_only_rcatch:
  "(\<And>e. m = Inl e \<Longrightarrow> p e \<Longrightarrow> raises_only S (h e)) \<Longrightarrow> (\<And>e. m = Inl e \<Longrightarrow> \<not> p e \<Longrightarrow> e \<in> S)
    \<Longrightarrow> raises_only S (rcatch m p h)"
  by (cases m) (auto simp: raises_only_def rcatch_def split: if_splits)

lemma raises_only_mono: "raises_only S m \<Longrightarrow> S \<subseteq> T \<Longrightarrow> raises_only T m"
  by (auto simp: raises_only_def)

lemma raises_onlyD: "raises_only S m \<Longrightarrow> m = Inl e \<Longrightarrow> e \<in> S"
  by (simp add: raises_only_def)

text \<open>\<open>[f(x) for x in xs]\<close> where \<open>f\<close> may raise.\<close>

fun rmap :: "('a \<Rightarrow> 'e + 'b) \<Rightarrow> 'a list \<Rightarrow> 'e + 'b list" where
  "rmap f [] = Inr []"
| "rmap f (x # xs) = rbind (f x) (\<lambda>y. rbind (rmap f xs) (\<lambda>ys. Inr (y # ys)))"

lemma rmap_Inr_iff: "rmap f xs = Inr ys \<longleftrightarrow> list_all2 (\<lambda>x y. f x = Inr y) xs ys"
  by (induction xs arbitrary: ys) (auto simp: list_all2_Cons1)

lemma rmap_total: "(\<And>x. x \<in> set xs \<Longrightarrow> f x = Inr (g x)) \<Longrightarrow> rmap f xs = Inr (map g xs)"
  by (induction xs) auto

lemma rmap_raises [raises_intros]:
  "(\<And>x. x \<in> set xs \<Longrightarrow> raises_only S (f x)) \<Longrightarrow> raises_only S (rmap f xs)"
  by (induction xs) (auto intro!: raises_intros)

section \<open>Stateful operations that may raise\<close>

text \<open>
  An operation on a state \<open>'s\<close> returns the new state and either an error or a value: the state
  changes made before a raise stay, as they do in the code.
\<close>

type_synonym ('s, 'e, 'a) op = "'s \<Rightarrow> 's \<times> ('e + 'a)"

definition oreturn :: "'a \<Rightarrow> ('s, 'e, 'a) op" where
  "oreturn a s = (s, Inr a)"

definition oraise :: "'e \<Rightarrow> ('s, 'e, 'a) op" where
  "oraise e s = (s, Inl e)"

definition olift :: "'e + 'a \<Rightarrow> ('s, 'e, 'a) op" where
  "olift r s = (s, r)"

definition obind :: "('s, 'e, 'a) op \<Rightarrow> ('a \<Rightarrow> ('s, 'e, 'b) op) \<Rightarrow> ('s, 'e, 'b) op" where
  "obind p f s = (case p s of (s', Inl e) \<Rightarrow> (s', Inl e) | (s', Inr a) \<Rightarrow> f a s')"

lemma op_simps [simp]:
  "oreturn a s = (s, Inr a)"
  "oraise e s = (s, Inl e)"
  "olift r s = (s, r)"
  by (simp_all add: oreturn_def oraise_def olift_def)

lemma obind_eval [simp]:
  "p s = (s', Inl e) \<Longrightarrow> obind p f s = (s', Inl e)"
  "p s = (s', Inr a) \<Longrightarrow> obind p f s = f a s'"
  by (simp_all add: obind_def)

lemma obind_Inr_iff:
  "obind p f s = (s', Inr b) \<longleftrightarrow> (\<exists>t a. p s = (t, Inr a) \<and> f a t = (s', Inr b))"
  by (auto simp: obind_def split: prod.splits sum.splits)

lemma obind_cases:
  assumes "obind p f s = (s', r)"
  obtains (first) e where "p s = (s', Inl e)" "r = Inl e"
    | (second) t a where "p s = (t, Inr a)" "f a t = (s', r)"
  using assms by (auto simp: obind_def split: prod.splits sum.splits)

lemma obind_raises:
  "raises_only S (snd (p s)) \<Longrightarrow> (\<And>a s'. p s = (s', Inr a) \<Longrightarrow> raises_only S (snd (f a s')))
    \<Longrightarrow> raises_only S (snd (obind p f s))"
  by (auto simp: obind_def raises_only_def split: prod.splits sum.splits)

lemma obind_assoc: "obind (obind m f) g = obind m (\<lambda>a. obind (f a) g)"
  by (rule ext) (auto simp: obind_def split: prod.splits sum.splits)

lemma obind_oreturn: "obind (oreturn a) f = f a"
  by (rule ext) simp

text \<open>A property of the state every part of a sequence keeps is kept by the sequence.\<close>

lemma obind_keeps:
  "I (fst (m w)) \<Longrightarrow> (\<And>a w'. I w' \<Longrightarrow> I (fst (f a w'))) \<Longrightarrow> I (fst (obind m f w))"
  by (auto simp: obind_def split: prod.splits sum.splits)

section \<open>Python slices with non-negative bounds\<close>

definition py_slice :: "nat \<Rightarrow> nat \<Rightarrow> 'a list \<Rightarrow> 'a list" where
  "py_slice a b xs = take (b - a) (drop a xs)"

lemma length_slice [simp]: "length (py_slice a b xs) = min (b - a) (length xs - a)"
  by (simp add: py_slice_def)

lemma slice_append_pre [simp]:
  "py_slice (length pre) (length pre + n) (pre @ ys) = take n ys"
  by (simp add: py_slice_def)

lemma slice_same [simp]: "py_slice a a xs = []"
  by (simp add: py_slice_def)

lemma slice_0 [simp]: "py_slice 0 n xs = take n xs"
  by (simp add: py_slice_def)

lemma slice_join:
  assumes "a \<le> b" "b \<le> c"
  shows "py_slice a c xs = py_slice a b xs @ py_slice b c xs"
proof -
  have "c - a = (b - a) + (c - b)" using assms by simp
  then show ?thesis
    using assms by (simp only: py_slice_def take_add drop_drop) (simp add: add.commute)
qed

lemma slice_Cons_nth:
  "a < length xs \<Longrightarrow> a < b \<Longrightarrow> py_slice a b xs = xs ! a # py_slice (Suc a) b xs"
  by (simp add: py_slice_def Cons_nth_drop_Suc [symmetric] take_Cons' Suc_diff_Suc)

lemma slice_step:
  "a < length xs \<Longrightarrow> a < b \<Longrightarrow> a' = a + 1 \<Longrightarrow> py_slice a b xs = xs ! a # py_slice a' b xs"
  by (simp add: slice_Cons_nth)

lemma slice_drop: "a \<le> b \<Longrightarrow> py_slice a b xs @ drop b xs = drop a xs"
  by (simp add: py_slice_def) (metis append_take_drop_id drop_drop le_add_diff_inverse2)

lemma take_slice_drop:
  "a \<le> b \<Longrightarrow> b \<le> length xs \<Longrightarrow> take a xs @ py_slice a b xs @ drop b xs = xs"
  by (simp add: py_slice_def) (metis append_take_drop_id drop_drop le_add_diff_inverse2)

section \<open>The counted loop over consecutive items\<close>

text \<open>
  \<open>for _ in range(count): ...; items.append(x); offset = offset'\<close>: one item parser applied
  \<open>count\<close> times, threading the offset; the first error ends the loop.
\<close>

fun repeat_parse :: "nat \<Rightarrow> ('s \<Rightarrow> 'e + 'a \<times> 's) \<Rightarrow> 's \<Rightarrow> 'e + 'a list \<times> 's" where
  "repeat_parse 0 p s = Inr ([], s)"
| "repeat_parse (Suc n) p s =
     rbind (p s) (\<lambda>(x, s'). rbind (repeat_parse n p s') (\<lambda>(xs, s''). Inr (x # xs, s'')))"

lemma repeat_parse_raises [raises_intros]:
  "(\<And>s. raises_only S (p s)) \<Longrightarrow> raises_only S (repeat_parse n p s)"
  by (induction n arbitrary: s) (auto intro!: raises_intros)

lemma repeat_parse_length: "repeat_parse n p s = Inr (xs, s') \<Longrightarrow> length xs = n"
  by (induction n arbitrary: s xs) auto

locale item_decoder =
  fixes enc :: "'a \<Rightarrow> 'b list"
    and dec :: "'b list \<Rightarrow> nat \<Rightarrow> 'e + 'a \<times> nat"
    and wf :: "'a \<Rightarrow> bool"
  assumes dec_enc:
    "wf x \<Longrightarrow> dec (pre @ enc x @ post) (length pre) = Inr (x, length pre + length (enc x))"
begin

lemma counted_roundtrip:
  "list_all wf xs \<Longrightarrow>
    repeat_parse (length xs) (dec (pre @ concat (map enc xs) @ post)) (length pre)
      = Inr (xs, length pre + length (concat (map enc xs)))"
proof (induction xs arbitrary: pre)
  case Nil
  then show ?case by simp
next
  case (Cons x xs)
  let ?tail = "concat (map enc xs) @ post"
  have hd: "dec (pre @ enc x @ ?tail) (length pre) = Inr (x, length pre + length (enc x))"
    using Cons.prems by (intro dec_enc) simp
  have tl: "repeat_parse (length xs) (dec ((pre @ enc x) @ ?tail)) (length (pre @ enc x))
      = Inr (xs, length (pre @ enc x) + length (concat (map enc xs)))"
    using Cons.prems by (intro Cons.IH) simp
  from hd tl show ?case by (simp add: add.assoc)
qed

end

locale item_codec = item_decoder enc dec wf
  for enc :: "'a \<Rightarrow> 'b list"
    and dec :: "'b list \<Rightarrow> nat \<Rightarrow> 'e + 'a \<times> nat"
    and wf :: "'a \<Rightarrow> bool" +
  assumes dec_sound:
    "i \<le> length d \<Longrightarrow> dec d i = Inr (x, j) \<Longrightarrow> wf x \<and> i \<le> j \<and> j \<le> length d \<and> py_slice i j d = enc x"
begin

lemma counted_sound:
  "i \<le> length d \<Longrightarrow> repeat_parse n (dec d) i = Inr (xs, j) \<Longrightarrow>
    list_all wf xs \<and> i \<le> j \<and> j \<le> length d \<and> py_slice i j d = concat (map enc xs)"
proof (induction n arbitrary: i xs)
  case 0
  then show ?case by simp
next
  case (Suc n)
  then obtain x k ys where
    x: "dec d i = Inr (x, k)" and ys: "repeat_parse n (dec d) k = Inr (ys, j)" and xs: "xs = x # ys"
    by auto
  from dec_sound [OF Suc.prems(1) x]
  have step: "wf x" "i \<le> k" "k \<le> length d" "py_slice i k d = enc x" by auto
  from Suc.IH [OF step(3) ys]
  have rest: "list_all wf ys" "k \<le> j" "j \<le> length d" "py_slice k j d = concat (map enc ys)" by auto
  from step rest xs show ?case by (simp add: slice_join [of i k j])
qed

text \<open>Two buffers that parse to the same items agree on the bytes the items occupy.\<close>

lemma counted_canonical:
  assumes "i \<le> length d" "repeat_parse n (dec d) i = Inr (xs, j)"
    and "i' \<le> length d'" "repeat_parse n' (dec d') i' = Inr (xs, j')"
  shows "py_slice i j d = py_slice i' j' d'"
  using counted_sound [OF assms(1,2)] counted_sound [OF assms(3,4)] by simp

end

section \<open>Sealing and opening a sequence of items\<close>

fun run_map :: "('s \<Rightarrow> 'a \<Rightarrow> 's \<times> 'b) \<Rightarrow> 's \<Rightarrow> 'a list \<Rightarrow> 's \<times> 'b list" where
  "run_map f s [] = (s, [])"
| "run_map f s (x # xs) =
    (let (s1, y) = f s x; (s2, ys) = run_map f s1 xs in (s2, y # ys))"

text \<open>
  What one direction of an encrypted hop promises: an end in the same state as the sender opens what
  the sender sealed, and both move to the same state.
\<close>

locale sealing =
  fixes seal :: "'s \<Rightarrow> 'c \<Rightarrow> 's \<times> 'w"
    and unseal :: "'s \<Rightarrow> 'w \<Rightarrow> 's \<times> 'd"
    and ok :: "'s \<Rightarrow> bool"
    and wf :: "'c \<Rightarrow> bool"
    and view :: "'c \<Rightarrow> 'd"
  assumes seal_ok: "ok s \<Longrightarrow> wf c \<Longrightarrow> ok (fst (seal s c))"
    and unseal_seal: "ok s \<Longrightarrow> wf c \<Longrightarrow> unseal s (snd (seal s c)) = (fst (seal s c), view c)"
begin

lemma in_order:
  "ok s \<Longrightarrow> list_all wf cs \<Longrightarrow>
    run_map unseal s (snd (run_map seal s cs)) = (fst (run_map seal s cs), map view cs)"
proof (induction cs arbitrary: s)
  case Nil
  then show ?case by simp
next
  case (Cons c cs)
  obtain s1 w where s1: "seal s c = (s1, w)" by (cases "seal s c")
  have u: "unseal s w = (s1, view c)" and o: "ok s1"
    using unseal_seal [of s c] seal_ok [of s c] s1 Cons.prems by simp_all
  show ?case
    using Cons.IH [OF o] Cons.prems s1 u by (simp add: case_prod_beta Let_def)
qed

end

section \<open>Lists\<close>

lemma list_all_filter_id: "list_all P xs \<Longrightarrow> list_all P (filter Q xs)"
  by (simp add: list_all_iff)

end
