(* ===== verification/Errors.thy ===== *)
theory Errors
  imports Prelude
begin

text \<open>
  The exception hierarchy (\<open>src/src/torquests/exceptions.py\<close>). An exception is modelled by its
  class; the message text, which no caller inspects, is left out. The constructors are the classes
  the source raises or names in an \<open>except\<close> clause: the package's own, the \<open>requests\<close> classes
  they derive from, and the built-in ones. \<open>bases\<close> gives the class statement of each and \<open>isa\<close>
  is Python's \<open>isinstance\<close> on it, so that \<open>except (A, B)\<close> is \<open>catches [A, B]\<close>.
\<close>

datatype exc =
  \<comment> \<open>built-in classes\<close>
    Exception | ValueError | UnicodeError | UnicodeDecodeError | UnicodeEncodeError | BinasciiError | StructError | OverflowError
  | LookupError | IndexError | KeyError | TypeError | OSError | TimeoutError | SSLError | HTTPException
  | ArithmeticError | ZeroDivisionError | EOFError | ZlibError
  \<comment> \<open>\<open>cryptography.exceptions\<close>\<close>
  | InvalidSignature
  \<comment> \<open>\<open>requests.exceptions\<close>\<close>
  | RequestException | ReqConnectionError | Timeout | ConnectTimeout | ReadTimeout
  | InvalidSchema | InvalidURL | ReqSSLError
  \<comment> \<open>\<open>torquests.exceptions\<close>\<close>
  | TorError | TorBootstrapError | ConsensusError | DirectoryError | ChannelError | LinkAuthError
  | CircuitError | CircuitBuildTimeout | CircuitDestroyed | StreamError | StreamConnectError
  | StreamConnectTimeout | TorReadTimeout | TorTLSError | OnionServiceError | DescriptorError
  | DescriptorNotFound | IntroductionError | RendezvousError | OnionClientAuthRequired
  | InvalidOnionAddress | ProxyUnsupportedError | OnionRedirectError

type_synonym 'a res = "exc + 'a"

fun bases :: "exc \<Rightarrow> exc list" where
  "bases Exception = []"
| "bases ValueError = [Exception]"
| "bases UnicodeError = [ValueError]"
| "bases UnicodeDecodeError = [UnicodeError]"
| "bases UnicodeEncodeError = [UnicodeError]"
| "bases BinasciiError = [ValueError]"
| "bases StructError = [Exception]"
| "bases OverflowError = [ArithmeticError]"
| "bases ArithmeticError = [Exception]"
| "bases ZeroDivisionError = [ArithmeticError]"
| "bases EOFError = [Exception]"
| "bases ZlibError = [Exception]"
| "bases LookupError = [Exception]"
| "bases IndexError = [LookupError]"
| "bases KeyError = [LookupError]"
| "bases TypeError = [Exception]"
| "bases OSError = [Exception]"
| "bases TimeoutError = [OSError]"
| "bases SSLError = [OSError]"
| "bases HTTPException = [Exception]"
| "bases InvalidSignature = [Exception]"
| "bases RequestException = [OSError]"
| "bases ReqConnectionError = [RequestException]"
| "bases Timeout = [RequestException]"
| "bases ConnectTimeout = [ReqConnectionError, Timeout]"
| "bases ReadTimeout = [Timeout]"
| "bases InvalidSchema = [RequestException, ValueError]"
| "bases InvalidURL = [RequestException, ValueError]"
| "bases ReqSSLError = [ReqConnectionError]"
| "bases TorError = [RequestException]"
| "bases TorBootstrapError = [TorError, ReqConnectionError]"
| "bases ConsensusError = [TorBootstrapError]"
| "bases DirectoryError = [TorBootstrapError]"
| "bases ChannelError = [TorError, ReqConnectionError]"
| "bases LinkAuthError = [ChannelError]"
| "bases CircuitError = [TorError, ReqConnectionError]"
| "bases CircuitBuildTimeout = [CircuitError, ConnectTimeout]"
| "bases CircuitDestroyed = [CircuitError]"
| "bases StreamError = [TorError, ReqConnectionError]"
| "bases StreamConnectError = [StreamError]"
| "bases StreamConnectTimeout = [StreamError, ConnectTimeout]"
| "bases TorReadTimeout = [TorError, ReadTimeout, TimeoutError]"
| "bases TorTLSError = [TorError, ReqSSLError]"
| "bases OnionServiceError = [TorError, ReqConnectionError]"
| "bases DescriptorError = [OnionServiceError]"
| "bases DescriptorNotFound = [DescriptorError]"
| "bases IntroductionError = [OnionServiceError]"
| "bases RendezvousError = [OnionServiceError]"
| "bases OnionClientAuthRequired = [OnionServiceError]"
| "bases InvalidOnionAddress = [TorError, InvalidURL]"
| "bases ProxyUnsupportedError = [TorError, InvalidSchema]"
| "bases OnionRedirectError = [TorError]"

text \<open>How far a class is from \<open>Exception\<close>; it decreases along \<open>bases\<close>.\<close>

fun exc_rank :: "exc \<Rightarrow> nat" where
  "exc_rank Exception = 0"
| "exc_rank ValueError = 1"
| "exc_rank UnicodeError = 2"
| "exc_rank UnicodeDecodeError = 3"
| "exc_rank UnicodeEncodeError = 3"
| "exc_rank BinasciiError = 2"
| "exc_rank StructError = 1"
| "exc_rank OverflowError = 2"
| "exc_rank ArithmeticError = 1"
| "exc_rank ZeroDivisionError = 2"
| "exc_rank EOFError = 1"
| "exc_rank ZlibError = 1"
| "exc_rank LookupError = 1"
| "exc_rank IndexError = 2"
| "exc_rank KeyError = 2"
| "exc_rank TypeError = 1"
| "exc_rank OSError = 1"
| "exc_rank TimeoutError = 2"
| "exc_rank SSLError = 2"
| "exc_rank HTTPException = 1"
| "exc_rank InvalidSignature = 1"
| "exc_rank RequestException = 2"
| "exc_rank ReqConnectionError = 3"
| "exc_rank Timeout = 3"
| "exc_rank ConnectTimeout = 4"
| "exc_rank ReadTimeout = 4"
| "exc_rank InvalidSchema = 3"
| "exc_rank InvalidURL = 3"
| "exc_rank ReqSSLError = 4"
| "exc_rank TorError = 3"
| "exc_rank TorBootstrapError = 4"
| "exc_rank ConsensusError = 5"
| "exc_rank DirectoryError = 5"
| "exc_rank ChannelError = 4"
| "exc_rank LinkAuthError = 5"
| "exc_rank CircuitError = 4"
| "exc_rank CircuitBuildTimeout = 5"
| "exc_rank CircuitDestroyed = 5"
| "exc_rank StreamError = 4"
| "exc_rank StreamConnectError = 5"
| "exc_rank StreamConnectTimeout = 5"
| "exc_rank TorReadTimeout = 5"
| "exc_rank TorTLSError = 5"
| "exc_rank OnionServiceError = 4"
| "exc_rank DescriptorError = 5"
| "exc_rank DescriptorNotFound = 6"
| "exc_rank IntroductionError = 5"
| "exc_rank RendezvousError = 5"
| "exc_rank OnionClientAuthRequired = 5"
| "exc_rank InvalidOnionAddress = 4"
| "exc_rank ProxyUnsupportedError = 4"
| "exc_rank OnionRedirectError = 4"

lemma bases_rank: "\<forall>b \<in> set (bases c). exc_rank b < exc_rank c"
  by (cases c) simp_all

definition max_rank :: "exc list \<Rightarrow> nat" where
  "max_rank bs = foldr (\<lambda>b m. max (Suc (exc_rank b)) m) bs 0"

lemma max_rank_simps [simp]:
  "max_rank [] = 0"
  "max_rank (b # bs) = max (Suc (exc_rank b)) (max_rank bs)"
  by (simp_all add: max_rank_def)

lemma max_rank_le: "\<forall>b \<in> set bs. exc_rank b < n \<Longrightarrow> max_rank bs \<le> n"
  by (induction bs) auto

function isa :: "exc \<Rightarrow> exc \<Rightarrow> bool" and isa_any :: "exc list \<Rightarrow> exc \<Rightarrow> bool" where
  "isa c d = (c = d \<or> isa_any (bases c) d)"
| "isa_any [] d = False"
| "isa_any (b # bs) d = (isa b d \<or> isa_any bs d)"
  by pat_completeness auto
termination
proof (relation "measures [\<lambda>x. case x of Inl (c, d) \<Rightarrow> 2 * exc_rank c + 1 | Inr (bs, d) \<Rightarrow> 2 * max_rank bs,
    \<lambda>x. case x of Inl _ \<Rightarrow> 0 | Inr (bs, d) \<Rightarrow> length bs]", goal_cases)
  case (2 c d)
  have "max_rank (bases c) \<le> exc_rank c" by (rule max_rank_le [OF bases_rank])
  then show ?case by simp
qed (auto simp: max_def)

declare isa.simps [simp del]

definition catches :: "exc list \<Rightarrow> exc \<Rightarrow> bool" where
  "catches cs e = list_ex (isa e) cs"

lemma isa_any_iff: "isa_any bs d \<longleftrightarrow> (\<exists>b \<in> set bs. isa b d)"
  by (induction bs) auto

lemma isa_refl [simp]: "isa c c"
  by (simp add: isa.simps)

lemma catches_mem [simp]: "e \<in> set cs \<Longrightarrow> catches cs e"
  by (auto simp: catches_def list_ex_iff intro: isa_refl)

lemma isa_base: "b \<in> set (bases c) \<Longrightarrow> isa b d \<Longrightarrow> isa c d"
  by (auto simp: isa.simps [of c] isa_any_iff)

lemma isa_isa_any_trans:
  "isa c d \<Longrightarrow> isa d e \<Longrightarrow> isa c e"
  "isa_any bs d \<Longrightarrow> isa d e \<Longrightarrow> isa_any bs e"
  by (induction c d and bs d rule: isa_isa_any.induct) (auto simp: isa.simps)

lemmas isa_trans = isa_isa_any_trans(1)

text \<open>What an \<open>except\<close> clause catches, it catches in every subclass.\<close>

lemma catches_subclass: "isa c d \<Longrightarrow> catches cs d \<Longrightarrow> catches cs c"
  by (auto simp: catches_def list_ex_iff intro: isa_trans)

definition tor_classes :: "exc list" where
  "tor_classes =
    [TorError, TorBootstrapError, ConsensusError, DirectoryError, ChannelError, LinkAuthError,
     CircuitError, CircuitBuildTimeout, CircuitDestroyed, StreamError, StreamConnectError,
     StreamConnectTimeout, TorReadTimeout, TorTLSError, OnionServiceError, DescriptorError,
     DescriptorNotFound, IntroductionError, RendezvousError, OnionClientAuthRequired,
     InvalidOnionAddress, ProxyUnsupportedError, OnionRedirectError]"

end
