(* ===== verification/PyBytes.thy ===== *)
theory PyBytes
  imports Errors
begin

text \<open>
  Byte strings and the part of Python's \<open>int.to_bytes\<close>, \<open>int.from_bytes\<close>, \<open>bytes([n])\<close> and
  \<open>struct\<close> the wire formats use. A byte is an \<open>8 word\<close>, a Python integer an \<open>int\<close>, a length or
  an offset a \<open>nat\<close>. Out-of-range integers raise what Python raises: \<open>OverflowError\<close> for
  \<open>to_bytes\<close>, \<open>ValueError\<close> for \<open>bytes([n])\<close>, \<open>struct.error\<close> for \<open>pack\<close> and for an \<open>unpack\<close>
  whose buffer has the wrong length.
\<close>

type_synonym byte = "8 word"
type_synonym bytes = "byte list"

section \<open>Big-endian integers\<close>

fun be_enc :: "nat \<Rightarrow> int \<Rightarrow> bytes" where
  "be_enc 0 v = []"
| "be_enc (Suc w) v = be_enc w (v div 256) @ [word_of_int v]"

definition be_int :: "bytes \<Rightarrow> int" where
  "be_int bs = foldl (\<lambda>acc b. acc * 256 + uint b) 0 bs"

lemma be_int_Nil [simp]: "be_int [] = 0"
  by (simp add: be_int_def)

lemma be_int_snoc [simp]: "be_int (bs @ [b]) = be_int bs * 256 + uint b"
  by (simp add: be_int_def)

lemma length_be_enc [simp, byte_simps]: "length (be_enc w v) = w"
  by (induction w arbitrary: v) simp_all

lemma byte_range: "0 \<le> uint (b :: byte)" "uint (b :: byte) < 256"
  using uint_bounded [of b] by simp_all

lemma unat_byte_bound: "unat (b :: byte) < 256"
  using unsigned_less [of b, where 'a = nat] by simp

lemma be_int_nonneg [simp]: "0 \<le> be_int bs"
proof (induction bs rule: rev_induct)
  case (snoc b bs)
  then show ?case using byte_range [of b] by simp
qed simp

lemma be_int_bound: "be_int bs < 256 ^ length bs"
proof (induction bs rule: rev_induct)
  case (snoc b bs)
  then have "be_int bs \<le> 256 ^ length bs - 1" by simp
  then have "be_int bs * 256 + uint b \<le> (256 ^ length bs - 1) * 256 + uint b" by simp
  then show ?case using byte_range [of b] by simp
qed simp

lemma be_int_enc: "0 \<le> v \<Longrightarrow> v < 256 ^ w \<Longrightarrow> be_int (be_enc w v) = v"
proof (induction w arbitrary: v)
  case 0
  then show ?case by simp
next
  case (Suc w)
  have "v div 256 < 256 ^ w" using Suc.prems by (simp add: mult.commute div_less_iff_less_mult)
  with Suc show ?case
    by (simp add: uint_word_of_int pos_imp_zdiv_nonneg_iff)
qed

lemma be_enc_int: "length bs = w \<Longrightarrow> be_enc w (be_int bs) = bs"
proof (induction bs arbitrary: w rule: rev_induct)
  case (snoc b bs)
  then obtain w' where w: "w = Suc w'" "length bs = w'" by (cases w) auto
  have "(be_int bs * 256 + uint b) div 256 = be_int bs" using byte_range [of b] by simp
  moreover have "word_of_int (be_int bs * 256 + uint b) = b"
  proof -
    have z: "(256 :: byte) = 0" by simp
    have "word_of_int (be_int bs * 256 + uint b) = word_of_int (be_int bs) * (256 :: byte) + b"
      by (simp only: of_int_add of_int_mult of_int_numeral word_of_int_uint)
    then show ?thesis by (simp only: z mult_zero_right add_0)
  qed
  ultimately show ?case using w snoc.IH [of w'] by simp
qed simp

lemma be_enc_inj:
  "be_enc w u = be_enc w v \<Longrightarrow> 0 \<le> u \<Longrightarrow> u < 256 ^ w \<Longrightarrow> 0 \<le> v \<Longrightarrow> v < 256 ^ w \<Longrightarrow> u = v"
  by (metis be_int_enc)

section \<open>Packing and unpacking\<close>

definition pack_be :: "exc \<Rightarrow> nat \<Rightarrow> int \<Rightarrow> bytes res" where
  "pack_be err w v = (if 0 \<le> v \<and> v < 256 ^ w then Inr (be_enc w v) else Inl err)"

definition unpack_be :: "nat \<Rightarrow> bytes \<Rightarrow> int res" where
  "unpack_be w bs = (if length bs = w then Inr (be_int bs) else Inl StructError)"

text \<open>\<open>bytes([v])\<close>, \<open>v.to_bytes(w, "big")\<close>, \<open>struct.pack(">H", v)\<close>, \<open>">I"\<close> and \<open>">Q"\<close>.\<close>

definition byte1 :: "int \<Rightarrow> bytes res" where
  "byte1 v = pack_be ValueError 1 v"

definition to_bytes :: "nat \<Rightarrow> int \<Rightarrow> bytes res" where
  "to_bytes w v = pack_be OverflowError w v"

definition pack_H :: "int \<Rightarrow> bytes res" where
  "pack_H v = pack_be StructError 2 v"

definition pack_I :: "int \<Rightarrow> bytes res" where
  "pack_I v = pack_be StructError 4 v"

definition pack_Q :: "int \<Rightarrow> bytes res" where
  "pack_Q v = pack_be StructError 8 v"

definition unpack_H :: "bytes \<Rightarrow> int res" where
  "unpack_H bs = unpack_be 2 bs"

definition unpack_I :: "bytes \<Rightarrow> int res" where
  "unpack_I bs = unpack_be 4 bs"

lemma pack_be_Inr: "0 \<le> v \<Longrightarrow> v < 256 ^ w \<Longrightarrow> pack_be err w v = Inr (be_enc w v)"
  by (simp add: pack_be_def)

lemma pack_be_Inr_iff: "pack_be err w v = Inr bs \<longleftrightarrow> 0 \<le> v \<and> v < 256 ^ w \<and> bs = be_enc w v"
  by (auto simp: pack_be_def)

lemmas pack_defs = byte1_def to_bytes_def pack_H_def pack_I_def pack_Q_def

lemma pack_ok [simp]:
  "0 \<le> v \<Longrightarrow> v < 256 \<Longrightarrow> byte1 v = Inr (be_enc 1 v)"
  "0 \<le> v \<Longrightarrow> v < 256 ^ w \<Longrightarrow> to_bytes w v = Inr (be_enc w v)"
  "0 \<le> v \<Longrightarrow> v < 65536 \<Longrightarrow> pack_H v = Inr (be_enc 2 v)"
  "0 \<le> v \<Longrightarrow> v < 4294967296 \<Longrightarrow> pack_I v = Inr (be_enc 4 v)"
  "0 \<le> v \<Longrightarrow> v < 18446744073709551616 \<Longrightarrow> pack_Q v = Inr (be_enc 8 v)"
  by (simp_all add: pack_defs pack_be_def)

lemma pack_Inr_iff [simp]:
  "byte1 v = Inr bs \<longleftrightarrow> 0 \<le> v \<and> v < 256 \<and> bs = be_enc 1 v"
  "to_bytes w v = Inr bs \<longleftrightarrow> 0 \<le> v \<and> v < 256 ^ w \<and> bs = be_enc w v"
  "pack_H v = Inr bs \<longleftrightarrow> 0 \<le> v \<and> v < 65536 \<and> bs = be_enc 2 v"
  "pack_I v = Inr bs \<longleftrightarrow> 0 \<le> v \<and> v < 4294967296 \<and> bs = be_enc 4 v"
  "pack_Q v = Inr bs \<longleftrightarrow> 0 \<le> v \<and> v < 18446744073709551616 \<and> bs = be_enc 8 v"
  by (simp_all add: pack_defs pack_be_Inr_iff)

lemma pack_raises [raises_intros]:
  "ValueError \<in> S \<Longrightarrow> raises_only S (byte1 v)"
  "OverflowError \<in> S \<Longrightarrow> raises_only S (to_bytes w v)"
  "StructError \<in> S \<Longrightarrow> raises_only S (pack_H v)"
  "StructError \<in> S \<Longrightarrow> raises_only S (pack_I v)"
  "StructError \<in> S \<Longrightarrow> raises_only S (pack_Q v)"
  by (auto simp: raises_only_def pack_defs pack_be_def)

lemma unpack_ok [simp]:
  "length bs = 2 \<Longrightarrow> unpack_H bs = Inr (be_int bs)"
  "length bs = 4 \<Longrightarrow> unpack_I bs = Inr (be_int bs)"
  by (simp_all add: unpack_H_def unpack_I_def unpack_be_def)

lemma unpack_Inr_iff:
  "unpack_H bs = Inr v \<longleftrightarrow> length bs = 2 \<and> v = be_int bs"
  "unpack_I bs = Inr v \<longleftrightarrow> length bs = 4 \<and> v = be_int bs"
  by (auto simp: unpack_H_def unpack_I_def unpack_be_def)

lemma unpack_H_raises [raises_intros]:
  "length bs = 2 \<or> StructError \<in> S \<Longrightarrow> raises_only S (unpack_H bs)"
  by (auto simp: raises_only_def unpack_H_def unpack_be_def)

lemma unpack_I_raises [raises_intros]:
  "length bs = 4 \<or> StructError \<in> S \<Longrightarrow> raises_only S (unpack_I bs)"
  by (auto simp: raises_only_def unpack_I_def unpack_be_def)

lemma be_int_bounds2: "length bs = 2 \<Longrightarrow> be_int bs < 65536"
  using be_int_bound [of bs] by simp

lemma be_int_bounds4: "length bs = 4 \<Longrightarrow> be_int bs < 4294967296"
  using be_int_bound [of bs] by simp

text \<open>One byte read by index, \<open>data[i]\<close>, as an integer; past the end it raises.\<close>

definition byte_at :: "bytes \<Rightarrow> nat \<Rightarrow> int res" where
  "byte_at bs i = (if i < length bs then Inr (uint (bs ! i)) else Inl IndexError)"

lemma byte_at_ok [simp]: "i < length bs \<Longrightarrow> byte_at bs i = Inr (uint (bs ! i))"
  by (simp add: byte_at_def)

lemma byte_at_Inr_iff: "byte_at bs i = Inr v \<longleftrightarrow> i < length bs \<and> v = uint (bs ! i)"
  by (auto simp: byte_at_def)

lemma byte_at_raises [raises_intros]:
  "i < length bs \<or> IndexError \<in> S \<Longrightarrow> raises_only S (byte_at bs i)"
  by (auto simp: raises_only_def byte_at_def)

lemma be_enc_1: "be_enc 1 v = [word_of_int v]"
  by (simp add: One_nat_def)

lemma be_enc_2: "be_enc 2 v = [word_of_int (v div 256), word_of_int v]"
  by (simp add: numeral_2_eq_2)

lemma be_enc_4:
  "be_enc 4 v = [word_of_int (v div 256 div 256 div 256), word_of_int (v div 256 div 256),
     word_of_int (v div 256), word_of_int v]"
  by (simp add: eval_nat_numeral)

lemmas be_enc_unfold = be_enc_1 be_enc_2 be_enc_4

lemma be_enc_1_uint [simp]: "be_enc 1 (uint b) = [b]"
  by (simp add: be_enc_1)

lemma uint_word_of_int_byte [simp]: "0 \<le> v \<Longrightarrow> v < 256 \<Longrightarrow> uint (word_of_int v :: byte) = v"
  by (simp add: uint_word_of_int)

lemma unat_word_of_nat_byte [simp]: "n < 256 \<Longrightarrow> unat (word_of_nat n :: byte) = n"
  by (simp add: unat_of_nat)

lemma uint_word_of_nat_byte [simp]: "n < 256 \<Longrightarrow> uint (word_of_nat n :: byte) = int n"
  by (simp add: uint_nat)

section \<open>Padding and exclusive or\<close>

text \<open>\<open>data.ljust(n, b"\x00")\<close>.\<close>

definition ljust0 :: "nat \<Rightarrow> bytes \<Rightarrow> bytes" where
  "ljust0 n bs = bs @ replicate (n - length bs) 0"

lemma length_ljust0 [simp, byte_simps]: "length (ljust0 n bs) = max n (length bs)"
  by (simp add: ljust0_def)

lemma take_ljust0 [simp]: "take (length bs) (ljust0 n bs) = bs"
  by (simp add: ljust0_def)

lemma ljust0_full [simp]: "n \<le> length bs \<Longrightarrow> ljust0 n bs = bs"
  by (simp add: ljust0_def)

definition zeros :: "nat \<Rightarrow> bytes" where
  "zeros n = replicate n 0"

lemma length_zeros [simp, byte_simps]: "length (zeros n) = n"
  by (simp add: zeros_def)

end
