(* ===== verification/PyText.thy ===== *)
theory PyText
  imports PyBytes
begin

text \<open>
  The operations on \<open>str\<close> and the text codecs of the standard library the package uses. Text is a list of
  characters of the first 256 code points; on those the case mappings and the white space are Python's.
  Base64 and base32 are RFC 4648 with the acceptance rules of \<open>base64.b64decode(validate=True)\<close> and
  \<open>base64.b32decode\<close>.
\<close>

definition code_of :: "char \<Rightarrow> nat" where
  "code_of c = of_char c"

definition char_at :: "nat \<Rightarrow> char" where
  "char_at n = char_of n"

lemma code_of_bound: "code_of c < 256"
  by (simp add: code_of_def)

lemma char_at_code [simp]: "char_at (code_of c) = c"
  by (simp add: char_at_def code_of_def)

lemma code_char_at [simp]: "n < 256 \<Longrightarrow> code_of (char_at n) = n"
  by (simp add: char_at_def code_of_def)

lemma code_of_inj: "code_of c = code_of d \<longleftrightarrow> c = d"
  by (simp add: code_of_def)

section \<open>Case and white space\<close>

definition lower_char :: "char \<Rightarrow> char" where
  "lower_char c =
    (let n = code_of c in
     if 65 \<le> n \<and> n \<le> 90 \<or> 192 \<le> n \<and> n \<le> 222 \<and> n \<noteq> 215 then char_at (n + 32) else c)"

definition py_lower :: "string \<Rightarrow> string" where
  "py_lower s = map lower_char s"

text \<open>\<open>"\<szlig>".upper()\<close> is \<open>"SS"\<close>; the capitals of the codes 181 and 255 are beyond the modelled range and are left
as they are, which no caller can tell since neither form is a base32 digit.\<close>

definition upper_char :: "char \<Rightarrow> string" where
  "upper_char c =
    (let n = code_of c in
     if 97 \<le> n \<and> n \<le> 122 \<or> 224 \<le> n \<and> n \<le> 254 \<and> n \<noteq> 247 then [char_at (n - 32)]
     else if n = 223 then ''SS''
     else [c])"

definition py_upper :: "string \<Rightarrow> string" where
  "py_upper s = concat (map upper_char s)"

definition is_space :: "char \<Rightarrow> bool" where
  "is_space c \<longleftrightarrow>
    (let n = code_of c in 9 \<le> n \<and> n \<le> 13 \<or> 28 \<le> n \<and> n \<le> 32 \<or> n = 133 \<or> n = 160)"

definition py_lstrip :: "(char \<Rightarrow> bool) \<Rightarrow> string \<Rightarrow> string" where
  "py_lstrip p s = dropWhile p s"

definition py_rstrip :: "(char \<Rightarrow> bool) \<Rightarrow> string \<Rightarrow> string" where
  "py_rstrip p s = rev (dropWhile p (rev s))"

definition py_strip :: "string \<Rightarrow> string" where
  "py_strip s = py_lstrip is_space (py_rstrip is_space s)"

definition is_ascii :: "string \<Rightarrow> bool" where
  "is_ascii s = list_all (\<lambda>c. code_of c < 128) s"

section \<open>Prefixes, suffixes and searching\<close>

fun starts_with :: "'a list \<Rightarrow> 'a list \<Rightarrow> bool" where
  "starts_with s [] = True"
| "starts_with [] (p # ps) = False"
| "starts_with (c # s) (p # ps) = (c = p \<and> starts_with s ps)"

definition ends_with :: "'a list \<Rightarrow> 'a list \<Rightarrow> bool" where
  "ends_with s suffix = starts_with (rev s) (rev suffix)"

definition remove_suffix :: "'a list \<Rightarrow> 'a list \<Rightarrow> 'a list" where
  "remove_suffix s suffix = (if suffix \<noteq> [] \<and> ends_with s suffix then take (length s - length suffix) s else s)"

text \<open>\<open>s.find(sub)\<close>: the first index, \<open>None\<close> for \<open>-1\<close>; the text before and after the first occurrence.\<close>

fun find_sub :: "'a list \<Rightarrow> 'a list \<Rightarrow> nat option" where
  "find_sub sub [] = (if sub = [] then Some 0 else None)"
| "find_sub sub (c # s) =
    (if starts_with (c # s) sub then Some 0 else map_option Suc (find_sub sub s))"

lemma starts_with_iff: "starts_with s p \<longleftrightarrow> (\<exists>t. s = p @ t)"
  by (induction s p rule: starts_with.induct) auto

lemma starts_with_append [simp]: "starts_with (p @ t) p"
  by (auto simp: starts_with_iff)

lemma ends_with_iff: "ends_with s p \<longleftrightarrow> (\<exists>t. s = t @ p)"
proof -
  have "(\<exists>t. rev s = rev p @ t) \<longleftrightarrow> (\<exists>t. s = t @ p)"
    by (metis rev_append rev_rev_ident)
  then show ?thesis by (simp add: ends_with_def starts_with_iff)
qed

lemma ends_with_append [simp]: "ends_with (t @ p) p"
  by (auto simp: ends_with_iff)

lemma find_sub_Some: "find_sub sub s = Some i \<Longrightarrow> i + length sub \<le> length s \<and> take (length sub) (drop i s) = sub"
proof (induction s arbitrary: i)
  case (Cons c s)
  show ?case
  proof (cases "starts_with (c # s) sub")
    case True
    then obtain t where "c # s = sub @ t" by (auto simp: starts_with_iff)
    moreover from this have "length sub \<le> Suc (length s)" by (metis le_add1 length_Cons length_append)
    moreover have "i = 0" using Cons.prems True by simp
    ultimately show ?thesis by simp
  next
    case False
    then show ?thesis using Cons by auto
  qed
qed (auto split: if_splits)

lemma find_sub_first:
  "find_sub sub s = Some i \<Longrightarrow> j < i \<Longrightarrow> \<not> starts_with (drop j s) sub"
proof (induction s arbitrary: i j)
  case (Cons c s)
  then show ?case by (cases j) (auto split: if_splits)
qed (auto split: if_splits)

lemma find_sub_None: "find_sub sub s = None \<Longrightarrow> \<not> starts_with (drop j s) sub"
proof (induction s arbitrary: j)
  case (Cons c s)
  then show ?case by (cases j) (auto split: if_splits)
qed (auto split: if_splits simp: starts_with_iff)

section \<open>Splitting\<close>

text \<open>\<open>s.split(c)\<close> for one character.\<close>

fun split_char :: "'a \<Rightarrow> 'a list \<Rightarrow> 'a list list" where
  "split_char c [] = [[]]"
| "split_char c (x # s) =
    (if x = c then [] # split_char c s
     else case split_char c s of [] \<Rightarrow> [[x]] | w # ws \<Rightarrow> (x # w) # ws)"

lemma find_sub_shorter: "sep \<noteq> [] \<Longrightarrow> find_sub sep s = Some i \<Longrightarrow> length (drop (i + length sep) s) < length s"
  by (drule find_sub_Some) (cases sep; auto)

text \<open>\<open>text.split(sep)\<close>; an empty separator is an error in Python and is never used.\<close>

function split_sub :: "'a list \<Rightarrow> 'a list \<Rightarrow> 'a list list" where
  "split_sub sep s =
    (if sep = [] then [s]
     else case find_sub sep s of
            None \<Rightarrow> [s]
          | Some i \<Rightarrow> take i s # split_sub sep (drop (i + length sep) s))"
  by pat_completeness auto
termination
  by (relation "measure (\<lambda>(sep, s). length s)") (use find_sub_shorter in auto)

declare split_sub.simps [simp del]

text \<open>\<open>s.split()\<close>: the words between runs of white space.\<close>

function split_space :: "string \<Rightarrow> string list" where
  "split_space s =
    (let t = dropWhile is_space s in
     if t = [] then [] else takeWhile (\<lambda>c. \<not> is_space c) t # split_space (dropWhile (\<lambda>c. \<not> is_space c) t))"
  by pat_completeness auto
termination
proof (relation "measure length", simp)
  fix s t
  assume t: "t = dropWhile is_space s" "t \<noteq> []"
  then obtain c u where c: "t = c # u" "\<not> is_space c"
    by (metis hd_dropWhile list.collapse)
  then have "length (dropWhile (\<lambda>c. \<not> is_space c) t) \<le> length u"
    by (simp add: length_dropWhile_le)
  also have "\<dots> < length t" using c by simp
  also have "\<dots> \<le> length s" by (simp add: t length_dropWhile_le)
  finally show "(dropWhile (\<lambda>c. \<not> is_space c) t, s) \<in> measure length" by simp
qed

declare split_space.simps [simp del]

text \<open>\<open>s.partition(c)\<close> and \<open>s.rpartition(c)[2]\<close> for one character; the flag tells whether \<open>c\<close> was found.\<close>

definition partition_char :: "'a \<Rightarrow> 'a list \<Rightarrow> 'a list \<times> bool \<times> 'a list" where
  "partition_char c s =
    (let a = takeWhile (\<lambda>x. x \<noteq> c) s; b = dropWhile (\<lambda>x. x \<noteq> c) s in (a, b \<noteq> [], tl b))"

definition after_last :: "'a \<Rightarrow> 'a list \<Rightarrow> 'a list" where
  "after_last c s = rev (takeWhile (\<lambda>x. x \<noteq> c) (rev s))"

lemma split_char_ne: "split_char c s \<noteq> []"
  by (induction s) (auto split: list.splits)

lemma after_last_append [simp]: "c \<notin> set t \<Longrightarrow> after_last c (s @ c # t) = t"
proof -
  assume "c \<notin> set t"
  then have "takeWhile (\<lambda>x. x \<noteq> c) (rev t @ c # rev s) = rev t" by (subst takeWhile_append2) auto
  then show ?thesis by (simp add: after_last_def)
qed

lemma after_last_none [simp]: "c \<notin> set t \<Longrightarrow> after_last c t = t"
proof -
  assume "c \<notin> set t"
  then have "takeWhile (\<lambda>x. x \<noteq> c) (rev t) = rev t" by (intro takeWhile_eq_all_conv [THEN iffD2]) auto
  then show ?thesis by (simp only: after_last_def rev_rev_ident)
qed

text \<open>\<open>c.join(words)\<close>\<close>

fun join_with :: "'a \<Rightarrow> 'a list list \<Rightarrow> 'a list" where
  "join_with c [] = []"
| "join_with c [w] = w"
| "join_with c (w # v # ws) = w @ c # join_with c (v # ws)"

section \<open>Integers\<close>

definition is_digit :: "char \<Rightarrow> bool" where
  "is_digit c \<longleftrightarrow> 48 \<le> code_of c \<and> code_of c \<le> 57"

text \<open>\<open>int(s)\<close>: white space around, a sign, at most 4300 decimal digits with single
underscores between them.\<close>

fun digits_ok :: "string \<Rightarrow> bool" where
  "digits_ok [] = False"
| "digits_ok [c] = is_digit c"
| "digits_ok (c # d # s) = (is_digit c \<and> (if d = CHR ''_'' then digits_ok s else digits_ok (d # s)))"

definition digits_value :: "string \<Rightarrow> int" where
  "digits_value s = foldl (\<lambda>acc c. 10 * acc + (int (code_of c) - 48)) 0 (filter is_digit s)"

definition py_digits :: "string \<Rightarrow> int res" where
  "py_digits s =
    (if digits_ok s \<and> length (filter is_digit s) \<le> 4300 then Inr (digits_value s) else Inl ValueError)"

definition py_int :: "string \<Rightarrow> int res" where
  "py_int s =
    (let t = py_strip s in
     case t of
       [] \<Rightarrow> Inl ValueError
     | c # u \<Rightarrow>
        if c = CHR ''-'' then rbind (py_digits u) (\<lambda>v. Inr (- v))
        else if c = CHR ''+'' then py_digits u
        else py_digits t)"

lemma py_digits_raises [raises_intros]: "ValueError \<in> S \<Longrightarrow> raises_only S (py_digits s)"
  unfolding py_digits_def by (intro raises_intros)

lemma py_int_raises [raises_intros]: "ValueError \<in> S \<Longrightarrow> raises_only S (py_int s)"
  unfolding py_int_def Let_def by (intro raises_intros) (auto intro!: raises_intros)

section \<open>Hexadecimal\<close>

definition hex_digit :: "nat \<Rightarrow> char" where
  "hex_digit n = char_at (if n < 10 then n + 48 else n + 87)"

definition hex_value :: "char \<Rightarrow> nat option" where
  "hex_value c =
    (let n = code_of c in
     if 48 \<le> n \<and> n \<le> 57 then Some (n - 48)
     else if 65 \<le> n \<and> n \<le> 70 then Some (n - 55)
     else if 97 \<le> n \<and> n \<le> 102 then Some (n - 87) else None)"

definition bytes_hex :: "bytes \<Rightarrow> string" where
  "bytes_hex bs = concat (map (\<lambda>b. [hex_digit (unat b div 16), hex_digit (unat b mod 16)]) bs)"

text \<open>\<open>bytes.fromhex\<close>: pairs of digits, ASCII white space allowed between the pairs.\<close>

definition is_ascii_space :: "char \<Rightarrow> bool" where
  "is_ascii_space c \<longleftrightarrow> code_of c = 32 \<or> 9 \<le> code_of c \<and> code_of c \<le> 13"

fun from_hex :: "string \<Rightarrow> bytes res" where
  "from_hex [] = Inr []"
| "from_hex [c] = (if is_ascii_space c then Inr [] else Inl ValueError)"
| "from_hex (c # d # s) =
    (if is_ascii_space c then from_hex (d # s)
     else case (hex_value c, hex_value d) of
       (Some a, Some b) \<Rightarrow> rbind (from_hex s) (\<lambda>bs. Inr (of_nat (16 * a + b) # bs))
     | _ \<Rightarrow> Inl ValueError)"

lemma from_hex_raises [raises_intros]: "ValueError \<in> S \<Longrightarrow> raises_only S (from_hex s)"
  by (induction s rule: from_hex.induct) (auto intro!: raises_intros split: option.splits)

lemma hex_value_digit: "n < 16 \<Longrightarrow> hex_value (hex_digit n) = Some n \<and> \<not> is_ascii_space (hex_digit n)"
  by (auto simp: hex_value_def hex_digit_def Let_def is_ascii_space_def)

lemma from_hex_bytes_hex: "from_hex (bytes_hex bs) = Inr bs"
proof (induction bs)
  case (Cons b bs)
  have "unat b < 256" using unsigned_less [of b] by simp
  then have "hex_value (hex_digit (unat b div 16)) = Some (unat b div 16)"
    "\<not> is_ascii_space (hex_digit (unat b div 16))" "hex_value (hex_digit (unat b mod 16)) = Some (unat b mod 16)"
    by (simp_all add: hex_value_digit)
  then show ?case using Cons by (simp add: bytes_hex_def)
qed (simp add: bytes_hex_def)

end
