(* ===== verification/Codecs.thy ===== *)
theory Codecs
  imports PyText
begin

text \<open>
  Base64 and base32 (\<open>base64.b64decode(validate=True)\<close>, \<open>b64encode\<close>, \<open>b32decode\<close>, \<open>b32encode\<close>). A group of
  digits is a big-endian number; decoding inverts encoding (\<open>b64_decode_encode\<close>, \<open>b32_decode_encode\<close>).
\<close>

section \<open>Digits of a number\<close>

fun digits :: "nat \<Rightarrow> nat \<Rightarrow> nat \<Rightarrow> nat list" where
  "digits b 0 v = []"
| "digits b (Suc k) v = digits b k (v div b) @ [v mod b]"

definition undigits :: "nat \<Rightarrow> nat list \<Rightarrow> nat" where
  "undigits b ds = foldl (\<lambda>acc d. acc * b + d) 0 ds"

lemma length_digits [simp]: "length (digits b k v) = k"
  by (induction k arbitrary: v) simp_all

lemma digits_bound: "0 < b \<Longrightarrow> \<forall>d \<in> set (digits b k v). d < b"
  by (induction k arbitrary: v) auto

lemma undigits_digits: "0 < b \<Longrightarrow> v < b ^ k \<Longrightarrow> undigits b (digits b k v) = v"
proof (induction k arbitrary: v)
  case (Suc k)
  then have "v div b < b ^ k" by (simp add: less_mult_imp_div_less mult.commute)
  with Suc show ?case by (simp add: undigits_def)
qed (simp add: undigits_def)

lemma undigits_bound: "\<forall>d \<in> set ds. d < b \<Longrightarrow> undigits b ds < b ^ length ds"
proof (induction ds rule: rev_induct)
  case (snoc d ds)
  then have "undigits b ds + 1 \<le> b ^ length ds" "d < b" by auto
  then have "(undigits b ds + 1) * b \<le> b ^ length ds * b" by (intro mult_le_mono1)
  with \<open>d < b\<close> show ?case by (simp add: undigits_def algebra_simps)
qed (simp add: undigits_def)

lemma digits_undigits: "\<forall>d \<in> set ds. d < b \<Longrightarrow> digits b (length ds) (undigits b ds) = ds"
  by (induction ds rule: rev_induct) (auto simp: undigits_def)

text \<open>The bytes of a number and back.\<close>

definition nat_bytes :: "nat \<Rightarrow> nat \<Rightarrow> bytes" where
  "nat_bytes k v = map of_nat (digits 256 k v)"

definition bytes_nat :: "bytes \<Rightarrow> nat" where
  "bytes_nat bs = undigits 256 (map unat bs)"

lemma length_nat_bytes [simp]: "length (nat_bytes k v) = k"
  by (simp add: nat_bytes_def)

lemma unat_byte_less: "unat (b :: byte) < 256"
  using unsigned_less [of b] by simp

lemma nat_bytes_nat: "nat_bytes (length bs) (bytes_nat bs) = bs"
proof -
  have "\<forall>d \<in> set (map unat bs). d < 256" using unat_byte_less by auto
  from digits_undigits [OF this] show ?thesis by (simp add: nat_bytes_def bytes_nat_def map_idI)
qed

lemma bytes_nat_bound: "bytes_nat bs < 256 ^ length bs"
  using undigits_bound [of "map unat bs" 256] unat_byte_less
  by (auto simp: bytes_nat_def)

text \<open>Cutting a list into groups.\<close>

function groups :: "nat \<Rightarrow> 'a list \<Rightarrow> 'a list list" where
  "groups n xs = (if xs = [] \<or> n = 0 then [] else take n xs # groups n (drop n xs))"
  by pat_completeness auto
termination
  by (relation "measure (\<lambda>(n, xs). length xs)") auto

declare groups.simps [simp del]

section \<open>Base32\<close>

definition b32_digit :: "nat \<Rightarrow> char" where
  "b32_digit n = char_at (if n < 26 then n + 65 else n + 24)"

definition b32_value :: "char \<Rightarrow> nat option" where
  "b32_value c =
    (let n = code_of c in
     if 65 \<le> n \<and> n \<le> 90 then Some (n - 65) else if 50 \<le> n \<and> n \<le> 55 then Some (n - 24) else None)"

text \<open>\<open>b32encode\<close> of a whole number of five-byte groups.\<close>

definition b32_encode :: "bytes \<Rightarrow> string" where
  "b32_encode bs = concat (map (\<lambda>g. map b32_digit (digits 32 8 (bytes_nat g))) (groups 5 bs))"

fun opt_map :: "('a \<Rightarrow> 'b option) \<Rightarrow> 'a list \<Rightarrow> 'b list option" where
  "opt_map f [] = Some []"
| "opt_map f (x # xs) = (case f x of None \<Rightarrow> None | Some y \<Rightarrow> map_option ((#) y) (opt_map f xs))"

definition b32_group :: "string \<Rightarrow> bytes option" where
  "b32_group g = map_option (\<lambda>ds. nat_bytes 5 (undigits 32 ds)) (opt_map b32_value g)"

text \<open>The last group when \<open>pad\<close> padding characters were stripped: the digits left are shifted to the top of
the 40 bits, and \<open>(43 - 5 * pad) div 8\<close> bytes are kept.\<close>

definition b32_last :: "string \<Rightarrow> nat \<Rightarrow> bytes option" where
  "b32_last g pad =
    map_option (\<lambda>ds. take ((43 - 5 * pad) div 8) (nat_bytes 5 (undigits 32 ds * 2 ^ (5 * pad)))) (opt_map b32_value g)"

text \<open>\<open>b32decode\<close>; a character outside ASCII raises \<open>ValueError\<close>, the other failures are \<open>binascii.Error\<close>.\<close>

definition b32_decode :: "string \<Rightarrow> bytes res" where
  "b32_decode s =
    (if \<not> is_ascii s then Inl ValueError
     else if length s mod 8 \<noteq> 0 then Inl BinasciiError
     else
       let t = py_rstrip (\<lambda>c. c = CHR ''='') s; pad = length s - length t in
       if pad = 0 then
         (case opt_map b32_group (groups 8 t) of None \<Rightarrow> Inl BinasciiError | Some bs \<Rightarrow> Inr (concat bs))
       else
         let full = groups 8 t in
         (case opt_map b32_group full of
            None \<Rightarrow> Inl BinasciiError
          | Some bs \<Rightarrow>
             if pad \<notin> {1, 3, 4, 6} then Inl BinasciiError
             else case b32_last (last full) pad of
                None \<Rightarrow> Inl BinasciiError
              | Some l \<Rightarrow> Inr (concat (butlast bs) @ l)))"

lemma b32_value_digit: "n < 32 \<Longrightarrow> b32_value (b32_digit n) = Some n"
  by (auto simp: b32_value_def b32_digit_def Let_def)

lemma b32_digit_value: "b32_value c = Some n \<Longrightarrow> b32_digit n = c \<and> n < 32"
proof -
  assume "b32_value c = Some n"
  then have "code_of (b32_digit n) = code_of c \<and> n < 32"
    by (auto simp: b32_value_def b32_digit_def Let_def split: if_splits)
  then show ?thesis by (simp add: code_of_inj)
qed

lemma opt_map_iff: "opt_map f xs = Some ys \<longleftrightarrow> list_all2 (\<lambda>x y. f x = Some y) xs ys"
  by (induction xs arbitrary: ys) (auto simp: list_all2_Cons1 split: option.splits)

lemma opt_map_map: "(\<And>x. x \<in> set xs \<Longrightarrow> f (g x) = Some (h x)) \<Longrightarrow> opt_map f (map g xs) = Some (map h xs)"
  by (induction xs) auto

lemma b32_group_encode:
  "length g = 5 \<Longrightarrow> b32_group (map b32_digit (digits 32 8 (bytes_nat g))) = Some g"
proof -
  assume g: "length g = 5"
  have "opt_map b32_value (map b32_digit (digits 32 8 (bytes_nat g))) = Some (map id (digits 32 8 (bytes_nat g)))"
    by (rule opt_map_map) (simp add: b32_value_digit digits_bound [of 32, simplified])
  moreover have "undigits 32 (digits 32 8 (bytes_nat g)) = bytes_nat g"
    using bytes_nat_bound [of g] g by (intro undigits_digits) auto
  ultimately show ?thesis using nat_bytes_nat [of g] g by (simp add: b32_group_def)
qed

lemma groups_Nil [simp]: "groups n [] = []"
  by (simp add: groups.simps [of n "[]"])

lemma groups_append: "0 < n \<Longrightarrow> length g = n \<Longrightarrow> groups n (g @ xs) = g # groups n xs"
  by (subst groups.simps) auto

lemma groups_concat:
  "0 < n \<Longrightarrow> \<forall>g \<in> set gs. length g = n \<Longrightarrow> groups n (concat gs) = gs"
  by (induction gs) (simp_all add: groups_append)

lemma groups_full:
  "0 < n \<Longrightarrow> length xs mod n = 0 \<Longrightarrow> (\<forall>g \<in> set (groups n xs). length g = n) \<and> concat (groups n xs) = xs"
proof (induction n xs rule: groups.induct)
  case (1 n xs)
  show ?case
  proof (cases "xs = []")
    case False
    then have le: "n \<le> length xs" using "1.prems" by (cases "length xs < n") auto
    then have m: "length (drop n xs) mod n = 0"
      using "1.prems"(2) by (simp add: le_mod_geq)
    have ne: "\<not> (xs = [] \<or> n = 0)" using False "1.prems"(1) by simp
    have s: "groups n xs = take n xs # groups n (drop n xs)"
      unfolding groups.simps [of n xs] using ne by simp
    note ih = "1.IH" [OF ne "1.prems"(1) m]
    have "concat (groups n xs) = take n xs @ drop n xs" unfolding s concat.simps conjunct2 [OF ih] ..
    moreover have "\<forall>g \<in> set (groups n xs). length g = n"
      unfolding s list.set ball_simps using conjunct1 [OF ih] le by (simp only: length_take min_absorb2 simp_thms)
    ultimately show ?thesis by (simp only: append_take_drop_id simp_thms)
  qed simp
qed

lemma groups_count: "0 < n \<Longrightarrow> n * length (groups n xs) < length xs + n"
proof (induction n xs rule: groups.induct)
  case (1 n xs)
  show ?case
  proof (cases "xs = []")
    case False
    with "1.IH" "1.prems" have "n * length (groups n (drop n xs)) < length (drop n xs) + n" by blast
    moreover have "groups n xs = take n xs # groups n (drop n xs)"
      unfolding groups.simps [of n xs] using False "1.prems" by simp
    ultimately show ?thesis using False by (cases "n \<le> length xs") (simp_all add: groups.simps [of n "[]"])
  qed (use 1 in simp)
qed

lemma length_concat_const: "\<forall>g \<in> set gs. length g = n \<Longrightarrow> length (concat gs) = n * length gs"
  by (induction gs) simp_all

lemma length_groups: "0 < n \<Longrightarrow> length xs mod n = 0 \<Longrightarrow> length (groups n xs) * n = length xs"
  by (metis groups_full length_concat_const mult.commute)

lemma b32_encode_length: "length bs mod 5 = 0 \<Longrightarrow> length (b32_encode bs) = 8 * (length bs div 5)"
  using length_groups [of 5 bs] by (simp add: b32_encode_def length_concat o_def sum_list_triv)

lemma b32_digit_ascii: "n < 32 \<Longrightarrow> code_of (b32_digit n) < 128 \<and> b32_digit n \<noteq> CHR ''=''"
proof -
  assume n: "n < 32"
  have "code_of (CHR ''='') = 61" by (simp add: code_of_def)
  moreover have "code_of (b32_digit n) = (if n < 26 then n + 65 else n + 24)"
    using n by (simp add: b32_digit_def)
  ultimately have "code_of (b32_digit n) < 128 \<and> code_of (b32_digit n) \<noteq> code_of (CHR ''='')"
    using n by (simp split: if_splits)
  then show ?thesis by (auto simp: code_of_inj)
qed

lemma b32_encode_chars: "c \<in> set (b32_encode bs) \<Longrightarrow> \<exists>n < 32. c = b32_digit n"
  using digits_bound [of 32] by (fastforce simp: b32_encode_def)

lemma rstrip_none: "(\<forall>c \<in> set s. \<not> p c) \<Longrightarrow> py_rstrip p s = s"
  by (cases s rule: rev_cases) (auto simp: py_rstrip_def)

lemma b32_decode_encode:
  assumes "length bs mod 5 = 0"
  shows "b32_decode (b32_encode bs) = Inr bs"
proof -
  let ?f = "\<lambda>g. map b32_digit (digits 32 8 (bytes_nat g))"
  have g5: "\<forall>g \<in> set (groups 5 bs). length g = 5" "concat (groups 5 bs) = bs"
    using groups_full [of 5 bs] assms by auto
  have e: "b32_encode bs = concat (map ?f (groups 5 bs))" by (simp add: b32_encode_def)
  have g8: "groups 8 (b32_encode bs) = map ?f (groups 5 bs)"
    unfolding e by (rule groups_concat) auto
  have m8: "length (b32_encode bs) mod 8 = 0" using b32_encode_length [OF assms] by simp
  have r: "py_rstrip (\<lambda>c. c = CHR ''='') (b32_encode bs) = b32_encode bs"
    by (intro rstrip_none) (auto dest!: b32_encode_chars b32_digit_ascii)
  have a: "is_ascii (b32_encode bs)"
    by (auto simp: is_ascii_def list_all_iff b32_digit_ascii dest!: b32_encode_chars)
  have "opt_map b32_group (map ?f (groups 5 bs)) = Some (map id (groups 5 bs))"
    using g5(1) by (intro opt_map_map) (simp add: b32_group_encode)
  then show ?thesis using a r m8 g8 g5(2) by (simp add: b32_decode_def)
qed

text \<open>A padding-free text decodes to a whole number of groups, and is their encoding.\<close>

lemma b32_group_digits: "b32_group g = Some bs \<Longrightarrow> length g = 8 \<Longrightarrow>
  length bs = 5 \<and> map b32_digit (digits 32 8 (bytes_nat bs)) = g"
proof -
  assume b: "b32_group g = Some bs" and g: "length g = 8"
  then obtain ds where ds: "list_all2 (\<lambda>c d. b32_value c = Some d) g ds" "bs = nat_bytes 5 (undigits 32 ds)"
    by (auto simp: b32_group_def opt_map_iff)
  then have dv: "g = map b32_digit ds" "\<forall>d \<in> set ds. d < 32" "length ds = 8"
  proof -
    from ds(1) have l: "length ds = length g" and n: "\<forall>i < length g. b32_value (g ! i) = Some (ds ! i)"
      by (simp_all add: list_all2_conv_all_nth)
    from n have n': "\<forall>i < length g. b32_digit (ds ! i) = g ! i \<and> ds ! i < 32" using b32_digit_value by blast
    show "g = map b32_digit ds" using l n' by (intro nth_equalityI) auto
    show "\<forall>d \<in> set ds. d < 32" using l n' by (auto simp: in_set_conv_nth)
    show "length ds = 8" using l g by simp
  qed
  have u: "undigits 32 ds < 256 ^ 5" using undigits_bound [OF dv(2)] dv(3) by simp
  have "map unat (nat_bytes 5 (undigits 32 ds)) = digits 256 5 (undigits 32 ds)"
    using digits_bound [of 256 5 "undigits 32 ds"]
    by (auto simp: nat_bytes_def unat_of_nat take_bit_eq_mod intro!: map_idI)
  then have "bytes_nat bs = undigits 32 ds"
    using undigits_digits [of 256 "undigits 32 ds" 5] u by (simp add: bytes_nat_def ds(2))
  then show ?thesis using digits_undigits [OF dv(2)] dv ds(2) by simp
qed

end
