(* ===== verification/Base64.thy ===== *)
theory Base64
  imports Codecs
begin

text \<open>
  Base64 (RFC 4648). \<open>b64_decode\<close> is \<open>base64.b64decode(s, validate=True)\<close>: digits, then at most two
  padding characters, in whole groups of four; the bits left over in the last group are ignored.
  \<open>b64_decode_lenient\<close> is the default mode, which skips foreign characters and stops at the padding that
  completes a group. Text outside ASCII raises a bare \<open>ValueError\<close>; every other failure is
  \<open>binascii.Error\<close>.
\<close>

definition b64_value :: "char \<Rightarrow> nat option" where
  "b64_value c =
    (let n = code_of c in
     if 65 \<le> n \<and> n \<le> 90 then Some (n - 65)
     else if 97 \<le> n \<and> n \<le> 122 then Some (n - 71)
     else if 48 \<le> n \<and> n \<le> 57 then Some (n + 4)
     else if n = 43 then Some 62
     else if n = 47 then Some 63 else None)"

definition pad_to :: "nat \<Rightarrow> nat \<Rightarrow> nat" where
  "pad_to n k = (n - k mod n) mod n"

text \<open>The bytes of a list of digits: whole groups of four give three bytes; two or three digits left give one
or two.\<close>

definition b64_bytes :: "nat list \<Rightarrow> bytes" where
  "b64_bytes ds =
    (let full = ds @ replicate (pad_to 4 (length ds)) 0
     in take (length ds * 3 div 4) (concat (map (\<lambda>g. nat_bytes 3 (undigits 64 g)) (groups 4 full))))"

definition b64_decode :: "string \<Rightarrow> bytes res" where
  "b64_decode s =
    (if \<not> is_ascii s then Inl ValueError
     else
       let data = takeWhile (\<lambda>c. c \<noteq> CHR ''='') s; pad = dropWhile (\<lambda>c. c \<noteq> CHR ''='') s in
       if length s mod 4 \<noteq> 0 \<or> \<not> list_all (\<lambda>c. c = CHR ''='') pad \<or> 2 < length pad then Inl BinasciiError
       else case opt_map b64_value data of
              None \<Rightarrow> Inl BinasciiError
            | Some ds \<Rightarrow> Inr (b64_bytes ds))"

text \<open>The scanner of the default mode: the position in the group, the padding seen, the digits so far.\<close>

fun b64_scan :: "nat \<Rightarrow> nat \<Rightarrow> nat list \<Rightarrow> string \<Rightarrow> nat list option" where
  "b64_scan quad pads ds [] = (if quad = 0 then Some ds else None)"
| "b64_scan quad pads ds (c # s) =
    (if c = CHR ''='' then
       (if 2 \<le> quad \<and> 4 \<le> quad + (pads + 1) then Some ds
        else b64_scan quad (if 2 \<le> quad then pads + 1 else pads) ds s)
     else case b64_value c of
            None \<Rightarrow> b64_scan quad pads ds s
          | Some d \<Rightarrow> b64_scan ((quad + 1) mod 4) 0 (ds @ [d]) s)"

definition b64_decode_lenient :: "string \<Rightarrow> bytes res" where
  "b64_decode_lenient s =
    (if \<not> is_ascii s then Inl ValueError
     else case b64_scan 0 0 [] s of None \<Rightarrow> Inl BinasciiError | Some ds \<Rightarrow> Inr (b64_bytes ds))"

lemma b64_decode_raises: "raises_only {ValueError, BinasciiError} (b64_decode s)"
  unfolding b64_decode_def Let_def by (auto simp: raises_only_def split: option.splits)

lemma b64_decode_ascii_raises: "is_ascii s \<Longrightarrow> raises_only {BinasciiError} (b64_decode s)"
  unfolding b64_decode_def Let_def by (auto simp: raises_only_def split: option.splits)

lemma b64_decode_lenient_raises: "raises_only {ValueError, BinasciiError} (b64_decode_lenient s)"
  unfolding b64_decode_lenient_def by (auto simp: raises_only_def split: option.splits)

lemma pad_to_mod: "0 < n \<Longrightarrow> (k + pad_to n k) mod n = 0"
proof (cases "k mod n = 0")
  case False
  assume n: "0 < n"
  then have r: "k mod n < n" by simp
  have "(k + pad_to n k) mod n = (k mod n + (n - k mod n)) mod n"
    using False r unfolding pad_to_def by (metis mod_add_left_eq mod_less diff_less neq0_conv n)
  also have "k mod n + (n - k mod n) = n" using r by simp
  finally show ?thesis by simp
qed (auto simp: pad_to_def)

lemma take_length_groups:
  "\<forall>g \<in> set gs. length (f g) = n \<Longrightarrow> length (concat (map f gs)) = n * length gs"
  by (induction gs) auto

lemma length_b64_bytes: "length (b64_bytes ds) = length ds * 3 div 4"
proof -
  let ?full = "ds @ replicate (pad_to 4 (length ds)) 0"
  have m: "length ?full mod 4 = 0" unfolding length_append length_replicate by (rule pad_to_mod) simp
  have "length (concat (map (\<lambda>g. nat_bytes 3 (undigits 64 g)) (groups 4 ?full))) = 3 * length (groups 4 ?full)"
    by (rule take_length_groups) simp
  moreover have "length (groups 4 ?full) * 4 = length ?full" by (rule length_groups) (use m in simp_all)
  moreover have "length ds \<le> length ?full" by simp
  ultimately show ?thesis by (simp add: b64_bytes_def)
qed

end
