(* ===== verification/Utf8.thy ===== *)
theory Utf8
  imports PyText
begin

text \<open>
  \<open>str.encode("utf-8")\<close> and \<open>bytes.decode("utf-8")\<close>. Text is modelled by the characters of the first 256 code
  points; the decoder accepts and refuses exactly the byte strings Python's does (RFC 3629) and stands the
  code 255 for every character beyond that range: none of the documents the package reads gives such a
  character a meaning.
\<close>

definition utf8_char :: "char \<Rightarrow> bytes" where
  "utf8_char c =
    (let n = code_of c in if n < 128 then [of_nat n] else [of_nat (192 + n div 64), of_nat (128 + n mod 64)])"

definition utf8_encode :: "string \<Rightarrow> bytes" where
  "utf8_encode s = concat (map utf8_char s)"

definition is_cont :: "byte \<Rightarrow> bool" where
  "is_cont b \<longleftrightarrow> 128 \<le> unat b \<and> unat b \<le> 191"

definition code_char :: "nat \<Rightarrow> char" where
  "code_char n = char_at (if n < 256 then n else 255)"

text \<open>The bounds of the second byte of a three- or four-byte form exclude overlong forms, surrogates and codes
beyond U+10FFFF.\<close>

fun utf8_decode :: "bytes \<Rightarrow> string res" where
  "utf8_decode [] = Inr []"
| "utf8_decode (b # bs) =
    (let n = unat b in
     if n < 128 then rbind (utf8_decode bs) (\<lambda>s. Inr (char_at n # s))
     else if 194 \<le> n \<and> n \<le> 223 then
       (case bs of
          c # rest \<Rightarrow>
            if is_cont c then rbind (utf8_decode rest) (\<lambda>s. Inr (code_char ((n - 192) * 64 + (unat c - 128)) # s))
            else Inl UnicodeDecodeError
        | _ \<Rightarrow> Inl UnicodeDecodeError)
     else if 224 \<le> n \<and> n \<le> 239 then
       (case bs of
          c # d # rest \<Rightarrow>
            if is_cont c \<and> is_cont d \<and> (n = 224 \<longrightarrow> 160 \<le> unat c) \<and> (n = 237 \<longrightarrow> unat c \<le> 159)
            then rbind (utf8_decode rest) (\<lambda>s. Inr (char_at 255 # s))
            else Inl UnicodeDecodeError
        | _ \<Rightarrow> Inl UnicodeDecodeError)
     else if 240 \<le> n \<and> n \<le> 244 then
       (case bs of
          c # d # e # rest \<Rightarrow>
            if is_cont c \<and> is_cont d \<and> is_cont e \<and> (n = 240 \<longrightarrow> 144 \<le> unat c) \<and> (n = 244 \<longrightarrow> unat c \<le> 143)
            then rbind (utf8_decode rest) (\<lambda>s. Inr (char_at 255 # s))
            else Inl UnicodeDecodeError
        | _ \<Rightarrow> Inl UnicodeDecodeError)
     else Inl UnicodeDecodeError)"

lemma utf8_decode_raises [raises_intros]: "UnicodeDecodeError \<in> S \<Longrightarrow> raises_only S (utf8_decode bs)"
proof (induction bs rule: utf8_decode.induct)
  case (2 b bs)
  show ?case
    unfolding utf8_decode.simps(2) [of b bs] Let_def using 2
    by (auto simp: raises_only_def rbind_Inl_iff simp del: utf8_decode.simps split: if_split_asm list.split_asm)
qed (simp add: raises_only_def)

lemma utf8_decode_char: "utf8_decode (utf8_char c @ bs) = rbind (utf8_decode bs) (\<lambda>s. Inr (c # s))"
proof -
  have n: "code_of c < 256" by (rule code_of_bound)
  show ?thesis
  proof (cases "code_of c < 128")
    case True
    then show ?thesis using n by (simp add: utf8_char_def Let_def)
  next
    case False
    then have d: "code_of c div 64 \<in> {2, 3}" using n by auto
    have m: "code_of c mod 64 < 64" by simp
    have "192 + code_of c div 64 < 256" "128 + code_of c mod 64 < 256" using d m by auto
    then have u: "unat (of_nat (192 + code_of c div 64) :: byte) = 192 + code_of c div 64"
      "unat (of_nat (128 + code_of c mod 64) :: byte) = 128 + code_of c mod 64"
      by (simp_all only: unat_word_of_nat_byte)
    have "is_cont (of_nat (128 + code_of c mod 64))" unfolding is_cont_def u using m by simp
    moreover have "code_char (code_of c) = c" using n by (simp add: code_char_def)
    moreover have "code_of c div 64 * 64 + code_of c mod 64 = code_of c" by simp
    moreover have "\<not> (192 + code_of c div 64 < 128)" "194 \<le> 192 + code_of c div 64 \<and> 192 + code_of c div 64 \<le> 223"
      using d by auto
    ultimately show ?thesis
      using False by (simp only: utf8_char_def Let_def if_False append_Cons append_Nil utf8_decode.simps u list.case
          if_True simp_thms diff_add_inverse)
  qed
qed

lemma utf8_decode_encode [simp]: "utf8_decode (utf8_encode s) = Inr s"
proof (induction s)
  case (Cons c s)
  have "utf8_decode (utf8_encode (c # s)) = utf8_decode (utf8_char c @ utf8_encode s)" by (simp add: utf8_encode_def)
  then show ?case using Cons by (simp add: utf8_decode_char)
qed (simp add: utf8_encode_def)

end
