(* ===== verification/Constants.thy ===== *)
theory Constants
  imports PyBytes
begin

text \<open>
  The protocol constants (\<open>_proto/constants.py\<close>): each \<open>IntEnum\<close> is a datatype with the numbering
  function of its members, each size a named number.
\<close>

definition CELL_PAYLOAD_LEN :: nat where [simp]: "CELL_PAYLOAD_LEN = 509"

definition SUPPORTED_LINK_VERSIONS :: "int list" where
  [simp]: "SUPPORTED_LINK_VERSIONS = [4, 5]"

definition CIRCID_MSB :: int where [simp]: "CIRCID_MSB = 0x80000000"

datatype cell_cmd =
    Cell_PADDING | Cell_CREATE | Cell_CREATED | Cell_RELAY | Cell_DESTROY | Cell_CREATE_FAST
  | Cell_CREATED_FAST | Cell_VERSIONS | Cell_NETINFO | Cell_RELAY_EARLY | Cell_CREATE2
  | Cell_CREATED2 | Cell_PADDING_NEGOTIATE | Cell_VPADDING | Cell_CERTS | Cell_AUTH_CHALLENGE
  | Cell_AUTHENTICATE | Cell_AUTHORIZE

fun cell_num :: "cell_cmd \<Rightarrow> int" where
  "cell_num Cell_PADDING = 0"
| "cell_num Cell_CREATE = 1"
| "cell_num Cell_CREATED = 2"
| "cell_num Cell_RELAY = 3"
| "cell_num Cell_DESTROY = 4"
| "cell_num Cell_CREATE_FAST = 5"
| "cell_num Cell_CREATED_FAST = 6"
| "cell_num Cell_VERSIONS = 7"
| "cell_num Cell_NETINFO = 8"
| "cell_num Cell_RELAY_EARLY = 9"
| "cell_num Cell_CREATE2 = 10"
| "cell_num Cell_CREATED2 = 11"
| "cell_num Cell_PADDING_NEGOTIATE = 12"
| "cell_num Cell_VPADDING = 128"
| "cell_num Cell_CERTS = 129"
| "cell_num Cell_AUTH_CHALLENGE = 130"
| "cell_num Cell_AUTHENTICATE = 131"
| "cell_num Cell_AUTHORIZE = 132"

definition is_variable_cell :: "int \<Rightarrow> bool" where
  "is_variable_cell command \<longleftrightarrow> 128 \<le> command \<or> command = cell_num Cell_VERSIONS"

datatype relay_cmd =
    Relay_BEGIN | Relay_DATA | Relay_END | Relay_CONNECTED | Relay_SENDME | Relay_EXTEND
  | Relay_EXTENDED | Relay_TRUNCATE | Relay_TRUNCATED | Relay_DROP | Relay_RESOLVE
  | Relay_RESOLVED | Relay_BEGIN_DIR | Relay_EXTEND2 | Relay_EXTENDED2 | Relay_ESTABLISH_INTRO
  | Relay_ESTABLISH_RENDEZVOUS | Relay_INTRODUCE1 | Relay_INTRODUCE2 | Relay_RENDEZVOUS1
  | Relay_RENDEZVOUS2 | Relay_INTRO_ESTABLISHED | Relay_RENDEZVOUS_ESTABLISHED
  | Relay_INTRODUCE_ACK

fun relay_num :: "relay_cmd \<Rightarrow> int" where
  "relay_num Relay_BEGIN = 1"
| "relay_num Relay_DATA = 2"
| "relay_num Relay_END = 3"
| "relay_num Relay_CONNECTED = 4"
| "relay_num Relay_SENDME = 5"
| "relay_num Relay_EXTEND = 6"
| "relay_num Relay_EXTENDED = 7"
| "relay_num Relay_TRUNCATE = 8"
| "relay_num Relay_TRUNCATED = 9"
| "relay_num Relay_DROP = 10"
| "relay_num Relay_RESOLVE = 11"
| "relay_num Relay_RESOLVED = 12"
| "relay_num Relay_BEGIN_DIR = 13"
| "relay_num Relay_EXTEND2 = 14"
| "relay_num Relay_EXTENDED2 = 15"
| "relay_num Relay_ESTABLISH_INTRO = 32"
| "relay_num Relay_ESTABLISH_RENDEZVOUS = 33"
| "relay_num Relay_INTRODUCE1 = 34"
| "relay_num Relay_INTRODUCE2 = 35"
| "relay_num Relay_RENDEZVOUS1 = 36"
| "relay_num Relay_RENDEZVOUS2 = 37"
| "relay_num Relay_INTRO_ESTABLISHED = 38"
| "relay_num Relay_RENDEZVOUS_ESTABLISHED = 39"
| "relay_num Relay_INTRODUCE_ACK = 40"

datatype link_spec_type = LinkSpec_IPV4 | LinkSpec_IPV6 | LinkSpec_LEGACY_ID | LinkSpec_ED25519_ID

fun link_spec_num :: "link_spec_type \<Rightarrow> int" where
  "link_spec_num LinkSpec_IPV4 = 0"
| "link_spec_num LinkSpec_IPV6 = 1"
| "link_spec_num LinkSpec_LEGACY_ID = 2"
| "link_spec_num LinkSpec_ED25519_ID = 3"

datatype handshake_type = Handshake_TAP | Handshake_NTOR | Handshake_NTOR_V3

fun handshake_num :: "handshake_type \<Rightarrow> int" where
  "handshake_num Handshake_TAP = 0"
| "handshake_num Handshake_NTOR = 2"
| "handshake_num Handshake_NTOR_V3 = 3"

definition RELAY_HEADER_LEN :: nat where [simp]: "RELAY_HEADER_LEN = 11"

definition RELAY_PAYLOAD_LEN :: nat where
  "RELAY_PAYLOAD_LEN = CELL_PAYLOAD_LEN - RELAY_HEADER_LEN"

lemma RELAY_PAYLOAD_LEN_eq [simp]: "RELAY_PAYLOAD_LEN = 498"
  by (simp add: RELAY_PAYLOAD_LEN_def)

definition CIRCUIT_WINDOW_INITIAL :: int where [simp]: "CIRCUIT_WINDOW_INITIAL = 1000"
definition CIRCUIT_WINDOW_INCREMENT :: int where [simp]: "CIRCUIT_WINDOW_INCREMENT = 100"
definition STREAM_WINDOW_INITIAL :: int where [simp]: "STREAM_WINDOW_INITIAL = 500"
definition STREAM_WINDOW_INCREMENT :: int where [simp]: "STREAM_WINDOW_INCREMENT = 50"

text \<open>An ASCII bytes literal.\<close>

definition ascii :: "string \<Rightarrow> bytes" where
  "ascii s = map of_char s"

lemma length_ascii [simp]: "length (ascii s) = length s"
  by (simp add: ascii_def)

definition NTOR_PROTOID :: bytes where
  "NTOR_PROTOID = ascii ''ntor-curve25519-sha256-1''"

definition HS_NTOR_PROTOID :: bytes where
  "HS_NTOR_PROTOID = ascii ''tor-hs-ntor-curve25519-sha3-256-1''"

datatype cert_type_t =
    SIGNING_V_TLS | IDENTITY_V_SIGNING | HS_DESC_SIGNING | HS_IP_AUTH | HS_IP_ENC

fun cert_type_num :: "cert_type_t \<Rightarrow> int" where
  "cert_type_num SIGNING_V_TLS = 5"
| "cert_type_num IDENTITY_V_SIGNING = 4"
| "cert_type_num HS_DESC_SIGNING = 8"
| "cert_type_num HS_IP_AUTH = 9"
| "cert_type_num HS_IP_ENC = 11"

text \<open>No two commands of an enumeration share a number, so a command is recovered from it.\<close>

lemma cell_num_inj: "cell_num a = cell_num b \<Longrightarrow> a = b"
  by (cases a; cases b) simp_all

lemma relay_num_inj: "relay_num a = relay_num b \<Longrightarrow> a = b"
  by (cases a; cases b) simp_all

end
