(* ===== verification/Transport.thy ===== *)
theory Transport
  imports Constants
begin

text \<open>
  The byte pipe a channel runs over (\<open>_net/transport.py\<close>). The operating system's socket is the
  environment: a list of what successive \<open>recv\<close> calls can return (\<open>Chunk\<close>s of any size, or an
  \<open>OSError\<close>), whose end is end-of-file. \<open>TlsTransport.recv_exact\<close> is the loop over it.
  \<open>byte_source\<close> is the contract \<open>read_cell\<close> relies on: \<open>n\<close> bytes in order, or \<open>ChannelError\<close>;
  the loop is proved to satisfy it whatever way the bytes are split into chunks.
\<close>

datatype sock_event = Chunk bytes | SockErr

text \<open>\<open>socket.recv(n)\<close>: at most \<open>n\<close> bytes, the rest of a larger chunk stays queued; \<open>b""\<close> at EOF.\<close>

fun sock_recv :: "nat \<Rightarrow> sock_event list \<Rightarrow> sock_event list \<times> bytes res" where
  "sock_recv n [] = ([], Inr [])"
| "sock_recv n (SockErr # es) = (es, Inl OSError)"
| "sock_recv n (Chunk c # es) =
     (if length c \<le> n then (es, Inr c) else (Chunk (drop n c) # es, Inr (take n c)))"

lemma sock_recv_bound: "sock_recv n es = (es', Inr d) \<Longrightarrow> length d \<le> n"
  by (cases "(n, es)" rule: sock_recv.cases) (auto split: if_splits)

record transport =
  tr_sock :: "sock_event list option"  \<comment> \<open>\<open>_sock\<close>: \<open>None\<close> until connected and after close\<close>
  tr_send_fails :: bool                \<comment> \<open>whether the socket's \<open>sendall\<close> raises \<open>OSError\<close>\<close>
  tr_sent :: bytes                     \<comment> \<open>everything handed to \<open>sendall\<close>, in order\<close>
  tr_cert_digest :: bytes              \<comment> \<open>\<open>_cert_digest\<close>\<close>
  tr_open_fds :: nat                   \<comment> \<open>operating-system sockets open for this transport\<close>

text \<open>
  The three ways \<open>connect\<close> can end before it succeeds, and success: the TCP connection fails, the
  TLS handshake fails, the peer presents no certificate, or the certificate's DER and the bytes
  the peer will send.
\<close>

datatype connect_env = TcpFails | TlsFails | NoCertificate | Connects bytes "sock_event list"

fun tls_connect ::
  "(bytes \<Rightarrow> bytes) \<Rightarrow> connect_env \<Rightarrow> (transport, exc, unit) op" where
  "tls_connect sha256 TcpFails t = (t, Inl ChannelError)"
| "tls_connect sha256 TlsFails t =
     (let opened = t\<lparr>tr_open_fds := Suc (tr_open_fds t)\<rparr>;
          closed = opened\<lparr>tr_open_fds := tr_open_fds opened - 1\<rparr>
      in (closed, Inl ChannelError))"
| "tls_connect sha256 NoCertificate t =
     (let opened = t\<lparr>tr_open_fds := Suc (tr_open_fds t)\<rparr>;
          closed = opened\<lparr>tr_open_fds := tr_open_fds opened - 1\<rparr>
      in (closed, Inl ChannelError))"
| "tls_connect sha256 (Connects der es) t =
     (let opened = t\<lparr>tr_open_fds := Suc (tr_open_fds t)\<rparr>
      in if der = [] then (opened\<lparr>tr_open_fds := tr_open_fds opened - 1\<rparr>, Inl ChannelError)
         else (opened\<lparr>tr_sock := Some es, tr_cert_digest := sha256 der\<rparr>, Inr ()))"

definition transport_send :: "bytes \<Rightarrow> (transport, exc, unit) op" where
  "transport_send data t =
     (case tr_sock t of
        None \<Rightarrow> (t, Inl ChannelError)
      | Some _ \<Rightarrow> if tr_send_fails t then (t, Inl ChannelError)
                  else (t\<lparr>tr_sent := tr_sent t @ data\<rparr>, Inr ()))"

text \<open>The loop of \<open>recv_exact\<close>: \<open>remaining\<close> bytes still to read, \<open>acc\<close> the chunks joined so far.\<close>

function recv_loop :: "nat \<Rightarrow> bytes \<Rightarrow> sock_event list \<Rightarrow> sock_event list \<times> bytes res" where
  "recv_loop remaining acc es =
     (if remaining = 0 then (es, Inr acc)
      else case sock_recv remaining es of
        (es', Inl _) \<Rightarrow> (es', Inl ChannelError)
      | (es', Inr chunk) \<Rightarrow>
          if chunk = [] then (es', Inl ChannelError)
          else recv_loop (remaining - length chunk) (acc @ chunk) es')"
  by pat_completeness auto
termination
  by (relation "measure (\<lambda>(r, acc, es). r)") auto

declare recv_loop.simps [simp del]

definition recv_exact :: "nat \<Rightarrow> (transport, exc, bytes) op" where
  "recv_exact n t =
     (case tr_sock t of
        None \<Rightarrow> (t, Inl ChannelError)
      | Some es \<Rightarrow> (let (es', r) = recv_loop n [] es in (t\<lparr>tr_sock := Some es'\<rparr>, r)))"

definition transport_close :: "transport \<Rightarrow> transport" where
  "transport_close t =
     (case tr_sock t of
        None \<Rightarrow> t
      | Some _ \<Rightarrow> t\<lparr>tr_sock := None, tr_open_fds := tr_open_fds t - 1\<rparr>)"

section \<open>The contract of a byte source\<close>

locale byte_source =
  fixes recv :: "nat \<Rightarrow> ('s, exc, bytes) op" and avail :: "'s \<Rightarrow> bytes"
  assumes recv_ok:
    "0 < n \<Longrightarrow> n \<le> length (avail s) \<Longrightarrow>
      \<exists>s'. recv n s = (s', Inr (take n (avail s))) \<and> avail s' = drop n (avail s)"
    and recv_short: "length (avail s) < n \<Longrightarrow> snd (recv n s) = Inl ChannelError"
begin

text \<open>Reading a prefix that is known to be there.\<close>

lemma recv_prefix:
  assumes "avail s = xs @ ys" and "xs \<noteq> []"
  obtains s' where "recv (length xs) s = (s', Inr xs)" "avail s' = ys"
  using recv_ok [of "length xs" s] assms by auto

lemma recv_outcome:
  assumes "0 < n"
  shows "(\<exists>s' d. recv n s = (s', Inr d) \<and> length d = n) \<or> snd (recv n s) = Inl ChannelError"
proof (cases "n \<le> length (avail s)")
  case True
  with recv_ok [OF assms True] show ?thesis by fastforce
next
  case False
  with recv_short [of s n] show ?thesis by simp
qed

end

text \<open>What a socket will deliver before end-of-file or an error.\<close>

fun sock_avail :: "sock_event list \<Rightarrow> bytes" where
  "sock_avail [] = []"
| "sock_avail (SockErr # es) = []"
| "sock_avail (Chunk c # es) = (if c = [] then [] else c @ sock_avail es)"

definition transport_avail :: "transport \<Rightarrow> bytes" where
  "transport_avail t = (case tr_sock t of None \<Rightarrow> [] | Some es \<Rightarrow> sock_avail es)"

lemma recv_loop_ok:
  "n \<le> length (sock_avail es) \<Longrightarrow>
    \<exists>es'. recv_loop n acc es = (es', Inr (acc @ take n (sock_avail es)))
      \<and> sock_avail es' = drop n (sock_avail es)"
proof (induction n acc es rule: recv_loop.induct)
  case (1 n acc es)
  show ?case
  proof (cases "n = 0")
    case True
    then show ?thesis by (simp add: recv_loop.simps [of 0])
  next
    case False
    with "1.prems" obtain c es1 where es: "es = Chunk c # es1" "c \<noteq> []"
      by (cases es rule: sock_avail.cases) (auto split: if_splits)
    show ?thesis
    proof (cases "length c \<le> n")
      case True
      then have r: "sock_recv n es = (es1, Inr c)" by (simp add: es)
      have le: "n - length c \<le> length (sock_avail es1)" using "1.prems" es True by simp
      from "1.IH" [OF False r [symmetric] refl es(2) le] True es False r show ?thesis
        by (simp add: recv_loop.simps [of n])
    next
      case b: False
      then have r: "sock_recv n es = (Chunk (drop n c) # es1, Inr (take n c))" by (simp add: es)
      then show ?thesis using b False es
        by (simp add: recv_loop.simps [of n] recv_loop.simps [of 0] min_def)
    qed
  qed
qed

lemma recv_loop_short:
  "length (sock_avail es) < n \<Longrightarrow> snd (recv_loop n acc es) = Inl ChannelError"
proof (induction n acc es rule: recv_loop.induct)
  case (1 n acc es)
  then have n: "n \<noteq> 0" by auto
  show ?case
  proof (cases es rule: sock_avail.cases)
    case (3 c es1)
    show ?thesis
    proof (cases "c = []")
      case True
      with 3 n show ?thesis by (simp add: recv_loop.simps [of n])
    next
      case False
      with "1.prems" 3 have len: "length c \<le> n" by simp
      then have r: "sock_recv n es = (es1, Inr c)" by (simp add: 3)
      have "length (sock_avail es1) < n - length c" using "1.prems" 3 False by simp
      from "1.IH" [OF n r [symmetric] refl False this] r n False show ?thesis
        by (simp add: recv_loop.simps [of n])
    qed
  qed (use n in \<open>simp_all add: recv_loop.simps [of n]\<close>)
qed

interpretation tls: byte_source recv_exact transport_avail
proof
  fix n :: nat and t :: transport
  assume n: "0 < n" "n \<le> length (transport_avail t)"
  then obtain es where es: "tr_sock t = Some es" by (auto simp: transport_avail_def split: option.splits)
  with n recv_loop_ok [of n es "[]"] obtain es' where
    "recv_loop n [] es = (es', Inr (take n (sock_avail es)))" "sock_avail es' = drop n (sock_avail es)"
    by (auto simp: transport_avail_def)
  with es show "\<exists>s'. recv_exact n t = (s', Inr (take n (transport_avail t)))
      \<and> transport_avail s' = drop n (transport_avail t)"
    by (simp add: recv_exact_def transport_avail_def)
next
  fix t :: transport and n :: nat
  assume n: "length (transport_avail t) < n"
  show "snd (recv_exact n t) = Inl ChannelError"
  proof (cases "tr_sock t")
    case (Some es)
    with n recv_loop_short [of es n "[]"] show ?thesis
      by (cases "recv_loop n [] es") (simp add: recv_exact_def transport_avail_def)
  qed (simp add: recv_exact_def)
qed

section \<open>Sockets are not leaked\<close>

lemma tls_connect_fds:
  "tls_connect sha256 env t = (t', r) \<Longrightarrow>
    tr_open_fds t' = tr_open_fds t + (if r = Inr () then 1 else 0)"
  by (cases "(sha256, env, t)" rule: tls_connect.cases) (auto simp: Let_def split: if_splits)

end
