(* ===== verification/Cells.thy ===== *)
theory Cells
  imports Transport
begin

text \<open>
  Cell framing and the typed cells (\<open>_proto/cells.py\<close>): \<open>RawCell.pack\<close>, \<open>read_cell\<close> over any byte
  source, and the codecs of VERSIONS, CERTS, NETINFO, CREATE2, CREATED2 and DESTROY. An IP address
  is kept as its packed bytes with its family (what \<open>ipaddress\<close> parses the text to and prints it
  from). The framing lemmas are proved against the contract of \<open>byte_source\<close>, the counted blocks
  against \<open>item_codec\<close> and \<open>item_decoder\<close>.
\<close>

section \<open>Framing\<close>

definition circid_len :: "int \<Rightarrow> nat" where
  "circid_len link_version = (if 4 \<le> link_version then 4 else 2)"

record raw_cell =
  circ_id :: int
  command :: int
  payload :: bytes

definition RawCell_pack :: "raw_cell \<Rightarrow> int \<Rightarrow> bytes res" where
  "RawCell_pack c link_version =
    (let width = (if command c = cell_num Cell_VERSIONS then 2 else circid_len link_version)
     in rbind (to_bytes width (circ_id c)) (\<lambda>cid.
        rbind (byte1 (command c)) (\<lambda>cmd.
        let header = cid @ cmd in
        if is_variable_cell (command c)
        then rbind (pack_H (int (length (payload c)))) (\<lambda>len. Inr (header @ len @ payload c))
        else if CELL_PAYLOAD_LEN < length (payload c) then Inl ValueError
        else Inr (header @ ljust0 CELL_PAYLOAD_LEN (payload c)))))"

definition read_cell ::
  "(nat \<Rightarrow> ('s, exc, bytes) op) \<Rightarrow> int \<Rightarrow> ('s, exc, raw_cell) op" where
  "read_cell recv link_version =
    (let width = circid_len link_version in
     obind (recv (width + 1)) (\<lambda>header.
     obind (olift (byte_at header width)) (\<lambda>cmd.
     let cid = be_int (take width header) in
     obind
       (if is_variable_cell cmd
        then obind (recv 2) (\<lambda>lenb. obind (olift (unpack_H lenb)) (\<lambda>len.
               if len \<noteq> 0 then recv (nat len) else oreturn []))
        else recv CELL_PAYLOAD_LEN)
       (\<lambda>body. oreturn \<lparr>circ_id = cid, command = cmd, payload = body\<rparr>))))"

text \<open>What the receiver sees of a cell: a fixed-length body arrives padded to 509 bytes.\<close>

definition on_wire :: "raw_cell \<Rightarrow> raw_cell" where
  "on_wire c = (if is_variable_cell (command c) then c
                else c\<lparr>payload := ljust0 CELL_PAYLOAD_LEN (payload c)\<rparr>)"

definition frameable :: "int \<Rightarrow> raw_cell \<Rightarrow> bool" where
  "frameable v c \<longleftrightarrow>
     (command c = cell_num Cell_VERSIONS \<longrightarrow> v < 4) \<and>
     0 \<le> circ_id c \<and> circ_id c < 256 ^ circid_len v \<and> 0 \<le> command c \<and> command c < 256 \<and>
     length (payload c) \<le> (if is_variable_cell (command c) then 65535 else CELL_PAYLOAD_LEN)"

definition frame :: "int \<Rightarrow> raw_cell \<Rightarrow> bytes" where
  "frame v c = be_enc (circid_len v) (circ_id c) @ be_enc 1 (command c) @
     (if is_variable_cell (command c) then be_enc 2 (int (length (payload c))) @ payload c
      else ljust0 CELL_PAYLOAD_LEN (payload c))"

lemma circid_len_pos [simp]: "0 < circid_len v"
  by (simp add: circid_len_def)

lemma RawCell_pack_frame: "frameable v c \<Longrightarrow> RawCell_pack c v = Inr (frame v c)"
  by (auto simp: RawCell_pack_def frameable_def frame_def Let_def circid_len_def split: if_splits)

lemma RawCell_pack_frameable:
  "RawCell_pack c v = Inr bs \<Longrightarrow> (command c = cell_num Cell_VERSIONS \<longrightarrow> v < 4)
    \<Longrightarrow> frameable v c \<and> bs = frame v c"
  by (auto simp: RawCell_pack_def frameable_def frame_def Let_def circid_len_def split: if_splits)

lemma length_frame:
  "frameable v c \<Longrightarrow> length (frame v c) =
    circid_len v + 1 + (if is_variable_cell (command c) then 2 + length (payload c) else 509)"
  by (auto simp: frame_def frameable_def)

text \<open>A whole stream of cells, as the receive loop reads them.\<close>

fun read_cells ::
  "(nat \<Rightarrow> ('s, exc, bytes) op) \<Rightarrow> int \<Rightarrow> nat \<Rightarrow> ('s, exc, raw_cell list) op" where
  "read_cells recv v 0 = oreturn []"
| "read_cells recv v (Suc n) =
     obind (read_cell recv v) (\<lambda>c. obind (read_cells recv v n) (\<lambda>cs. oreturn (c # cs)))"

context byte_source
begin

lemma recv_exactly:
  assumes "avail s = xs @ ys" and "length xs = n" and "0 < n"
  shows "\<exists>s'. recv n s = (s', Inr xs) \<and> avail s' = ys"
proof -
  from assms have "xs \<noteq> []" by auto
  then obtain s' where "recv (length xs) s = (s', Inr xs)" "avail s' = ys"
    using recv_prefix [OF assms(1)] by blast
  with assms(2) show ?thesis by auto
qed

lemma read_cell_frame:
  assumes fr: "frameable v c" and av: "avail s = frame v c @ rest"
  shows "\<exists>s'. read_cell recv v s = (s', Inr (on_wire c)) \<and> avail s' = rest"
proof -
  let ?w = "circid_len v"
  let ?hdr = "be_enc ?w (circ_id c) @ be_enc 1 (command c)"
  let ?body = "if is_variable_cell (command c) then be_enc 2 (int (length (payload c))) @ payload c
      else ljust0 CELL_PAYLOAD_LEN (payload c)"
  have av': "avail s = ?hdr @ ?body @ rest" using av by (simp add: frame_def)
  from recv_exactly [OF av'] obtain s1 where
    r1: "recv (Suc ?w) s = (s1, Inr ?hdr)" and a1: "avail s1 = ?body @ rest" by auto
  have nth: "byte_at ?hdr ?w = Inr (command c)"
    using fr by (simp add: frameable_def be_enc_1 nth_append byte_at_def)
  have cid: "be_int (take ?w ?hdr) = circ_id c" using fr by (simp add: frameable_def be_int_enc)
  show ?thesis
  proof (cases "is_variable_cell (command c)")
    case True
    let ?n = "length (payload c)"
    from True fr have n: "?n \<le> 65535" by (simp add: frameable_def)
    from a1 True have a1': "avail s1 = be_enc 2 (int ?n) @ payload c @ rest" by simp
    from recv_exactly [OF a1'] obtain s2 where
      r2: "recv 2 s1 = (s2, Inr (be_enc 2 (int ?n)))" and a2: "avail s2 = payload c @ rest" by auto
    have len: "be_int (be_enc 2 (int ?n)) = int ?n" using n by (intro be_int_enc) auto
    show ?thesis
    proof (cases "payload c = []")
      case e: True
      with r1 r2 nth cid True len a2 show ?thesis
        by (simp add: read_cell_def Let_def on_wire_def obind_def)
    next
      case False
      with recv_exactly [OF a2] obtain s3 where
        "recv ?n s2 = (s3, Inr (payload c))" "avail s3 = rest" by auto
      with r1 r2 nth cid True len False show ?thesis
        by (simp add: read_cell_def Let_def on_wire_def obind_def)
    qed
  next
    case False
    let ?p = "ljust0 CELL_PAYLOAD_LEN (payload c)"
    from False a1 have a1': "avail s1 = ?p @ rest" by simp
    have lp: "length ?p = 509" using False fr by (simp add: frameable_def)
    from recv_exactly [OF a1' lp] obtain s2 where
      "recv 509 s1 = (s2, Inr ?p)" "avail s2 = rest" by auto
    with r1 nth cid False show ?thesis
      by (simp add: read_cell_def Let_def on_wire_def obind_def)
  qed
qed

lemma read_cells_frames:
  "list_all (frameable v) cs \<Longrightarrow> avail s = concat (map (frame v) cs) @ rest \<Longrightarrow>
    \<exists>s'. read_cells recv v (length cs) s = (s', Inr (map on_wire cs)) \<and> avail s' = rest"
proof (induction cs arbitrary: s)
  case Nil
  then show ?case by simp
next
  case (Cons c cs)
  from Cons.prems read_cell_frame [of v c s "concat (map (frame v) cs) @ rest"]
  obtain s1 where s1: "read_cell recv v s = (s1, Inr (on_wire c))"
      "avail s1 = concat (map (frame v) cs) @ rest" by auto
  with Cons.IH [of s1] Cons.prems obtain s2 where
    "read_cells recv v (length cs) s1 = (s2, Inr (map on_wire cs))" "avail s2 = rest" by auto
  with s1 show ?case by (simp add: obind_def)
qed

text \<open>Reading a cell fails only with the byte source's own error.\<close>

lemma recv_len: "0 < n \<Longrightarrow> recv n s = (s', Inr d) \<Longrightarrow> length d = n"
  using recv_outcome [of n s] by auto

lemma recv_raises: "0 < n \<Longrightarrow> raises_only {ChannelError} (snd (recv n s))"
  using recv_outcome [of n s] by (auto simp: raises_only_def)

lemma read_cell_raises: "raises_only {ChannelError} (snd (read_cell recv v s))"
  unfolding read_cell_def Let_def
  by (rule obind_raises, simp add: recv_raises,
      rule obind_raises, frule recv_len [rotated], simp, simp add: raises_only_def,
      rule obind_raises)
    (auto intro!: obind_raises recv_raises raises_intros dest!: recv_len [rotated]
      simp: unpack_H_def unpack_be_def, metis be_int_nonneg le_neq_trans)

end

section \<open>Addresses in NETINFO\<close>

datatype ip_addr = IPv4 bytes | IPv6 bytes

fun ip_wf :: "ip_addr \<Rightarrow> bool" where
  "ip_wf (IPv4 packed) \<longleftrightarrow> length packed = 4"
| "ip_wf (IPv6 packed) \<longleftrightarrow> length packed = 16"

definition ATYPE_IPV4 :: int where [simp]: "ATYPE_IPV4 = 4"
definition ATYPE_IPV6 :: int where [simp]: "ATYPE_IPV6 = 6"

fun encode_address :: "ip_addr \<Rightarrow> bytes" where
  "encode_address (IPv4 packed) = be_enc 1 ATYPE_IPV4 @ be_enc 1 4 @ packed"
| "encode_address (IPv6 packed) = be_enc 1 ATYPE_IPV6 @ be_enc 1 16 @ packed"

text \<open>\<open>_encode_address(ip) if ip else bytes([0, 0])\<close>.\<close>

fun encode_optional_address :: "ip_addr option \<Rightarrow> bytes" where
  "encode_optional_address None = [0, 0]"
| "encode_optional_address (Some ip) = encode_address ip"

definition decode_address :: "bytes \<Rightarrow> nat \<Rightarrow> (ip_addr option \<times> nat) res" where
  "decode_address data offset =
    (if length data < offset + 2 then Inl ChannelError
     else rbind (byte_at data offset) (\<lambda>atype.
          rbind (byte_at data (offset + 1)) (\<lambda>alen.
          if length data < offset + 2 + nat alen then Inl ChannelError
          else let value = py_slice (offset + 2) (offset + 2 + nat alen) data;
                   offset' = offset + 2 + nat alen
               in if atype = ATYPE_IPV4 \<and> alen = 4 then Inr (Some (IPv4 value), offset')
                  else if atype = ATYPE_IPV6 \<and> alen = 16 then Inr (Some (IPv6 value), offset')
                  else Inr (None, offset'))))"

lemma decode_address_raises [raises_intros]:
  "ChannelError \<in> S \<Longrightarrow> raises_only S (decode_address data offset)"
  unfolding decode_address_def Let_def by (intro raises_intros) auto

fun opt_ip_wf :: "ip_addr option \<Rightarrow> bool" where
  "opt_ip_wf None = True"
| "opt_ip_wf (Some ip) = ip_wf ip"

interpretation netinfo_address: item_decoder encode_optional_address decode_address opt_ip_wf
proof
  fix x :: "ip_addr option" and pre post :: bytes
  assume wf: "opt_ip_wf x"
  show "decode_address (pre @ encode_optional_address x @ post) (length pre)
      = Inr (x, length pre + length (encode_optional_address x))"
  proof (cases x)
    case None
    then show ?thesis by (simp add: decode_address_def byte_at_def nth_append)
  next
    case (Some ip)
    with wf show ?thesis
      by (cases ip) (simp_all add: decode_address_def byte_at_def nth_append be_enc_1 py_slice_def)
  qed
qed

lemma decode_address_progress:
  "decode_address data offset = Inr (x, offset') \<Longrightarrow> offset + 2 \<le> offset' \<and> offset' \<le> length data"
  by (auto simp: decode_address_def Let_def split: if_splits)

section \<open>Typed cells\<close>

definition raw_of :: "int \<Rightarrow> cell_cmd \<Rightarrow> bytes \<Rightarrow> raw_cell" where
  "raw_of cid cmd body = \<lparr>circ_id = cid, command = cell_num cmd, payload = body\<rparr>"

lemma raw_of_sel [simp]:
  "circ_id (raw_of i c b) = i" "command (raw_of i c b) = cell_num c" "payload (raw_of i c b) = b"
  by (simp_all add: raw_of_def)

subsection \<open>VERSIONS\<close>

definition VersionsCell_to_raw :: "int list \<Rightarrow> raw_cell res" where
  "VersionsCell_to_raw versions =
     rbind (rmap pack_H versions) (\<lambda>vs. Inr (raw_of 0 Cell_VERSIONS (concat vs)))"

fun unpack_Hs :: "bytes \<Rightarrow> int list" where
  "unpack_Hs (a # b # rest) = be_int [a, b] # unpack_Hs rest"
| "unpack_Hs _ = []"

definition VersionsCell_from_raw :: "raw_cell \<Rightarrow> int list" where
  "VersionsCell_from_raw raw =
     (let count = length (payload raw) div 2 in unpack_Hs (take (count * 2) (payload raw)))"

subsection \<open>CERTS\<close>

type_synonym certs_cell = "(int \<times> bytes) list"

definition cert_entry :: "int \<times> bytes \<Rightarrow> bytes res" where
  "cert_entry e = rbind (byte1 (fst e)) (\<lambda>t. rbind (pack_H (int (length (snd e)))) (\<lambda>l.
     Inr (t @ l @ snd e)))"

definition CertsCell_to_raw :: "certs_cell \<Rightarrow> int \<Rightarrow> raw_cell res" where
  "CertsCell_to_raw certs cid =
     rbind (byte1 (int (length certs))) (\<lambda>n. rbind (rmap cert_entry certs) (\<lambda>es.
       Inr (raw_of cid Cell_CERTS (n @ concat es))))"

definition certs_item :: "bytes \<Rightarrow> nat \<Rightarrow> ((int \<times> bytes) \<times> nat) res" where
  "certs_item data offset =
    (if length data < offset + 3 then Inl ChannelError
     else rbind (byte_at data offset) (\<lambda>cert_type.
          rbind (unpack_H (py_slice (offset + 1) (offset + 3) data)) (\<lambda>clen.
          let offset' = offset + 3 in
          if length data < offset' + nat clen then Inl ChannelError
          else Inr ((cert_type, py_slice offset' (offset' + nat clen) data), offset' + nat clen))))"

definition CertsCell_from_raw :: "raw_cell \<Rightarrow> certs_cell res" where
  "CertsCell_from_raw raw =
    (if payload raw = [] then Inl ChannelError
     else rbind (byte_at (payload raw) 0) (\<lambda>count.
          rbind (repeat_parse (nat count) (certs_item (payload raw)) 1) (\<lambda>(certs, _). Inr certs)))"

definition CertsCell_by_type :: "certs_cell \<Rightarrow> int \<Rightarrow> bytes option" where
  "CertsCell_by_type certs cert_type = map_option snd (find (\<lambda>(t, _). t = cert_type) certs)"

definition cert_entry_wf :: "int \<times> bytes \<Rightarrow> bool" where
  "cert_entry_wf e \<longleftrightarrow> 0 \<le> fst e \<and> fst e < 256 \<and> length (snd e) < 65536"

definition cert_entry_bytes :: "int \<times> bytes \<Rightarrow> bytes" where
  "cert_entry_bytes e = be_enc 1 (fst e) @ be_enc 2 (int (length (snd e))) @ snd e"

lemma cert_entry_Inr_iff: "cert_entry e = Inr bs \<longleftrightarrow> cert_entry_wf e \<and> bs = cert_entry_bytes e"
  by (auto simp: cert_entry_def cert_entry_wf_def cert_entry_bytes_def)

subsection \<open>NETINFO\<close>

record net_info =
  ni_timestamp :: int
  ni_other :: "ip_addr option"
  ni_mine :: "ip_addr list"

definition NetInfoCell_to_raw :: "net_info \<Rightarrow> int \<Rightarrow> raw_cell res" where
  "NetInfoCell_to_raw n cid =
     rbind (pack_I (ni_timestamp n)) (\<lambda>ts.
     rbind (byte1 (int (length (ni_mine n)))) (\<lambda>cnt.
       Inr (raw_of cid Cell_NETINFO
         (ts @ encode_optional_address (ni_other n) @ cnt @ concat (map encode_address (ni_mine n))))))"

definition NetInfoCell_from_raw :: "raw_cell \<Rightarrow> net_info res" where
  "NetInfoCell_from_raw raw =
    (let data = payload raw in
     if length data < 4 then Inl ChannelError
     else rbind (unpack_I (take 4 data)) (\<lambda>timestamp.
          rbind (decode_address data 4) (\<lambda>(other, offset).
          if length data \<le> offset then Inl ChannelError
          else rbind (byte_at data offset) (\<lambda>n.
               rbind (repeat_parse (nat n) (decode_address data) (offset + 1)) (\<lambda>(addrs, _).
               Inr \<lparr>ni_timestamp = timestamp, ni_other = other,
                     ni_mine = List.map_filter id addrs\<rparr>)))))"

subsection \<open>CREATE2, CREATED2, DESTROY\<close>

record create2 =
  c2_handshake_type :: int
  c2_handshake_data :: bytes

definition Create2Cell_to_raw :: "create2 \<Rightarrow> int \<Rightarrow> raw_cell res" where
  "Create2Cell_to_raw c cid =
     rbind (pack_H (c2_handshake_type c)) (\<lambda>t. rbind (pack_H (int (length (c2_handshake_data c)))) (\<lambda>l.
       Inr (raw_of cid Cell_CREATE2 (t @ l @ c2_handshake_data c))))"

definition Create2Cell_from_raw :: "raw_cell \<Rightarrow> create2 res" where
  "Create2Cell_from_raw raw =
    (let hdr = take 4 (payload raw) in
     if length hdr \<noteq> 4 then Inl StructError
     else rbind (unpack_H (take 2 hdr)) (\<lambda>htype. rbind (unpack_H (drop 2 hdr)) (\<lambda>hlen.
       Inr \<lparr>c2_handshake_type = htype,
             c2_handshake_data = py_slice 4 (4 + nat hlen) (payload raw)\<rparr>)))"

definition Created2Cell_to_raw :: "bytes \<Rightarrow> int \<Rightarrow> raw_cell res" where
  "Created2Cell_to_raw handshake_data cid =
     rbind (pack_H (int (length handshake_data))) (\<lambda>l. Inr (raw_of cid Cell_CREATED2 (l @ handshake_data)))"

definition Created2Cell_from_raw :: "raw_cell \<Rightarrow> bytes res" where
  "Created2Cell_from_raw raw =
     rbind (unpack_H (take 2 (payload raw))) (\<lambda>hlen. Inr (py_slice 2 (2 + nat hlen) (payload raw)))"

definition DestroyCell_to_raw :: "int \<Rightarrow> int \<Rightarrow> raw_cell res" where
  "DestroyCell_to_raw reason cid = rbind (byte1 reason) (\<lambda>r. Inr (raw_of cid Cell_DESTROY r))"

definition DestroyCell_from_raw :: "raw_cell \<Rightarrow> int" where
  "DestroyCell_from_raw raw = (case payload raw of [] \<Rightarrow> 0 | b # _ \<Rightarrow> uint b)"

end
