(* ===== verification/CellLaws.thy ===== *)
theory CellLaws
  imports Cells
begin

text \<open>
  What the cell codecs guarantee: every typed cell parses back to itself, also after the padding of
  a fixed-length cell; CERTS parsing accepts exactly the serialisations; the parsers of the link
  handshake fail with \<open>ChannelError\<close> only; and a stream of cells is read back cell by cell
  whatever way the network splits its bytes.
\<close>


lemma unpack_Hs_pack:
  "rmap pack_H vs = Inr bss \<Longrightarrow> unpack_Hs (concat bss) = vs \<and> length (concat bss) = 2 * length vs"
proof (induction vs arbitrary: bss)
  case (Cons v vs)
  then obtain ws where v: "0 \<le> v" "v < 65536" and ws: "rmap pack_H vs = Inr ws"
    and bss: "bss = be_enc 2 v # ws" by auto
  obtain a b where ab: "be_enc 2 v = [a, b]"
    using length_be_enc [of 2 v] by (auto simp: length_Suc_conv numeral_2_eq_2)
  have "be_int [a, b] = v" using be_int_enc [of v 2] v by (simp add: ab)
  with Cons.IH [OF ws] show ?case by (simp add: bss ab)
qed simp

lemma VersionsCell_roundtrip:
  "VersionsCell_to_raw vs = Inr raw \<Longrightarrow> VersionsCell_from_raw raw = vs"
  by (auto simp: VersionsCell_to_raw_def VersionsCell_from_raw_def Let_def dest!: unpack_Hs_pack)

lemma certs_item_raises [raises_intros]: "ChannelError \<in> S \<Longrightarrow> raises_only S (certs_item d i)"
  unfolding certs_item_def Let_def by (intro raises_intros) auto

interpretation certs_block: item_codec cert_entry_bytes certs_item cert_entry_wf
proof
  fix x :: "int \<times> bytes" and pre post :: bytes
  assume wf: "cert_entry_wf x"
  have s: "py_slice (length pre + 1) (length pre + 3) (pre @ cert_entry_bytes x @ post)
      = be_enc 2 (int (length (snd x)))"
    by (simp add: py_slice_def cert_entry_bytes_def be_enc_1)
  have l: "be_int (be_enc 2 (int (length (snd x)))) = int (length (snd x))"
    using wf by (intro be_int_enc) (auto simp: cert_entry_wf_def)
  have b: "py_slice (length pre + 3) (length pre + 3 + length (snd x)) (pre @ cert_entry_bytes x @ post) = snd x"
    by (simp add: py_slice_def cert_entry_bytes_def be_enc_1)
  have t: "byte_at (pre @ cert_entry_bytes x @ post) (length pre) = Inr (fst x)"
    using wf by (simp add: byte_at_def cert_entry_bytes_def be_enc_1 nth_append cert_entry_wf_def)
  have n: "length (cert_entry_bytes x) = 3 + length (snd x)" by (simp add: cert_entry_bytes_def)
  show "certs_item (pre @ cert_entry_bytes x @ post) (length pre)
      = Inr (x, length pre + length (cert_entry_bytes x))"
    unfolding certs_item_def t s using b by (simp add: Let_def l n)
next
  fix i j :: nat and d :: bytes and x
  assume i: "i \<le> length d" and x: "certs_item d i = Inr (x, j)"
  from x have i3: "i + 3 \<le> length d"
    and x1: "x = (uint (d ! i), py_slice (i + 3) j d)"
    and j: "j = i + 3 + nat (be_int (py_slice (i + 1) (i + 3) d))" "j \<le> length d"
    by (auto simp: certs_item_def Let_def unpack_Inr_iff byte_at_Inr_iff split: if_splits)
  let ?l = "py_slice (i + 1) (i + 3) d"
  have l2: "length ?l = 2" using i3 by simp
  have len: "length (snd x) = nat (be_int ?l)" using x1 j by simp
  have "cert_entry_bytes x = [d ! i] @ ?l @ py_slice (i + 3) j d"
    using x1 len be_enc_int [OF l2] by (simp add: cert_entry_bytes_def)
  moreover have "py_slice i j d = [d ! i] @ ?l @ py_slice (i + 3) j d"
    using i3 j slice_join [of "i + 1" "i + 3" j d] slice_Cons_nth [of i d j] by simp
  ultimately show "cert_entry_wf x \<and> i \<le> j \<and> j \<le> length d \<and> py_slice i j d = cert_entry_bytes x"
    using j x1 len be_int_bounds2 [OF l2] byte_range [of "d ! i"] by (simp add: cert_entry_wf_def)
qed

lemma rmap_cert_entry_iff:
  "rmap cert_entry cs = Inr es \<longleftrightarrow> list_all cert_entry_wf cs \<and> es = map cert_entry_bytes cs"
  by (induction cs arbitrary: es) (auto simp: cert_entry_Inr_iff)

lemma CertsCell_parses_back:
  assumes "CertsCell_to_raw certs cid = Inr raw" "payload raw' = payload raw @ extra"
  shows "CertsCell_from_raw raw' = Inr certs"
proof -
  from assms have wf: "list_all cert_entry_wf certs" "length certs < 256"
    and d: "payload raw' = [word_of_int (int (length certs))] @ concat (map cert_entry_bytes certs) @ extra"
    by (auto simp: CertsCell_to_raw_def rmap_cert_entry_iff be_enc_1 raw_of_def)
  from certs_block.counted_roundtrip [OF wf(1), of "[word_of_int (int (length certs))]" extra] wf d
  show "CertsCell_from_raw raw' = Inr certs" by (simp add: CertsCell_from_raw_def)
qed

text \<open>Parsing a CERTS payload succeeds exactly on the serialisations of a certificate list (with whatever trails it), and returns that list: no two lists share an encoding and nothing else is accepted.\<close>

theorem CertsCell_from_raw_exact:
  "CertsCell_from_raw raw = Inr certs \<longleftrightarrow>
     (\<exists>cid body extra. CertsCell_to_raw certs cid = Inr (raw_of cid Cell_CERTS body)
        \<and> payload raw = body @ extra)"
  (is "_ \<longleftrightarrow> ?R")
proof
  let ?d = "payload raw"
  assume "CertsCell_from_raw raw = Inr certs"
  then obtain j where ne: "?d \<noteq> []"
    and p: "repeat_parse (nat (uint (?d ! 0))) (certs_item ?d) 1 = Inr (certs, j)"
    by (auto simp: CertsCell_from_raw_def byte_at_Inr_iff split: if_splits)
  from ne have le: "1 \<le> length ?d" by (cases ?d) auto
  from certs_block.counted_sound [OF le p] repeat_parse_length [OF p] 
  have c: "list_all cert_entry_wf certs" "1 \<le> j" "j \<le> length ?d"
    "py_slice 1 j ?d = concat (map cert_entry_bytes certs)" "int (length certs) = uint (?d ! 0)"
    using byte_range [of "?d ! 0"] by auto
  then have "CertsCell_to_raw certs 0 = Inr (raw_of 0 Cell_CERTS (py_slice 0 j ?d))"
    using le ne byte_range [of "?d ! 0"] slice_Cons_nth [of 0 ?d j]
    by (simp add: CertsCell_to_raw_def rmap_cert_entry_iff [THEN iffD2] del: slice_0)
  moreover have "?d = py_slice 0 j ?d @ drop j ?d" using c by simp
  ultimately show ?R by blast
next
  assume ?R
  then obtain cid body extra where "CertsCell_to_raw certs cid = Inr (raw_of cid Cell_CERTS body)"
    "payload raw = body @ extra" by blast
  then show "CertsCell_from_raw raw = Inr certs"
    using CertsCell_parses_back [of certs cid "raw_of cid Cell_CERTS body" raw extra] by (simp add: raw_of_def)
qed

lemma CertsCell_from_raw_raises: "raises_only {ChannelError} (CertsCell_from_raw raw)"
  unfolding CertsCell_from_raw_def by (intro raises_intros) auto

lemma NetInfoCell_from_raw_raises: "raises_only {ChannelError} (NetInfoCell_from_raw raw)"
  unfolding NetInfoCell_from_raw_def Let_def by (intro raises_intros) auto


lemma concat_encode_Some: "concat (map encode_address ips) = concat (map encode_optional_address (map Some ips))"
  by (simp add: o_def)

lemma map_filter_Some [simp]: "List.map_filter id (map Some xs) = xs"
  by (induction xs) (simp_all add: map_filter_def)

lemma length_encode_optional: "2 \<le> length (encode_optional_address x)"
  by (cases x) (simp, case_tac a, simp_all)

lemma NetInfoCell_parses_back:
  assumes raw: "NetInfoCell_to_raw n cid = Inr raw"
    and wf: "opt_ip_wf (ni_other n)" "list_all ip_wf (ni_mine n)"
    and pad: "payload raw' = payload raw @ pad"
  shows "NetInfoCell_from_raw raw' = Inr n"
proof -
  let ?ts = "be_enc 4 (ni_timestamp n)" and ?o = "encode_optional_address (ni_other n)"
  let ?k = "length (ni_mine n)"
  let ?m = "concat (map encode_optional_address (map Some (ni_mine n)))"
  from raw have ts: "0 \<le> ni_timestamp n" "ni_timestamp n < 4294967296" and k: "?k < 256"
    and d: "payload raw' = ?ts @ ?o @ be_enc 1 (int ?k) @ ?m @ pad"
    by (auto simp: NetInfoCell_to_raw_def pad concat_encode_Some raw_of_def)
  from netinfo_address.dec_enc [OF wf(1), of ?ts "be_enc 1 (int ?k) @ ?m @ pad"]
  have a: "decode_address (payload raw') 4 = Inr (ni_other n, 4 + length ?o)"
    by (simp add: d)
  have b: "byte_at (payload raw') (4 + length ?o) = Inr (int ?k)"
    using k by (simp add: d byte_at_def nth_append be_enc_1)
  have "list_all opt_ip_wf (map Some (ni_mine n))" using wf(2) by (simp add: list_all_iff)
  from netinfo_address.counted_roundtrip [OF this, of "?ts @ ?o @ be_enc 1 (int ?k)" pad]
  have c: "repeat_parse ?k (decode_address (payload raw')) (4 + length ?o + 1)
      = Inr (map Some (ni_mine n), 4 + length ?o + 1 + length ?m)"
    by (simp add: d)
  have t: "unpack_I (take 4 (payload raw')) = Inr (ni_timestamp n)"
    using ts by (simp add: d be_int_enc)
  have l: "4 \<le> length (payload raw')" "4 + length ?o < length (payload raw')" by (simp_all add: d)
  show ?thesis
    unfolding NetInfoCell_from_raw_def Let_def t using l a b c by simp
qed

text \<open>A NETINFO cell parses back to the timestamp, the peer address and the own addresses it was built from, whatever padding follows it in the fixed-length cell.\<close>

theorem NetInfoCell_roundtrip:
  assumes raw: "NetInfoCell_to_raw n cid = Inr raw"
    and wf: "opt_ip_wf (ni_other n)" "list_all ip_wf (ni_mine n)"
    and pad: "payload raw' = payload raw @ pad"
  shows "NetInfoCell_from_raw raw' = Inr n"
  by (rule NetInfoCell_parses_back [OF assms])

lemma Create2Cell_roundtrip:
  "Create2Cell_to_raw c cid = Inr raw \<Longrightarrow> payload raw' = payload raw @ pad \<Longrightarrow>
    Create2Cell_from_raw raw' = Inr c"
  by (auto simp: Create2Cell_to_raw_def Create2Cell_from_raw_def Let_def be_int_enc py_slice_def)

lemma Created2Cell_roundtrip:
  "Created2Cell_to_raw hdata cid = Inr raw \<Longrightarrow> payload raw' = payload raw @ pad \<Longrightarrow>
    Created2Cell_from_raw raw' = Inr hdata"
  by (auto simp: Created2Cell_to_raw_def Created2Cell_from_raw_def Let_def be_int_enc py_slice_def)

lemma DestroyCell_roundtrip:
  "DestroyCell_to_raw r cid = Inr raw \<Longrightarrow> payload raw' = payload raw @ pad \<Longrightarrow>
    DestroyCell_from_raw raw' = r"
  by (auto simp: DestroyCell_to_raw_def DestroyCell_from_raw_def be_enc_1)

text \<open>C36: cells packed back to back and delivered over the TLS socket are read back one by one as they were sent (fixed-length bodies zero-padded to 509 bytes), whatever way the network splits the bytes into chunks, and the bytes that follow stay unread.\<close>

theorem cells_survive_segmentation:
  assumes "list_all2 (\<lambda>c bs. RawCell_pack c v = Inr bs) cs bss"
    and "\<forall>c\<in>set cs. command c = cell_num Cell_VERSIONS \<longrightarrow> v < 4"
    and "transport_avail t = concat bss @ rest"
  shows "\<exists>t'. read_cells recv_exact v (length cs) t = (t', Inr (map on_wire cs)) \<and> transport_avail t' = rest"
proof -
  from assms(1,2) have "list_all (frameable v) cs \<and> bss = map (frame v) cs"
    by (induction rule: list_all2_induct) (auto dest: RawCell_pack_frameable)
  then show ?thesis using tls.read_cells_frames [of v cs t rest] assms(3) by simp
qed

theorem cells_survive_segmentation_witness:
  "\<exists>t'. read_cells recv_exact 4 2
      \<lparr>tr_sock = Some [Chunk [0, 0, 0], Chunk [0, 129, 0, 2, 7], Chunk [8, 128, 0, 0], Chunk [1, 130],
          Chunk [0, 0, 5]],
        tr_send_fails = False, tr_sent = [], tr_cert_digest = [], tr_open_fds = 1\<rparr>
      = (t', Inr [\<lparr>circ_id = 0, command = 129, payload = [7, 8]\<rparr>,
          \<lparr>circ_id = 0x80000001, command = 130, payload = []\<rparr>]) \<and> transport_avail t' = [5]"
proof -
  let ?a = "\<lparr>circ_id = 0, command = 129, payload = [7, 8]\<rparr>"
  let ?b = "\<lparr>circ_id = 0x80000001, command = 130, payload = []\<rparr>"
  have p: "list_all2 (\<lambda>c bs. RawCell_pack c 4 = Inr bs) [?a, ?b]
      [[0, 0, 0, 0, 129, 0, 2, 7, 8], [128, 0, 0, 1, 130, 0, 0]]"
    by (simp add: RawCell_pack_def circid_len_def is_variable_cell_def be_enc_unfold)
  let ?t = "\<lparr>tr_sock = Some [Chunk [0, 0, 0], Chunk [0, 129, 0, 2, 7], Chunk [8, 128, 0, 0],
      Chunk [1, 130], Chunk [0, 0, 5]],
    tr_send_fails = False, tr_sent = [], tr_cert_digest = [], tr_open_fds = 1\<rparr>"
  have av: "transport_avail ?t = concat [[0, 0, 0, 0, 129, 0, 2, 7, 8], [128, 0, 0, 1, 130, 0, 0]] @ [5]"
    by (simp add: transport_avail_def)
  show ?thesis
    using cells_survive_segmentation [OF p _ av]
    by (simp add: on_wire_def is_variable_cell_def numeral_2_eq_2 del: read_cells.simps)
qed

theorem NetInfoCell_roundtrip_witness:
  "NetInfoCell_from_raw (raw_of 0 Cell_NETINFO
      ([0, 0, 1, 0] @ [4, 4, 192, 0, 2, 1] @ [1] @ [4, 4, 10, 0, 0, 1] @ [0, 0, 0]))
    = Inr \<lparr>ni_timestamp = 256, ni_other = Some (IPv4 [192, 0, 2, 1]), ni_mine = [IPv4 [10, 0, 0, 1]]\<rparr>"
  by (rule NetInfoCell_roundtrip [where cid = 0 and pad = "[0, 0, 0]"
        and raw = "raw_of 0 Cell_NETINFO ([0, 0, 1, 0] @ [4, 4, 192, 0, 2, 1] @ [1] @ [4, 4, 10, 0, 0, 1])"])
    (simp_all add: NetInfoCell_to_raw_def be_enc_unfold)

text \<open>The parsers of the link handshake fail loud with the typed channel error only: no
truncated or hostile CERTS or NETINFO payload and no short read escapes as an index or struct error.\<close>

theorem link_parsers_raise_ChannelError:
  "raises_only {ChannelError} (CertsCell_from_raw raw)
    \<and> raises_only {ChannelError} (NetInfoCell_from_raw raw)
    \<and> raises_only {ChannelError} (snd (read_cell recv_exact v t))"
  by (simp add: CertsCell_from_raw_raises NetInfoCell_from_raw_raises tls.read_cell_raises)

end
