(* ===== verification/Crypto.thy ===== *)
theory Crypto
  imports Constants
begin

text \<open>
  The cryptographic building blocks (\<open>_crypto/primitives.py\<close>). The hash functions, HMAC, the curve
  operations and the AES block keystream come from \<open>hashlib\<close>, \<open>cryptography\<close> and PyNaCl, so they
  are the fields of a record \<open>prims\<close> every definition that uses them takes; what the wrappers of
  the source add (the HKDF loop, the error conversions, the AES-CTR context with its running
  position) is defined here. \<open>prims_ok\<close> states the documented output lengths.
\<close>

datatype digest_alg = SHA1 | SHA256 | SHA3_256

text \<open>The documented outcomes of loading an Ed25519 public key and verifying a signature with it.\<close>

datatype ed_outcome = Ed_verified | Ed_InvalidSignature | Ed_ValueError

record prims =
  hash :: "digest_alg \<Rightarrow> bytes \<Rightarrow> bytes"
  shake256 :: "bytes \<Rightarrow> nat \<Rightarrow> bytes"
  hmac_sha256 :: "bytes \<Rightarrow> bytes \<Rightarrow> bytes"
  aes_keystream :: "bytes \<Rightarrow> bytes \<Rightarrow> nat \<Rightarrow> byte"    \<comment> \<open>key, initial counter block, position\<close>
  dh_exchange :: "bytes \<Rightarrow> bytes \<Rightarrow> bytes option"    \<comment> \<open>private, public; \<open>None\<close> for a ValueError\<close>
  dh_public :: "bytes \<Rightarrow> bytes"
  ed_check :: "bytes \<Rightarrow> bytes \<Rightarrow> bytes \<Rightarrow> ed_outcome"   \<comment> \<open>public, signature, message\<close>
  ed_valid_point :: "bytes \<Rightarrow> bool"
  ed_scalarmult :: "bytes \<Rightarrow> bytes \<Rightarrow> bytes option"

fun digest_size :: "digest_alg \<Rightarrow> nat" where
  "digest_size SHA1 = 20"
| "digest_size SHA256 = 32"
| "digest_size SHA3_256 = 32"

definition prims_ok :: "prims \<Rightarrow> bool" where
  "prims_ok P \<longleftrightarrow>
     (\<forall>alg m. length (hash P alg m) = digest_size alg) \<and>
     (\<forall>m n. length (shake256 P m n) = n) \<and>
     (\<forall>k m. length (hmac_sha256 P k m) = 32) \<and>
     (\<forall>x y z. dh_exchange P x y = Some z \<longrightarrow> length x = 32 \<and> length y = 32 \<and> length z = 32) \<and>
     (\<forall>x. length (dh_public P x) = 32)"

lemma prims_okD:
  "prims_ok P \<Longrightarrow> length (hash P alg m) = digest_size alg"
  "prims_ok P \<Longrightarrow> length (shake256 P m n) = n"
  "prims_ok P \<Longrightarrow> length (hmac_sha256 P k m) = 32"
  "prims_ok P \<Longrightarrow> length (dh_public P x) = 32"
  by (simp_all add: prims_ok_def)

lemma dh_lengths:
  "prims_ok P \<Longrightarrow> dh_exchange P x y = Some z \<Longrightarrow> length x = 32 \<and> length y = 32 \<and> length z = 32"
  by (simp add: prims_ok_def)

definition sha3_256 :: "prims \<Rightarrow> bytes \<Rightarrow> bytes" where
  "sha3_256 P data = hash P SHA3_256 data"

definition const_time_eq :: "bytes \<Rightarrow> bytes \<Rightarrow> bool" where
  [simp]: "const_time_eq a b \<longleftrightarrow> a = b"

definition ed25519_verify :: "prims \<Rightarrow> bytes \<Rightarrow> bytes \<Rightarrow> bytes \<Rightarrow> bool" where
  "ed25519_verify P public signature message =
     (case ed_check P public signature message of
        Ed_InvalidSignature \<Rightarrow> False
      | Ed_ValueError \<Rightarrow> False
      | Ed_verified \<Rightarrow> True)"

definition x25519 :: "prims \<Rightarrow> bytes \<Rightarrow> bytes \<Rightarrow> bytes res" where
  "x25519 P private public =
     (case dh_exchange P private public of None \<Rightarrow> Inl ValueError | Some z \<Rightarrow> Inr z)"

lemma x25519_Inr_iff: "x25519 P x y = Inr z \<longleftrightarrow> dh_exchange P x y = Some z"
  by (simp add: x25519_def split: option.splits)

lemma x25519_raises: "raises_only {ValueError} (x25519 P x y)"
  by (simp add: x25519_def raises_only_def split: option.splits)

definition x25519_public_from_private :: "prims \<Rightarrow> bytes \<Rightarrow> bytes res" where
  "x25519_public_from_private P private =
     (if length private = 32 then Inr (dh_public P private) else Inl ValueError)"

text \<open>Diffie-Hellman agreement: both sides compute the same shared secret (or both reject).\<close>

definition dh_commutes :: "prims \<Rightarrow> bool" where
  "dh_commutes P \<longleftrightarrow> (\<forall>x y. length x = 32 \<longrightarrow> length y = 32 \<longrightarrow>
     dh_exchange P x (dh_public P y) = dh_exchange P y (dh_public P x))"

section \<open>HKDF-Expand\<close>

text \<open>
  The \<open>while len(okm) < length\<close> loop: \<open>okm\<close> the output so far, \<open>block\<close> the previous block. It
  ends whatever HMAC returns, because the counter byte overflows after 255 turns.
\<close>

function hkdf_loop :: "prims \<Rightarrow> bytes \<Rightarrow> bytes \<Rightarrow> nat \<Rightarrow> bytes \<Rightarrow> bytes \<Rightarrow> int \<Rightarrow> bytes res" where
  "hkdf_loop P prk info n okm block counter =
     (if n \<le> length okm then Inr (take n okm)
      else rbind (byte1 counter) (\<lambda>c.
        let block' = hmac_sha256 P prk (block @ info @ c)
        in hkdf_loop P prk info n (okm @ block') block' (counter + 1)))"
  by pat_completeness auto
termination
  by (relation "measure (\<lambda>(P, prk, info, n, okm, block, counter). nat (256 - counter))") auto

declare hkdf_loop.simps [simp del]

definition hkdf_sha256_expand :: "prims \<Rightarrow> bytes \<Rightarrow> bytes \<Rightarrow> int \<Rightarrow> bytes res" where
  "hkdf_sha256_expand P prk info n =
     (if n < 0 then Inl ValueError
      else if 255 * 32 < n then Inl ValueError
      else hkdf_loop P prk info (nat n) [] [] 1)"

text \<open>RFC 5869: \<open>T(i) = HMAC(prk, T(i-1) | info | i)\<close>, and the output is a prefix of \<open>T(1) | T(2) | \<dots>\<close>.\<close>

fun hkdf_T :: "prims \<Rightarrow> bytes \<Rightarrow> bytes \<Rightarrow> nat \<Rightarrow> bytes" where
  "hkdf_T P prk info 0 = []"
| "hkdf_T P prk info (Suc i) =
     hmac_sha256 P prk (hkdf_T P prk info i @ info @ be_enc 1 (int (Suc i)))"

definition hkdf_stream :: "prims \<Rightarrow> bytes \<Rightarrow> bytes \<Rightarrow> nat \<Rightarrow> bytes" where
  "hkdf_stream P prk info k = concat (map (\<lambda>i. hkdf_T P prk info (Suc i)) [0..<k])"

lemma length_hkdf_stream: "prims_ok P \<Longrightarrow> length (hkdf_stream P prk info k) = 32 * k"
  by (induction k) (simp_all add: hkdf_stream_def prims_okD)

lemma hkdf_stream_Suc:
  "hkdf_stream P prk info (Suc k) = hkdf_stream P prk info k @ hkdf_T P prk info (Suc k)"
  by (simp add: hkdf_stream_def)

lemma hkdf_loop_stream:
  assumes ok: "prims_ok P"
  shows "n \<le> 255 * 32 \<Longrightarrow> k \<le> 255 \<Longrightarrow> 32 * k < n + 32 \<Longrightarrow>
    hkdf_loop P prk info n (hkdf_stream P prk info k) (hkdf_T P prk info k) (int k + 1)
      = Inr (take n (hkdf_stream P prk info ((n + 31) div 32)))"
proof (induction "256 - k" arbitrary: k)
  case 0
  then show ?case by simp
next
  case (Suc m)
  let ?okm = "hkdf_stream P prk info k"
  have len: "length ?okm = 32 * k" by (rule length_hkdf_stream [OF ok])
  show ?case
  proof (cases "n \<le> 32 * k")
    case True
    then have "k = (n + 31) div 32" using Suc.prems by simp
    then show ?thesis using True len by (simp add: hkdf_loop.simps)
  next
    case False
    then have k: "k < 255" using Suc.prems by simp
    let ?T = "hkdf_T P prk info (Suc k)"
    have b: "byte1 (int k + 1) = Inr (be_enc 1 (int (Suc k)))" using k by (simp add: add.commute)
    have "hkdf_loop P prk info n ?okm (hkdf_T P prk info k) (int k + 1)
        = hkdf_loop P prk info n (?okm @ ?T) ?T (int (Suc k) + 1)"
      using False len b by (subst hkdf_loop.simps) (simp add: Let_def add.commute)
    also have "\<dots> = Inr (take n (hkdf_stream P prk info ((n + 31) div 32)))"
      unfolding hkdf_stream_Suc [symmetric]
      by (rule Suc.hyps(1)) (use Suc.hyps(2) Suc.prems k False in simp_all)
    finally show ?thesis .
  qed
qed

lemma hkdf_sha256_expand_stream:
  assumes "prims_ok P" "0 \<le> n" "n \<le> 255 * 32"
  shows "hkdf_sha256_expand P prk info n
    = Inr (take (nat n) (hkdf_stream P prk info ((nat n + 31) div 32)))"
  using hkdf_loop_stream [OF assms(1), of "nat n" 0 prk info] assms(2,3)
  by (simp add: hkdf_sha256_expand_def hkdf_stream_def nat_le_iff)

lemma hkdf_sha256_expand_total:
  "prims_ok P \<Longrightarrow> 0 \<le> n \<Longrightarrow> n \<le> 255 * 32 \<Longrightarrow>
    \<exists>okm. hkdf_sha256_expand P prk info n = Inr okm \<and> length okm = nat n"
  by (simp add: hkdf_sha256_expand_stream length_hkdf_stream)

lemma hkdf_sha256_expand_length:
  "prims_ok P \<Longrightarrow> 0 \<le> n \<Longrightarrow> n \<le> 255 * 32 \<Longrightarrow>
    hkdf_sha256_expand P prk info n = Inr okm \<Longrightarrow> length okm = nat n"
  by (auto simp: hkdf_sha256_expand_stream length_hkdf_stream)

section \<open>AES-CTR contexts\<close>

text \<open>
  A \<open>CipherContext\<close>: the key, the initial counter block and how many keystream bytes it has used.
  \<open>update\<close> xors the data with the keystream at the running position, which it advances.
\<close>

unbundle bit_operations_syntax

record ctr_ctx =
  ctr_key :: bytes
  ctr_iv :: bytes
  ctr_pos :: nat

definition ZERO_IV16 :: bytes where
  "ZERO_IV16 = zeros 16"

lemma length_ZERO_IV16 [simp]: "length ZERO_IV16 = 16"
  by (simp add: ZERO_IV16_def)

definition ctr_cipher :: "bytes \<Rightarrow> bytes \<Rightarrow> ctr_ctx res" where
  "ctr_cipher key iv =
     (if length key \<notin> {16, 32} then Inl ValueError
      else if length iv \<noteq> 16 then Inl ValueError
      else Inr \<lparr>ctr_key = key, ctr_iv = iv, ctr_pos = 0\<rparr>)"

fun xor_stream :: "(nat \<Rightarrow> byte) \<Rightarrow> nat \<Rightarrow> bytes \<Rightarrow> bytes" where
  "xor_stream ks p [] = []"
| "xor_stream ks p (b # bs) = (b XOR ks p) # xor_stream ks (Suc p) bs"

definition ctr_update :: "prims \<Rightarrow> ctr_ctx \<Rightarrow> bytes \<Rightarrow> ctr_ctx \<times> bytes" where
  "ctr_update P c data =
     (c\<lparr>ctr_pos := ctr_pos c + length data\<rparr>,
      xor_stream (aes_keystream P (ctr_key c) (ctr_iv c)) (ctr_pos c) data)"

definition aes_ctr :: "prims \<Rightarrow> bytes \<Rightarrow> bytes \<Rightarrow> bytes \<Rightarrow> bytes res" where
  "aes_ctr P key iv data = rbind (ctr_cipher key iv) (\<lambda>c. Inr (snd (ctr_update P c data)))"

lemma length_xor_stream [simp]: "length (xor_stream ks p bs) = length bs"
  by (induction bs arbitrary: p) simp_all

lemma xor_stream_twice [simp]: "xor_stream ks p (xor_stream ks p bs) = bs"
  by (induction bs arbitrary: p) (simp_all add: xor.assoc)

lemma xor_stream_commute:
  "xor_stream ks p (xor_stream ks' q bs) = xor_stream ks' q (xor_stream ks p bs)"
  by (induction bs arbitrary: p q) (simp_all add: xor.assoc xor.commute xor.left_commute)

lemma ctr_update_length [simp]: "length (snd (ctr_update P c data)) = length data"
  by (simp add: ctr_update_def)

text \<open>CTR is symmetric: a second context at the same position undoes the first.\<close>

lemma ctr_update_symmetric:
  "ctr_update P c data = (c', enc) \<Longrightarrow> ctr_update P c enc = (c', data)"
  by (auto simp: ctr_update_def)

lemma aes_ctr_symmetric: "aes_ctr P key iv data = Inr enc \<Longrightarrow> aes_ctr P key iv enc = Inr data"
  by (auto simp: aes_ctr_def ctr_update_def)

section \<open>Concrete primitives\<close>

text \<open>Functions of the documented shapes, on which the hypotheses about the primitives hold.\<close>

definition xor_zip :: "bytes \<Rightarrow> bytes \<Rightarrow> bytes" where
  "xor_zip a b = map2 (\<lambda>x y. x XOR y) a b"

definition toy_prims :: prims where
  "toy_prims = \<lparr>hash = (\<lambda>alg m. replicate (digest_size alg) (of_nat (length m))),
    shake256 = (\<lambda>m n. replicate n 5), hmac_sha256 = (\<lambda>k m. replicate 32 (of_nat (length m))),
    aes_keystream = (\<lambda>k iv i. of_nat i + 1), dh_exchange = (\<lambda>x y. if length x = 32 \<and> length y = 32 then Some (xor_zip x y) else None),
    dh_public = (\<lambda>x. if length x = 32 then x else zeros 32), ed_check = (\<lambda>p s m. Ed_verified), ed_valid_point = (\<lambda>p. True),
    ed_scalarmult = (\<lambda>s p. Some p)\<rparr>"

lemma toy_prims_ok: "prims_ok toy_prims"
  by (simp add: prims_ok_def toy_prims_def xor_zip_def)

lemma toy_prims_commute: "dh_commutes toy_prims"
proof -
  have "xor_zip x y = xor_zip y x" for x y
    unfolding xor_zip_def by (induction x y rule: list_induct2') (simp_all add: xor.commute)
  then show ?thesis by (simp add: dh_commutes_def toy_prims_def)
qed

end
