(* ===== verification/LinkSpec.thy ===== *)
theory LinkSpec
  imports Cells
begin

text \<open>
  Link specifiers (\<open>_proto/linkspec.py\<close>) and the relay reference that builds them for an EXTEND2
  cell (\<open>_net/hop.py\<close>). A host is an IP address (its packed bytes) or any other text, which
  \<open>ipaddress\<close> rejects with a \<open>ValueError\<close>. The counted block is an instance of \<open>item_codec\<close>, so
  its round trip and its canonicality come from the interface.
\<close>

datatype host = HostIP ip_addr | HostName string

record link_spec =
  ls_type :: int
  ls_data :: bytes

definition LinkSpecifier_pack :: "link_spec \<Rightarrow> bytes res" where
  "LinkSpecifier_pack s =
    (if 255 < length (ls_data s) then Inl ValueError
     else rbind (byte1 (ls_type s)) (\<lambda>t. rbind (byte1 (int (length (ls_data s)))) (\<lambda>l.
       Inr (t @ l @ ls_data s))))"

definition mk_link_spec :: "link_spec_type \<Rightarrow> bytes \<Rightarrow> link_spec" where
  "mk_link_spec t d = \<lparr>ls_type = link_spec_num t, ls_data = d\<rparr>"

fun LinkSpecifier_ipv4 :: "host \<Rightarrow> int \<Rightarrow> link_spec res" where
  "LinkSpecifier_ipv4 (HostIP (IPv4 packed)) port =
     rbind (pack_H port) (\<lambda>p. Inr (mk_link_spec LinkSpec_IPV4 (packed @ p)))"
| "LinkSpecifier_ipv4 _ port = Inl ValueError"

fun LinkSpecifier_ipv6 :: "host \<Rightarrow> int \<Rightarrow> link_spec res" where
  "LinkSpecifier_ipv6 (HostIP (IPv6 packed)) port =
     rbind (pack_H port) (\<lambda>p. Inr (mk_link_spec LinkSpec_IPV6 (packed @ p)))"
| "LinkSpecifier_ipv6 _ port = Inl ValueError"

definition LinkSpecifier_legacy_id :: "bytes \<Rightarrow> link_spec res" where
  "LinkSpecifier_legacy_id d =
     (if length d \<noteq> 20 then Inl ValueError else Inr (mk_link_spec LinkSpec_LEGACY_ID d))"

definition LinkSpecifier_ed25519_id :: "bytes \<Rightarrow> link_spec res" where
  "LinkSpecifier_ed25519_id d =
     (if length d \<noteq> 32 then Inl ValueError else Inr (mk_link_spec LinkSpec_ED25519_ID d))"

definition LinkSpecifier_endpoint :: "link_spec \<Rightarrow> (host \<times> int) res" where
  "LinkSpecifier_endpoint s =
    (if ls_type s = link_spec_num LinkSpec_IPV4 then
       if length (ls_data s) \<noteq> 6 then Inl ValueError
       else rbind (unpack_H (py_slice 4 6 (ls_data s))) (\<lambda>port.
            Inr (HostIP (IPv4 (take 4 (ls_data s))), port))
     else if ls_type s = link_spec_num LinkSpec_IPV6 then
       if length (ls_data s) \<noteq> 18 then Inl ValueError
       else rbind (unpack_H (py_slice 16 18 (ls_data s))) (\<lambda>port.
            Inr (HostIP (IPv6 (take 16 (ls_data s))), port))
     else Inl ValueError)"

definition pack_block :: "link_spec list \<Rightarrow> bytes res" where
  "pack_block specs =
    (if 255 < length specs then Inl ValueError
     else rbind (byte1 (int (length specs))) (\<lambda>n. rbind (rmap LinkSpecifier_pack specs) (\<lambda>ps.
       Inr (n @ concat ps))))"

definition link_spec_item :: "bytes \<Rightarrow> nat \<Rightarrow> (link_spec \<times> nat) res" where
  "link_spec_item data offset =
    (if length data < offset + 2 then Inl ValueError
     else rbind (byte_at data offset) (\<lambda>lstype. rbind (byte_at data (offset + 1)) (\<lambda>lslen.
       let offset' = offset + 2 in
       if length data < offset' + nat lslen then Inl ValueError
       else Inr (\<lparr>ls_type = lstype, ls_data = py_slice offset' (offset' + nat lslen) data\<rparr>,
                 offset' + nat lslen))))"

definition parse_block :: "bytes \<Rightarrow> link_spec list res" where
  "parse_block data =
    (if data = [] then Inl ValueError
     else rbind (byte_at data 0) (\<lambda>count.
          rbind (repeat_parse (nat count) (link_spec_item data) 1) (\<lambda>(specs, _). Inr specs)))"

section \<open>The block codec\<close>

definition link_spec_wf :: "link_spec \<Rightarrow> bool" where
  "link_spec_wf s \<longleftrightarrow> 0 \<le> ls_type s \<and> ls_type s < 256 \<and> length (ls_data s) < 256"

definition link_spec_bytes :: "link_spec \<Rightarrow> bytes" where
  "link_spec_bytes s = be_enc 1 (ls_type s) @ be_enc 1 (int (length (ls_data s))) @ ls_data s"

lemma LinkSpecifier_pack_Inr_iff:
  "LinkSpecifier_pack s = Inr bs \<longleftrightarrow> link_spec_wf s \<and> bs = link_spec_bytes s"
  by (auto simp: LinkSpecifier_pack_def link_spec_wf_def link_spec_bytes_def)

lemma rmap_link_spec_iff:
  "rmap LinkSpecifier_pack ss = Inr bs \<longleftrightarrow> list_all link_spec_wf ss \<and> bs = map link_spec_bytes ss"
  by (induction ss arbitrary: bs) (auto simp: LinkSpecifier_pack_Inr_iff)

lemma link_spec_item_raises [raises_intros]:
  "ValueError \<in> S \<Longrightarrow> raises_only S (link_spec_item d i)"
  unfolding link_spec_item_def Let_def by (intro raises_intros) auto

lemma parse_block_raises: "raises_only {ValueError} (parse_block data)"
  unfolding parse_block_def by (intro raises_intros) auto

interpretation link_specs: item_codec link_spec_bytes link_spec_item link_spec_wf
proof
  fix x :: link_spec and pre post :: bytes
  assume "link_spec_wf x"
  then show "link_spec_item (pre @ link_spec_bytes x @ post) (length pre)
      = Inr (x, length pre + length (link_spec_bytes x))"
    by (simp add: link_spec_item_def link_spec_bytes_def link_spec_wf_def byte_at_def nth_append
        be_enc_1 py_slice_def)
next
  fix i j :: nat and d :: bytes and x
  assume i: "i \<le> length d" and x: "link_spec_item d i = Inr (x, j)"
  then have i2: "i + 2 \<le> length d" and j: "j = i + 2 + unat (d ! (i + 1))" "j \<le> length d"
    and x1: "x = \<lparr>ls_type = uint (d ! i), ls_data = py_slice (i + 2) j d\<rparr>"
    by (auto simp: link_spec_item_def Let_def byte_at_Inr_iff split: if_splits)
  have "py_slice i j d = d ! i # d ! (i + 1) # py_slice (i + 2) j d"
    using i2 j slice_Cons_nth [of i d j] slice_Cons_nth [of "Suc i" d j] by simp
  moreover have "length (ls_data x) = unat (d ! (i + 1))" using x1 j by simp
  moreover note unat_byte_bound [of "d ! (i + 1)"]
  ultimately show "link_spec_wf x \<and> i \<le> j \<and> j \<le> length d \<and> py_slice i j d = link_spec_bytes x"
    using x1 j byte_range [of "d ! i"] by (simp add: link_spec_wf_def link_spec_bytes_def be_enc_1)
qed

text \<open>A link-specifier block parses exactly when it starts with the packing of the list it
returns, so parsing inverts packing and accepts no second encoding of a list.\<close>

theorem parse_block_exact:
  "parse_block data = Inr specs \<longleftrightarrow> (\<exists>block extra. pack_block specs = Inr block \<and> data = block @ extra)"
  (is "_ \<longleftrightarrow> ?R")
proof
  assume "parse_block data = Inr specs"
  then obtain j where ne: "data \<noteq> []"
    and p: "repeat_parse (nat (uint (data ! 0))) (link_spec_item data) 1 = Inr (specs, j)"
    by (auto simp: parse_block_def byte_at_Inr_iff split: if_splits)
  from ne have le: "1 \<le> length data" by (cases data) auto
  from link_specs.counted_sound [OF le p] repeat_parse_length [OF p]
  have c: "list_all link_spec_wf specs" "1 \<le> j" "j \<le> length data"
    "py_slice 1 j data = concat (map link_spec_bytes specs)" "int (length specs) = uint (data ! 0)"
    using byte_range [of "data ! 0"] by auto
  then have "pack_block specs = Inr (py_slice 0 j data)"
    using le ne byte_range [of "data ! 0"] slice_Cons_nth [of 0 data j]
    by (simp add: pack_block_def rmap_link_spec_iff [THEN iffD2] del: slice_0)
  moreover have "data = py_slice 0 j data @ drop j data" using c by simp
  ultimately show ?R by blast
next
  assume ?R
  then obtain extra where wf: "list_all link_spec_wf specs" "length specs < 256"
    and d: "data = [word_of_nat (length specs)] @ concat (map link_spec_bytes specs) @ extra"
    by (auto simp: pack_block_def rmap_link_spec_iff be_enc_1 split: if_splits)
  from link_specs.counted_roundtrip [OF wf(1), of "[word_of_nat (length specs)]" extra] wf d
  show "parse_block data = Inr specs" by (simp add: parse_block_def)
qed

section \<open>Relay references\<close>

record relay_info =
  ri_host :: host
  ri_port :: int
  ri_ntor_onion_key :: bytes
  ri_identity_digest :: bytes
  ri_ed_identity :: bytes

definition RelayInfo_link_specifiers :: "relay_info \<Rightarrow> link_spec list res" where
  "RelayInfo_link_specifiers r =
     rbind (LinkSpecifier_ipv4 (ri_host r) (ri_port r)) (\<lambda>a.
     rbind (LinkSpecifier_legacy_id (ri_identity_digest r)) (\<lambda>b.
     rbind (LinkSpecifier_ed25519_id (ri_ed_identity r)) (\<lambda>c. Inr [a, b, c])))"

lemma endpoint_ipv4:
  "LinkSpecifier_ipv4 h port = Inr s \<Longrightarrow> (\<And>p. h = HostIP (IPv4 p) \<Longrightarrow> length p = 4)
    \<Longrightarrow> LinkSpecifier_endpoint s = Inr (h, port)"
  by (cases "(h, port)" rule: LinkSpecifier_ipv4.cases)
    (auto simp: LinkSpecifier_endpoint_def mk_link_spec_def py_slice_def be_int_enc)

lemma link_specifiers_wf:
  "RelayInfo_link_specifiers r = Inr specs \<Longrightarrow> (\<And>p. ri_host r = HostIP (IPv4 p) \<Longrightarrow> length p = 4)
    \<Longrightarrow> list_all link_spec_wf specs \<and> length specs = 3"
  by (cases "(ri_host r, ri_port r)" rule: LinkSpecifier_ipv4.cases)
    (auto simp: RelayInfo_link_specifiers_def LinkSpecifier_legacy_id_def LinkSpecifier_ed25519_id_def
      mk_link_spec_def link_spec_wf_def split: if_splits)

end
