(* ===== verification/Certs.thy ===== *)
theory Certs
  imports Crypto Complex_Main
begin

text \<open>
  Tor ed25519 certificates (\<open>_proto/certs.py\<close>): the parser, the signing key of the extension, and
  the verification methods. \<open>cert_body_bytes\<close> is the layout of the class documentation, used to
  state that the parser accepts exactly that layout and that the signature covers every byte before
  it. The extension list is an instance of \<open>item_codec\<close>.
\<close>

record cert_ext =
  ext_type :: int
  ext_flags :: int
  ext_data :: bytes

record ed_cert =
  cert_version :: int
  cert_type :: int
  expiration_hours :: int
  cert_key_type :: int
  certified_key :: bytes
  extensions :: "cert_ext list"
  cert_signature :: bytes
  signed_body :: bytes

definition EXT_SIGNED_WITH_ED25519_KEY :: int where
  [simp]: "EXT_SIGNED_WITH_ED25519_KEY = 4"

definition cert_ext_item :: "bytes \<Rightarrow> nat \<Rightarrow> (cert_ext \<times> nat) res" where
  "cert_ext_item data offset =
    (if length data < offset + 4 then Inl ValueError
     else rbind (unpack_H (py_slice offset (offset + 2) data)) (\<lambda>ext_len.
          rbind (byte_at data (offset + 2)) (\<lambda>etype.
          rbind (byte_at data (offset + 3)) (\<lambda>flags.
          let edata = py_slice (offset + 4) (offset + 4 + nat ext_len) data in
          if int (length edata) \<noteq> ext_len then Inl ValueError
          else Inr (\<lparr>ext_type = etype, ext_flags = flags, ext_data = edata\<rparr>,
                    offset + 4 + nat ext_len)))))"

definition cert_parse :: "bytes \<Rightarrow> ed_cert res" where
  "cert_parse data =
    (if length data < 40 then Inl ValueError
     else rbind (byte_at data 0) (\<lambda>version.
          rbind (byte_at data 1) (\<lambda>ctype.
          rbind (unpack_I (py_slice 2 6 data)) (\<lambda>expiration.
          rbind (byte_at data 6) (\<lambda>key_type.
          rbind (byte_at data 39) (\<lambda>n_ext.
          rbind (repeat_parse (nat n_ext) (cert_ext_item data) 40) (\<lambda>(exts, offset).
          let signature = py_slice offset (offset + 64) data in
          if length signature \<noteq> 64 then Inl ValueError
          else Inr \<lparr>cert_version = version, cert_type = ctype, expiration_hours = expiration,
                    cert_key_type = key_type, certified_key = py_slice 7 39 data,
                    extensions = exts, cert_signature = signature,
                    signed_body = take offset data\<rparr>)))))))"

definition cert_signing_key :: "ed_cert \<Rightarrow> bytes option" where
  "cert_signing_key c =
     map_option ext_data
       (find (\<lambda>e. ext_type e = EXT_SIGNED_WITH_ED25519_KEY \<and> length (ext_data e) = 32) (extensions c))"

definition cert_verify :: "prims \<Rightarrow> ed_cert \<Rightarrow> bytes \<Rightarrow> bool" where
  "cert_verify P c signer = ed25519_verify P signer (cert_signature c) (signed_body c)"

definition cert_verify_self_signed :: "prims \<Rightarrow> ed_cert \<Rightarrow> bool" where
  "cert_verify_self_signed P c =
     (case cert_signing_key c of None \<Rightarrow> False | Some key \<Rightarrow> cert_verify P c key)"

definition cert_is_expired :: "ed_cert \<Rightarrow> real \<Rightarrow> bool" where
  "cert_is_expired c now_unix \<longleftrightarrow> of_int (expiration_hours c * 3600) \<le> now_unix"

section \<open>The layout the parser accepts\<close>

definition cert_ext_wf :: "cert_ext \<Rightarrow> bool" where
  "cert_ext_wf e \<longleftrightarrow> 0 \<le> ext_type e \<and> ext_type e < 256 \<and> 0 \<le> ext_flags e \<and> ext_flags e < 256
     \<and> length (ext_data e) < 65536"

definition cert_ext_bytes :: "cert_ext \<Rightarrow> bytes" where
  "cert_ext_bytes e = be_enc 2 (int (length (ext_data e))) @ be_enc 1 (ext_type e)
     @ be_enc 1 (ext_flags e) @ ext_data e"

definition cert_wf :: "ed_cert \<Rightarrow> bool" where
  "cert_wf c \<longleftrightarrow> 0 \<le> cert_version c \<and> cert_version c < 256 \<and> 0 \<le> cert_type c \<and> cert_type c < 256
     \<and> 0 \<le> expiration_hours c \<and> expiration_hours c < 4294967296
     \<and> 0 \<le> cert_key_type c \<and> cert_key_type c < 256 \<and> length (certified_key c) = 32
     \<and> length (extensions c) < 256 \<and> list_all cert_ext_wf (extensions c)
     \<and> length (cert_signature c) = 64"

definition cert_body_bytes :: "ed_cert \<Rightarrow> bytes" where
  "cert_body_bytes c = be_enc 1 (cert_version c) @ be_enc 1 (cert_type c)
     @ be_enc 4 (expiration_hours c) @ be_enc 1 (cert_key_type c) @ certified_key c
     @ be_enc 1 (int (length (extensions c))) @ concat (map cert_ext_bytes (extensions c))"

lemma cert_ext_item_raises [raises_intros]:
  "ValueError \<in> S \<Longrightarrow> raises_only S (cert_ext_item d i)"
  unfolding cert_ext_item_def Let_def by (intro raises_intros) auto

lemma cert_parse_raises: "raises_only {ValueError} (cert_parse data)"
  unfolding cert_parse_def Let_def by (intro raises_intros) auto

lemma length_cert_ext_bytes [simp]: "length (cert_ext_bytes e) = 4 + length (ext_data e)"
  by (simp add: cert_ext_bytes_def)

interpretation cert_exts: item_codec cert_ext_bytes cert_ext_item cert_ext_wf
proof
  fix x :: cert_ext and pre post :: bytes
  assume wf: "cert_ext_wf x"
  let ?n = "length (ext_data x)"
  have l: "be_int (be_enc 2 (int ?n)) = int ?n" using wf by (intro be_int_enc) (auto simp: cert_ext_wf_def)
  have s: "py_slice (length pre) (length pre + 2) (pre @ cert_ext_bytes x @ post) = be_enc 2 (int ?n)"
    by (simp add: cert_ext_bytes_def py_slice_def)
  have t: "byte_at (pre @ cert_ext_bytes x @ post) (length pre + 2) = Inr (ext_type x)"
      "byte_at (pre @ cert_ext_bytes x @ post) (length pre + 3) = Inr (ext_flags x)"
    using wf by (simp_all add: byte_at_def cert_ext_bytes_def nth_append be_enc_1 cert_ext_wf_def)
  have b: "py_slice (length pre + 4) (length pre + 4 + ?n) (pre @ cert_ext_bytes x @ post) = ext_data x"
    by (simp add: py_slice_def cert_ext_bytes_def be_enc_1)
  show "cert_ext_item (pre @ cert_ext_bytes x @ post) (length pre)
      = Inr (x, length pre + length (cert_ext_bytes x))"
    unfolding cert_ext_item_def s t using b by (simp add: Let_def l add.assoc)
next
  fix i j :: nat and d :: bytes and x
  assume i: "i \<le> length d" and x: "cert_ext_item d i = Inr (x, j)"
  let ?l = "py_slice i (i + 2) d"
  from x have i4: "i + 4 \<le> length d" and j: "j = i + 4 + nat (be_int ?l)"
    and n: "int (length (py_slice (i + 4) j d)) = be_int ?l"
    and x1: "x = \<lparr>ext_type = uint (d ! (i + 2)), ext_flags = uint (d ! (i + 3)),
      ext_data = py_slice (i + 4) j d\<rparr>"
    by (auto simp: cert_ext_item_def Let_def unpack_Inr_iff byte_at_Inr_iff split: if_splits)
  have l2: "length ?l = 2" using i4 by simp
  have jl: "j \<le> length d" using n j i4 be_int_nonneg [of ?l] by (auto simp: min_def split: if_splits)
  have "py_slice i j d = ?l @ d ! (i + 2) # d ! (i + 3) # py_slice (i + 4) j d"
  proof -
    have "py_slice (i + 2) j d = d ! (i + 2) # py_slice (i + 3) j d"
      "py_slice (i + 3) j d = d ! (i + 3) # py_slice (i + 4) j d"
      using i4 j by (auto intro!: slice_step)
    moreover have "py_slice i j d = ?l @ py_slice (i + 2) j d" using j by (intro slice_join) auto
    ultimately show ?thesis by (simp only:)
  qed
  moreover have "be_enc 2 (int (length (ext_data x))) = ?l"
    using n x1 be_enc_int [OF l2] by simp
  ultimately show "cert_ext_wf x \<and> i \<le> j \<and> j \<le> length d \<and> py_slice i j d = cert_ext_bytes x"
    using x1 j jl n be_int_bounds2 [OF l2] byte_range [of "d ! (i + 2)"] byte_range [of "d ! (i + 3)"]
    by (simp add: cert_ext_wf_def cert_ext_bytes_def)
qed

lemma cert_parse_complete:
  assumes wf: "cert_wf c" and body: "signed_body c = cert_body_bytes c"
  shows "cert_parse (cert_body_bytes c @ cert_signature c @ rest) = Inr c"
proof -
  let ?fix = "be_enc 1 (cert_version c) @ be_enc 1 (cert_type c) @ be_enc 4 (expiration_hours c)
    @ be_enc 1 (cert_key_type c) @ certified_key c @ be_enc 1 (int (length (extensions c)))"
  let ?e = "concat (map cert_ext_bytes (extensions c))"
  let ?d = "cert_body_bytes c @ cert_signature c @ rest"
  have d: "?d = ?fix @ ?e @ cert_signature c @ rest" by (simp add: cert_body_bytes_def)
  have lf: "length ?fix = 40" using wf by (simp add: cert_wf_def)
  have ex: "list_all cert_ext_wf (extensions c)" using wf by (simp add: cert_wf_def)
  have loop: "repeat_parse (length (extensions c)) (cert_ext_item ?d) 40
      = Inr (extensions c, 40 + length ?e)"
    using cert_exts.counted_roundtrip [OF ex, of ?fix "cert_signature c @ rest"]
    by (simp only: d lf)
  have b: "byte_at ?d 0 = Inr (cert_version c)" "byte_at ?d 1 = Inr (cert_type c)"
      "byte_at ?d 6 = Inr (cert_key_type c)" "byte_at ?d 39 = Inr (int (length (extensions c)))"
    using wf by (simp_all add: d cert_wf_def byte_at_def nth_append be_enc_1)
  have u: "unpack_I (py_slice 2 6 ?d) = Inr (expiration_hours c)"
    using wf by (simp add: d cert_wf_def py_slice_def be_enc_1 be_int_enc)
  have k: "py_slice 7 39 ?d = certified_key c"
    using wf by (simp add: d cert_wf_def py_slice_def be_enc_1)
  have sig: "py_slice (40 + length ?e) (40 + length ?e + 64) ?d = cert_signature c"
  proof -
    have "?d = (?fix @ ?e) @ cert_signature c @ rest" by (simp add: d)
    then show ?thesis using wf slice_append_pre [of "?fix @ ?e" 64 "cert_signature c @ rest"] lf
      by (simp add: cert_wf_def)
  qed
  have tk: "take (40 + length ?e) ?d = signed_body c"
  proof -
    have "cert_body_bytes c = ?fix @ ?e" by (simp add: cert_body_bytes_def)
    then have "length (cert_body_bytes c) = 40 + length ?e" using lf by (simp only: length_append)
    then show ?thesis by (metis append_eq_conv_conj body)
  qed
  have len: "\<not> length ?d < 40" using lf by (simp add: d)
  have sl: "length (cert_signature c) = 64" using wf by (simp add: cert_wf_def)
  show ?thesis
    unfolding cert_parse_def using len loop b u k sig tk sl
    by (simp add: Let_def del: length_slice take_append length_append)
qed

lemma cert_parse_sound:
  assumes p: "cert_parse data = Inr c"
  shows "cert_wf c \<and> signed_body c = cert_body_bytes c
    \<and> (\<exists>rest. data = signed_body c @ cert_signature c @ rest)"
proof -
  from p obtain j exts where len: "40 \<le> length data"
    and loop: "repeat_parse (nat (uint (data ! 39))) (cert_ext_item data) 40 = Inr (exts, j)"
    and sl: "length (py_slice j (j + 64) data) = 64"
    and c: "c = \<lparr>cert_version = uint (data ! 0), cert_type = uint (data ! 1),
      expiration_hours = be_int (py_slice 2 6 data), cert_key_type = uint (data ! 6),
      certified_key = py_slice 7 39 data, extensions = exts,
      cert_signature = py_slice j (j + 64) data, signed_body = take j data\<rparr>"
    by (auto simp: cert_parse_def Let_def unpack_Inr_iff byte_at_Inr_iff split: if_splits)
  from cert_exts.counted_sound [OF len loop] repeat_parse_length [OF loop]
  have e: "list_all cert_ext_wf exts" "40 \<le> j" "j \<le> length data"
    "py_slice 40 j data = concat (map cert_ext_bytes exts)" "int (length exts) = uint (data ! 39)"
    using byte_range [of "data ! 39"] by auto
  have l4: "length (py_slice 2 6 data) = 4" using len by simp
  have "take j data = py_slice 0 j data" by simp
  also have "\<dots> = data ! 0 # data ! 1 # py_slice 2 6 data @ data ! 6 # py_slice 7 39 data @ data ! 39
      # py_slice 40 j data"
  proof -
    have "py_slice 0 j data = data ! 0 # py_slice 1 j data"
      "py_slice 1 j data = data ! 1 # py_slice 2 j data"
      "py_slice 6 j data = data ! 6 # py_slice 7 j data"
      "py_slice 39 j data = data ! 39 # py_slice 40 j data"
      using len e by - (rule slice_step, linarith+)+
    moreover have "py_slice 2 j data = py_slice 2 6 data @ py_slice 6 j data"
      "py_slice 7 j data = py_slice 7 39 data @ py_slice 39 j data"
      using e by (auto intro: slice_join)
    ultimately show ?thesis by (simp only: append_Cons)
  qed
  also have "\<dots> = cert_body_bytes c"
    using e be_enc_int [OF l4] by (simp add: c cert_body_bytes_def)
  finally have body: "signed_body c = cert_body_bytes c" by (simp add: c)
  have "data = take j data @ py_slice j (j + 64) data @ drop (j + 64) data"
    using sl e by (intro take_slice_drop [symmetric]) auto
  moreover have "cert_wf c"
    using e sl len byte_range [of "data ! 0"] byte_range [of "data ! 1"] byte_range [of "data ! 6"]
      byte_range [of "data ! 39"] be_int_bounds4 [OF l4] by (simp add: c cert_wf_def)
  ultimately show ?thesis using body c by auto
qed

text \<open>The certificate parser accepts exactly the documented layout: it returns a certificate
just when the data is that certificate's body, its 64-byte signature and whatever trails them, and
the body the signature is checked over is every byte before the signature.\<close>

theorem cert_parse_exact:
  "cert_parse data = Inr c \<longleftrightarrow>
     cert_wf c \<and> signed_body c = cert_body_bytes c
       \<and> (\<exists>rest. data = signed_body c @ cert_signature c @ rest)"
  using cert_parse_complete [of c] cert_parse_sound [of data c] by auto

end
