(* ===== verification/Relay.thy ===== *)
theory Relay
  imports LinkSpec
begin

text \<open>
  The inner RELAY cell and its command bodies (\<open>_proto/relay.py\<close>). The random tail of a cell's
  padding (\<open>os.urandom\<close>) is an argument of the constructor.
\<close>

record relay_cell =
  r_command :: int
  r_stream_id :: int
  r_data :: bytes
  r_recognized :: int
  r_digest :: bytes
  r_padding :: bytes

definition ZERO_DIGEST :: bytes where
  "ZERO_DIGEST = [0, 0, 0, 0]"

text \<open>\<open>__post_init__\<close>: a padding already there is kept (\<open>dataclasses.replace\<close>), otherwise four zero
  bytes and random ones fill the cell.\<close>

definition relay_padding :: "(nat \<Rightarrow> bytes) \<Rightarrow> bytes \<Rightarrow> bytes \<Rightarrow> bytes" where
  "relay_padding urandom data padding =
    (if padding \<noteq> [] then padding
     else let pad_len = int CELL_PAYLOAD_LEN - int RELAY_HEADER_LEN - int (length data)
          in if 4 < pad_len then ZERO_DIGEST @ urandom (nat (pad_len - 4))
             else zeros (nat (max pad_len 0)))"

definition RelayCell_full ::
  "(nat \<Rightarrow> bytes) \<Rightarrow> int \<Rightarrow> int \<Rightarrow> bytes \<Rightarrow> int \<Rightarrow> bytes \<Rightarrow> bytes \<Rightarrow> relay_cell" where
  "RelayCell_full urandom cmd stream_id data recognized digest padding =
    \<lparr>r_command = cmd, r_stream_id = stream_id, r_data = data, r_recognized = recognized,
     r_digest = digest, r_padding = relay_padding urandom data padding\<rparr>"

text \<open>\<open>RelayCell(command, stream_id, data)\<close> with the defaults of the other fields.\<close>

definition RelayCell :: "(nat \<Rightarrow> bytes) \<Rightarrow> int \<Rightarrow> int \<Rightarrow> bytes \<Rightarrow> relay_cell" where
  "RelayCell urandom cmd stream_id data =
     RelayCell_full urandom cmd stream_id data 0 ZERO_DIGEST []"

definition RelayCell_pack :: "relay_cell \<Rightarrow> bytes res" where
  "RelayCell_pack c =
    (if RELAY_PAYLOAD_LEN < length (r_data c) then Inl ValueError
     else rbind (byte1 (r_command c)) (\<lambda>cmd. rbind (pack_H (r_recognized c)) (\<lambda>rec.
          rbind (pack_H (r_stream_id c)) (\<lambda>sid. rbind (pack_H (int (length (r_data c)))) (\<lambda>len.
          let header = cmd @ rec @ sid @ r_digest c @ len in
          Inr (ljust0 CELL_PAYLOAD_LEN (header @ r_data c @ r_padding c)))))))"

definition RelayCell_with_digest :: "bytes \<Rightarrow> relay_cell \<Rightarrow> relay_cell" where
  "RelayCell_with_digest d c = c\<lparr>r_digest := d\<rparr>"

definition RelayCell_digest_input :: "relay_cell \<Rightarrow> bytes res" where
  "RelayCell_digest_input c = RelayCell_pack (c\<lparr>r_digest := ZERO_DIGEST\<rparr>)"

text \<open>
  A body shorter than the header raises as the slices do: an empty one at the index, a longer one
  in \<open>struct.unpack\<close>. (Callers pass 509-byte bodies.) The parsed cell keeps the received tail as its
  padding; an empty tail leaves \<open>__post_init__\<close> to pad, which \<open>urandom\<close> covers.
\<close>

definition RelayCell_parse :: "(nat \<Rightarrow> bytes) \<Rightarrow> bytes \<Rightarrow> relay_cell res" where
  "RelayCell_parse urandom body =
    rbind (byte_at body 0) (\<lambda>cmd.
    rbind (unpack_H (py_slice 1 3 body)) (\<lambda>recognized.
    rbind (unpack_H (py_slice 3 5 body)) (\<lambda>stream_id.
    let digest = py_slice 5 9 body in
    rbind (unpack_H (py_slice 9 11 body)) (\<lambda>len.
    if int RELAY_PAYLOAD_LEN < len then Inl CircuitError
    else let data = py_slice RELAY_HEADER_LEN (RELAY_HEADER_LEN + nat len) body
         in Inr (RelayCell_full urandom cmd stream_id data recognized digest
                   (drop (RELAY_HEADER_LEN + nat len) body))))))"

text \<open>Equality of cells ignores the padding (\<open>field(compare=False)\<close>).\<close>

definition RelayCell_eq :: "relay_cell \<Rightarrow> relay_cell \<Rightarrow> bool" where
  "RelayCell_eq a b \<longleftrightarrow> a\<lparr>r_padding := []\<rparr> = b\<lparr>r_padding := []\<rparr>"

section \<open>Command bodies\<close>

text \<open>\<open>f"{host}:{port}".encode()\<close>; \<open>port\<close> in decimal.\<close>

fun dec_digits :: "nat \<Rightarrow> string" where
  "dec_digits n = (if n < 10 then [char_of (48 + n)] else dec_digits (n div 10) @ [char_of (48 + n mod 10)])"

declare dec_digits.simps [simp del]

definition int_str :: "int \<Rightarrow> string" where
  "int_str v = (if v < 0 then CHR ''-'' # dec_digits (nat (- v)) else dec_digits (nat v))"

definition begin_body :: "string \<Rightarrow> int \<Rightarrow> bytes" where
  "begin_body hst port = ascii (hst @ '':'' @ int_str port) @ [0] @ be_enc 4 0"

datatype end_reason =
    End_MISC | End_RESOLVEFAILED | End_CONNECTREFUSED | End_EXITPOLICY | End_DESTROY | End_DONE
  | End_TIMEOUT | End_NOROUTE | End_HIBERNATING | End_INTERNAL | End_RESOURCELIMIT | End_CONNRESET
  | End_TORPROTOCOL | End_NOTDIRECTORY

fun end_reason_num :: "end_reason \<Rightarrow> int" where
  "end_reason_num End_MISC = 1"
| "end_reason_num End_RESOLVEFAILED = 2"
| "end_reason_num End_CONNECTREFUSED = 3"
| "end_reason_num End_EXITPOLICY = 4"
| "end_reason_num End_DESTROY = 5"
| "end_reason_num End_DONE = 6"
| "end_reason_num End_TIMEOUT = 7"
| "end_reason_num End_NOROUTE = 8"
| "end_reason_num End_HIBERNATING = 9"
| "end_reason_num End_INTERNAL = 10"
| "end_reason_num End_RESOURCELIMIT = 11"
| "end_reason_num End_CONNRESET = 12"
| "end_reason_num End_TORPROTOCOL = 13"
| "end_reason_num End_NOTDIRECTORY = 14"

definition end_body :: "int \<Rightarrow> bytes res" where
  "end_body reason = byte1 reason"

definition parse_end_reason :: "bytes \<Rightarrow> int" where
  "parse_end_reason data = (case data of [] \<Rightarrow> end_reason_num End_MISC | b # _ \<Rightarrow> uint b)"

definition extend2_body :: "link_spec list \<Rightarrow> int \<Rightarrow> bytes \<Rightarrow> bytes res" where
  "extend2_body specs htype hdata =
     rbind (pack_block specs) (\<lambda>b. rbind (pack_H htype) (\<lambda>t. rbind (pack_H (int (length hdata))) (\<lambda>l.
       Inr (b @ t @ l @ hdata))))"

definition Extended2_parse :: "bytes \<Rightarrow> bytes res" where
  "Extended2_parse data =
    (if length data < 2 then Inl CircuitError
     else rbind (unpack_H (take 2 data)) (\<lambda>hlen.
       if int (length data) < 2 + hlen then Inl CircuitError
       else Inr (py_slice 2 (2 + nat hlen) data)))"

definition SENDME_V1_VERSION :: int where [simp]: "SENDME_V1_VERSION = 1"
definition SENDME_DIGEST_LEN :: nat where [simp]: "SENDME_DIGEST_LEN = 20"

definition sendme_v1_body :: "bytes \<Rightarrow> bytes res" where
  "sendme_v1_body digest =
    (if length digest \<noteq> SENDME_DIGEST_LEN then Inl ValueError
     else rbind (byte1 SENDME_V1_VERSION) (\<lambda>v. rbind (pack_H (int (length digest))) (\<lambda>l.
       Inr (v @ l @ digest))))"

definition parse_sendme_v1 :: "bytes \<Rightarrow> bytes res" where
  "parse_sendme_v1 body =
    (if length body < 3 then Inl ValueError
     else rbind (byte_at body 0) (\<lambda>version.
       if version \<noteq> SENDME_V1_VERSION then Inl ValueError
       else rbind (unpack_H (py_slice 1 3 body)) (\<lambda>data_len.
         if data_len < int SENDME_DIGEST_LEN \<or> int (length body) < 3 + data_len then Inl ValueError
         else Inr (py_slice 3 (3 + SENDME_DIGEST_LEN) body))))"

section \<open>Laws\<close>

definition relay_wf :: "relay_cell \<Rightarrow> bool" where
  "relay_wf c \<longleftrightarrow> 0 \<le> r_command c \<and> r_command c < 256 \<and> 0 \<le> r_recognized c \<and> r_recognized c < 65536
     \<and> 0 \<le> r_stream_id c \<and> r_stream_id c < 65536 \<and> length (r_data c) \<le> RELAY_PAYLOAD_LEN
     \<and> length (r_digest c) = 4 \<and> length (r_padding c) = RELAY_PAYLOAD_LEN - length (r_data c)"

definition relay_header :: "relay_cell \<Rightarrow> bytes" where
  "relay_header c = be_enc 1 (r_command c) @ be_enc 2 (r_recognized c) @ be_enc 2 (r_stream_id c)
     @ r_digest c @ be_enc 2 (int (length (r_data c)))"

definition relay_bytes :: "relay_cell \<Rightarrow> bytes" where
  "relay_bytes c = relay_header c @ r_data c @ r_padding c"

lemma length_relay_header: "length (r_digest c) = 4 \<Longrightarrow> length (relay_header c) = 11"
  by (simp add: relay_header_def)

lemma length_relay_bytes: "relay_wf c \<Longrightarrow> length (relay_bytes c) = CELL_PAYLOAD_LEN"
  by (simp add: relay_bytes_def length_relay_header relay_wf_def)

lemma RelayCell_pack_wf: "relay_wf c \<Longrightarrow> RelayCell_pack c = Inr (relay_bytes c)"
  using length_relay_bytes [of c]
  by (simp add: RelayCell_pack_def relay_wf_def relay_bytes_def relay_header_def Let_def)

lemma RelayCell_wf:
  assumes "0 \<le> cmd" "cmd < 256" "0 \<le> sid" "sid < 65536" "length data \<le> 498"
    and "\<And>n. length (urandom n) = n"
  shows "relay_wf (RelayCell urandom cmd sid data)"
  using assms by (auto simp: RelayCell_def RelayCell_full_def relay_wf_def relay_padding_def
      ZERO_DIGEST_def Let_def max_def)

lemma relay_wf_with_digest [simp]:
  "length d = 4 \<Longrightarrow> relay_wf c \<Longrightarrow> relay_wf (RelayCell_with_digest d c)"
  by (simp add: RelayCell_with_digest_def relay_wf_def)

lemma relay_bytes_parts:
  assumes wf: "relay_wf c"
  shows "byte_at (relay_bytes c) 0 = Inr (r_command c)"
    "py_slice 1 3 (relay_bytes c) = be_enc 2 (r_recognized c)"
    "py_slice 3 5 (relay_bytes c) = be_enc 2 (r_stream_id c)"
    "py_slice 5 9 (relay_bytes c) = r_digest c"
    "py_slice 9 11 (relay_bytes c) = be_enc 2 (int (length (r_data c)))"
  using wf
  by (simp_all add: relay_bytes_def relay_header_def relay_wf_def byte_at_def py_slice_def be_enc_1)

lemma RelayCell_parse_bytes:
  assumes wf: "relay_wf c"
  shows "RelayCell_parse urandom (relay_bytes c) = Inr c"
proof -
  have d: "py_slice 11 (11 + length (r_data c)) (relay_bytes c) = r_data c"
    "drop (11 + length (r_data c)) (relay_bytes c) = r_padding c"
    using wf length_relay_header [of c] by (simp_all add: relay_bytes_def py_slice_def relay_wf_def)
  have p: "relay_padding urandom (r_data c) (r_padding c) = r_padding c"
    using wf by (auto simp: relay_padding_def relay_wf_def Let_def zeros_def max_def)
  have n: "be_int (be_enc 2 (int (length (r_data c)))) = int (length (r_data c))"
      "be_int (be_enc 2 (r_recognized c)) = r_recognized c"
      "be_int (be_enc 2 (r_stream_id c)) = r_stream_id c"
    using wf by (simp_all add: relay_wf_def be_int_enc)
  have l: "\<not> 498 < int (length (r_data c))" using wf by (simp add: relay_wf_def)
  show ?thesis
    unfolding RelayCell_parse_def using relay_bytes_parts [OF wf] n d p l
    by (simp add: Let_def RelayCell_full_def)
qed

text \<open>Zeroing the digest bytes of a received body gives the input the sender's digest covered.\<close>

lemma relay_bytes_zeroed:
  assumes wf: "relay_wf c"
  shows "take 5 (relay_bytes c) @ [0, 0, 0, 0] @ drop 9 (relay_bytes c)
    = relay_bytes (c\<lparr>r_digest := ZERO_DIGEST\<rparr>)"
  using wf by (simp add: relay_bytes_def relay_header_def relay_wf_def ZERO_DIGEST_def be_enc_1)

lemma digest_input_wf:
  "relay_wf c \<Longrightarrow> RelayCell_digest_input c = Inr (relay_bytes (c\<lparr>r_digest := ZERO_DIGEST\<rparr>))"
  unfolding RelayCell_digest_input_def
  by (rule RelayCell_pack_wf) (simp add: relay_wf_def ZERO_DIGEST_def)

text \<open>Packing a relay cell fills the 509-byte body exactly and parsing that body gives back
every field, the padding included; and a SENDME body carries its 20-byte digest unchanged.\<close>

theorem RelayCell_roundtrip:
  assumes "0 \<le> cmd" "cmd < 256" "0 \<le> sid" "sid < 65536" "length data \<le> RELAY_PAYLOAD_LEN"
    and "\<And>n. length (urandom n) = n"
  shows "\<exists>body. RelayCell_pack (RelayCell urandom cmd sid data) = Inr body
    \<and> length body = CELL_PAYLOAD_LEN
    \<and> RelayCell_parse urandom' body = Inr (RelayCell urandom cmd sid data)"
proof -
  have "relay_wf (RelayCell urandom cmd sid data)" using assms by (intro RelayCell_wf) simp_all
  then show ?thesis
    by (simp add: RelayCell_pack_wf RelayCell_parse_bytes length_relay_bytes del: CELL_PAYLOAD_LEN_def)
qed

theorem RelayCell_roundtrip_witness:
  "\<exists>body. RelayCell_pack (RelayCell zeros 2 7 [1, 2, 3]) = Inr body \<and> length body = CELL_PAYLOAD_LEN
    \<and> RelayCell_parse zeros body = Inr (RelayCell zeros 2 7 [1, 2, 3])"
  by (rule RelayCell_roundtrip) simp_all

lemma sendme_v1_roundtrip: "sendme_v1_body d = Inr b \<Longrightarrow> parse_sendme_v1 (b @ pad) = Inr d"
  by (auto simp: sendme_v1_body_def parse_sendme_v1_def be_int_enc py_slice_def be_enc_1 byte_at_def
      split: if_splits)

lemma sendme_v1_body_Inr_iff:
  "sendme_v1_body d = Inr b \<longleftrightarrow> length d = 20 \<and> b = be_enc 1 1 @ be_enc 2 20 @ d"
  by (auto simp: sendme_v1_body_def)

lemma parse_sendme_v1_raises: "raises_only {ValueError} (parse_sendme_v1 body)"
  unfolding parse_sendme_v1_def by (intro raises_intros) auto

lemma parse_sendme_v1_length: "parse_sendme_v1 body = Inr d \<Longrightarrow> length d = 20"
  by (auto simp: parse_sendme_v1_def byte_at_Inr_iff unpack_Inr_iff split: if_splits)

lemma Extended2_parse_raises: "raises_only {CircuitError} (Extended2_parse data)"
  unfolding Extended2_parse_def by (intro raises_intros) auto

lemma Extended2_parse_created2:
  "length hdata < 65536 \<Longrightarrow> Extended2_parse (be_enc 2 (int (length hdata)) @ hdata @ pad) = Inr hdata"
  by (simp add: Extended2_parse_def be_int_enc py_slice_def)

lemma RelayCell_parse_raises:
  "length body = CELL_PAYLOAD_LEN \<Longrightarrow> raises_only {CircuitError} (RelayCell_parse urandom body)"
  unfolding RelayCell_parse_def Let_def by (intro raises_intros) auto

lemma RelayCell_parse_wf:
  assumes "length body = CELL_PAYLOAD_LEN" "RelayCell_parse urandom body = Inr c"
  shows "relay_wf c \<and> body = relay_bytes c"
proof -
  let ?l = "py_slice 9 11 body"
  let ?n = "nat (be_int ?l)"
  from assms have n: "be_int ?l \<le> 498"
    and c: "c = RelayCell_full urandom (uint (body ! 0)) (be_int (py_slice 3 5 body))
        (py_slice 11 (11 + ?n) body) (be_int (py_slice 1 3 body)) (py_slice 5 9 body) (drop (11 + ?n) body)"
    by (auto simp: RelayCell_parse_def Let_def unpack_Inr_iff byte_at_Inr_iff split: if_splits)
  have nn: "?n \<le> 498" using n by simp
  have pad: "r_padding c = drop (11 + ?n) body"
    using assms(1) nn by (auto simp: c RelayCell_full_def relay_padding_def zeros_def max_def)
  have dl: "length (py_slice 11 (11 + ?n) body) = ?n" using assms(1) nn by simp
  have l2: "length (py_slice 1 3 body) = 2" "length (py_slice 3 5 body) = 2" "length ?l = 2"
    using assms(1) by simp_all
  have "relay_wf c"
    using assms(1) nn pad dl be_int_bounds2 [OF l2(1)] be_int_bounds2 [OF l2(2)] byte_range [of "body ! 0"]
    by (simp add: relay_wf_def c RelayCell_full_def)
  moreover have "body = py_slice 0 1 body @ py_slice 1 3 body @ py_slice 3 5 body @ py_slice 5 9 body
      @ ?l @ py_slice 11 (11 + ?n) body @ drop (11 + ?n) body"
    using slice_drop [of 0 1 body] slice_drop [of 1 3 body] slice_drop [of 3 5 body]
      slice_drop [of 5 9 body] slice_drop [of 9 11 body] slice_drop [of 11 "11 + ?n" body]
    by (simp del: slice_0)
  moreover have "py_slice 0 1 body = be_enc 1 (uint (body ! 0))"
    using assms(1) slice_Cons_nth [of 0 body 1] by (cases body) simp_all
  ultimately show ?thesis
    using pad dl be_enc_int [OF l2(1)] be_enc_int [OF l2(2)] be_enc_int [OF l2(3)]
    by (simp add: relay_bytes_def relay_header_def c RelayCell_full_def)
qed

end
