(* ===== verification/RelayCrypto.thy ===== *)
theory RelayCrypto
  imports Crypto Relay
begin

text \<open>
  Per-hop relay-cell cryptography (\<open>_proto/relay_crypto.py\<close>). A running digest object is the bytes
  it has absorbed, so \<open>copy()\<close> is the value itself and \<open>digest()\<close> hashes it. The interface
  \<open>sealing\<close> states what one direction of a hop promises to the layer above; the facts about
  sequences of cells are proved there and interpreted on both directions.
\<close>

record relay_crypto =
  rc_alg :: digest_alg
  forward_absorbed :: bytes
  backward_absorbed :: bytes
  forward_cipher :: ctr_ctx
  backward_cipher :: ctr_ctx

definition RelayCrypto_init :: "bytes \<Rightarrow> digest_alg \<Rightarrow> nat \<Rightarrow> relay_crypto res" where
  "RelayCrypto_init key_material alg key_len =
    (let digest_len = digest_size alg; needed = 2 * digest_len + 2 * key_len in
     if length key_material < needed then Inl ValueError
     else let df = py_slice 0 digest_len key_material;
              db = py_slice digest_len (2 * digest_len) key_material;
              kf = py_slice (2 * digest_len) (2 * digest_len + key_len) key_material;
              kb = py_slice (2 * digest_len + key_len) (2 * digest_len + 2 * key_len) key_material
          in rbind (ctr_cipher kf ZERO_IV16) (\<lambda>fc. rbind (ctr_cipher kb ZERO_IV16) (\<lambda>bc.
             Inr \<lparr>rc_alg = alg, forward_absorbed = df, backward_absorbed = db,
                  forward_cipher = fc, backward_cipher = bc\<rparr>)))"

definition tor1 :: "bytes \<Rightarrow> relay_crypto res" where
  "tor1 key_material = RelayCrypto_init key_material SHA1 16"

definition hs_v3 :: "bytes \<Rightarrow> relay_crypto res" where
  "hs_v3 key_material = RelayCrypto_init key_material SHA3_256 32"

definition apply_forward_cipher :: "prims \<Rightarrow> bytes \<Rightarrow> relay_crypto \<Rightarrow> relay_crypto \<times> bytes" where
  "apply_forward_cipher P body rc =
    (let (c, out) = ctr_update P (forward_cipher rc) body in (rc\<lparr>forward_cipher := c\<rparr>, out))"

definition apply_backward_cipher :: "prims \<Rightarrow> bytes \<Rightarrow> relay_crypto \<Rightarrow> relay_crypto \<times> bytes" where
  "apply_backward_cipher P body rc =
    (let (c, out) = ctr_update P (backward_cipher rc) body in (rc\<lparr>backward_cipher := c\<rparr>, out))"

definition forward_digest :: "prims \<Rightarrow> relay_crypto \<Rightarrow> bytes" where
  "forward_digest P rc = hash P (rc_alg rc) (forward_absorbed rc)"

definition backward_digest :: "prims \<Rightarrow> relay_crypto \<Rightarrow> bytes" where
  "backward_digest P rc = hash P (rc_alg rc) (backward_absorbed rc)"

definition stamp_forward :: "prims \<Rightarrow> relay_cell \<Rightarrow> (relay_crypto, exc, relay_cell) op" where
  "stamp_forward P cell rc =
    (case RelayCell_digest_input cell of Inl e \<Rightarrow> (rc, Inl e)
     | Inr d \<Rightarrow> let rc' = rc\<lparr>forward_absorbed := forward_absorbed rc @ d\<rparr>
               in (rc', Inr (RelayCell_with_digest (take 4 (forward_digest P rc')) cell)))"

definition stamp_backward :: "prims \<Rightarrow> relay_cell \<Rightarrow> (relay_crypto, exc, relay_cell) op" where
  "stamp_backward P cell rc =
    (case RelayCell_digest_input cell of Inl e \<Rightarrow> (rc, Inl e)
     | Inr d \<Rightarrow> let rc' = rc\<lparr>backward_absorbed := backward_absorbed rc @ d\<rparr>
               in (rc', Inr (RelayCell_with_digest (take 4 (backward_digest P rc')) cell)))"

text \<open>\<open>_recognize\<close>: the probe is committed only on a match; the parse comes after the commit.\<close>

definition recognize ::
  "prims \<Rightarrow> (nat \<Rightarrow> bytes) \<Rightarrow> bool \<Rightarrow> bytes \<Rightarrow> (relay_crypto, exc, relay_cell option) op" where
  "recognize P urandom forward body rc =
    (if py_slice 1 3 body \<noteq> [0, 0] then (rc, Inr None)
     else let received_digest = py_slice 5 9 body;
              zeroed_body = take 5 body @ ZERO_DIGEST @ drop 9 body;
              running = (if forward then forward_absorbed rc else backward_absorbed rc);
              probe = running @ zeroed_body in
          if take 4 (hash P (rc_alg rc) probe) \<noteq> received_digest then (rc, Inr None)
          else ((if forward then rc\<lparr>forward_absorbed := probe\<rparr> else rc\<lparr>backward_absorbed := probe\<rparr>),
                rbind (RelayCell_parse urandom body) (\<lambda>c. Inr (Some c))))"

definition recognize_forward where
  "recognize_forward P urandom body = recognize P urandom True body"

definition recognize_backward where
  "recognize_backward P urandom body = recognize P urandom False body"

section \<open>Key schedule\<close>

lemma RelayCrypto_init_ok:
  assumes len: "2 * digest_size alg + 2 * n \<le> length km" and n: "n = 16 \<or> n = 32"
  shows "RelayCrypto_init km alg n = Inr
    \<lparr>rc_alg = alg, forward_absorbed = py_slice 0 (digest_size alg) km,
     backward_absorbed = py_slice (digest_size alg) (2 * digest_size alg) km,
     forward_cipher = \<lparr>ctr_key = py_slice (2 * digest_size alg) (2 * digest_size alg + n) km,
       ctr_iv = ZERO_IV16, ctr_pos = 0\<rparr>,
     backward_cipher = \<lparr>ctr_key = py_slice (2 * digest_size alg + n) (2 * digest_size alg + 2 * n) km,
       ctr_iv = ZERO_IV16, ctr_pos = 0\<rparr>\<rparr>"
proof -
  have "length (py_slice (2 * digest_size alg) (2 * digest_size alg + n) km) = n"
    "length (py_slice (2 * digest_size alg + n) (2 * digest_size alg + 2 * n) km) = n"
    using len by simp_all
  moreover have "\<not> length km < 2 * digest_size alg + 2 * n" "(n \<notin> {16, 32}) = False" "(16 \<noteq> (16 :: nat)) = False"
    using len n by simp_all
  ultimately show ?thesis
    by (simp only: RelayCrypto_init_def ctr_cipher_def Let_def if_True if_False rbind_simps length_ZERO_IV16)
qed

lemma RelayCrypto_init_raises: "raises_only {ValueError} (RelayCrypto_init km alg n)"
  unfolding RelayCrypto_init_def Let_def ctr_cipher_def by (intro raises_intros insertI1)

lemma cipher_keeps [simp]:
  "rc_alg (fst (apply_forward_cipher P b rc)) = rc_alg rc"
  "forward_absorbed (fst (apply_forward_cipher P b rc)) = forward_absorbed rc"
  "backward_absorbed (fst (apply_forward_cipher P b rc)) = backward_absorbed rc"
  "backward_cipher (fst (apply_forward_cipher P b rc)) = backward_cipher rc"
  "rc_alg (fst (apply_backward_cipher P b rc)) = rc_alg rc"
  "forward_absorbed (fst (apply_backward_cipher P b rc)) = forward_absorbed rc"
  "backward_absorbed (fst (apply_backward_cipher P b rc)) = backward_absorbed rc"
  "forward_cipher (fst (apply_backward_cipher P b rc)) = forward_cipher rc"
  by (simp_all add: apply_forward_cipher_def apply_backward_cipher_def Let_def split: prod.splits)

lemma cipher_length [simp]:
  "length (snd (apply_forward_cipher P b rc)) = length b"
  "length (snd (apply_backward_cipher P b rc)) = length b"
  by (simp_all add: apply_forward_cipher_def apply_backward_cipher_def ctr_update_def)

lemma cipher_undo:
  "apply_forward_cipher P b rc = (rc', b') \<Longrightarrow> apply_forward_cipher P b' rc = (rc', b)"
  "apply_backward_cipher P b rc = (rc', b') \<Longrightarrow> apply_backward_cipher P b' rc = (rc', b)"
  by (auto simp: apply_forward_cipher_def apply_backward_cipher_def Let_def ctr_update_def)

section \<open>Stamping and recognizing are inverse\<close>

lemma hash_take4: "prims_ok P \<Longrightarrow> length (take 4 (hash P alg m)) = 4"
  by (cases alg) (simp_all add: prims_okD)

lemma with_digest_wf:
  "relay_wf c \<Longrightarrow> length d = 4 \<Longrightarrow> relay_wf (RelayCell_with_digest d c)"
  by (simp add: relay_wf_def RelayCell_with_digest_def)

lemma zeroed_body:
  "relay_wf c \<Longrightarrow> length d = 4 \<Longrightarrow>
    take 5 (relay_bytes (RelayCell_with_digest d c)) @ ZERO_DIGEST
      @ drop 9 (relay_bytes (RelayCell_with_digest d c))
    = relay_bytes (c\<lparr>r_digest := ZERO_DIGEST\<rparr>)"
  using relay_bytes_zeroed [OF with_digest_wf] by (simp add: RelayCell_with_digest_def ZERO_DIGEST_def)

lemma header_slices:
  assumes "relay_wf c"
  shows "py_slice 1 3 (relay_bytes c) = be_enc 2 (r_recognized c)"
    and "py_slice 5 9 (relay_bytes c) = r_digest c"
  using assms by (simp_all add: relay_wf_def relay_bytes_def relay_header_def py_slice_def be_enc_1)

lemma recognize_stamped:
  assumes ok: "prims_ok P" and wf: "relay_wf c" and r0: "r_recognized c = 0"
    and run: "running = (if forward then forward_absorbed rc else backward_absorbed rc)"
    and d: "d = take 4 (hash P (rc_alg rc) (running @ relay_bytes (c\<lparr>r_digest := ZERO_DIGEST\<rparr>)))"
  shows "recognize P urandom forward (relay_bytes (RelayCell_with_digest d c)) rc =
    ((if forward then rc\<lparr>forward_absorbed := running @ relay_bytes (c\<lparr>r_digest := ZERO_DIGEST\<rparr>)\<rparr>
      else rc\<lparr>backward_absorbed := running @ relay_bytes (c\<lparr>r_digest := ZERO_DIGEST\<rparr>)\<rparr>),
     Inr (Some (RelayCell_with_digest d c)))"
proof -
  let ?c = "RelayCell_with_digest d c"
  have dl: "length d = 4" using hash_take4 [OF ok] by (simp add: d)
  have wf': "relay_wf ?c" by (rule with_digest_wf [OF wf dl])
  have s: "py_slice 1 3 (relay_bytes ?c) = [0, 0]" "py_slice 5 9 (relay_bytes ?c) = d"
    unfolding header_slices [OF wf'] using r0 by (simp_all add: RelayCell_with_digest_def be_enc_2)
  show ?thesis
    unfolding recognize_def Let_def s zeroed_body [OF wf dl] run [symmetric]
    by (simp add: d [symmetric] RelayCell_parse_bytes [OF wf'])
qed

text \<open>A body whose digest does not verify leaves the running digests alone, and recognition never
moves the keystreams.\<close>

lemma recognize_None_unchanged:
  "recognize P urandom fw body rc = (rc', Inr None) \<Longrightarrow> rc' = rc"
  by (auto simp: recognize_def Let_def split: if_splits)

lemma recognize_keeps [simp]:
  "rc_alg (fst (recognize P urandom fw body rc)) = rc_alg rc"
  "forward_cipher (fst (recognize P urandom fw body rc)) = forward_cipher rc"
  "backward_cipher (fst (recognize P urandom fw body rc)) = backward_cipher rc"
  by (auto simp: recognize_def Let_def)

lemma recognize_raises:
  "length body = CELL_PAYLOAD_LEN \<Longrightarrow> raises_only {CircuitError} (snd (recognize P urandom fw body rc))"
  using RelayCell_parse_raises [of body urandom]
  by (auto simp: recognize_def Let_def raises_only_def rbind_Inl_iff)

section \<open>One direction of a hop as a sealed channel\<close>

text \<open>
  The sending end of a hop stamps, packs and enciphers a cell; the receiving end deciphers and
  recognizes. With \<open>fw\<close> the client sends, without it the relay does.
\<close>

definition hop_cipher :: "prims \<Rightarrow> bool \<Rightarrow> bytes \<Rightarrow> relay_crypto \<Rightarrow> relay_crypto \<times> bytes" where
  "hop_cipher P fw = (if fw then apply_forward_cipher P else apply_backward_cipher P)"

definition hop_seal :: "prims \<Rightarrow> bool \<Rightarrow> relay_crypto \<Rightarrow> relay_cell \<Rightarrow> relay_crypto \<times> bytes" where
  "hop_seal P fw rc cell =
    (case (if fw then stamp_forward P cell rc else stamp_backward P cell rc) of
       (rc1, Inl e) \<Rightarrow> (rc1, [])
     | (rc1, Inr stamped) \<Rightarrow>
        (case RelayCell_pack stamped of Inl e \<Rightarrow> (rc1, []) | Inr body \<Rightarrow> hop_cipher P fw body rc1))"

definition hop_open ::
  "prims \<Rightarrow> (nat \<Rightarrow> bytes) \<Rightarrow> bool \<Rightarrow> relay_crypto \<Rightarrow> bytes \<Rightarrow> relay_crypto \<times> relay_cell option" where
  "hop_open P urandom fw rc body =
    (let (rc1, plain) = hop_cipher P fw body rc in
     case recognize P urandom fw plain rc1 of
       (rc2, Inl e) \<Rightarrow> (rc2, None)
     | (rc2, Inr r) \<Rightarrow> (rc2, map_option (RelayCell_with_digest ZERO_DIGEST) r))"

definition sealable :: "relay_cell \<Rightarrow> bool" where
  "sealable c \<longleftrightarrow> relay_wf c \<and> r_recognized c = 0"

definition stamped_state :: "bool \<Rightarrow> relay_cell \<Rightarrow> relay_crypto \<Rightarrow> relay_crypto" where
  "stamped_state fw c rc =
    (let d = relay_bytes (c\<lparr>r_digest := ZERO_DIGEST\<rparr>) in
     if fw then rc\<lparr>forward_absorbed := forward_absorbed rc @ d\<rparr>
     else rc\<lparr>backward_absorbed := backward_absorbed rc @ d\<rparr>)"

definition stamp_of :: "prims \<Rightarrow> bool \<Rightarrow> relay_cell \<Rightarrow> relay_crypto \<Rightarrow> bytes" where
  "stamp_of P fw c rc =
    take 4 (hash P (rc_alg rc) ((if fw then forward_absorbed rc else backward_absorbed rc)
      @ relay_bytes (c\<lparr>r_digest := ZERO_DIGEST\<rparr>)))"

lemma stamp_wf:
  "relay_wf c \<Longrightarrow> stamp_forward P c rc
    = (stamped_state True c rc, Inr (RelayCell_with_digest (stamp_of P True c rc) c))"
  "relay_wf c \<Longrightarrow> stamp_backward P c rc
    = (stamped_state False c rc, Inr (RelayCell_with_digest (stamp_of P False c rc) c))"
  by (simp_all add: stamp_forward_def stamp_backward_def digest_input_wf stamped_state_def stamp_of_def
      forward_digest_def backward_digest_def Let_def)

lemma stamp_of_length: "prims_ok P \<Longrightarrow> length (stamp_of P fw c rc) = 4"
  unfolding stamp_of_def by (rule hash_take4)

lemma stamped_wf:
  "prims_ok P \<Longrightarrow> relay_wf c \<Longrightarrow> relay_wf (RelayCell_with_digest (stamp_of P fw c rc) c)"
  by (simp add: with_digest_wf stamp_of_length)

lemma hop_seal_eq:
  "prims_ok P \<Longrightarrow> relay_wf c \<Longrightarrow> hop_seal P fw rc c =
    hop_cipher P fw (relay_bytes (RelayCell_with_digest (stamp_of P fw c rc) c)) (stamped_state fw c rc)"
  using RelayCell_pack_wf [OF stamped_wf, of P c fw rc] by (cases fw) (simp_all add: hop_seal_def stamp_wf)

lemma recognize_sealed:
  assumes "prims_ok P" "sealable c"
    and "rc_alg rc' = rc_alg rc" "forward_absorbed rc' = forward_absorbed rc"
      "backward_absorbed rc' = backward_absorbed rc"
  shows "recognize P urandom fw (relay_bytes (RelayCell_with_digest (stamp_of P fw c rc) c)) rc'
    = (stamped_state fw c rc', Inr (Some (RelayCell_with_digest (stamp_of P fw c rc) c)))"
  using assms recognize_stamped [of P c _ fw rc' "stamp_of P fw c rc" urandom]
  by (cases fw) (simp_all add: sealable_def stamp_of_def stamped_state_def)

lemma cipher_stamped:
  "hop_cipher P fw b rc = (rc', w) \<Longrightarrow>
    hop_cipher P fw b (stamped_state fw' c rc) = (stamped_state fw' c rc', w)"
  by (auto simp: hop_cipher_def apply_forward_cipher_def apply_backward_cipher_def ctr_update_def
      stamped_state_def Let_def)

lemma hop_cipher_undo: "hop_cipher P fw b rc = (rc', w) \<Longrightarrow> hop_cipher P fw w rc = (rc', b)"
  by (cases fw) (auto simp: hop_cipher_def dest: cipher_undo)

lemma hop_cipher_keeps [simp]:
  "rc_alg (fst (hop_cipher P fw b rc)) = rc_alg rc"
  "forward_absorbed (fst (hop_cipher P fw b rc)) = forward_absorbed rc"
  "backward_absorbed (fst (hop_cipher P fw b rc)) = backward_absorbed rc"
  "length (snd (hop_cipher P fw b rc)) = length b"
  by (simp_all add: hop_cipher_def)

lemma hop_open_seal:
  assumes ok: "prims_ok P" and c: "sealable c"
  shows "hop_open P urandom fw rc (snd (hop_seal P fw rc c))
    = (fst (hop_seal P fw rc c), Some (RelayCell_with_digest ZERO_DIGEST c))"
proof -
  let ?b = "relay_bytes (RelayCell_with_digest (stamp_of P fw c rc) c)"
  obtain rc' w where w: "hop_cipher P fw ?b rc = (rc', w)" by (cases "hop_cipher P fw ?b rc")
  have seal: "hop_seal P fw rc c = (stamped_state fw c rc', w)"
    using hop_seal_eq [OF ok, of c fw rc] cipher_stamped [OF w] c by (simp add: sealable_def)
  have k: "rc_alg rc' = rc_alg rc" "forward_absorbed rc' = forward_absorbed rc"
    "backward_absorbed rc' = backward_absorbed rc"
    using hop_cipher_keeps [of P fw ?b rc] w by simp_all
  show ?thesis
    unfolding seal hop_open_def snd_conv fst_conv hop_cipher_undo [OF w] Let_def prod.case
      recognize_sealed [OF ok c k]
    by (simp add: RelayCell_with_digest_def)
qed

interpretation hop: sealing "hop_seal P fw" "hop_open P urandom fw" "\<lambda>_. prims_ok P" sealable
  "\<lambda>c. Some (RelayCell_with_digest ZERO_DIGEST c)"
  by unfold_locales (auto simp: hop_open_seal)

text \<open>The two ends of a hop stay in step. Starting from the same keys, every sequence of cells
one end stamps, packs and enciphers is recognized by the other end cell by cell in order, with all
fields and the padding intact, and both ends finish with equal digests and keystream positions.\<close>

theorem hop_ends_stay_in_step:
  assumes "prims_ok P" and "\<forall>c\<in>set cells. sealable c"
  shows "run_map (hop_open P urandom fw) rc (snd (run_map (hop_seal P fw) rc cells))
    = (fst (run_map (hop_seal P fw) rc cells),
       map (\<lambda>c. Some (RelayCell_with_digest ZERO_DIGEST c)) cells)"
  by (rule hop.in_order) (use assms in \<open>simp_all add: list_all_iff\<close>)

definition toy_crypto :: relay_crypto where
  "toy_crypto = \<lparr>rc_alg = SHA1, forward_absorbed = [1], backward_absorbed = [2],
    forward_cipher = \<lparr>ctr_key = zeros 16, ctr_iv = ZERO_IV16, ctr_pos = 0\<rparr>,
    backward_cipher = \<lparr>ctr_key = zeros 16, ctr_iv = ZERO_IV16, ctr_pos = 0\<rparr>\<rparr>"

lemma sealable_RelayCell:
  "0 \<le> cmd \<Longrightarrow> cmd < 256 \<Longrightarrow> 0 \<le> sid \<Longrightarrow> sid < 65536 \<Longrightarrow> length data \<le> 498 \<Longrightarrow>
    (\<And>n. length (urandom n) = n) \<Longrightarrow> sealable (RelayCell urandom cmd sid data)"
  by (simp add: sealable_def RelayCell_wf) (simp add: RelayCell_def RelayCell_full_def)

theorem hop_ends_stay_in_step_witness:
  "let cells = [RelayCell zeros 2 7 [1, 2, 3], RelayCell zeros 3 7 []] in
   run_map (hop_open toy_prims zeros True) toy_crypto
       (snd (run_map (hop_seal toy_prims True) toy_crypto cells))
    = (fst (run_map (hop_seal toy_prims True) toy_crypto cells),
       map (\<lambda>c. Some (RelayCell_with_digest ZERO_DIGEST c)) cells)"
  unfolding Let_def
  by (rule hop_ends_stay_in_step) (auto simp: toy_prims_ok intro!: sealable_RelayCell)

end
