(* ===== verification/FlowControl.thy ===== *)
theory FlowControl
  imports Constants
begin

text \<open>
  Flow-control windows (\<open>_net/flowcontrol.py\<close>). A method that blocks on a condition variable is
  modelled twice: \<open>consume_waiting\<close> runs the \<open>while\<close> loop over the wake-ups the thread sees, and
  \<open>PackageWindow_consume\<close> is its effect on the state the loop ends in (\<open>consume_waiting_result\<close>),
  which is what the callers' models use. The second half composes the window with the tracker of
  authenticated SENDMEs as the circuit does, as a step relation over all interleavings.
\<close>

record package_window =
  pw_value :: int
  pw_increment :: int
  pw_closed :: bool

definition PackageWindow :: "int \<Rightarrow> int \<Rightarrow> package_window" where
  "PackageWindow initial increment =
     \<lparr>pw_value = initial, pw_increment = increment, pw_closed = False\<rparr>"

definition PackageWindow_refill :: "package_window \<Rightarrow> package_window" where
  "PackageWindow_refill w = w\<lparr>pw_value := pw_value w + pw_increment w\<rparr>"

definition PackageWindow_close :: "package_window \<Rightarrow> package_window" where
  "PackageWindow_close w = w\<lparr>pw_closed := True\<rparr>"

definition PackageWindow_remaining :: "package_window \<Rightarrow> int" where
  "PackageWindow_remaining w = pw_value w"

text \<open>What a waiting thread sees: the window after other threads refilled or closed it (or a
spurious wake-up), or the expiry of the timeout.\<close>

datatype wake = Woken package_window | TimedOut

definition window_blocked :: "package_window \<Rightarrow> bool" where
  "window_blocked w \<longleftrightarrow> pw_value w \<le> 0 \<and> \<not> pw_closed w"

text \<open>\<open>None\<close>: the thread is still waiting when the listed wake-ups are used up.\<close>

fun consume_waiting :: "wake list \<Rightarrow> package_window \<Rightarrow> (package_window \<times> unit res) option" where
  "consume_waiting wakes w =
    (if window_blocked w then
       (case wakes of
          [] \<Rightarrow> None
        | TimedOut # _ \<Rightarrow> Some (w, Inl TorReadTimeout)
        | Woken w' # rest \<Rightarrow> consume_waiting rest w')
     else if pw_closed w then Some (w, Inl CircuitDestroyed)
     else Some (w\<lparr>pw_value := pw_value w - 1\<rparr>, Inr ()))"

declare consume_waiting.simps [simp del]

definition PackageWindow_consume :: "package_window \<Rightarrow> package_window \<times> unit res" where
  "PackageWindow_consume w =
    (if window_blocked w then (w, Inl TorReadTimeout)
     else if pw_closed w then (w, Inl CircuitDestroyed)
     else (w\<lparr>pw_value := pw_value w - 1\<rparr>, Inr ()))"

record deliver_counter =
  dc_increment :: int
  dc_count :: int

definition DeliverCounter :: "int \<Rightarrow> deliver_counter" where
  "DeliverCounter increment = \<lparr>dc_increment = increment, dc_count = 0\<rparr>"

definition note_received :: "deliver_counter \<Rightarrow> deliver_counter \<times> bool" where
  "note_received d =
    (let n = dc_count d + 1 in
     if dc_increment d \<le> n then (d\<lparr>dc_count := 0\<rparr>, True) else (d\<lparr>dc_count := n\<rparr>, False))"

record sendme_tracker =
  st_increment :: int
  st_sent :: int
  st_expected :: "bytes list"

definition SendmeTracker :: "int \<Rightarrow> sendme_tracker" where
  "SendmeTracker increment = \<lparr>st_increment = increment, st_sent = 0, st_expected = []\<rparr>"

definition note_sent :: "bytes \<Rightarrow> sendme_tracker \<Rightarrow> sendme_tracker" where
  "note_sent digest t =
    (let n = st_sent t + 1 in
     if st_increment t \<le> n then t\<lparr>st_sent := 0, st_expected := st_expected t @ [take 20 digest]\<rparr>
     else t\<lparr>st_sent := n\<rparr>)"

definition tracker_verify :: "bytes \<Rightarrow> sendme_tracker \<Rightarrow> sendme_tracker \<times> bool" where
  "tracker_verify digest t =
    (case st_expected t of
       [] \<Rightarrow> (t, False)
     | expected # rest \<Rightarrow> (t\<lparr>st_expected := rest\<rparr>, expected = take 20 digest))"

section \<open>Waiting for the window\<close>

lemma consume_waiting_result:
  "consume_waiting wakes w = Some r \<Longrightarrow> \<exists>w'. r = PackageWindow_consume w'
    \<and> (w' = w \<or> Woken w' \<in> set wakes)"
proof (induction wakes arbitrary: w)
  case Nil
  then show ?case by (subst (asm) consume_waiting.simps) (auto simp: PackageWindow_consume_def split: if_splits)
next
  case (Cons x xs)
  then show ?case
    by (subst (asm) consume_waiting.simps [of "x # xs"])
      (fastforce simp: PackageWindow_consume_def split: if_splits wake.splits)
qed

text \<open>A close or a refill seen by a waiter lets it go on; nothing else but the timeout does.\<close>

lemma consume_waiting_released:
  "\<not> window_blocked w' \<Longrightarrow> \<exists>r. consume_waiting (Woken w' # rest) w = Some r"
  by (subst consume_waiting.simps) (simp add: consume_waiting.simps [of rest w'])

lemma consume_waiting_blocked:
  "window_blocked w \<Longrightarrow> \<forall>w'. Woken w' \<in> set wakes \<longrightarrow> window_blocked w' \<Longrightarrow> TimedOut \<notin> set wakes \<Longrightarrow>
    consume_waiting wakes w = None"
proof (induction wakes arbitrary: w)
  case Nil
  then show ?case by (simp add: consume_waiting.simps)
next
  case (Cons x xs)
  then show ?case
    by (cases x) (auto simp: consume_waiting.simps [of "Woken _ # xs"])
qed

lemma consume_ok_iff:
  "PackageWindow_consume w = (w', Inr u) \<longleftrightarrow>
    0 < pw_value w \<and> \<not> pw_closed w \<and> w' = w\<lparr>pw_value := pw_value w - 1\<rparr>"
  by (auto simp: PackageWindow_consume_def window_blocked_def)

section \<open>The sender of a circuit under SENDME authentication\<close>

text \<open>
  The circuit's own use: \<open>Take\<close> is \<open>consume\<close> in \<open>send_relay\<close>; \<open>Note\<close> is \<open>note_sent\<close> under the transmit
  lock, possibly after other threads' steps; \<open>Drop\<close> is a send that raised between the two; \<open>Ack\<close> is
  \<open>_handle_circuit_sendme\<close> on a well-formed SENDME, tearing down on a mismatch; \<open>Shut\<close> is any other
  teardown. \<open>CircuitFlow\<close> shows that the circuit's operations are such steps. \<open>fl_taken\<close> and
  \<open>fl_acks\<close> only record the history.
\<close>

record flow =
  fl_window :: package_window
  fl_tracker :: sendme_tracker
  fl_pending :: nat
  fl_taken :: nat
  fl_noted :: nat
  fl_acks :: nat

definition flow_init :: flow where
  "flow_init = \<lparr>fl_window = PackageWindow CIRCUIT_WINDOW_INITIAL CIRCUIT_WINDOW_INCREMENT,
     fl_tracker = SendmeTracker CIRCUIT_WINDOW_INCREMENT,
     fl_pending = 0, fl_taken = 0, fl_noted = 0, fl_acks = 0\<rparr>"

datatype flow_event = Take | Note bytes | Drop | Ack bytes | Shut

fun flow_do :: "flow_event \<Rightarrow> flow \<Rightarrow> flow option" where
  "flow_do Take f =
    (case PackageWindow_consume (fl_window f) of
       (w, Inr _) \<Rightarrow> Some (f\<lparr>fl_window := w, fl_pending := fl_pending f + 1, fl_taken := fl_taken f + 1\<rparr>)
     | (w, Inl _) \<Rightarrow> None)"
| "flow_do (Note d) f =
    (if fl_pending f = 0 then None
     else Some (f\<lparr>fl_tracker := note_sent d (fl_tracker f), fl_pending := fl_pending f - 1,
                  fl_noted := fl_noted f + 1\<rparr>))"
| "flow_do Shut f = Some (f\<lparr>fl_window := PackageWindow_close (fl_window f)\<rparr>)"
| "flow_do Drop f = (if fl_pending f = 0 then None else Some (f\<lparr>fl_pending := fl_pending f - 1\<rparr>))"
| "flow_do (Ack d) f =
    (let (t, authentic) = tracker_verify d (fl_tracker f) in
     if authentic
     then Some (f\<lparr>fl_tracker := t, fl_window := PackageWindow_refill (fl_window f),
                  fl_acks := fl_acks f + 1\<rparr>)
     else Some (f\<lparr>fl_tracker := t, fl_window := PackageWindow_close (fl_window f)\<rparr>))"

inductive flow_reach :: "flow \<Rightarrow> bool" where
  flow_start: "flow_reach flow_init"
| flow_step: "flow_reach f \<Longrightarrow> flow_do e f = Some f' \<Longrightarrow> flow_reach f'"

definition flow_inv :: "flow \<Rightarrow> bool" where
  "flow_inv f \<longleftrightarrow>
     pw_increment (fl_window f) = 100 \<and> st_increment (fl_tracker f) = 100
   \<and> pw_value (fl_window f) = 1000 - int (fl_taken f) + 100 * int (fl_acks f)
   \<and> 0 \<le> pw_value (fl_window f)
   \<and> fl_noted f + fl_pending f \<le> fl_taken f
   \<and> (\<forall>d \<in> set (st_expected (fl_tracker f)). length d \<le> 20)
   \<and> 0 \<le> st_sent (fl_tracker f) \<and> st_sent (fl_tracker f) < 100
   \<and> (if pw_closed (fl_window f)
      then 100 * (int (fl_acks f) + int (length (st_expected (fl_tracker f)))) + st_sent (fl_tracker f)
             \<le> int (fl_noted f)
      else 100 * (int (fl_acks f) + int (length (st_expected (fl_tracker f)))) + st_sent (fl_tracker f)
             = int (fl_noted f))"

lemma flow_do_inv:
  assumes inv: "flow_inv f" and step: "flow_do e f = Some f'"
  shows "flow_inv f'"
proof (cases e)
  case Take
  then show ?thesis using inv step
    by (auto simp: flow_inv_def consume_ok_iff split: prod.splits sum.splits if_splits)
next
  case (Note d)
  then show ?thesis using inv step by (auto simp: flow_inv_def note_sent_def Let_def split: if_splits)
next
  case Shut
  then show ?thesis using inv step by (auto simp: flow_inv_def PackageWindow_close_def split: if_splits)
next
  case Drop
  then show ?thesis using inv step by (auto simp: flow_inv_def split: if_splits)
next
  case (Ack d)
  then show ?thesis using inv step
    by (cases "st_expected (fl_tracker f)")
      (auto simp: flow_inv_def tracker_verify_def PackageWindow_refill_def PackageWindow_close_def
        split: if_splits)
qed

lemma flow_reach_inv: "flow_reach f \<Longrightarrow> flow_inv f"
proof (induction rule: flow_reach.induct)
  case flow_start
  then show ?case
    by (simp add: flow_inv_def flow_init_def PackageWindow_def SendmeTracker_def)
next
  case (flow_step f e f')
  then show ?case by (blast intro: flow_do_inv)
qed

lemma flow_reach_bounds:
  "flow_reach f \<Longrightarrow> 0 \<le> pw_value (fl_window f) \<and> pw_value (fl_window f) \<le> CIRCUIT_WINDOW_INITIAL"
  using flow_reach_inv [of f] by (auto simp: flow_inv_def split: if_splits)

text \<open>No peer can inflate the send window. In every state reachable by any interleaving of sends
and SENDMEs, authentic or forged, the window is what the cells actually sent allow: it never exceeds
1000, and accepted acknowledgements never outnumber the hundreds of DATA cells sent.\<close>

theorem sendme_cannot_inflate_window:
  assumes "flow_reach f"
  shows "0 \<le> pw_value (fl_window f) \<and> pw_value (fl_window f) \<le> CIRCUIT_WINDOW_INITIAL
    \<and> 100 * fl_acks f \<le> fl_noted f"
  using flow_reach_inv [OF assms] by (auto simp: flow_inv_def split: if_splits)

theorem sendme_cannot_inflate_window_witness:
  "\<exists>f. flow_do (Ack [1]) flow_init = Some f \<and> pw_closed (fl_window f)
     \<and> 0 \<le> pw_value (fl_window f) \<and> pw_value (fl_window f) \<le> CIRCUIT_WINDOW_INITIAL
     \<and> 100 * fl_acks f \<le> fl_noted f"
proof -
  obtain f where f: "flow_do (Ack [1]) flow_init = Some f" "pw_closed (fl_window f)"
    by (simp add: flow_init_def tracker_verify_def SendmeTracker_def PackageWindow_def
        PackageWindow_close_def)
  then show ?thesis
    using sendme_cannot_inflate_window [OF flow_step [OF flow_start f(1)]] by blast
qed

text \<open>C28: an exhausted window can always be reopened. When every consumed unit was sent and the circuit
was not torn down, a sender blocked on the window has an outstanding SENDME to wait for, and the
acknowledgement that carries the oldest remembered digest refills the window.\<close>

theorem blocked_sender_can_be_acknowledged:
  assumes "flow_reach f" and "fl_noted f = fl_taken f" and "window_blocked (fl_window f)"
  shows "\<exists>d rest f'. st_expected (fl_tracker f) = d # rest \<and> flow_do (Ack d) f = Some f'
    \<and> pw_value (fl_window f') = CIRCUIT_WINDOW_INCREMENT"
proof -
  have inv: "flow_inv f" by (rule flow_reach_inv [OF assms(1)])
  have v: "pw_value (fl_window f) = 0" "\<not> pw_closed (fl_window f)"
    using inv assms(3) by (auto simp: flow_inv_def window_blocked_def)
  then have "st_expected (fl_tracker f) \<noteq> []" using inv assms(2) by (auto simp: flow_inv_def)
  then obtain d rest where e: "st_expected (fl_tracker f) = d # rest" by (cases "st_expected (fl_tracker f)") auto
  then have "take 20 d = d" using inv by (simp add: flow_inv_def)
  then show ?thesis using v inv e
    by (simp add: tracker_verify_def PackageWindow_refill_def flow_inv_def)
qed

text \<open>The state after \<open>n\<close> sends without an acknowledgement, every cell with digest \<open>d\<close>.\<close>

definition flow_sent :: "bytes \<Rightarrow> nat \<Rightarrow> flow" where
  "flow_sent d n = \<lparr>fl_window = \<lparr>pw_value = 1000 - int n, pw_increment = 100, pw_closed = False\<rparr>,
     fl_tracker = \<lparr>st_increment = 100, st_sent = int (n mod 100),
       st_expected = replicate (n div 100) (take 20 d)\<rparr>,
     fl_pending = 0, fl_taken = n, fl_noted = n, fl_acks = 0\<rparr>"

lemma flow_sent_step:
  assumes "n < 1000"
  shows "\<exists>f. flow_do Take (flow_sent d n) = Some f \<and> flow_do (Note d) f = Some (flow_sent d (Suc n))"
proof -
  have "note_sent d (fl_tracker (flow_sent d n)) = fl_tracker (flow_sent d (Suc n))"
  proof (cases "Suc n mod 100 = 0")
    case True
    then have "Suc n div 100 = Suc (n div 100)" "n mod 100 = 99"
      using div_Suc [of n 100] mod_Suc [of n 100] by (auto split: if_splits)
    then show ?thesis using True
      by (simp only: flow_sent_def note_sent_def Let_def) (simp add: replicate_append_same)
  next
    case False
    then have "Suc n div 100 = n div 100" "Suc n mod 100 = Suc (n mod 100)"
      using div_Suc [of n 100] mod_Suc [of n 100] by auto
    moreover from this have "Suc (n mod 100) < 100" by (metis mod_less_divisor zero_less_numeral)
    ultimately show ?thesis by (simp only: flow_sent_def note_sent_def Let_def) simp
  qed
  then show ?thesis
    using assms by (simp add: flow_sent_def PackageWindow_consume_def window_blocked_def)
qed

lemma flow_sent_reach: "n \<le> 1000 \<Longrightarrow> flow_reach (flow_sent d n)"
proof (induction n)
  case 0
  have "flow_sent d 0 = flow_init"
    by (simp add: flow_sent_def flow_init_def PackageWindow_def SendmeTracker_def)
  then show ?case by (simp add: flow_start)
next
  case (Suc n)
  then show ?case using flow_sent_step [of n d] by (metis Suc_leD Suc_le_lessD flow_step)
qed

theorem blocked_sender_can_be_acknowledged_witness:
  "\<exists>d rest f'. st_expected (fl_tracker (flow_sent [7] 1000)) = d # rest
    \<and> flow_do (Ack d) (flow_sent [7] 1000) = Some f'
    \<and> pw_value (fl_window f') = CIRCUIT_WINDOW_INCREMENT"
  by (rule blocked_sender_can_be_acknowledged)
    (simp_all add: flow_sent_reach, simp_all add: flow_sent_def window_blocked_def)

section \<open>An honest peer is always believed\<close>

text \<open>The acknowledgements of an endpoint that counts received DATA cells with \<open>DeliverCounter\<close> and
answers each due one with the digest of the cell that triggered it.\<close>

fun due_acks :: "deliver_counter \<Rightarrow> bytes list \<Rightarrow> bytes list" where
  "due_acks c [] = []"
| "due_acks c (d # ds) =
    (let (c', due) = note_received c in if due then take 20 d # due_acks c' ds else due_acks c' ds)"

lemma expected_due:
  "st_increment t = dc_increment c \<Longrightarrow> st_sent t = dc_count c \<Longrightarrow>
    st_expected (fold note_sent ds t) = st_expected t @ due_acks c ds"
proof (induction ds arbitrary: t c)
  case (Cons d ds)
  let ?t = "note_sent d t" and ?c = "fst (note_received c)"
  have "st_increment ?t = dc_increment ?c" "st_sent ?t = dc_count ?c"
    "st_expected ?t = st_expected t @ (if snd (note_received c) then [take 20 d] else [])"
    using Cons.prems by (auto simp: note_sent_def note_received_def Let_def)
  with Cons.IH [of ?t ?c] show ?case by (simp add: case_prod_beta Let_def)
qed simp

lemma due_acks_append: "\<exists>c'. due_acks c (xs @ ys) = due_acks c xs @ due_acks c' ys"
proof (induction xs arbitrary: c)
  case (Cons x xs)
  then show ?case by (cases "note_received c") auto
qed auto

lemma due_acks_length: "a \<in> set (due_acks c ds) \<Longrightarrow> length a \<le> 20"
  by (induction ds arbitrary: c) (auto simp: Let_def case_prod_beta split: if_splits)

lemma verify_expected:
  "st_expected t = as @ rest \<Longrightarrow> \<forall>a \<in> set as. length a \<le> 20 \<Longrightarrow>
    run_map (\<lambda>t a. tracker_verify a t) t as = (t\<lparr>st_expected := rest\<rparr>, map (\<lambda>_. True) as)"
  by (induction as arbitrary: t) (auto simp: tracker_verify_def)

text \<open>An honest endpoint is always believed: whatever cells were sent, the SENDMEs due for those
already received, each carrying the digest of the cell that triggered it, all verify in order, and
exactly the expectations of the cells still in flight remain.\<close>

theorem honest_sendmes_verify:
  "\<exists>c'. run_map (\<lambda>t a. tracker_verify a t)
      (fold note_sent (received @ in_flight) (SendmeTracker increment))
      (due_acks (DeliverCounter increment) received)
    = ((fold note_sent (received @ in_flight) (SendmeTracker increment))
         \<lparr>st_expected := due_acks c' in_flight\<rparr>,
       map (\<lambda>_. True) (due_acks (DeliverCounter increment) received))"
proof -
  obtain c' where c': "due_acks (DeliverCounter increment) (received @ in_flight)
      = due_acks (DeliverCounter increment) received @ due_acks c' in_flight"
    using due_acks_append by blast
  have "st_expected (fold note_sent (received @ in_flight) (SendmeTracker increment))
      = due_acks (DeliverCounter increment) received @ due_acks c' in_flight"
    unfolding c' [symmetric]
    by (subst expected_due [where c = "DeliverCounter increment"])
      (simp_all add: SendmeTracker_def DeliverCounter_def)
  then show ?thesis using verify_expected due_acks_length by blast
qed

end
