(* ===== verification/Handshake.thy ===== *)
theory Handshake
  imports Crypto
begin

text \<open>
  The two key agreements: ntor for classic hops (\<open>_proto/handshake/ntor.py\<close>) and hs-ntor for the
  rendezvous with an onion service (\<open>_proto/handshake/hs_ntor.py\<close>), client side. The freshly
  generated private key is an argument, used when no ephemeral key is passed. The server sides are
  specifications, used to state agreement.
\<close>

section \<open>ntor\<close>

record ntor_handshake =
  nt_onion_key :: bytes
  nt_node_id :: bytes
  nt_x :: bytes
  nt_pub_x :: bytes

definition T_MAC :: bytes where "T_MAC = NTOR_PROTOID @ ascii '':mac''"
definition T_KEY :: bytes where "T_KEY = NTOR_PROTOID @ ascii '':key_extract''"
definition T_VERIFY :: bytes where "T_VERIFY = NTOR_PROTOID @ ascii '':verify''"
definition M_EXPAND :: bytes where "M_EXPAND = NTOR_PROTOID @ ascii '':key_expand''"

definition KEY_MATERIAL_LEN :: int where [simp]: "KEY_MATERIAL_LEN = 72"

text \<open>\<open>ephemeral_private or x25519_keypair()[0]\<close>: an absent or empty key is replaced.\<close>

definition ephemeral_or :: "bytes option \<Rightarrow> bytes \<Rightarrow> bytes" where
  "ephemeral_or ephemeral generated =
     (case ephemeral of None \<Rightarrow> generated | Some x \<Rightarrow> if x = [] then generated else x)"

definition NtorHandshake ::
  "prims \<Rightarrow> bytes \<Rightarrow> bytes \<Rightarrow> bytes option \<Rightarrow> bytes \<Rightarrow> ntor_handshake res" where
  "NtorHandshake P onion_key node_id ephemeral generated =
    (if length onion_key \<noteq> 32 then Inl ValueError
     else if length node_id \<noteq> 20 then Inl ValueError
     else let x = ephemeral_or ephemeral generated in
          rbind (x25519_public_from_private P x) (\<lambda>pub.
            Inr \<lparr>nt_onion_key = onion_key, nt_node_id = node_id, nt_x = x, nt_pub_x = pub\<rparr>))"

definition create_onion_skin :: "ntor_handshake \<Rightarrow> bytes" where
  "create_onion_skin h = nt_node_id h @ nt_onion_key h @ nt_pub_x h"

definition ntor_complete :: "prims \<Rightarrow> ntor_handshake \<Rightarrow> bytes \<Rightarrow> bytes res" where
  "ntor_complete P h reply =
    (if length reply < 64 then Inl CircuitError
     else let server_pub = take 32 reply; auth = py_slice 32 64 reply in
     rbind (rcatch (rbind (x25519 P (nt_x h) server_pub) (\<lambda>exp_yx.
                    rbind (x25519 P (nt_x h) (nt_onion_key h)) (\<lambda>exp_bx. Inr (exp_yx, exp_bx))))
              (catches [ValueError]) (\<lambda>_. Inl CircuitError))
       (\<lambda>(exp_yx, exp_bx).
        let secret_input = exp_yx @ exp_bx @ nt_node_id h @ nt_onion_key h @ nt_pub_x h
              @ server_pub @ NTOR_PROTOID;
            key_seed = hmac_sha256 P T_KEY secret_input;
            verify = hmac_sha256 P T_VERIFY secret_input;
            auth_input = verify @ nt_node_id h @ nt_onion_key h @ server_pub @ nt_pub_x h
              @ NTOR_PROTOID @ ascii ''Server'';
            expected_auth = hmac_sha256 P T_MAC auth_input
        in if \<not> const_time_eq auth expected_auth then Inl CircuitError
           else hkdf_sha256_expand P key_seed M_EXPAND KEY_MATERIAL_LEN))"

text \<open>
  The relay's side of ntor (tor-spec 5.1.4), for a relay with identity \<open>node_id\<close>, onion key pair
  \<open>b\<close> and ephemeral \<open>y\<close>: it accepts a skin addressed to it and answers \<open>Y | AUTH\<close> and the keys.
\<close>

definition ntor_relay :: "prims \<Rightarrow> bytes \<Rightarrow> bytes \<Rightarrow> bytes \<Rightarrow> bytes \<Rightarrow> (bytes \<times> bytes) option" where
  "ntor_relay P node_id b y skin =
    (let B = dh_public P b; Y = dh_public P y; X = drop 52 skin in
     if length skin \<noteq> 84 \<or> take 20 skin \<noteq> node_id \<or> py_slice 20 52 skin \<noteq> B then None
     else case (dh_exchange P y X, dh_exchange P b X) of
       (Some xy, Some xb) \<Rightarrow>
         let secret_input = xy @ xb @ node_id @ B @ X @ Y @ NTOR_PROTOID;
             verify = hmac_sha256 P T_VERIFY secret_input;
             auth = hmac_sha256 P T_MAC (verify @ node_id @ B @ Y @ X @ NTOR_PROTOID @ ascii ''Server'')
         in (case hkdf_sha256_expand P (hmac_sha256 P T_KEY secret_input) M_EXPAND 72 of
               Inl _ \<Rightarrow> None | Inr keys \<Rightarrow> Some (Y @ auth, keys))
     | _ \<Rightarrow> None)"

lemma ntor_complete_raises:
  assumes "prims_ok P"
  shows "raises_only {CircuitError} (ntor_complete P h reply)"
proof -
  have k: "raises_only S (hkdf_sha256_expand P prk info 72)" for S prk info
    using hkdf_sha256_expand_total [OF assms, of 72 prk info] by (auto simp: raises_only_def)
  have v: "e = ValueError" if "x25519 P x y = Inl e" for x y e
    using raises_onlyD [OF x25519_raises that] by simp
  show ?thesis
    unfolding ntor_complete_def Let_def
    by (intro raises_intros raises_only_rcatch)
      (auto simp: k rbind_Inl_iff dest!: v intro: raises_only_Inl)
qed

lemma ntor_complete_length:
  assumes "prims_ok P" "ntor_complete P h reply = Inr km"
  shows "length km = 72"
  using assms(2) hkdf_sha256_expand_length [OF assms(1), of 72]
  by (auto simp: ntor_complete_def Let_def split: if_splits)

lemma NtorHandshake_Inr_iff:
  "NtorHandshake P B node_id eph gen = Inr h \<longleftrightarrow> length B = 32 \<and> length node_id = 20
     \<and> length (ephemeral_or eph gen) = 32
     \<and> h = \<lparr>nt_onion_key = B, nt_node_id = node_id, nt_x = ephemeral_or eph gen,
            nt_pub_x = dh_public P (ephemeral_or eph gen)\<rparr>"
  by (auto simp: NtorHandshake_def x25519_public_from_private_def Let_def)

lemma ntor_relay_answers:
  assumes ok: "prims_ok P" and "length node_id = 20" "length X = 32"
    and "dh_exchange P y X = Some xy" "dh_exchange P b X = Some xb"
  shows "\<exists>reply keys. ntor_relay P node_id b y (node_id @ dh_public P b @ X) = Some (reply, keys)"
proof -
  have l: "length (dh_public P b) = 32" by (rule prims_okD(4) [OF ok])
  have X: "drop 52 (node_id @ dh_public P b @ X) = X"
    "py_slice 20 52 (node_id @ dh_public P b @ X) = dh_public P b"
    using assms(2) l by (simp_all add: py_slice_def)
  obtain okm where okm: "hkdf_sha256_expand P (hmac_sha256 P T_KEY
      (xy @ xb @ node_id @ dh_public P b @ X @ dh_public P y @ NTOR_PROTOID)) M_EXPAND 72 = Inr okm"
    using hkdf_sha256_expand_total [OF ok, of 72] by auto
  show ?thesis
    unfolding ntor_relay_def Let_def X using assms l okm by simp
qed

text \<open>The ntor client and an honest relay agree: whatever reply the relay the handshake was meant
for computes from the client's onion skin, the client accepts it and derives the relay's very key
material, 72 bytes long.\<close>

theorem ntor_agreement:
  assumes "prims_ok P" "dh_commutes P" "length b = 32" "length y = 32"
    and h: "NtorHandshake P (dh_public P b) node_id eph gen = Inr h"
    and relay: "ntor_relay P node_id b y (create_onion_skin h) = Some (reply, keys)"
  shows "ntor_complete P h reply = Inr keys \<and> length keys = 72"
proof -
  let ?x = "nt_x h" and ?X = "nt_pub_x h" and ?B = "dh_public P b" and ?Y = "dh_public P y"
  have hh: "nt_onion_key h = ?B" "nt_node_id h = node_id" "?X = dh_public P ?x" "length ?x = 32"
      "length node_id = 20"
    using h by (auto simp: NtorHandshake_Inr_iff)
  have X: "drop 52 (create_onion_skin h) = ?X"
    using hh prims_okD(4) [OF assms(1)] by (simp add: create_onion_skin_def)
  have dh: "dh_exchange P y ?X = dh_exchange P ?x ?Y" "dh_exchange P b ?X = dh_exchange P ?x ?B"
    using assms(2-4) hh by (simp_all add: dh_commutes_def)
  from relay obtain xy xb where xy: "dh_exchange P ?x ?Y = Some xy" and xb: "dh_exchange P ?x ?B = Some xb"
    and keys: "hkdf_sha256_expand P (hmac_sha256 P T_KEY (xy @ xb @ node_id @ ?B @ ?X @ ?Y @ NTOR_PROTOID))
        M_EXPAND 72 = Inr keys"
    and reply: "reply = ?Y @ hmac_sha256 P T_MAC (hmac_sha256 P T_VERIFY
        (xy @ xb @ node_id @ ?B @ ?X @ ?Y @ NTOR_PROTOID) @ node_id @ ?B @ ?Y @ ?X @ NTOR_PROTOID @ ascii ''Server'')"
    unfolding ntor_relay_def Let_def X dh by (auto split: option.splits sum.splits if_splits)
  have split: "take 32 reply = ?Y" "py_slice 32 64 reply = drop 32 reply" "length reply = 64"
    using prims_okD(3,4) [OF assms(1)] by (simp_all add: reply py_slice_def)
  have "ntor_complete P h reply = Inr keys"
    using xy xb keys split prims_okD(4) [OF assms(1)]
    by (simp add: ntor_complete_def Let_def hh(1,2) x25519_def reply)
  then show ?thesis using ntor_complete_length [OF assms(1)] by blast
qed

theorem ntor_agreement_witness:
  "\<exists>h reply keys. NtorHandshake toy_prims (dh_public toy_prims (zeros 32)) (zeros 20) None (zeros 32) = Inr h
    \<and> ntor_relay toy_prims (zeros 20) (zeros 32) (replicate 32 1) (create_onion_skin h) = Some (reply, keys)
    \<and> ntor_complete toy_prims h reply = Inr keys \<and> length keys = 72"
proof -
  let ?h = "\<lparr>nt_onion_key = zeros 32, nt_node_id = zeros 20, nt_x = zeros 32, nt_pub_x = zeros 32\<rparr>"
  have pub: "dh_public toy_prims x = x" if "length x = 32" for x using that by (simp add: toy_prims_def)
  have h: "NtorHandshake toy_prims (dh_public toy_prims (zeros 32)) (zeros 20) None (zeros 32) = Inr ?h"
    by (simp add: NtorHandshake_Inr_iff ephemeral_or_def pub)
  have dh: "dh_exchange toy_prims x y = Some (xor_zip x y)" if "length x = 32" "length y = 32" for x y
    using that by (simp add: toy_prims_def)
  obtain reply keys where
    r: "ntor_relay toy_prims (zeros 20) (zeros 32) (replicate 32 1) (create_onion_skin ?h) = Some (reply, keys)"
    using ntor_relay_answers [OF toy_prims_ok _ _ dh dh, of "zeros 20" "zeros 32" "replicate 32 1" "zeros 32"]
    by (auto simp: create_onion_skin_def pub)
  show ?thesis
    using ntor_agreement [OF toy_prims_ok toy_prims_commute _ _ h r] h r by auto
qed

section \<open>hs-ntor\<close>

definition T_HSENC :: bytes where "T_HSENC = HS_NTOR_PROTOID @ ascii '':hs_key_extract''"
definition T_HSVERIFY :: bytes where "T_HSVERIFY = HS_NTOR_PROTOID @ ascii '':hs_verify''"
definition T_HSMAC :: bytes where "T_HSMAC = HS_NTOR_PROTOID @ ascii '':hs_mac''"
definition M_HSEXPAND :: bytes where "M_HSEXPAND = HS_NTOR_PROTOID @ ascii '':hs_key_expand''"

definition hs_mac :: "prims \<Rightarrow> bytes \<Rightarrow> bytes \<Rightarrow> bytes res" where
  "hs_mac P key message =
     rbind (pack_Q (int (length key))) (\<lambda>l. Inr (sha3_256 P (l @ key @ message)))"

record rendezvous_keys =
  ntor_key_seed :: bytes
  key_material :: bytes

record hs_ntor_handshake =
  hs_auth_key :: bytes
  hs_enc_key :: bytes
  hs_subcredential :: bytes
  hs_x :: bytes
  hs_pub_x :: bytes

definition HsNtorHandshake ::
  "prims \<Rightarrow> bytes \<Rightarrow> bytes \<Rightarrow> bytes \<Rightarrow> bytes option \<Rightarrow> bytes \<Rightarrow> hs_ntor_handshake res" where
  "HsNtorHandshake P intro_auth_key intro_enc_key subcredential ephemeral generated =
    (if length intro_auth_key \<noteq> 32 \<or> length intro_enc_key \<noteq> 32 \<or> length subcredential \<noteq> 32
     then Inl ValueError
     else let x = ephemeral_or ephemeral generated in
          rbind (x25519_public_from_private P x) (\<lambda>pub.
            Inr \<lparr>hs_auth_key = intro_auth_key, hs_enc_key = intro_enc_key,
                 hs_subcredential = subcredential, hs_x = x, hs_pub_x = pub\<rparr>))"

definition encrypt_introduce :: "prims \<Rightarrow> hs_ntor_handshake \<Rightarrow> bytes \<Rightarrow> bytes \<Rightarrow> bytes res" where
  "encrypt_introduce P h header plaintext =
    rbind (x25519 P (hs_x h) (hs_enc_key h)) (\<lambda>exp_bx.
    let intro_secret = exp_bx @ hs_auth_key h @ hs_pub_x h @ hs_enc_key h @ HS_NTOR_PROTOID;
        hs_keys = shake256 P (intro_secret @ T_HSENC @ M_HSEXPAND @ hs_subcredential h) 64;
        enc_key = take 32 hs_keys; mac_key = drop 32 hs_keys in
    rbind (aes_ctr P enc_key ZERO_IV16 plaintext) (\<lambda>encrypted.
    rbind (hs_mac P mac_key (header @ hs_pub_x h @ encrypted)) (\<lambda>mac.
    Inr (hs_pub_x h @ encrypted @ mac))))"

definition complete_rendezvous ::
  "prims \<Rightarrow> hs_ntor_handshake \<Rightarrow> bytes \<Rightarrow> bytes \<Rightarrow> rendezvous_keys res" where
  "complete_rendezvous P h server_pub auth =
    rbind (rcatch (rbind (x25519 P (hs_x h) server_pub) (\<lambda>exp_xy.
                   rbind (x25519 P (hs_x h) (hs_enc_key h)) (\<lambda>exp_xb. Inr (exp_xy, exp_xb))))
             (catches [ValueError]) (\<lambda>_. Inl RendezvousError))
      (\<lambda>(exp_xy, exp_xb).
       let rend_secret = exp_xy @ exp_xb @ hs_auth_key h @ hs_enc_key h @ hs_pub_x h
             @ server_pub @ HS_NTOR_PROTOID in
       rbind (hs_mac P rend_secret T_HSENC) (\<lambda>seed.
       rbind (hs_mac P rend_secret T_HSVERIFY) (\<lambda>verify.
       let auth_input = verify @ hs_auth_key h @ hs_enc_key h @ server_pub @ hs_pub_x h
             @ HS_NTOR_PROTOID @ ascii ''Server'' in
       rbind (hs_mac P auth_input T_HSMAC) (\<lambda>expected_auth.
       if \<not> const_time_eq auth expected_auth then Inl RendezvousError
       else Inr \<lparr>ntor_key_seed = seed, key_material = shake256 P (seed @ M_HSEXPAND) 128\<rparr>))))"

text \<open>
  The service's side (rend-spec-v3): it opens the INTRODUCE1 payload \<open>X | ENCRYPTED | MAC\<close> with its
  encryption key \<open>b\<close>, and answers the rendezvous with \<open>Y\<close>, \<open>AUTH\<close> and the circuit keys.
\<close>

definition hs_service_open ::
  "prims \<Rightarrow> bytes \<Rightarrow> bytes \<Rightarrow> bytes \<Rightarrow> bytes \<Rightarrow> bytes \<Rightarrow> (bytes \<times> bytes) option" where
  "hs_service_open P auth_key b subcred header payload =
    (let X = take 32 payload; encrypted = py_slice 32 (length payload - 32) payload;
         mac = drop (length payload - 32) payload; B = dh_public P b in
     if length payload < 64 then None
     else case dh_exchange P b X of
       None \<Rightarrow> None
     | Some xb \<Rightarrow>
        let keys = shake256 P (xb @ auth_key @ X @ B @ HS_NTOR_PROTOID @ T_HSENC @ M_HSEXPAND @ subcred) 64 in
        if hs_mac P (drop 32 keys) (header @ X @ encrypted) \<noteq> Inr mac then None
        else (case aes_ctr P (take 32 keys) ZERO_IV16 encrypted of
                Inl _ \<Rightarrow> None | Inr plaintext \<Rightarrow> Some (X, plaintext)))"

definition hs_service_reply ::
  "prims \<Rightarrow> bytes \<Rightarrow> bytes \<Rightarrow> bytes \<Rightarrow> bytes \<Rightarrow> (bytes \<times> bytes \<times> bytes) option" where
  "hs_service_reply P auth_key b y X =
    (let B = dh_public P b; Y = dh_public P y in
     case (dh_exchange P y X, dh_exchange P b X) of
       (Some xy, Some xb) \<Rightarrow>
         let secret = xy @ xb @ auth_key @ B @ X @ Y @ HS_NTOR_PROTOID in
         (case (hs_mac P secret T_HSENC, hs_mac P secret T_HSVERIFY) of
            (Inr seed, Inr verify) \<Rightarrow>
              (case hs_mac P (verify @ auth_key @ B @ Y @ X @ HS_NTOR_PROTOID @ ascii ''Server'') T_HSMAC of
                 Inr auth \<Rightarrow> Some (Y, auth, shake256 P (seed @ M_HSEXPAND) 128)
               | Inl _ \<Rightarrow> None)
          | _ \<Rightarrow> None)
     | _ \<Rightarrow> None)"

lemma hs_mac_length: "prims_ok P \<Longrightarrow> hs_mac P k m = Inr t \<Longrightarrow> length t = 32"
  by (auto simp: hs_mac_def sha3_256_def prims_okD)

lemma hs_mac_raises [raises_intros]:
  "length k < 18446744073709551616 \<Longrightarrow> raises_only S (hs_mac P k m)"
  by (simp add: hs_mac_def raises_only_def)

definition hs_handshake_wf :: "prims \<Rightarrow> hs_ntor_handshake \<Rightarrow> bool" where
  "hs_handshake_wf P h \<longleftrightarrow> length (hs_auth_key h) = 32 \<and> length (hs_enc_key h) = 32
     \<and> length (hs_subcredential h) = 32 \<and> length (hs_x h) = 32 \<and> hs_pub_x h = dh_public P (hs_x h)"

lemma HsNtorHandshake_Inr_iff:
  "HsNtorHandshake P A B sub eph gen = Inr h \<longleftrightarrow>
     hs_handshake_wf P h \<and> hs_auth_key h = A \<and> hs_enc_key h = B \<and> hs_subcredential h = sub
       \<and> hs_x h = ephemeral_or eph gen"
  by (auto simp: HsNtorHandshake_def x25519_public_from_private_def Let_def hs_handshake_wf_def)

lemma length_HS_PROTOID: "length HS_NTOR_PROTOID = 33"
  by (simp add: HS_NTOR_PROTOID_def)

lemma complete_rendezvous_raises:
  assumes ok: "prims_ok P" and h: "hs_handshake_wf P h"
  shows "raises_only {RendezvousError} (complete_rendezvous P h server_pub auth)"
proof -
  have v: "e = ValueError" if "x25519 P x y = Inl e" for x y e
    using raises_onlyD [OF x25519_raises that] by simp
  have pub: "length (hs_pub_x h) = 32" using h ok by (simp add: hs_handshake_wf_def prims_okD)
  show ?thesis
    unfolding complete_rendezvous_def Let_def
    apply (intro raises_intros raises_only_rcatch)
    using h pub by (auto simp: rbind_Inl_iff length_HS_PROTOID hs_handshake_wf_def x25519_Inr_iff
        rcatch_Inr_iff dest!: v dh_lengths [OF ok] hs_mac_length [OF ok])
qed

text \<open>An onion service opens what the client introduced itself with: the service recovers the
client's ephemeral key and the exact plaintext from the encrypted INTRODUCE1 payload, whose MAC covers
the header.\<close>

theorem hs_introduce_opened:
  assumes ok: "prims_ok P" and comm: "dh_commutes P" and b: "length b = 32"
    and h: "HsNtorHandshake P auth_key (dh_public P b) subcred eph gen = Inr h"
    and e: "encrypt_introduce P h header plaintext = Inr payload"
  shows "hs_service_open P auth_key b subcred header payload = Some (hs_pub_x h, plaintext)"
proof -
  let ?X = "hs_pub_x h" and ?B = "dh_public P b"
  have hh: "hs_handshake_wf P h" "hs_auth_key h = auth_key" "hs_enc_key h = ?B" "hs_subcredential h = subcred"
    using h by (simp_all add: HsNtorHandshake_Inr_iff)
  then have X: "length ?X = 32" using ok by (simp add: hs_handshake_wf_def prims_okD)
  have dh: "dh_exchange P b ?X = dh_exchange P (hs_x h) ?B"
    using comm b hh(1) by (simp add: dh_commutes_def hs_handshake_wf_def)
  from e obtain xb encrypted mac where xb: "dh_exchange P (hs_x h) ?B = Some xb"
    and enc: "aes_ctr P (take 32 (shake256 P (xb @ auth_key @ ?X @ ?B @ HS_NTOR_PROTOID @ T_HSENC
        @ M_HSEXPAND @ subcred) 64)) ZERO_IV16 plaintext = Inr encrypted"
    and mac: "hs_mac P (drop 32 (shake256 P (xb @ auth_key @ ?X @ ?B @ HS_NTOR_PROTOID @ T_HSENC
        @ M_HSEXPAND @ subcred) 64)) (header @ ?X @ encrypted) = Inr mac"
    and payload: "payload = ?X @ encrypted @ mac"
    by (auto simp: encrypt_introduce_def Let_def x25519_Inr_iff hh)
  have ml: "length mac = 32" by (rule hs_mac_length [OF ok mac])
  have parts: "take 32 payload = ?X" "py_slice 32 (length payload - 32) payload = encrypted"
    "drop (length payload - 32) payload = mac" "\<not> length payload < 64"
    using X ml by (simp_all add: payload py_slice_def)
  show ?thesis
    unfolding hs_service_open_def Let_def parts using xb mac aes_ctr_symmetric [OF enc] parts(4)
    by (simp add: dh)
qed

text \<open>The client and an onion service agree at the rendezvous: the service's answer to the client's
ephemeral key is accepted, and both derive the same 128 bytes of circuit keys.\<close>

theorem hs_ntor_agreement:
  assumes ok: "prims_ok P" and comm: "dh_commutes P" and "length b = 32" "length y = 32"
    and h: "HsNtorHandshake P auth_key (dh_public P b) subcred eph gen = Inr h"
    and reply: "hs_service_reply P auth_key b y (hs_pub_x h) = Some (Y, auth, keys)"
  shows "\<exists>seed. complete_rendezvous P h Y auth = Inr \<lparr>ntor_key_seed = seed, key_material = keys\<rparr>
    \<and> length keys = 128"
proof -
  have hh: "hs_handshake_wf P h" "hs_auth_key h = auth_key" "hs_enc_key h = dh_public P b"
    using h by (simp_all add: HsNtorHandshake_Inr_iff)
  have dh: "dh_exchange P b (hs_pub_x h) = dh_exchange P (hs_x h) (dh_public P b)"
    "dh_exchange P y (hs_pub_x h) = dh_exchange P (hs_x h) (dh_public P y)"
    using comm assms(3,4) hh(1) by (simp_all add: dh_commutes_def hs_handshake_wf_def)
  show ?thesis
    using reply unfolding hs_service_reply_def Let_def dh
    by (auto simp: complete_rendezvous_def Let_def hh x25519_def prims_okD [OF ok]
        split: option.splits sum.splits)
qed

definition toy_hs :: hs_ntor_handshake where
  "toy_hs = \<lparr>hs_auth_key = zeros 32, hs_enc_key = zeros 32, hs_subcredential = zeros 32,
     hs_x = replicate 32 1, hs_pub_x = replicate 32 1\<rparr>"

lemma toy_dh:
  "dh_public toy_prims x = (if length x = 32 then x else zeros 32)"
  "dh_exchange toy_prims x y = (if length x = 32 \<and> length y = 32 then Some (xor_zip x y) else None)"
  by (simp_all add: toy_prims_def)

lemma toy_hs_built:
  "HsNtorHandshake toy_prims (zeros 32) (dh_public toy_prims (zeros 32)) (zeros 32) (Some (replicate 32 1)) []
    = Inr toy_hs"
  by (simp add: HsNtorHandshake_def toy_hs_def ephemeral_or_def toy_dh x25519_public_from_private_def Let_def)

theorem hs_introduce_opened_witness:
  "\<exists>payload. encrypt_introduce toy_prims toy_hs [1, 2] [3, 4, 5] = Inr payload
    \<and> hs_service_open toy_prims (zeros 32) (zeros 32) (zeros 32) [1, 2] payload
        = Some (hs_pub_x toy_hs, [3, 4, 5])"
proof -
  obtain payload where p: "encrypt_introduce toy_prims toy_hs [1, 2] [3, 4, 5] = Inr payload"
    by (simp add: encrypt_introduce_def x25519_def toy_dh toy_hs_def aes_ctr_def ctr_cipher_def
        hs_mac_def Let_def prims_okD [OF toy_prims_ok])
  then show ?thesis
    using hs_introduce_opened [OF toy_prims_ok toy_prims_commute _ toy_hs_built p] by simp
qed

theorem hs_ntor_agreement_witness:
  "\<exists>Y auth keys seed. hs_service_reply toy_prims (zeros 32) (zeros 32) (replicate 32 7) (hs_pub_x toy_hs)
        = Some (Y, auth, keys)
    \<and> complete_rendezvous toy_prims toy_hs Y auth = Inr \<lparr>ntor_key_seed = seed, key_material = keys\<rparr>
    \<and> length keys = 128"
proof -
  obtain Y auth keys where r: "hs_service_reply toy_prims (zeros 32) (zeros 32) (replicate 32 7)
      (hs_pub_x toy_hs) = Some (Y, auth, keys)"
    by (simp add: hs_service_reply_def toy_dh toy_hs_def hs_mac_def Let_def xor_zip_def
        length_HS_PROTOID sha3_256_def prims_okD [OF toy_prims_ok])
  then show ?thesis
    using hs_ntor_agreement [OF toy_prims_ok toy_prims_commute _ _ toy_hs_built r] by simp
qed

end
