(* ===== verification/StreamState.thy ===== *)
theory StreamState
  imports Relay FlowControl
begin

text \<open>
  The state of a stream and the two handlers the receiver thread calls (\<open>_net/stream.py\<close>,
  \<open>handle_relay\<close> and \<open>on_circuit_closed\<close>). They never call back into the circuit, so the circuit's
  model uses them directly; the operations of the owning thread are in \<open>StreamOps\<close>.
\<close>

record stream =
  s_id :: int
  s_buffer :: bytes
  s_connected :: bool
  s_eof :: bool
  s_closed :: bool
  s_error :: "exc option"
  s_end_reason :: "int option"
  s_window :: package_window
  s_sendme_after :: int
  s_consumed :: int

definition Stream_init :: "int \<Rightarrow> stream" where
  "Stream_init stream_id = \<lparr>s_id = stream_id, s_buffer = [], s_connected = False, s_eof = False,
     s_closed = False, s_error = None, s_end_reason = None,
     s_window = PackageWindow STREAM_WINDOW_INITIAL STREAM_WINDOW_INCREMENT,
     s_sendme_after = STREAM_WINDOW_INCREMENT * int RELAY_PAYLOAD_LEN, s_consumed = 0\<rparr>"

definition Stream_handle_relay :: "relay_cell \<Rightarrow> stream \<Rightarrow> stream" where
  "Stream_handle_relay cell s =
    (if r_command cell = relay_num Relay_CONNECTED then s\<lparr>s_connected := True\<rparr>
     else if r_command cell = relay_num Relay_DATA then s\<lparr>s_buffer := s_buffer s @ r_data cell\<rparr>
     else if r_command cell = relay_num Relay_END
     then s\<lparr>s_eof := True, s_end_reason := Some (parse_end_reason (r_data cell))\<rparr>
     else if r_command cell = relay_num Relay_SENDME
     then s\<lparr>s_window := PackageWindow_refill (s_window s)\<rparr>
     else s)"

definition Stream_on_circuit_closed :: "exc option \<Rightarrow> stream \<Rightarrow> stream" where
  "Stream_on_circuit_closed error s =
     s\<lparr>s_error := Some (case error of None \<Rightarrow> CircuitDestroyed | Some e \<Rightarrow> e), s_eof := True,
       s_window := PackageWindow_close (s_window s)\<rparr>"

lemma handle_relay_keeps [simp]:
  "s_id (Stream_handle_relay c s) = s_id s"
  "s_error (Stream_handle_relay c s) = s_error s"
  "s_closed (Stream_handle_relay c s) = s_closed s"
  "s_consumed (Stream_handle_relay c s) = s_consumed s"
  "pw_closed (s_window (Stream_handle_relay c s)) = pw_closed (s_window s)"
  by (simp_all add: Stream_handle_relay_def PackageWindow_refill_def)

lemma on_circuit_closed_sel [simp]:
  "s_error (Stream_on_circuit_closed (Some e) s) = Some e"
  "s_eof (Stream_on_circuit_closed r s)"
  "s_buffer (Stream_on_circuit_closed r s) = s_buffer s"
  "pw_closed (s_window (Stream_on_circuit_closed r s))"
  by (simp_all add: Stream_on_circuit_closed_def PackageWindow_close_def)

text \<open>Inbound data is only ever appended.\<close>

lemma handle_relay_buffer:
  "s_buffer (Stream_handle_relay c s)
    = s_buffer s @ (if r_command c = relay_num Relay_DATA then r_data c else [])"
  by (simp add: Stream_handle_relay_def)

end
