(* ===== verification/Circuit.thy ===== *)
theory Circuit
  imports Cells LinkSpec Relay RelayCrypto Handshake StreamState "HOL-Library.AList"
begin

text \<open>
  The circuit (\<open>_net/circuit.py\<close>). The state \<open>circ\<close> holds the fields of \<open>Circuit\<close> and the objects it
  shares by reference: the streams and the waiters, addressed by number (\<open>stream_heap\<close>,
  \<open>waiter_heap\<close>), and the channel end it sends into (\<open>sent_cells\<close>, the cells \<open>Channel.send_cell\<close>
  accepted; \<open>chan_error\<close>, what it raises once the channel fails). A Python dict is an association
  list, which keeps its order.

  A method is atomic except where it blocks; there it takes an \<open>env\<close>, what the other threads do to
  the state until the wait ends. The private keys and padding bytes drawn by the code are arguments.
\<close>

record circuit_hop =
  hop_relay :: relay_info
  hop_crypto :: relay_crypto

datatype reply = Build bytes | Control relay_cell

record waiter =
  w_event :: bool
  w_result :: "reply option"
  w_error :: "exc option"

record circ =
  c_circ_id :: int
  c_hops :: "circuit_hop list"
  c_close_when_idle :: bool
  c_streams :: "(int \<times> nat) list"
  c_build_waiter :: "nat option"
  c_relay_waiters :: "(int \<times> nat) list"
  c_next_stream_id :: int
  c_destroyed :: bool
  c_error :: "exc option"
  c_package :: package_window
  c_deliver :: deliver_counter
  c_tracker :: sendme_tracker
  stream_heap :: "nat \<Rightarrow> stream"
  waiter_heap :: "waiter list"
  link_ver :: int
  chan_error :: "exc option"
  sent_cells :: "raw_cell list"
  deregistered :: bool

definition Circuit_init :: "int \<Rightarrow> bool \<Rightarrow> int \<Rightarrow> (nat \<Rightarrow> stream) \<Rightarrow> circ" where
  "Circuit_init cid close_when_idle version heap =
    \<lparr>c_circ_id = cid, c_hops = [], c_close_when_idle = close_when_idle, c_streams = [],
     c_build_waiter = None, c_relay_waiters = [], c_next_stream_id = 0, c_destroyed = False,
     c_error = None, c_package = PackageWindow CIRCUIT_WINDOW_INITIAL CIRCUIT_WINDOW_INCREMENT,
     c_deliver = DeliverCounter CIRCUIT_WINDOW_INCREMENT,
     c_tracker = SendmeTracker CIRCUIT_WINDOW_INCREMENT,
     stream_heap = heap, waiter_heap = [], link_ver = version, chan_error = None,
     sent_cells = [], deregistered = False\<rparr>"

section \<open>Waiters\<close>

definition new_waiter :: "circ \<Rightarrow> circ \<times> nat" where
  "new_waiter w = (w\<lparr>waiter_heap := waiter_heap w @ [\<lparr>w_event = False, w_result = None, w_error = None\<rparr>]\<rparr>,
     length (waiter_heap w))"

definition waiter_set_result :: "nat \<Rightarrow> reply \<Rightarrow> circ \<Rightarrow> circ" where
  "waiter_set_result r reply w =
     w\<lparr>waiter_heap := (waiter_heap w)[r := (waiter_heap w ! r)\<lparr>w_result := Some reply, w_event := True\<rparr>]\<rparr>"

definition waiter_set_error :: "exc \<Rightarrow> nat \<Rightarrow> circ \<Rightarrow> circ" where
  "waiter_set_error e r w =
     w\<lparr>waiter_heap := (waiter_heap w)[r := (waiter_heap w ! r)\<lparr>w_error := Some e, w_event := True\<rparr>]\<rparr>"

text \<open>\<open>wait\<close>, on the state at the end of the wait; \<open>None\<close> is Python's \<open>None\<close> result.\<close>

definition waiter_wait :: "nat \<Rightarrow> (circ, exc, reply option) op" where
  "waiter_wait r w =
    (let x = waiter_heap w ! r in
     if \<not> w_event x then (w, Inl CircuitBuildTimeout)
     else case w_error x of Some e \<Rightarrow> (w, Inl e) | None \<Rightarrow> (w, Inr (w_result x)))"

definition closed_error :: "circ \<Rightarrow> exc" where
  "closed_error w = (case c_error w of None \<Rightarrow> CircuitDestroyed | Some e \<Rightarrow> e)"

definition arm_build_waiter :: "(circ, exc, nat) op" where
  "arm_build_waiter w =
    (let (w1, r) = new_waiter w in
     if c_destroyed w1 then (w1, Inl (closed_error w1))
     else (w1\<lparr>c_build_waiter := Some r\<rparr>, Inr r))"

definition arm_relay :: "int \<Rightarrow> (circ, exc, nat) op" where
  "arm_relay cmd w =
    (let (w1, r) = new_waiter w in
     if c_destroyed w1 then (w1, Inl (closed_error w1))
     else (w1\<lparr>c_relay_waiters := AList.update cmd r (c_relay_waiters w1)\<rparr>, Inr r))"

definition RelayFuture_result :: "nat \<Rightarrow> (circ \<Rightarrow> circ) \<Rightarrow> (circ, exc, relay_cell) op" where
  "RelayFuture_result r env w =
    obind (waiter_wait r) (\<lambda>v. case v of Some (Control c) \<Rightarrow> oreturn c | _ \<Rightarrow> oraise CircuitError) (env w)"

definition build_reply :: "nat \<Rightarrow> (circ \<Rightarrow> circ) \<Rightarrow> (circ, exc, bytes) op" where
  "build_reply r env w =
    obind (waiter_wait r) (\<lambda>v. case v of Some (Build b) \<Rightarrow> oreturn b | _ \<Rightarrow> oraise CircuitError) (env w)"

definition fire_build :: "bytes \<Rightarrow> circ \<Rightarrow> circ" where
  "fire_build data w =
    (case c_build_waiter w of
       None \<Rightarrow> w
     | Some r \<Rightarrow> waiter_set_result r (Build data) (w\<lparr>c_build_waiter := None\<rparr>))"

section \<open>Teardown\<close>

definition set_errors :: "exc \<Rightarrow> nat list \<Rightarrow> circ \<Rightarrow> circ" where
  "set_errors e rs w = fold (waiter_set_error e) rs w"

definition close_streams :: "exc \<Rightarrow> nat list \<Rightarrow> circ \<Rightarrow> circ" where
  "close_streams e refs w =
     fold (\<lambda>r w. w\<lparr>stream_heap := (stream_heap w)(r := Stream_on_circuit_closed (Some e) (stream_heap w r))\<rparr>)
       refs w"

definition teardown :: "exc \<Rightarrow> circ \<Rightarrow> circ" where
  "teardown e w =
    (if c_destroyed w then w
     else let w1 = w\<lparr>c_destroyed := True, c_error := Some e, c_build_waiter := None,
                     c_relay_waiters := [], c_streams := []\<rparr>;
              w2 = (case c_build_waiter w of None \<Rightarrow> w1 | Some r \<Rightarrow> waiter_set_error e r w1);
              w3 = set_errors e (map snd (c_relay_waiters w)) w2;
              w4 = w3\<lparr>c_package := PackageWindow_close (c_package w3)\<rparr>
          in close_streams e (map snd (c_streams w)) w4)"

text \<open>\<open>Channel.send_cell\<close>: the cell is packed at the channel's link version, then written.\<close>

definition chan_send :: "raw_cell \<Rightarrow> (circ, exc, unit) op" where
  "chan_send cell w =
    (case RawCell_pack cell (link_ver w) of
       Inl e \<Rightarrow> (w, Inl e)
     | Inr _ \<Rightarrow> (case chan_error w of
          Some e \<Rightarrow> (w, Inl e)
        | None \<Rightarrow> (w\<lparr>sent_cells := sent_cells w @ [cell]\<rparr>, Inr ())))"

text \<open>\<open>with contextlib.suppress(<classes>): m\<close>.\<close>

definition suppress :: "exc list \<Rightarrow> (circ, exc, unit) op \<Rightarrow> (circ, exc, unit) op" where
  "suppress classes m w =
    (case m w of (w', Inl e) \<Rightarrow> if catches classes e then (w', Inr ()) else (w', Inl e)
     | (w', Inr u) \<Rightarrow> (w', Inr u))"

definition circuit_close :: "(circ, exc, unit) op" where
  "circuit_close w =
    obind (if c_destroyed w then oreturn ()
           else suppress [ChannelError]
             (\<lambda>w. case DestroyCell_to_raw 0 (c_circ_id w) of
                    Inl e \<Rightarrow> (w, Inl e) | Inr cell \<Rightarrow> chan_send cell w))
      (\<lambda>_ w. ((teardown CircuitDestroyed w)\<lparr>deregistered := True\<rparr>, Inr ())) w"

section \<open>Streams\<close>

definition next_stream_id :: "circ \<Rightarrow> circ \<times> int" where
  "next_stream_id w =
    (let n = c_next_stream_id w mod 0xFFFF + 1 in (w\<lparr>c_next_stream_id := n\<rparr>, n))"

definition register_stream :: "int \<Rightarrow> nat \<Rightarrow> (circ, exc, unit) op" where
  "register_stream stream_id handler w =
    (if c_destroyed w then (w, Inl (closed_error w))
     else (w\<lparr>c_streams := AList.update stream_id handler (c_streams w)\<rparr>, Inr ()))"

definition unregister_stream :: "int \<Rightarrow> (circ, exc, unit) op" where
  "unregister_stream stream_id w =
    (let w1 = w\<lparr>c_streams := AList.delete stream_id (c_streams w)\<rparr> in
     if c_close_when_idle w1 \<and> c_streams w1 = [] then circuit_close w1 else (w1, Inr ()))"

section \<open>Sending\<close>

text \<open>\<open>for hop in reversed(self.hops[: target + 1])\<close>; the target is always the last hop.\<close>

fun wrap_forward :: "prims \<Rightarrow> circuit_hop list \<Rightarrow> bytes \<Rightarrow> circuit_hop list \<times> bytes" where
  "wrap_forward P [] body = ([], body)"
| "wrap_forward P (h # hs) body =
    (let (hs', body1) = wrap_forward P hs body;
         (rc, body2) = apply_forward_cipher P body1 (hop_crypto h)
     in (h\<lparr>hop_crypto := rc\<rparr> # hs', body2))"

definition update_hop :: "nat \<Rightarrow> relay_crypto \<Rightarrow> circ \<Rightarrow> circ" where
  "update_hop i rc w = w\<lparr>c_hops := (c_hops w)[i := (c_hops w ! i)\<lparr>hop_crypto := rc\<rparr>]\<rparr>"

definition send_relay_cell :: "prims \<Rightarrow> relay_cell \<Rightarrow> bool \<Rightarrow> bool \<Rightarrow> (circ, exc, unit) op" where
  "send_relay_cell P cell early count_data w =
    (if c_destroyed w then (w, Inl (closed_error w))
     else if c_hops w = [] then (w, Inl IndexError)
     else let target = length (c_hops w) - 1 in
     (case stamp_forward P cell (hop_crypto (c_hops w ! target)) of
        (rc, Inl e) \<Rightarrow> (update_hop target rc w, Inl e)
      | (rc, Inr stamped) \<Rightarrow>
         let w1 = update_hop target rc w;
             w2 = (if count_data then w1\<lparr>c_tracker := note_sent (forward_digest P rc) (c_tracker w1)\<rparr> else w1)
         in (case RelayCell_pack stamped of
               Inl e \<Rightarrow> (w2, Inl e)
             | Inr body \<Rightarrow>
                let (hops, wrapped) = wrap_forward P (c_hops w2) body;
                    cmd = (if early then Cell_RELAY_EARLY else Cell_RELAY)
                in chan_send \<lparr>circ_id = c_circ_id w2, command = cell_num cmd, payload = wrapped\<rparr>
                     (w2\<lparr>c_hops := hops\<rparr>))))"

text \<open>\<open>send_relay\<close>: a DATA cell first waits on the package window.\<close>

definition send_relay :: "prims \<Rightarrow> relay_cell \<Rightarrow> bool \<Rightarrow> (circ \<Rightarrow> circ) \<Rightarrow> (circ, exc, unit) op" where
  "send_relay P cell is_data env w =
    (if is_data then
       let w1 = (if window_blocked (c_package w) then env w else w) in
       (case PackageWindow_consume (c_package w1) of
          (win, Inl e) \<Rightarrow> (w1\<lparr>c_package := win\<rparr>, Inl e)
        | (win, Inr _) \<Rightarrow> send_relay_cell P cell False True (w1\<lparr>c_package := win\<rparr>))
     else send_relay_cell P cell False False w)"

definition emit_circuit_sendme :: "prims \<Rightarrow> (nat \<Rightarrow> bytes) \<Rightarrow> nat \<Rightarrow> (circ, exc, unit) op" where
  "emit_circuit_sendme P urandom origin_hop w =
    suppress [CircuitError, ChannelError]
      (\<lambda>w. case sendme_v1_body (take 20 (backward_digest P (hop_crypto (c_hops w ! origin_hop)))) of
             Inl e \<Rightarrow> (w, Inl e)
           | Inr body \<Rightarrow> send_relay_cell P (RelayCell urandom (relay_num Relay_SENDME) 0 body) False False w) w"

definition emit_stream_sendme :: "prims \<Rightarrow> (nat \<Rightarrow> bytes) \<Rightarrow> int \<Rightarrow> (circ, exc, unit) op" where
  "emit_stream_sendme P urandom stream_id =
    suppress [CircuitError, ChannelError]
      (send_relay_cell P (RelayCell urandom (relay_num Relay_SENDME) stream_id []) False False)"

section \<open>Building\<close>

definition send_create2 :: "bytes \<Rightarrow> (circ, exc, unit) op" where
  "send_create2 skin w =
    (case Create2Cell_to_raw \<lparr>c2_handshake_type = handshake_num Handshake_NTOR, c2_handshake_data = skin\<rparr>
            (c_circ_id w) of
       Inl e \<Rightarrow> (w, Inl e) | Inr cell \<Rightarrow> chan_send cell w)"

definition circuit_create ::
  "prims \<Rightarrow> bytes \<Rightarrow> (circ \<Rightarrow> circ) \<Rightarrow> relay_info \<Rightarrow> (circ, exc, unit) op" where
  "circuit_create P generated env relay =
    obind (olift (NtorHandshake P (ri_ntor_onion_key relay) (ri_identity_digest relay) None generated)) (\<lambda>h.
    obind arm_build_waiter (\<lambda>r.
    obind (send_create2 (create_onion_skin h)) (\<lambda>_.
    obind (build_reply r env) (\<lambda>reply.
    obind (olift (ntor_complete P h reply)) (\<lambda>km.
    obind (olift (tor1 km)) (\<lambda>rc w.
      (w\<lparr>c_hops := c_hops w @ [\<lparr>hop_relay = relay, hop_crypto = rc\<rparr>]\<rparr>, Inr ())))))))"

definition circuit_extend ::
  "prims \<Rightarrow> (nat \<Rightarrow> bytes) \<Rightarrow> bytes \<Rightarrow> (circ \<Rightarrow> circ) \<Rightarrow> relay_info \<Rightarrow> (circ, exc, unit) op" where
  "circuit_extend P urandom generated env relay w =
    (if c_hops w = [] then (w, Inl CircuitError)
     else
    obind (olift (NtorHandshake P (ri_ntor_onion_key relay) (ri_identity_digest relay) None generated)) (\<lambda>h.
    obind (olift (rbind (RelayInfo_link_specifiers relay) (\<lambda>specs.
                  extend2_body specs (handshake_num Handshake_NTOR) (create_onion_skin h)))) (\<lambda>body.
    obind arm_build_waiter (\<lambda>r.
    obind (send_relay_cell P (RelayCell urandom (relay_num Relay_EXTEND2) 0 body) True False) (\<lambda>_.
    obind (build_reply r env) (\<lambda>reply.
    obind (olift (rbind (Extended2_parse reply) (ntor_complete P h))) (\<lambda>km.
    obind (olift (tor1 km)) (\<lambda>rc w.
      (w\<lparr>c_hops := c_hops w @ [\<lparr>hop_relay = relay, hop_crypto = rc\<rparr>]\<rparr>, Inr ())))))))) w)"

definition add_virtual_hop :: "relay_crypto \<Rightarrow> relay_info \<Rightarrow> circ \<Rightarrow> circ" where
  "add_virtual_hop rc relay w = w\<lparr>c_hops := c_hops w @ [\<lparr>hop_relay = relay, hop_crypto = rc\<rparr>]\<rparr>"

fun extend_all ::
  "prims \<Rightarrow> (nat \<Rightarrow> bytes) \<Rightarrow> (relay_info \<times> bytes \<times> (circ \<Rightarrow> circ)) list \<Rightarrow> (circ, exc, unit) op" where
  "extend_all P urandom [] w = (w, Inr ())"
| "extend_all P urandom ((relay, generated, env) # path) w =
     obind (circuit_extend P urandom generated env relay) (\<lambda>_. extend_all P urandom path) w"

text \<open>The body of \<open>build_circuit\<close> on a registered circuit; any error closes it and is raised again.\<close>

definition build_circuit ::
  "prims \<Rightarrow> (nat \<Rightarrow> bytes) \<Rightarrow> (relay_info \<times> bytes \<times> (circ \<Rightarrow> circ)) list \<Rightarrow> (circ, exc, unit) op" where
  "build_circuit P urandom path w =
    (case (case path of
             [] \<Rightarrow> (w, Inl IndexError)
           | (relay, generated, env) # rest \<Rightarrow>
              obind (circuit_create P generated env relay) (\<lambda>_. extend_all P urandom rest) w) of
       (w', Inr u) \<Rightarrow> (w', Inr u)
     | (w', Inl e) \<Rightarrow> obind circuit_close (\<lambda>_. oraise e) w')"

section \<open>Receiving\<close>

definition handle_circuit_sendme :: "relay_cell \<Rightarrow> circ \<Rightarrow> circ" where
  "handle_circuit_sendme cell w =
    (case parse_sendme_v1 (r_data cell) of
       Inl _ \<Rightarrow> teardown CircuitError w
     | Inr digest \<Rightarrow>
        let (t, authentic) = tracker_verify digest (c_tracker w); w1 = w\<lparr>c_tracker := t\<rparr> in
        if \<not> authentic then teardown CircuitError w1
        else w1\<lparr>c_package := PackageWindow_refill (c_package w1)\<rparr>)"

definition route_relay ::
  "prims \<Rightarrow> (nat \<Rightarrow> bytes) \<Rightarrow> relay_cell \<Rightarrow> nat \<Rightarrow> (circ, exc, unit) op" where
  "route_relay P urandom cell origin_hop w =
    (if r_command cell = relay_num Relay_EXTENDED2 then (fire_build (r_data cell) w, Inr ())
     else if r_command cell = relay_num Relay_SENDME \<and> r_stream_id cell = 0
     then (handle_circuit_sendme cell w, Inr ())
     else
      (case map_of (c_relay_waiters w) (r_command cell) of
         Some r \<Rightarrow>
           (waiter_set_result r (Control cell)
              (w\<lparr>c_relay_waiters := AList.delete (r_command cell) (c_relay_waiters w)\<rparr>), Inr ())
       | None \<Rightarrow>
          obind (\<lambda>w. if r_command cell = relay_num Relay_DATA
                     then let (d, due) = note_received (c_deliver w); w1 = w\<lparr>c_deliver := d\<rparr> in
                          if due then emit_circuit_sendme P urandom origin_hop w1 else (w1, Inr ())
                     else (w, Inr ()))
            (\<lambda>_ w. case map_of (c_streams w) (r_stream_id cell) of
                None \<Rightarrow> (w, Inr ())
              | Some r \<Rightarrow>
                 (w\<lparr>stream_heap := (stream_heap w)(r := Stream_handle_relay cell (stream_heap w r))\<rparr>, Inr ())) w))"

text \<open>The loop of \<open>_handle_relay\<close>: hops peel their layer until one recognizes the body. The result
is the hops as the loop left them and the cell with its origin, if any.\<close>

fun unwrap_backward ::
  "prims \<Rightarrow> (nat \<Rightarrow> bytes) \<Rightarrow> circuit_hop list \<Rightarrow> nat \<Rightarrow> bytes \<Rightarrow>
    circuit_hop list \<times> (relay_cell \<times> nat) option res" where
  "unwrap_backward P urandom [] i body = ([], Inr None)"
| "unwrap_backward P urandom (h # hs) i body =
    (let (rc, body1) = apply_backward_cipher P body (hop_crypto h) in
     case recognize_backward P urandom body1 rc of
       (rc', Inl e) \<Rightarrow> (h\<lparr>hop_crypto := rc'\<rparr> # hs, Inl e)
     | (rc', Inr (Some cell)) \<Rightarrow> (h\<lparr>hop_crypto := rc'\<rparr> # hs, Inr (Some (cell, i)))
     | (rc', Inr None) \<Rightarrow>
        let (hs', out) = unwrap_backward P urandom hs (Suc i) body1
        in (h\<lparr>hop_crypto := rc'\<rparr> # hs', out))"

definition handle_relay_cell :: "prims \<Rightarrow> (nat \<Rightarrow> bytes) \<Rightarrow> raw_cell \<Rightarrow> (circ, exc, unit) op" where
  "handle_relay_cell P urandom cell w =
    (let (hops, out) = unwrap_backward P urandom (c_hops w) 0 (payload cell); w1 = w\<lparr>c_hops := hops\<rparr> in
     case out of
       Inl e \<Rightarrow> (w1, Inl e)
     | Inr (Some (rcell, index)) \<Rightarrow> route_relay P urandom rcell index w1
     | Inr None \<Rightarrow> (teardown CircuitError w1, Inr ()))"

definition circuit_handle_cell :: "prims \<Rightarrow> (nat \<Rightarrow> bytes) \<Rightarrow> raw_cell \<Rightarrow> (circ, exc, unit) op" where
  "circuit_handle_cell P urandom cell w =
    (if command cell = cell_num Cell_DESTROY then (teardown CircuitDestroyed w, Inr ())
     else if command cell = cell_num Cell_CREATED2
     then (case Created2Cell_from_raw cell of Inl e \<Rightarrow> (w, Inl e) | Inr d \<Rightarrow> (fire_build d w, Inr ()))
     else if command cell = cell_num Cell_RELAY \<or> command cell = cell_num Cell_RELAY_EARLY
     then handle_relay_cell P urandom cell w
     else (w, Inr ()))"

definition on_channel_closed :: "exc option \<Rightarrow> circ \<Rightarrow> circ" where
  "on_channel_closed error w = teardown (case error of None \<Rightarrow> CircuitDestroyed | Some e \<Rightarrow> e) w"

end
