(* ===== verification/CircuitTeardown.thy ===== *)
theory CircuitTeardown
  imports Circuit
begin

text \<open>
  Teardown of a circuit: who is told, that it happens once, and that nothing is sent or accepted
  afterwards.
\<close>

section \<open>What the notification loops do\<close>

lemma waiter_set_error_sel [simp]:
  "c_destroyed (waiter_set_error e r w) = c_destroyed w"
  "c_error (waiter_set_error e r w) = c_error w"
  "c_streams (waiter_set_error e r w) = c_streams w"
  "c_build_waiter (waiter_set_error e r w) = c_build_waiter w"
  "c_relay_waiters (waiter_set_error e r w) = c_relay_waiters w"
  "c_package (waiter_set_error e r w) = c_package w"
  "c_tracker (waiter_set_error e r w) = c_tracker w"
  "c_deliver (waiter_set_error e r w) = c_deliver w"
  "c_hops (waiter_set_error e r w) = c_hops w"
  "stream_heap (waiter_set_error e r w) = stream_heap w"
  "sent_cells (waiter_set_error e r w) = sent_cells w"
  "c_circ_id (waiter_set_error e r w) = c_circ_id w"
  "c_next_stream_id (waiter_set_error e r w) = c_next_stream_id w"
  "deregistered (waiter_set_error e r w) = deregistered w"
  "link_ver (waiter_set_error e r w) = link_ver w"
  "chan_error (waiter_set_error e r w) = chan_error w"
  "c_close_when_idle (waiter_set_error e r w) = c_close_when_idle w"
  "length (waiter_heap (waiter_set_error e r w)) = length (waiter_heap w)"
  by (simp_all add: waiter_set_error_def)

lemma set_errors_sel [simp]:
  "c_destroyed (set_errors e rs w) = c_destroyed w"
  "c_error (set_errors e rs w) = c_error w"
  "c_streams (set_errors e rs w) = c_streams w"
  "c_build_waiter (set_errors e rs w) = c_build_waiter w"
  "c_relay_waiters (set_errors e rs w) = c_relay_waiters w"
  "c_package (set_errors e rs w) = c_package w"
  "c_tracker (set_errors e rs w) = c_tracker w"
  "c_deliver (set_errors e rs w) = c_deliver w"
  "c_hops (set_errors e rs w) = c_hops w"
  "stream_heap (set_errors e rs w) = stream_heap w"
  "sent_cells (set_errors e rs w) = sent_cells w"
  "c_circ_id (set_errors e rs w) = c_circ_id w"
  "c_next_stream_id (set_errors e rs w) = c_next_stream_id w"
  "deregistered (set_errors e rs w) = deregistered w"
  "link_ver (set_errors e rs w) = link_ver w"
  "chan_error (set_errors e rs w) = chan_error w"
  "c_close_when_idle (set_errors e rs w) = c_close_when_idle w"
  "length (waiter_heap (set_errors e rs w)) = length (waiter_heap w)"
  unfolding set_errors_def by (induction rs arbitrary: w) simp_all

lemma close_streams_sel [simp]:
  "c_destroyed (close_streams e rs w) = c_destroyed w"
  "c_error (close_streams e rs w) = c_error w"
  "c_streams (close_streams e rs w) = c_streams w"
  "c_build_waiter (close_streams e rs w) = c_build_waiter w"
  "c_relay_waiters (close_streams e rs w) = c_relay_waiters w"
  "c_package (close_streams e rs w) = c_package w"
  "c_tracker (close_streams e rs w) = c_tracker w"
  "c_deliver (close_streams e rs w) = c_deliver w"
  "c_hops (close_streams e rs w) = c_hops w"
  "waiter_heap (close_streams e rs w) = waiter_heap w"
  "sent_cells (close_streams e rs w) = sent_cells w"
  "c_circ_id (close_streams e rs w) = c_circ_id w"
  "c_next_stream_id (close_streams e rs w) = c_next_stream_id w"
  "deregistered (close_streams e rs w) = deregistered w"
  "link_ver (close_streams e rs w) = link_ver w"
  "chan_error (close_streams e rs w) = chan_error w"
  "c_close_when_idle (close_streams e rs w) = c_close_when_idle w"
  unfolding close_streams_def by (induction rs arbitrary: w) simp_all

lemma on_circuit_closed_twice [simp]:
  "Stream_on_circuit_closed r (Stream_on_circuit_closed r s) = Stream_on_circuit_closed r s"
  by (simp add: Stream_on_circuit_closed_def PackageWindow_close_def)

lemma close_streams_heap:
  "stream_heap (close_streams e rs w) r
    = (if r \<in> set rs then Stream_on_circuit_closed (Some e) (stream_heap w r) else stream_heap w r)"
proof (induction rs arbitrary: w)
  case Nil
  then show ?case by (simp add: close_streams_def)
next
  case (Cons x rs)
  let ?w = "w\<lparr>stream_heap := (stream_heap w)(x := Stream_on_circuit_closed (Some e) (stream_heap w x))\<rparr>"
  have "close_streams e (x # rs) w = close_streams e rs ?w" by (simp add: close_streams_def)
  then show ?case using Cons.IH [of ?w] by simp
qed

definition waiter_failed :: "exc \<Rightarrow> waiter \<Rightarrow> waiter" where
  "waiter_failed e x = x\<lparr>w_error := Some e, w_event := True\<rparr>"

lemma waiter_set_error_heap:
  "r < length (waiter_heap w) \<Longrightarrow> waiter_heap (waiter_set_error e r' w) ! r
    = (if r = r' then waiter_failed e (waiter_heap w ! r) else waiter_heap w ! r)"
  by (auto simp: waiter_set_error_def waiter_failed_def nth_list_update)

lemma waiter_failed_twice [simp]: "waiter_failed e (waiter_failed e x) = waiter_failed e x"
  by (simp add: waiter_failed_def)

lemma set_errors_heap:
  "r < length (waiter_heap w) \<Longrightarrow> waiter_heap (set_errors e rs w) ! r
    = (if r \<in> set rs then waiter_failed e (waiter_heap w ! r) else waiter_heap w ! r)"
proof (induction rs arbitrary: w)
  case Nil
  then show ?case by (simp add: set_errors_def)
next
  case (Cons x rs)
  have "set_errors e (x # rs) w = set_errors e rs (waiter_set_error e x w)" by (simp add: set_errors_def)
  then show ?case using Cons by (simp add: waiter_set_error_heap)
qed

section \<open>Teardown\<close>

text \<open>The waiters a circuit has pending: the build waiter and those of the control commands.\<close>

definition pending_waiters :: "circ \<Rightarrow> nat set" where
  "pending_waiters w = set_option (c_build_waiter w) \<union> set (map snd (c_relay_waiters w))"

lemma teardown_destroyed [simp]: "c_destroyed w \<Longrightarrow> teardown e w = w"
  by (simp add: teardown_def)

lemma teardown_sel [simp]:
  "c_destroyed (teardown e w)"
  "c_hops (teardown e w) = c_hops w"
  "sent_cells (teardown e w) = sent_cells w"
  "c_tracker (teardown e w) = c_tracker w"
  "c_deliver (teardown e w) = c_deliver w"
  "c_circ_id (teardown e w) = c_circ_id w"
  "c_next_stream_id (teardown e w) = c_next_stream_id w"
  "deregistered (teardown e w) = deregistered w"
  "link_ver (teardown e w) = link_ver w"
  "chan_error (teardown e w) = chan_error w"
  "length (waiter_heap (teardown e w)) = length (waiter_heap w)"
  by (simp_all add: teardown_def Let_def split: option.splits)

lemma teardown_fresh:
  assumes "\<not> c_destroyed w"
  shows "c_error (teardown e w) = Some e" "c_streams (teardown e w) = []"
    "c_build_waiter (teardown e w) = None" "c_relay_waiters (teardown e w) = []"
    "c_package (teardown e w) = PackageWindow_close (c_package w)"
  using assms by (simp_all add: teardown_def Let_def split: option.splits)

lemma teardown_stream:
  "\<not> c_destroyed w \<Longrightarrow> stream_heap (teardown e w) r
    = (if r \<in> snd ` set (c_streams w) then Stream_on_circuit_closed (Some e) (stream_heap w r)
       else stream_heap w r)"
  by (simp add: teardown_def Let_def close_streams_heap split: option.splits)

lemma teardown_waiter:
  "\<not> c_destroyed w \<Longrightarrow> r < length (waiter_heap w) \<Longrightarrow> waiter_heap (teardown e w) ! r
    = (if r \<in> pending_waiters w then waiter_failed e (waiter_heap w ! r) else waiter_heap w ! r)"
  by (auto simp: teardown_def Let_def pending_waiters_def set_errors_heap waiter_set_error_heap
      split: option.splits)

lemma waiter_wait_failed:
  "waiter_heap w ! r = waiter_failed e x \<Longrightarrow> waiter_wait r w = (w, Inl e)"
  by (simp add: waiter_wait_def waiter_failed_def Let_def)

text \<open>C20: tearing down a circuit reaches everyone exactly once. Every registered stream gets the error,
end of stream and a closed send window, every other stream is left alone; every caller waiting for a
build or control reply is woken with the error; the registries are empty; and a second teardown, with
whatever error, changes nothing.\<close>

theorem teardown_reaches_everyone_once:
  assumes "\<not> c_destroyed w" and "\<forall>r\<in>pending_waiters w. r < length (waiter_heap w)"
  shows "(\<forall>sid r. map_of (c_streams w) sid = Some r \<longrightarrow>
            stream_heap (teardown e w) r = Stream_on_circuit_closed (Some e) (stream_heap w r))
    \<and> (\<forall>r. r \<notin> snd ` set (c_streams w) \<longrightarrow> stream_heap (teardown e w) r = stream_heap w r)
    \<and> (\<forall>r\<in>pending_waiters w. waiter_wait r (teardown e w) = (teardown e w, Inl e))
    \<and> c_streams (teardown e w) = [] \<and> pending_waiters (teardown e w) = {}
    \<and> (\<forall>e'. teardown e' (teardown e w) = teardown e w)"
proof -
  have "stream_heap (teardown e w) r = Stream_on_circuit_closed (Some e) (stream_heap w r)"
    if "map_of (c_streams w) sid = Some r" for sid r
    using map_of_SomeD [OF that] assms(1) by (force simp: teardown_stream)
  moreover have "waiter_wait r (teardown e w) = (teardown e w, Inl e)" if "r \<in> pending_waiters w" for r
    using that assms by (intro waiter_wait_failed) (simp add: teardown_waiter)
  ultimately show ?thesis
    using assms by (auto simp: teardown_stream teardown_fresh pending_waiters_def)
qed

definition toy_circ :: circ where
  "toy_circ = (Circuit_init 0x80000001 False 4 (\<lambda>_. Stream_init 1))
     \<lparr>c_streams := [(1, 0), (2, 5)], c_build_waiter := Some 0, c_relay_waiters := [(39, 1)],
      waiter_heap := replicate 2 \<lparr>w_event = False, w_result = None, w_error = None\<rparr>\<rparr>"

lemma toy_circ_sel [simp]:
  "c_streams toy_circ = [(1, 0), (2, 5)]" "pending_waiters toy_circ = {0, 1}"
  "length (waiter_heap toy_circ) = 2" "\<not> c_destroyed toy_circ"
  by (auto simp: toy_circ_def Circuit_init_def pending_waiters_def)

theorem teardown_reaches_everyone_once_witness:
  "stream_heap (teardown CircuitError toy_circ) 5
      = Stream_on_circuit_closed (Some CircuitError) (stream_heap toy_circ 5)
    \<and> waiter_wait 1 (teardown CircuitError toy_circ) = (teardown CircuitError toy_circ, Inl CircuitError)"
proof -
  have p: "\<forall>r\<in>pending_waiters toy_circ. r < length (waiter_heap toy_circ)" by simp
  have m: "map_of (c_streams toy_circ) 2 = Some 5" by simp
  have "1 \<in> pending_waiters toy_circ" by simp
  then show ?thesis
    using teardown_reaches_everyone_once [OF toy_circ_sel(4) p, of CircuitError] m by blast
qed

section \<open>All operations of a circuit\<close>

text \<open>
  The atomic operations of the circuit and of its environment: the receiver thread's, the callers',
  the parts of \<open>create\<close> and \<open>extend\<close> between their waits, and the failure of the channel. A blocked
  caller is the same operation at the moment it goes on.
\<close>

datatype circ_op =
    OpHandle raw_cell
  | OpChannelClosed "exc option"
  | OpSend relay_cell bool
  | OpStreamSendme int
  | OpStartCreate bytes
  | OpStartExtend relay_cell
  | OpAddHop relay_crypto relay_info
  | OpArmRelay int
  | OpNextStreamId
  | OpRegister int nat
  | OpUnregister int
  | OpClose
  | OpChannelFails

definition start_create :: "bytes \<Rightarrow> (circ, exc, nat) op" where
  "start_create skin = obind arm_build_waiter (\<lambda>r. obind (send_create2 skin) (\<lambda>_. oreturn r))"

definition start_extend :: "prims \<Rightarrow> relay_cell \<Rightarrow> (circ, exc, nat) op" where
  "start_extend P cell =
     obind arm_build_waiter (\<lambda>r. obind (send_relay_cell P cell True False) (\<lambda>_. oreturn r))"

fun circ_do :: "prims \<Rightarrow> (nat \<Rightarrow> bytes) \<Rightarrow> circ_op \<Rightarrow> circ \<Rightarrow> circ" where
  "circ_do P urandom (OpHandle cell) w = fst (circuit_handle_cell P urandom cell w)"
| "circ_do P urandom (OpChannelClosed error) w = on_channel_closed error w"
| "circ_do P urandom (OpSend cell is_data) w = fst (send_relay P cell is_data id w)"
| "circ_do P urandom (OpStreamSendme sid) w = fst (emit_stream_sendme P urandom sid w)"
| "circ_do P urandom (OpStartCreate skin) w = fst (start_create skin w)"
| "circ_do P urandom (OpStartExtend cell) w = fst (start_extend P cell w)"
| "circ_do P urandom (OpAddHop rc relay) w = add_virtual_hop rc relay w"
| "circ_do P urandom (OpArmRelay cmd) w = fst (arm_relay cmd w)"
| "circ_do P urandom OpNextStreamId w = fst (next_stream_id w)"
| "circ_do P urandom (OpRegister sid r) w = fst (register_stream sid r w)"
| "circ_do P urandom (OpUnregister sid) w = fst (unregister_stream sid w)"
| "circ_do P urandom OpClose w = fst (circuit_close w)"
| "circ_do P urandom OpChannelFails w = w\<lparr>chan_error := Some ChannelError\<rparr>"

definition circ_run :: "prims \<Rightarrow> (nat \<Rightarrow> bytes) \<Rightarrow> circ_op list \<Rightarrow> circ \<Rightarrow> circ" where
  "circ_run P urandom ops w = fold (circ_do P urandom) ops w"

lemma circuit_create_start:
  "circuit_create P generated env relay =
    obind (olift (NtorHandshake P (ri_ntor_onion_key relay) (ri_identity_digest relay) None generated)) (\<lambda>h.
    obind (start_create (create_onion_skin h)) (\<lambda>r.
    obind (build_reply r env) (\<lambda>reply.
    obind (olift (ntor_complete P h reply)) (\<lambda>km.
    obind (olift (tor1 km)) (\<lambda>rc w.
      (w\<lparr>c_hops := c_hops w @ [\<lparr>hop_relay = relay, hop_crypto = rc\<rparr>]\<rparr>, Inr ()))))))"
  by (simp add: circuit_create_def start_create_def obind_assoc obind_oreturn)

lemma circuit_extend_start:
  "circuit_extend P urandom generated env relay w =
    (if c_hops w = [] then (w, Inl CircuitError)
     else
    obind (olift (NtorHandshake P (ri_ntor_onion_key relay) (ri_identity_digest relay) None generated)) (\<lambda>h.
    obind (olift (rbind (RelayInfo_link_specifiers relay) (\<lambda>specs.
                  extend2_body specs (handshake_num Handshake_NTOR) (create_onion_skin h)))) (\<lambda>body.
    obind (start_extend P (RelayCell urandom (relay_num Relay_EXTEND2) 0 body)) (\<lambda>r.
    obind (build_reply r env) (\<lambda>reply.
    obind (olift (rbind (Extended2_parse reply) (ntor_complete P h))) (\<lambda>km.
    obind (olift (tor1 km)) (\<lambda>rc w.
      (w\<lparr>c_hops := c_hops w @ [\<lparr>hop_relay = relay, hop_crypto = rc\<rparr>]\<rparr>, Inr ()))))))) w)"
  by (simp add: circuit_extend_def start_extend_def obind_assoc obind_oreturn)

text \<open>
  An invariant of the circuit is one every atomic operation keeps; the composite operations keep it
  too when the other threads do while they wait.
\<close>

locale circuit_invariant =
  fixes P :: prims and urandom :: "nat \<Rightarrow> bytes" and I :: "circ \<Rightarrow> bool"
  assumes do_inv: "I w \<Longrightarrow> I (circ_do P urandom op w)"
begin

lemma run_inv: "I w \<Longrightarrow> I (circ_run P urandom ops w)"
  unfolding circ_run_def by (induction ops arbitrary: w) (simp_all add: do_inv)

lemma waiter_wait_inv: "I w \<Longrightarrow> I (fst (waiter_wait r w))"
  by (simp add: waiter_wait_def Let_def split: option.splits)

lemma build_reply_inv: "I w \<Longrightarrow> (\<And>w. I w \<Longrightarrow> I (env w)) \<Longrightarrow> I (fst (build_reply r env w))"
  unfolding build_reply_def
  by (rule obind_keeps [where I = I]) (simp_all add: waiter_wait_inv split: option.splits reply.splits)

lemma append_hop_inv: "I w \<Longrightarrow> I (w\<lparr>c_hops := c_hops w @ [\<lparr>hop_relay = r, hop_crypto = rc\<rparr>]\<rparr>)"
  using do_inv [of w "OpAddHop rc r"] by (simp add: add_virtual_hop_def)

lemma create_inv:
  assumes "I w" and env: "\<And>w. I w \<Longrightarrow> I (env w)"
  shows "I (fst (circuit_create P generated env relay w))"
proof -
  have start: "I (fst (start_create skin w))" if "I w" for skin w
    using do_inv [OF that, of "OpStartCreate skin"] by simp
  show ?thesis unfolding circuit_create_start
    by (intro obind_keeps [where I = I] build_reply_inv start) (simp_all add: assms append_hop_inv)
qed

lemma extend_inv:
  assumes "I w" and env: "\<And>w. I w \<Longrightarrow> I (env w)"
  shows "I (fst (circuit_extend P urandom generated env relay w))"
proof -
  have start: "I (fst (start_extend P cell w))" if "I w" for cell w
    using do_inv [OF that, of "OpStartExtend cell"] by simp
  have *: "I (fst (if b then (w, Inl e) else m w))" if "I (fst (m w))" for b e and m :: "(circ, exc, unit) op"
    using that assms by simp
  show ?thesis unfolding circuit_extend_start
    by (rule *, intro obind_keeps [where I = I] build_reply_inv start) (simp_all add: assms append_hop_inv)
qed

lemma extend_all_inv:
  "I w \<Longrightarrow> \<forall>(r, g, env) \<in> set path. \<forall>w. I w \<longrightarrow> I (env w) \<Longrightarrow> I (fst (extend_all P urandom path w))"
proof (induction path arbitrary: w)
  case (Cons x path)
  obtain r g env where x: "x = (r, g, env)" by (cases x)
  show ?case unfolding x extend_all.simps
    by (rule obind_keeps [where I = I]) (use Cons x in \<open>auto intro: extend_inv\<close>)
qed simp

lemma build_inv:
  assumes "I w" and env: "\<forall>(r, g, env) \<in> set path. \<forall>w. I w \<longrightarrow> I (env w)"
  shows "I (fst (build_circuit P urandom path w))"
proof -
  let ?b = "case path of [] \<Rightarrow> (w, Inl IndexError)
      | (relay, generated, env) # rest \<Rightarrow>
          obind (circuit_create P generated env relay) (\<lambda>_. extend_all P urandom rest) w"
  have b: "I (fst ?b)"
    using assms by (auto split: list.splits prod.splits intro!: obind_keeps [where I = I] create_inv extend_all_inv)
  have "I (fst (obind circuit_close (\<lambda>_. oraise e) (fst ?b)))" for e
    by (rule obind_keeps [where I = I]) (use b do_inv [of "fst ?b" OpClose] in simp_all)
  then show ?thesis using b unfolding build_circuit_def
    by (cases ?b) (auto simp only: fst_conv split: sum.splits prod.splits)
qed

end

section \<open>What sending leaves alone\<close>

definition same_registry :: "circ \<Rightarrow> circ \<Rightarrow> bool" where
  "same_registry w w' \<longleftrightarrow> c_streams w' = c_streams w \<and> c_build_waiter w' = c_build_waiter w
     \<and> c_relay_waiters w' = c_relay_waiters w \<and> c_destroyed w' = c_destroyed w \<and> c_error w' = c_error w
     \<and> stream_heap w' = stream_heap w \<and> waiter_heap w' = waiter_heap w \<and> c_circ_id w' = c_circ_id w
     \<and> c_next_stream_id w' = c_next_stream_id w \<and> c_deliver w' = c_deliver w
     \<and> deregistered w' = deregistered w \<and> chan_error w' = chan_error w \<and> link_ver w' = link_ver w
     \<and> c_close_when_idle w' = c_close_when_idle w \<and> length (c_hops w') = length (c_hops w)"

lemma same_registry_refl [simp]: "same_registry w w"
  by (simp add: same_registry_def)

lemma same_registry_trans: "same_registry a b \<Longrightarrow> same_registry b c \<Longrightarrow> same_registry a c"
  by (simp add: same_registry_def)

lemma wrap_forward_length [simp]: "length (fst (wrap_forward P hs b)) = length hs"
  by (induction hs) (simp_all add: Let_def case_prod_beta)

lemma chan_send_same:
  "same_registry w (fst (chan_send cell w))" "c_package (fst (chan_send cell w)) = c_package w"
  "c_tracker (fst (chan_send cell w)) = c_tracker w"
  by (auto simp: chan_send_def same_registry_def split: sum.splits option.splits)

lemma send_relay_cell_same:
  "same_registry w (fst (send_relay_cell P cell early count w))"
  "c_package (fst (send_relay_cell P cell early count w)) = c_package w"
proof -
  have u: "same_registry w (update_hop i rc w)" "c_package (update_hop i rc w) = c_package w" for i rc
    by (simp_all add: same_registry_def update_hop_def)
  have t: "same_registry w w' \<Longrightarrow> same_registry w (w'\<lparr>c_tracker := t\<rparr>)" for w' t
    by (simp add: same_registry_def)
  have h: "same_registry w w' \<Longrightarrow> length hs = length (c_hops w') \<Longrightarrow> same_registry w (w'\<lparr>c_hops := hs\<rparr>)"
    for w' hs by (simp add: same_registry_def)
  show "same_registry w (fst (send_relay_cell P cell early count w))"
    unfolding send_relay_cell_def Let_def
    by (auto split: prod.splits sum.splits
        intro!: u t h same_registry_trans [OF _ chan_send_same(1)] dest: arg_cong [where f = "\<lambda>x. length (fst x)"])
  show "c_package (fst (send_relay_cell P cell early count w)) = c_package w"
    unfolding send_relay_cell_def Let_def
    by (auto simp: chan_send_same u split: prod.splits sum.splits)
qed

lemma send_relay_cell_tracker:
  "c_tracker (fst (send_relay_cell P cell early False w)) = c_tracker w"
  unfolding send_relay_cell_def Let_def
  by (auto simp: chan_send_same update_hop_def split: prod.splits sum.splits)

lemma send_relay_cell_destroyed [simp]:
  "c_destroyed w \<Longrightarrow> send_relay_cell P cell early count w = (w, Inl (closed_error w))"
  by (simp add: send_relay_cell_def)

lemma suppress_fst [simp]: "fst (suppress cs m w) = fst (m w)"
  by (auto simp: suppress_def split: prod.splits sum.splits)

lemma emit_circuit_sendme_fst:
  "fst (emit_circuit_sendme P urandom i w) = w \<or>
    (\<exists>cell. fst (emit_circuit_sendme P urandom i w) = fst (send_relay_cell P cell False False w))"
  by (auto simp: emit_circuit_sendme_def split: sum.splits)

lemma emit_stream_sendme_fst:
  "\<exists>cell. fst (emit_stream_sendme P urandom sid w) = fst (send_relay_cell P cell False False w)"
  by (auto simp: emit_stream_sendme_def)

section \<open>A destroyed circuit stays silent\<close>

definition silent :: "exc \<Rightarrow> raw_cell list \<Rightarrow> circ \<Rightarrow> bool" where
  "silent e cells w \<longleftrightarrow> c_destroyed w \<and> c_error w = Some e \<and> sent_cells w = cells
     \<and> c_streams w = [] \<and> c_build_waiter w = None \<and> c_relay_waiters w = []"

lemma silent_upd [simp]:
  "silent e cs (w\<lparr>c_hops := h\<rparr>) = silent e cs w"
  "silent e cs (w\<lparr>c_package := p\<rparr>) = silent e cs w"
  "silent e cs (w\<lparr>c_tracker := t\<rparr>) = silent e cs w"
  "silent e cs (w\<lparr>c_deliver := d\<rparr>) = silent e cs w"
  "silent e cs (w\<lparr>chan_error := ce\<rparr>) = silent e cs w"
  "silent e cs (w\<lparr>deregistered := b\<rparr>) = silent e cs w"
  "silent e cs (w\<lparr>c_next_stream_id := n\<rparr>) = silent e cs w"
  "silent e cs (w\<lparr>waiter_heap := h'\<rparr>) = silent e cs w"
  by (simp_all add: silent_def)

lemma silent_destroyed: "silent e cs w \<Longrightarrow> c_destroyed w"
  by (simp add: silent_def)

lemma silent_route:
  assumes "silent e cs w"
  shows "silent e cs (fst (route_relay P urandom cell i w))"
proof -
  have emit: "fst (emit_circuit_sendme P urandom i w') = w'" if "c_destroyed w'" for w'
    using emit_circuit_sendme_fst [of P urandom i w'] that by auto
  have f: "fire_build d w = w" for d using assms by (simp add: fire_build_def silent_def)
  have sm: "silent e cs (handle_circuit_sendme cell w)"
    using assms silent_destroyed [OF assms]
    by (auto simp: handle_circuit_sendme_def Let_def split: sum.splits prod.splits)
  have d: "silent e cs (fst (emit_circuit_sendme P urandom i (w\<lparr>c_deliver := dc\<rparr>)))" for dc
    by (subst emit) (use assms in \<open>simp_all add: silent_destroyed\<close>)
  have none: "silent e cs (fst (case map_of (c_streams w') sid of None \<Rightarrow> (w', Inr ())
      | Some r \<Rightarrow> (w'\<lparr>stream_heap := (stream_heap w')(r := Stream_handle_relay cell (stream_heap w' r))\<rparr>, Inr ())))"
    if "silent e cs w'" for w' sid
    using that by (simp add: silent_def)
  have nr: "c_relay_waiters w = []" using assms by (simp add: silent_def)
  show ?thesis
    unfolding route_relay_def
    by (auto simp: f sm d nr assms Let_def split: prod.splits
        intro!: obind_keeps [where I = "silent e cs"] none)
qed

lemma silent_step: "silent e cs w \<Longrightarrow> silent e cs (circ_do P urandom op w)"
proof (cases op)
  case (OpHandle cell)
  assume s: "silent e cs w"
  then have "silent e cs (w\<lparr>c_hops := hs\<rparr>)" for hs by simp
  then show ?thesis
    using s silent_destroyed [OF s]
    by (auto simp: OpHandle circuit_handle_cell_def handle_relay_cell_def fire_build_def Let_def silent_route
        split: prod.splits sum.splits option.splits) (auto simp: silent_def)
next
  case (OpSend cell d)
  assume s: "silent e cs w"
  then show ?thesis using silent_destroyed [OF s]
    by (auto simp: OpSend send_relay_def Let_def split: prod.splits sum.splits)
next
  case (OpStreamSendme sid)
  assume s: "silent e cs w"
  then show ?thesis using emit_stream_sendme_fst [of P urandom sid w] silent_destroyed [OF s]
    by (auto simp: OpStreamSendme)
qed (auto simp: silent_def on_channel_closed_def send_create2_def chan_send_def add_virtual_hop_def
    start_create_def start_extend_def arm_build_waiter_def arm_relay_def new_waiter_def next_stream_id_def register_stream_def
    unregister_stream_def circuit_close_def Let_def obind_def split: sum.splits option.splits)

interpretation silent_circuit: circuit_invariant P urandom "silent e cells"
  by unfold_locales (rule silent_step)

lemma silent_teardown: "\<not> c_destroyed w \<Longrightarrow> silent e (sent_cells w) (teardown e w)"
  by (simp add: silent_def teardown_fresh)



end
