(* ===== verification/CircuitFlow.thy ===== *)
theory CircuitFlow
  imports CircuitTeardown
begin

text \<open>
  The circuit's operations refine the flow-control steps of \<open>FlowControl\<close>: whatever happens on a
  circuit, its package window and SENDME tracker are in a state those steps reach, and a destroyed
  circuit's window is closed.
\<close>

definition flow_sim :: "circ \<Rightarrow> bool" where
  "flow_sim w \<longleftrightarrow> (c_destroyed w \<longrightarrow> pw_closed (c_package w))
     \<and> (\<exists>f. flow_reach f \<and> fl_window f = c_package w \<and> fl_tracker f = c_tracker w)"

lemma flow_simE:
  assumes "flow_sim w"
  obtains f where "flow_reach f" "fl_window f = c_package w" "fl_tracker f = c_tracker w"
    "c_destroyed w \<longrightarrow> pw_closed (c_package w)"
  using assms by (auto simp: flow_sim_def)

lemma flow_sim_by:
  "flow_reach f \<Longrightarrow> flow_do e f \<noteq> None \<Longrightarrow> fl_window (the (flow_do e f)) = c_package w
    \<Longrightarrow> fl_tracker (the (flow_do e f)) = c_tracker w
    \<Longrightarrow> (c_destroyed w \<Longrightarrow> pw_closed (c_package w)) \<Longrightarrow> flow_sim w"
  by (auto simp: flow_sim_def intro: flow_step)

lemma flow_sim_cong:
  "c_package w' = c_package w \<Longrightarrow> c_tracker w' = c_tracker w \<Longrightarrow> c_destroyed w' = c_destroyed w
    \<Longrightarrow> flow_sim w' = flow_sim w"
  by (simp add: flow_sim_def)

lemma flow_sim_upd [simp]:
  "flow_sim (w\<lparr>c_hops := h\<rparr>) = flow_sim w"
  "flow_sim (w\<lparr>c_deliver := d\<rparr>) = flow_sim w"
  "flow_sim (w\<lparr>chan_error := ce\<rparr>) = flow_sim w"
  "flow_sim (w\<lparr>deregistered := b\<rparr>) = flow_sim w"
  "flow_sim (w\<lparr>c_next_stream_id := n\<rparr>) = flow_sim w"
  "flow_sim (w\<lparr>waiter_heap := h'\<rparr>) = flow_sim w"
  "flow_sim (w\<lparr>stream_heap := sh\<rparr>) = flow_sim w"
  "flow_sim (w\<lparr>c_streams := st\<rparr>) = flow_sim w"
  "flow_sim (w\<lparr>c_relay_waiters := rw\<rparr>) = flow_sim w"
  "flow_sim (w\<lparr>c_build_waiter := bw\<rparr>) = flow_sim w"
  by (simp_all add: flow_sim_def)

lemma flow_sim_init: "flow_sim (Circuit_init cid idle v heap)"
  using flow_start by (auto simp: flow_sim_def flow_init_def Circuit_init_def)

lemma flow_sim_teardown: "flow_sim w \<Longrightarrow> flow_sim (teardown e w)"
proof (cases "c_destroyed w")
  case False
  assume "flow_sim w"
  then obtain f where f: "flow_reach f" "fl_window f = c_package w" "fl_tracker f = c_tracker w"
    by (rule flow_simE)
  show ?thesis
    by (rule flow_sim_by [OF f(1), of Shut]) (simp_all add: f teardown_fresh [OF False] PackageWindow_close_def)
qed simp

lemma flow_sim_sendme: "flow_sim w \<Longrightarrow> flow_sim (handle_circuit_sendme cell w)"
proof (cases "parse_sendme_v1 (r_data cell)")
  case (Inl e)
  then show "flow_sim w \<Longrightarrow> ?thesis" using flow_sim_teardown by (simp add: handle_circuit_sendme_def)
next
  case (Inr digest)
  assume "flow_sim w"
  then obtain f where f: "flow_reach f" "fl_window f = c_package w" "fl_tracker f = c_tracker w"
    and closed: "c_destroyed w \<longrightarrow> pw_closed (c_package w)" by (rule flow_simE)
  obtain t ok where v: "tracker_verify digest (c_tracker w) = (t, ok)"
    by (cases "tracker_verify digest (c_tracker w)")
  let ?w = "handle_circuit_sendme cell w"
  have w: "?w = (if ok then w\<lparr>c_tracker := t, c_package := PackageWindow_refill (c_package w)\<rparr>
      else teardown CircuitError (w\<lparr>c_tracker := t\<rparr>))"
    by (simp add: handle_circuit_sendme_def Inr v Let_def)
  show ?thesis
  proof (cases ok)
    case True
    show ?thesis
      by (rule flow_sim_by [OF f(1), of "Ack digest"])
        (use closed in \<open>simp_all add: f v True w PackageWindow_refill_def\<close>)
  next
    case False
    have "c_package ?w = PackageWindow_close (c_package w)"
      using closed by (cases "c_destroyed w") (simp_all add: w False teardown_fresh PackageWindow_close_def)
    then show ?thesis
      by (intro flow_sim_by [OF f(1), of "Ack digest"])
        (simp_all add: f v False w PackageWindow_close_def)
  qed
qed

lemma flow_sim_send: "flow_sim w \<Longrightarrow> flow_sim (fst (send_relay_cell P cell early False w))"
  using send_relay_cell_same [where w = w and P = P and cell = cell and early = early and count = False]
    send_relay_cell_tracker [of P cell early w]
  by (subst flow_sim_cong [of _ w]) (simp_all add: same_registry_def)

lemma send_relay_cell_counted:
  "c_tracker (fst (send_relay_cell P cell early True w)) = c_tracker w
    \<or> (\<not> c_destroyed w \<and> (\<exists>d. c_tracker (fst (send_relay_cell P cell early True w)) = note_sent d (c_tracker w)))"
  unfolding send_relay_cell_def Let_def
  by (auto simp: chan_send_same update_hop_def split: prod.splits sum.splits)

lemma flow_sim_send_relay: "flow_sim w \<Longrightarrow> flow_sim (fst (send_relay P cell is_data id w))"
proof (cases is_data)
  case False
  then show "flow_sim w \<Longrightarrow> ?thesis" using flow_sim_send by (simp add: send_relay_def)
next
  case True
  assume "flow_sim w"
  then obtain f where f: "flow_reach f" "fl_window f = c_package w" "fl_tracker f = c_tracker w"
    and closed: "c_destroyed w \<longrightarrow> pw_closed (c_package w)" by (rule flow_simE)
  obtain win r where c: "PackageWindow_consume (c_package w) = (win, r)"
    by (cases "PackageWindow_consume (c_package w)")
  show ?thesis
  proof (cases r)
    case (Inl e)
    then have "win = c_package w" using c by (auto simp: PackageWindow_consume_def split: if_splits)
    then show ?thesis using \<open>flow_sim w\<close> by (simp add: send_relay_def True c Inl)
  next
    case (Inr u)
    let ?w = "w\<lparr>c_package := win\<rparr>" and ?f = "f\<lparr>fl_window := win, fl_pending := fl_pending f + 1,
      fl_taken := fl_taken f + 1\<rparr>"
    let ?w' = "fst (send_relay_cell P cell False True ?w)"
    have take: "flow_reach ?f"
      by (rule flow_step [OF f(1), of Take]) (simp add: f c Inr)
    have s: "c_package ?w' = win" "c_destroyed ?w' = c_destroyed w"
      using send_relay_cell_same [where w = ?w and P = P and cell = cell and early = False and count = True] by (simp_all add: same_registry_def)
    have nc: "\<not> c_destroyed w" using c closed Inr by (auto simp: consume_ok_iff)
    have "flow_sim ?w'"
      using send_relay_cell_counted [of P cell False ?w]
    proof (elim disjE conjE exE)
      assume "c_tracker ?w' = c_tracker ?w"
      then show ?thesis
        by (intro flow_sim_by [OF take, of Drop]) (use nc in \<open>simp_all add: s f\<close>)
    next
      fix d assume "c_tracker ?w' = note_sent d (c_tracker ?w)"
      then show ?thesis
        by (intro flow_sim_by [OF take, of "Note d"]) (use nc in \<open>simp_all add: s f\<close>)
    qed
    then show ?thesis by (simp add: send_relay_def True c Inr)
  qed
qed

lemma flow_sim_emit: "flow_sim w \<Longrightarrow> flow_sim (fst (emit_circuit_sendme P urandom i w))"
  using emit_circuit_sendme_fst [of P urandom i w] flow_sim_send [of w] by auto

lemma fire_build_upd: "flow_sim (fire_build d w) = flow_sim w"
  by (simp add: fire_build_def waiter_set_result_def split: option.splits)

lemma flow_sim_route: "flow_sim w \<Longrightarrow> flow_sim (fst (route_relay P urandom cell i w))"
  unfolding route_relay_def
  by (auto simp: fire_build_upd waiter_set_result_def Let_def flow_sim_sendme split: prod.splits option.splits
      intro!: obind_keeps [where I = flow_sim] flow_sim_emit)

lemma flow_sim_chan_send: "flow_sim w \<Longrightarrow> flow_sim (fst (chan_send cell w))"
  using chan_send_same [where w = w and cell = cell] by (subst flow_sim_cong [of _ w]) (simp_all add: same_registry_def)

lemma flow_sim_close: "flow_sim w \<Longrightarrow> flow_sim (fst (circuit_close w))"
  unfolding circuit_close_def
  by (intro obind_keeps [where I = flow_sim])
    (auto simp: flow_sim_chan_send flow_sim_teardown split: sum.splits)

lemma flow_sim_arm: "flow_sim w \<Longrightarrow> flow_sim (fst (arm_build_waiter w))"
  by (simp add: arm_build_waiter_def new_waiter_def Let_def)

lemma flow_sim_step: "flow_sim w \<Longrightarrow> flow_sim (circ_do P urandom op w)"
proof (cases op)
  case (OpHandle cell)
  assume "flow_sim w"
  then show ?thesis
    by (auto simp: OpHandle circuit_handle_cell_def handle_relay_cell_def fire_build_upd Let_def
        flow_sim_route flow_sim_teardown split: prod.splits sum.splits option.splits)
next
  case (OpSend cell d)
  then show "flow_sim w \<Longrightarrow> ?thesis" by (simp add: flow_sim_send_relay)
next
  case (OpStreamSendme sid)
  then show "flow_sim w \<Longrightarrow> ?thesis"
    using emit_stream_sendme_fst [of P urandom sid w] flow_sim_send [of w] by auto
next
  case (OpStartCreate skin)
  then show "flow_sim w \<Longrightarrow> ?thesis"
    by (auto simp: start_create_def send_create2_def flow_sim_arm flow_sim_chan_send split: sum.splits
        intro!: obind_keeps [where I = flow_sim])
next
  case (OpStartExtend cell)
  then show "flow_sim w \<Longrightarrow> ?thesis"
    by (auto simp: start_extend_def flow_sim_arm flow_sim_send intro!: obind_keeps [where I = flow_sim])
next
  case (OpUnregister sid)
  then show "flow_sim w \<Longrightarrow> ?thesis"
    by (simp add: unregister_stream_def Let_def flow_sim_close)
qed (simp_all add: on_channel_closed_def flow_sim_teardown flow_sim_close add_virtual_hop_def arm_relay_def
    new_waiter_def next_stream_id_def register_stream_def Let_def)

interpretation flow_circuit: circuit_invariant P urandom flow_sim
  by unfold_locales (rule flow_sim_step)

text \<open>C9: whatever cells a circuit receives and whatever its callers do, in any order, its package
window stays between 0 and 1000 and its window and SENDME tracker are in a state the flow-control
steps reach: the circuit implements the authenticated flow control it is meant to.\<close>

theorem circuit_implements_flow_control:
  "let w = circ_run P urandom ops (Circuit_init cid idle v heap) in
   0 \<le> pw_value (c_package w) \<and> pw_value (c_package w) \<le> CIRCUIT_WINDOW_INITIAL
   \<and> (\<exists>f. flow_reach f \<and> fl_window f = c_package w \<and> fl_tracker f = c_tracker w)"
proof -
  have s: "flow_sim (circ_run P urandom ops (Circuit_init cid idle v heap))"
    by (rule flow_circuit.run_inv [OF flow_sim_init])
  then obtain f where f: "flow_reach f"
      "fl_window f = c_package (circ_run P urandom ops (Circuit_init cid idle v heap))"
      "fl_tracker f = c_tracker (circ_run P urandom ops (Circuit_init cid idle v heap))"
    by (rule flow_simE)
  have "0 \<le> pw_value (fl_window f) \<and> pw_value (fl_window f) \<le> CIRCUIT_WINDOW_INITIAL"
    by (rule flow_reach_bounds [OF f(1)])
  then show ?thesis using f unfolding Let_def by auto
qed

end
