(* ===== verification/CircuitOnion.thy ===== *)
theory CircuitOnion
  imports CircuitTeardown
begin

text \<open>
  Onion routing across the hops of a circuit. The relays are the remote ends: each holds the
  \<open>RelayCrypto\<close> of its hop. \<open>relay_path\<close> is what a forward cell meets (each relay deciphers and
  looks whether the cell is its own) and \<open>wrap_backward\<close> what a backward cell goes through.
\<close>

section \<open>Hops in step\<close>

definition in_step :: "bool \<Rightarrow> relay_crypto \<Rightarrow> relay_crypto \<Rightarrow> bool" where
  "in_step fw a b \<longleftrightarrow> rc_alg a = rc_alg b \<and>
     (if fw then forward_absorbed a = forward_absorbed b \<and> forward_cipher a = forward_cipher b
      else backward_absorbed a = backward_absorbed b \<and> backward_cipher a = backward_cipher b)"

definition hops_in_step :: "bool \<Rightarrow> circuit_hop list \<Rightarrow> relay_crypto list \<Rightarrow> bool" where
  "hops_in_step fw hops rs = list_all2 (\<lambda>h r. in_step fw (hop_crypto h) r) hops rs"

lemma in_step_refl [simp]: "in_step fw a a"
  by (simp add: in_step_def)

lemma in_step_cipher:
  assumes "in_step fw a b" "hop_cipher P fw x b = (b', y)"
  obtains a' where "hop_cipher P fw x a = (a', y)" "in_step fw a' b'"
    "hop_cipher P fw y a = (a', x)"
proof -
  obtain a' z where a': "hop_cipher P fw x a = (a', z)" by (cases "hop_cipher P fw x a")
  have "z = y" "in_step fw a' b'" using assms a'
    by (auto simp: in_step_def hop_cipher_def apply_forward_cipher_def apply_backward_cipher_def
        ctr_update_def Let_def split: if_splits)
  with a' hop_cipher_undo [OF a'] that show thesis by simp
qed

lemma in_step_stamped: "in_step fw a b \<Longrightarrow> in_step fw (stamped_state fw c a) (stamped_state fw c b)"
  by (simp add: in_step_def stamped_state_def Let_def)

lemma in_step_stamp_of: "in_step fw a b \<Longrightarrow> stamp_of P fw c a = stamp_of P fw c b"
  by (auto simp: in_step_def stamp_of_def)

lemma stamp_of_cipher: "hop_cipher P fw x a = (a', y) \<Longrightarrow> stamp_of P fw' c a' = stamp_of P fw' c a"
  using hop_cipher_keeps(1-3) [of P fw x a] by (simp add: stamp_of_def)

definition stamped_bytes :: "prims \<Rightarrow> bool \<Rightarrow> relay_cell \<Rightarrow> relay_crypto \<Rightarrow> bytes" where
  "stamped_bytes P fw c rc = relay_bytes (RelayCell_with_digest (stamp_of P fw c rc) c)"

section \<open>Backward: from a relay to the client\<close>

fun wrap_backward :: "prims \<Rightarrow> relay_crypto list \<Rightarrow> bytes \<Rightarrow> relay_crypto list \<times> bytes" where
  "wrap_backward P [] body = ([], body)"
| "wrap_backward P (r # rs) body =
    (let (rs', body1) = wrap_backward P rs body; (r', body2) = apply_backward_cipher P body1 r
     in (r' # rs', body2))"

text \<open>The last relay of \<open>rs\<close> originates the cell; it and the relays before it encipher it.\<close>

definition relay_sends :: "prims \<Rightarrow> relay_crypto list \<Rightarrow> relay_cell \<Rightarrow> relay_crypto list \<times> bytes" where
  "relay_sends P rs c =
    (let rs1 = butlast rs @ [stamped_state False c (last rs)]
     in wrap_backward P rs1 (stamped_bytes P False c (last rs)))"

lemma relay_sends_single:
  "relay_sends P [r] c = ([stamped_state False c (fst (hop_cipher P False (stamped_bytes P False c r) r))],
     snd (hop_cipher P False (stamped_bytes P False c r) r))"
proof (cases "hop_cipher P False (stamped_bytes P False c r) r")
  case (Pair r' w)
  then show ?thesis using cipher_stamped [OF Pair, of False c] by (simp add: relay_sends_def hop_cipher_def)
qed

lemma relay_sends_Cons:
  "rs \<noteq> [] \<Longrightarrow> relay_sends P (r # rs) c =
    (let (rs', w) = relay_sends P rs c; (r', w') = apply_backward_cipher P w r in (r' # rs', w'))"
  by (simp add: relay_sends_def Let_def case_prod_beta)

lemma unwrap_backward_append:
  "unwrap_backward P u hs i body = (hs', Inr (Some x)) \<Longrightarrow>
    unwrap_backward P u (hs @ rest) i body = (hs' @ rest, Inr (Some x))"
  by (induction hs arbitrary: i body hs')
    (auto simp: Let_def split: prod.splits sum.splits option.splits)

lemma unwrap_relay_sends:
  "prims_ok P \<Longrightarrow> sealable c \<Longrightarrow> hops_in_step False hops rs \<Longrightarrow> hops \<noteq> [] \<Longrightarrow>
    relay_sends P rs c = (rs', w) \<Longrightarrow> snd (unwrap_backward P u (butlast hops) i w) = Inr None \<Longrightarrow>
    \<exists>hops'. unwrap_backward P u hops i w
        = (hops', Inr (Some (RelayCell_with_digest (stamp_of P False c (last rs)) c, i + length hops - 1)))
      \<and> hops_in_step False hops' rs'"
proof (induction hops arbitrary: rs rs' w i)
  case Nil
  then show ?case by simp
next
  case (Cons h hs)
  then obtain r rs0 where rs: "rs = r # rs0" and s: "in_step False (hop_crypto h) r"
    "hops_in_step False hs rs0" by (auto simp: hops_in_step_def list_all2_Cons1)
  show ?case
  proof (cases "hs = []")
    case True
    then have rs0: "rs0 = []" using s by (simp add: hops_in_step_def)
    let ?b = "stamped_bytes P False c r"
    obtain r1 where w: "hop_cipher P False ?b r = (r1, w)" and rs': "rs' = [stamped_state False c r1]"
      using Cons.prems(5) by (cases "hop_cipher P False ?b r") (simp add: rs rs0 relay_sends_single)
    from in_step_cipher [OF s(1) w] obtain h1 where
      h1: "in_step False h1 r1" "hop_cipher P False w (hop_crypto h) = (h1, ?b)" by metis
    have st: "stamp_of P False c r = stamp_of P False c h1"
      using in_step_stamp_of [OF h1(1), of P c] stamp_of_cipher [OF w, of False c] by simp
    have rec: "recognize_backward P u ?b h1
        = (stamped_state False c h1, Inr (Some (RelayCell_with_digest (stamp_of P False c r) c)))"
      using recognize_sealed [OF Cons.prems(1,2) refl refl refl, where rc = h1 and urandom = u and fw = False] st
      by (simp add: recognize_backward_def stamped_bytes_def)
    have c: "apply_backward_cipher P w (hop_crypto h) = (h1, ?b)" using h1(2) by (simp add: hop_cipher_def)
    show ?thesis using True rs0 rs rs' in_step_stamped [OF h1(1)]
      by (simp add: c rec hops_in_step_def)
  next
    case False
    then have rs0: "rs0 \<noteq> []" using s by (auto simp: hops_in_step_def)
    obtain rs1 w1 where w1: "relay_sends P rs0 c = (rs1, w1)" by (cases "relay_sends P rs0 c")
    obtain r1 where r1: "hop_cipher P False w1 r = (r1, w)" and rs': "rs' = r1 # rs1"
      using Cons.prems(5) w1 by (auto simp: rs relay_sends_Cons [OF rs0] hop_cipher_def Let_def split: prod.splits)
    from in_step_cipher [OF s(1) r1] obtain h1 where
      h1: "in_step False h1 r1" "hop_cipher P False w (hop_crypto h) = (h1, w1)" by metis
    have c: "apply_backward_cipher P w (hop_crypto h) = (h1, w1)" using h1(2) by (simp add: hop_cipher_def)
    have bl: "butlast (h # hs) = h # butlast hs" using False by simp
    from Cons.prems(6) obtain h2 where rec: "recognize_backward P u w1 h1 = (h2, Inr None)"
      and tl: "snd (unwrap_backward P u (butlast hs) (Suc i) w1) = Inr None"
      unfolding bl by (auto simp: c Let_def split: prod.splits sum.splits option.splits)
    have h2: "h2 = h1" using rec recognize_None_unchanged by (auto simp: recognize_backward_def)
    from Cons.IH [OF Cons.prems(1,2) s(2) False w1 tl] obtain hs' where
      hs': "unwrap_backward P u hs (Suc i) w1
        = (hs', Inr (Some (RelayCell_with_digest (stamp_of P False c (last rs0)) c, Suc i + length hs - 1)))"
      "hops_in_step False hs' rs1" by blast
    then show ?thesis using rs0 rs rs' h1(1)
      by (simp add: c rec h2 hops_in_step_def)
  qed
qed

text \<open>C2: a cell any relay of the path originates reaches the client whole. Wrapped by that relay and
every relay before it, it is unwrapped hop by hop, recognized at the hop it came from with its fields
intact and routed with that hop as its origin, and client and relays stay in step; unless a hop before
it takes the cell for its own.\<close>

theorem backward_cell_is_routed:
  assumes ok: "prims_ok P" and c: "sealable c"
    and hops: "c_hops w = hops @ rest" "hops \<noteq> []" and step: "hops_in_step False hops rs"
    and sends: "relay_sends P rs c = (rs', body)"
    and earlier: "snd (unwrap_backward P urandom (butlast hops) 0 body) = Inr None"
  shows "\<exists>hops'. handle_relay_cell P urandom \<lparr>circ_id = cid, command = cmd, payload = body\<rparr> w
      = route_relay P urandom (RelayCell_with_digest (stamp_of P False c (last rs)) c) (length hops - 1)
          (w\<lparr>c_hops := hops' @ rest\<rparr>)
    \<and> hops_in_step False hops' rs'"
proof -
  from unwrap_relay_sends [OF ok c step hops(2) sends earlier] obtain hops' where
    h: "unwrap_backward P urandom hops 0 body
      = (hops', Inr (Some (RelayCell_with_digest (stamp_of P False c (last rs)) c, length hops - 1)))"
    "hops_in_step False hops' rs'" by auto
  show ?thesis
    using h(2) by (auto simp: handle_relay_cell_def hops(1) unwrap_backward_append [OF h(1)])
qed

section \<open>Forward: from the client to the last relay\<close>

fun relay_path ::
  "prims \<Rightarrow> (nat \<Rightarrow> bytes) \<Rightarrow> relay_crypto list \<Rightarrow> bytes \<Rightarrow> relay_crypto list \<times> (relay_cell \<times> nat) option" where
  "relay_path P urandom [] body = ([], None)"
| "relay_path P urandom (r # rs) body =
    (let (r1, body1) = apply_forward_cipher P body r in
     case recognize_forward P urandom body1 r1 of
       (r2, Inl e) \<Rightarrow> (r2 # rs, None)
     | (r2, Inr (Some cell)) \<Rightarrow> (r2 # rs, Some (cell, 0))
     | (r2, Inr None) \<Rightarrow>
        let (rs', out) = relay_path P urandom rs body1
        in (r2 # rs', map_option (\<lambda>(cell, i). (cell, Suc i)) out))"

text \<open>No relay before the last takes the cell for its own.\<close>

fun passes_through :: "prims \<Rightarrow> (nat \<Rightarrow> bytes) \<Rightarrow> relay_crypto list \<Rightarrow> bytes \<Rightarrow> bool" where
  "passes_through P urandom [] body = True"
| "passes_through P urandom [r] body = True"
| "passes_through P urandom (r # rs) body =
    (let (r1, body1) = apply_forward_cipher P body r in
     snd (recognize_forward P urandom body1 r1) = Inr None \<and> passes_through P urandom rs body1)"

lemma relay_path_wrapped:
  "prims_ok P \<Longrightarrow> sealable c \<Longrightarrow> hops_in_step True hops rs \<Longrightarrow> hops \<noteq> [] \<Longrightarrow>
    wrap_forward P (butlast hops @ [(last hops)\<lparr>hop_crypto := stamped_state True c (hop_crypto (last hops))\<rparr>])
      (stamped_bytes P True c (hop_crypto (last hops))) = (hops', body) \<Longrightarrow>
    passes_through P u rs body \<Longrightarrow>
    \<exists>rs'. relay_path P u rs body
        = (rs', Some (RelayCell_with_digest (stamp_of P True c (hop_crypto (last hops))) c, length rs - 1))
      \<and> hops_in_step True hops' rs'"
proof (induction hops arbitrary: rs hops' body)
  case Nil
  then show ?case by simp
next
  case (Cons h hs)
  then obtain r rs0 where rs: "rs = r # rs0" and s: "in_step True (hop_crypto h) r"
    "hops_in_step True hs rs0" by (auto simp: hops_in_step_def list_all2_Cons1)
  have s': "in_step True r (hop_crypto h)" using s(1) by (simp add: in_step_def)
  show ?case
  proof (cases "hs = []")
    case True
    then have rs0: "rs0 = []" using s by (simp add: hops_in_step_def)
    let ?b = "stamped_bytes P True c (hop_crypto h)"
    obtain h1 where w: "hop_cipher P True ?b (hop_crypto h) = (h1, body)"
      and hops': "hops' = [h\<lparr>hop_crypto := stamped_state True c h1\<rparr>]"
    proof (cases "hop_cipher P True ?b (hop_crypto h)")
      case (Pair h1 w)
      then show ?thesis using Cons.prems(5) cipher_stamped [OF Pair, of True c] that True
        by (simp add: hop_cipher_def)
    qed
    from in_step_cipher [OF s' w] obtain r1 where
      r1: "in_step True r1 h1" "hop_cipher P True body r = (r1, ?b)" by metis
    have st: "stamp_of P True c (hop_crypto h) = stamp_of P True c r1"
      using in_step_stamp_of [OF r1(1), of P c] stamp_of_cipher [OF w, of True c] by simp
    have rec: "recognize_forward P u ?b r1
        = (stamped_state True c r1, Inr (Some (RelayCell_with_digest (stamp_of P True c (hop_crypto h)) c)))"
      using recognize_sealed [OF Cons.prems(1,2) refl refl refl, where rc = r1 and urandom = u and fw = True] st
      by (simp add: recognize_forward_def stamped_bytes_def)
    have cc: "apply_forward_cipher P body r = (r1, ?b)" using r1(2) by (simp add: hop_cipher_def)
    have "in_step True (stamped_state True c h1) (stamped_state True c r1)"
      using in_step_stamped [OF r1(1)] by (simp add: in_step_def)
    then show ?thesis using True rs0 rs hops' by (simp add: cc rec hops_in_step_def)
  next
    case False
    then obtain r' rs0' where rs0: "rs0 = r' # rs0'" using s by (cases rs0) (auto simp: hops_in_step_def)
    let ?inner = "wrap_forward P (butlast hs @ [(last hs)\<lparr>hop_crypto := stamped_state True c (hop_crypto (last hs))\<rparr>])
      (stamped_bytes P True c (hop_crypto (last hs)))"
    obtain hs1 w1 where w1: "?inner = (hs1, w1)" by (cases ?inner)
    obtain h1 where h1: "hop_cipher P True w1 (hop_crypto h) = (h1, body)"
      and hops': "hops' = h\<lparr>hop_crypto := h1\<rparr> # hs1"
      using Cons.prems(5) w1 False by (auto simp: hop_cipher_def Let_def split: prod.splits)
    from in_step_cipher [OF s' h1] obtain r1 where
      r1: "in_step True r1 h1" "hop_cipher P True body r = (r1, w1)" by metis
    have cc: "apply_forward_cipher P body r = (r1, w1)" using r1(2) by (simp add: hop_cipher_def)
    from Cons.prems(6) obtain r2 where rec: "recognize_forward P u w1 r1 = (r2, Inr None)"
      and tl: "passes_through P u rs0 w1"
      by (cases "recognize_forward P u w1 r1") (auto simp: rs rs0 cc)
    have r2: "r2 = r1" using rec recognize_None_unchanged by (auto simp: recognize_forward_def)
    from Cons.IH [OF Cons.prems(1,2) s(2) False w1 tl] obtain rs' where
      rs': "relay_path P u rs0 w1
        = (rs', Some (RelayCell_with_digest (stamp_of P True c (hop_crypto (last hs))) c, length rs0 - 1))"
      "hops_in_step True hs1 rs'" by blast
    have "in_step True h1 r1" using r1(1) by (simp add: in_step_def)
    then show ?thesis using False rs0 rs hops' rs'
      by (simp add: cc rec r2 hops_in_step_def)
  qed
qed

definition forward_wrapped :: "prims \<Rightarrow> relay_cell \<Rightarrow> circuit_hop list \<Rightarrow> circuit_hop list \<times> bytes" where
  "forward_wrapped P c hops =
    wrap_forward P (butlast hops @ [(last hops)\<lparr>hop_crypto := stamped_state True c (hop_crypto (last hops))\<rparr>])
      (stamped_bytes P True c (hop_crypto (last hops)))"

lemma wrap_forward_length_snd [simp]: "length (snd (wrap_forward P hs b)) = length b"
  by (induction hs) (simp_all add: Let_def case_prod_beta)

lemma list_update_butlast: "xs \<noteq> [] \<Longrightarrow> xs[length xs - Suc 0 := x] = butlast xs @ [x]"
  by (cases xs rule: rev_cases) simp_all

lemma send_relay_cell_wf:
  assumes "\<not> c_destroyed w" "c_hops w \<noteq> []" "prims_ok P" "relay_wf c"
  shows "send_relay_cell P c early count w =
    (let (hops, body) = forward_wrapped P c (c_hops w);
         rc = stamped_state True c (hop_crypto (last (c_hops w)))
     in chan_send \<lparr>circ_id = c_circ_id w,
            command = cell_num (if early then Cell_RELAY_EARLY else Cell_RELAY), payload = body\<rparr>
          (w\<lparr>c_tracker := (if count then note_sent (forward_digest P rc) (c_tracker w) else c_tracker w),
             c_hops := hops\<rparr>))"
  using assms
  by (cases "forward_wrapped P c (c_hops w)")
    (auto simp: send_relay_cell_def stamp_wf RelayCell_pack_wf stamped_wf forward_wrapped_def stamped_bytes_def
      update_hop_def list_update_butlast last_conv_nth Let_def)

lemma chan_send_relay:
  "chan_send cell w = (w', Inr ()) \<Longrightarrow> w' = w\<lparr>sent_cells := sent_cells w @ [cell]\<rparr>"
  by (auto simp: chan_send_def split: sum.splits option.splits)

text \<open>C1: what the client sends reaches the last relay whole. The single cell a successful send puts on
the channel, met by the relays in turn, is passed on by each of them and recognized by the last with
its fields intact, and client and relays stay in step; unless an earlier relay takes it for its own.\<close>

theorem forward_cell_reaches_last_relay:
  assumes ok: "prims_ok P" and c: "sealable c" and live: "\<not> c_destroyed w" "c_hops w \<noteq> []"
    and step: "hops_in_step True (c_hops w) rs"
    and send: "send_relay_cell P c early count w = (w', Inr ())"
    and pass: "passes_through P urandom rs (payload (last (sent_cells w')))"
  shows "\<exists>cell rs' seen. sent_cells w' = sent_cells w @ [cell] \<and> circ_id cell = c_circ_id w
    \<and> relay_path P urandom rs (payload cell) = (rs', Some (seen, length rs - 1))
    \<and> RelayCell_with_digest ZERO_DIGEST seen = RelayCell_with_digest ZERO_DIGEST c
    \<and> hops_in_step True (c_hops w') rs'"
proof -
  obtain hops body where fw: "forward_wrapped P c (c_hops w) = (hops, body)"
    by (cases "forward_wrapped P c (c_hops w)")
  let ?cell = "\<lparr>circ_id = c_circ_id w,
      command = cell_num (if early then Cell_RELAY_EARLY else Cell_RELAY), payload = body\<rparr>"
  from send obtain t where w': "w' = w\<lparr>c_tracker := t, c_hops := hops, sent_cells := sent_cells w @ [?cell]\<rparr>"
    using c by (auto simp: send_relay_cell_wf [OF live ok] sealable_def fw Let_def dest!: chan_send_relay)
  have pass': "passes_through P urandom rs body" using pass by (simp add: w')
  from relay_path_wrapped [OF ok c step live(2) fw [unfolded forward_wrapped_def] pass']
  show ?thesis by (auto simp: w' RelayCell_with_digest_def)
qed

section \<open>A two-hop circuit\<close>

lemma nth_xor_stream: "i < length b \<Longrightarrow> xor_stream ks p b ! i = b ! i XOR ks (p + i)"
  by (induction b arbitrary: p i) (auto simp: nth_Cons split: nat.splits)

definition toy_relay_info :: relay_info where
  "toy_relay_info = \<lparr>ri_host = HostIP (IPv4 [127, 0, 0, 1]), ri_port = 9001, ri_ntor_onion_key = zeros 32,
     ri_identity_digest = zeros 20, ri_ed_identity = zeros 32\<rparr>"

definition toy_two_hops :: circ where
  "toy_two_hops = toy_circ\<lparr>c_hops := replicate 2 \<lparr>hop_relay = toy_relay_info, hop_crypto = toy_crypto\<rparr>\<rparr>"

definition toy_cell :: relay_cell where
  "toy_cell = RelayCell zeros 2 1 [104, 105]"

lemma toy_cell_sealable: "sealable toy_cell"
  unfolding toy_cell_def by (rule sealable_RelayCell) simp_all

lemma not_recognized:
  "3 \<le> length body \<Longrightarrow> body ! 1 \<noteq> 0 \<Longrightarrow> recognize P u fw body rc = (rc, Inr None)"
  by (simp add: recognize_def py_slice_def take_Suc_conv_app_nth numeral_2_eq_2 Cons_nth_drop_Suc [symmetric])

lemma stamped_bytes_shape:
  assumes "prims_ok P" "sealable c"
  shows "length (stamped_bytes P fw c rc) = 509" "stamped_bytes P fw c rc ! 1 = 0"
proof -
  let ?c = "RelayCell_with_digest (stamp_of P fw c rc) c"
  have wf: "relay_wf ?c" using assms stamped_wf by (simp add: sealable_def)
  show "length (stamped_bytes P fw c rc) = 509"
    using length_relay_bytes [OF wf] by (simp add: stamped_bytes_def)
  show "stamped_bytes P fw c rc ! 1 = 0"
    using assms(2) by (simp add: stamped_bytes_def relay_bytes_def relay_header_def sealable_def
        RelayCell_with_digest_def be_enc_1 be_enc_2)
qed

lemma toy_cipher:
  "apply_forward_cipher toy_prims b rc
    = (rc\<lparr>forward_cipher := forward_cipher rc\<lparr>ctr_pos := ctr_pos (forward_cipher rc) + length b\<rparr>\<rparr>,
       xor_stream (\<lambda>i. of_nat i + 1) (ctr_pos (forward_cipher rc)) b)"
  by (simp add: apply_forward_cipher_def ctr_update_def toy_prims_def)

lemma toy_passes:
  assumes "ctr_pos (forward_cipher r1) = 0" "ctr_pos (forward_cipher r2) = 0"
  shows "passes_through toy_prims zeros [r1, r2]
    (snd (forward_wrapped toy_prims toy_cell
       [\<lparr>hop_relay = a, hop_crypto = toy_crypto\<rparr>, \<lparr>hop_relay = a, hop_crypto = toy_crypto\<rparr>]))"
proof -
  let ?b = "stamped_bytes toy_prims True toy_cell toy_crypto" and ?x = "xor_stream (\<lambda>i. of_nat i + 1) 0"
  have b: "length ?b = 509" "?b ! 1 = 0"
    using stamped_bytes_shape [OF toy_prims_ok toy_cell_sealable] by simp_all
  have "?x ?b ! 1 \<noteq> 0" using b by (simp add: nth_xor_stream)
  then have "recognize toy_prims zeros True (?x ?b) rc = (rc, Inr None)" for rc
    using b by (intro not_recognized) simp_all
  moreover have "snd (forward_wrapped toy_prims toy_cell
       [\<lparr>hop_relay = a, hop_crypto = toy_crypto\<rparr>, \<lparr>hop_relay = a, hop_crypto = toy_crypto\<rparr>]) = ?x (?x ?b)"
    by (simp add: forward_wrapped_def toy_cipher stamped_state_def toy_crypto_def Let_def)
  ultimately show ?thesis using assms by (simp add: toy_cipher recognize_forward_def)
qed

lemma toy_two_hops_sel:
  "c_hops toy_two_hops = replicate 2 \<lparr>hop_relay = toy_relay_info, hop_crypto = toy_crypto\<rparr>"
  "\<not> c_destroyed toy_two_hops" "chan_error toy_two_hops = None" "link_ver toy_two_hops = 4"
  "c_circ_id toy_two_hops = 0x80000001" "sent_cells toy_two_hops = []"
  by (simp_all add: toy_two_hops_def toy_circ_def Circuit_init_def)

theorem forward_cell_reaches_last_relay_witness:
  "\<exists>w' cell rs' seen. send_relay_cell toy_prims toy_cell False True toy_two_hops = (w', Inr ())
    \<and> sent_cells w' = [cell]
    \<and> relay_path toy_prims zeros [toy_crypto, toy_crypto] (payload cell) = (rs', Some (seen, 1))
    \<and> RelayCell_with_digest ZERO_DIGEST seen = RelayCell_with_digest ZERO_DIGEST toy_cell"
proof -
  let ?w = toy_two_hops
  obtain hops body where fw: "forward_wrapped toy_prims toy_cell (c_hops ?w) = (hops, body)"
    by (cases "forward_wrapped toy_prims toy_cell (c_hops ?w)")
  have len: "length body = 509"
    using fw wrap_forward_length_snd stamped_bytes_shape(1) [OF toy_prims_ok toy_cell_sealable]
    by (metis forward_wrapped_def snd_conv)
  have wf: "relay_wf toy_cell" and ne: "c_hops ?w \<noteq> []"
    using toy_cell_sealable by (simp_all add: sealable_def toy_two_hops_sel)
  obtain w' where s: "send_relay_cell toy_prims toy_cell False True ?w = (w', Inr ())"
    and last: "sent_cells w' = [\<lparr>circ_id = 0x80000001, command = 3, payload = body\<rparr>]"
    unfolding send_relay_cell_wf [OF toy_two_hops_sel(2) ne toy_prims_ok wf] fw Let_def prod.case
    by (simp add: chan_send_def toy_two_hops_sel RawCell_pack_def is_variable_cell_def circid_len_def len Let_def)
  have p: "passes_through toy_prims zeros [toy_crypto, toy_crypto] (payload (last (sent_cells w')))"
    using toy_passes [of toy_crypto toy_crypto toy_relay_info] fw
    by (simp add: last toy_two_hops_sel numeral_2_eq_2) (simp add: toy_crypto_def)
  have st: "hops_in_step True (c_hops ?w) [toy_crypto, toy_crypto]"
    by (simp add: hops_in_step_def toy_two_hops_sel numeral_2_eq_2)
  from forward_cell_reaches_last_relay [OF toy_prims_ok toy_cell_sealable toy_two_hops_sel(2) ne st s p]
  show ?thesis using s last by (auto simp: toy_two_hops_sel)
qed

lemma toy_backward:
  "apply_backward_cipher toy_prims b rc
    = (rc\<lparr>backward_cipher := backward_cipher rc\<lparr>ctr_pos := ctr_pos (backward_cipher rc) + length b\<rparr>\<rparr>,
       xor_stream (\<lambda>i. of_nat i + 1) (ctr_pos (backward_cipher rc)) b)"
  by (simp add: apply_backward_cipher_def ctr_update_def toy_prims_def)

theorem backward_cell_is_routed_witness:
  "\<exists>rs' body hops' seen. relay_sends toy_prims [toy_crypto, toy_crypto] toy_cell = (rs', body)
    \<and> handle_relay_cell toy_prims zeros \<lparr>circ_id = 0x80000001, command = 3, payload = body\<rparr> toy_two_hops
      = route_relay toy_prims zeros seen 1 (toy_two_hops\<lparr>c_hops := hops'\<rparr>)
    \<and> r_data seen = [104, 105] \<and> hops_in_step False hops' rs'"
proof -
  let ?b = "stamped_bytes toy_prims False toy_cell toy_crypto" and ?x = "xor_stream (\<lambda>i. of_nat i + 1) 0"
  let ?hops = "c_hops toy_two_hops" and ?rs = "[toy_crypto, toy_crypto]"
  obtain rs' body where s: "relay_sends toy_prims ?rs toy_cell = (rs', body)"
    by (cases "relay_sends toy_prims ?rs toy_cell")
  have body: "body = ?x (?x ?b)"
    using s by (auto simp: relay_sends_def toy_backward stamped_state_def toy_crypto_def Let_def)
  have b: "length ?b = 509" "?b ! 1 = 0"
    using stamped_bytes_shape [OF toy_prims_ok toy_cell_sealable] by simp_all
  have "?x ?b ! 1 \<noteq> 0" using b by (simp add: nth_xor_stream)
  then have none: "recognize_backward toy_prims zeros (?x ?b) rc = (rc, Inr None)" for rc
    using b unfolding recognize_backward_def by (intro not_recognized) simp_all
  have pos: "ctr_pos (backward_cipher toy_crypto) = 0" by (simp add: toy_crypto_def)
  have earlier: "snd (unwrap_backward toy_prims zeros (butlast ?hops) 0 body) = Inr None"
    by (simp add: toy_two_hops_sel numeral_2_eq_2 toy_backward body pos none)
  have st: "hops_in_step False ?hops ?rs"
    by (simp add: hops_in_step_def toy_two_hops_sel numeral_2_eq_2)
  have hs: "c_hops toy_two_hops = ?hops @ []" "?hops \<noteq> []" by (simp_all add: toy_two_hops_sel)
  obtain hops' where h: "handle_relay_cell toy_prims zeros
        \<lparr>circ_id = 0x80000001, command = 3, payload = body\<rparr> toy_two_hops
      = route_relay toy_prims zeros
          (RelayCell_with_digest (stamp_of toy_prims False toy_cell (last ?rs)) toy_cell) (length ?hops - 1)
          (toy_two_hops\<lparr>c_hops := hops' @ []\<rparr>)"
    "hops_in_step False hops' rs'"
    using backward_cell_is_routed [OF toy_prims_ok toy_cell_sealable hs st s earlier] by blast
  have d: "r_data (RelayCell_with_digest d toy_cell) = [104, 105]" for d
    by (simp add: RelayCell_with_digest_def toy_cell_def RelayCell_def RelayCell_full_def)
  show ?thesis
    using s h d by (auto simp: toy_two_hops_sel(1) numeral_2_eq_2)
qed

end
