(* ===== verification/CircuitLaws.thy ===== *)
theory CircuitLaws
  imports CircuitOnion
begin

text \<open>
  What the receiver thread does with recognized cells (delivery to streams, circuit SENDMEs), stream
  identifiers, and building: a first hop created with an honest relay, and the clean-up when building
  fails.
\<close>

section \<open>Delivery to streams\<close>

lemma send_same_stream:
  "stream_heap (fst (emit_circuit_sendme P u i w)) = stream_heap w"
  "c_streams (fst (emit_circuit_sendme P u i w)) = c_streams w"
  "c_relay_waiters (fst (emit_circuit_sendme P u i w)) = c_relay_waiters w"
  "c_destroyed (fst (emit_circuit_sendme P u i w)) = c_destroyed w"
  "c_deliver (fst (emit_circuit_sendme P u i w)) = c_deliver w"
  using emit_circuit_sendme_fst [of P u i w] send_relay_cell_same(1) [where w = w and P = P and early = False and count = False]
  by (auto simp: same_registry_def)

text \<open>The part of \<open>_route_relay\<close> before the stream is looked up.\<close>

definition count_data :: "prims \<Rightarrow> (nat \<Rightarrow> bytes) \<Rightarrow> relay_cell \<Rightarrow> nat \<Rightarrow> (circ, exc, unit) op" where
  "count_data P urandom cell i w =
    (if r_command cell = relay_num Relay_DATA
     then let (d, due) = note_received (c_deliver w); w1 = w\<lparr>c_deliver := d\<rparr> in
          if due then emit_circuit_sendme P urandom i w1 else (w1, Inr ())
     else (w, Inr ()))"

definition deliver_to_stream :: "relay_cell \<Rightarrow> circ \<Rightarrow> circ" where
  "deliver_to_stream cell w =
    (case map_of (c_streams w) (r_stream_id cell) of
       None \<Rightarrow> w
     | Some r \<Rightarrow> w\<lparr>stream_heap := (stream_heap w)(r := Stream_handle_relay cell (stream_heap w r))\<rparr>)"

definition stream_cell :: "circ \<Rightarrow> relay_cell \<Rightarrow> bool" where
  "stream_cell w cell \<longleftrightarrow> r_command cell \<noteq> relay_num Relay_EXTENDED2
     \<and> \<not> (r_command cell = relay_num Relay_SENDME \<and> r_stream_id cell = 0)
     \<and> map_of (c_relay_waiters w) (r_command cell) = None"

lemma route_stream_cell:
  "stream_cell w cell \<Longrightarrow> route_relay P urandom cell i w =
    obind (count_data P urandom cell i) (\<lambda>_ w. (deliver_to_stream cell w, Inr ())) w"
  by (auto simp: route_relay_def stream_cell_def count_data_def deliver_to_stream_def obind_def
      split: prod.splits sum.splits option.splits)

lemma count_data_same:
  "stream_heap (fst (count_data P u cell i w)) = stream_heap w"
  "c_streams (fst (count_data P u cell i w)) = c_streams w"
  "c_relay_waiters (fst (count_data P u cell i w)) = c_relay_waiters w"
  "c_destroyed (fst (count_data P u cell i w)) = c_destroyed w"
  by (auto simp: count_data_def Let_def send_same_stream split: prod.splits)

lemma deliver_same:
  "c_streams (deliver_to_stream cell w) = c_streams w"
  "c_relay_waiters (deliver_to_stream cell w) = c_relay_waiters w"
  "c_destroyed (deliver_to_stream cell w) = c_destroyed w"
  "sent_cells (deliver_to_stream cell w) = sent_cells w"
  "c_deliver (deliver_to_stream cell w) = c_deliver w"
  by (simp_all add: deliver_to_stream_def split: option.splits)

text \<open>A sequence of recognized cells, each with the hop it came from.\<close>

fun route_all :: "prims \<Rightarrow> (nat \<Rightarrow> bytes) \<Rightarrow> (relay_cell \<times> nat) list \<Rightarrow> (circ, exc, unit) op" where
  "route_all P urandom [] w = (w, Inr ())"
| "route_all P urandom ((cell, i) # cells) w =
     obind (route_relay P urandom cell i) (\<lambda>_. route_all P urandom cells) w"

definition data_for :: "int \<Rightarrow> relay_cell \<Rightarrow> bytes" where
  "data_for sid cell =
     (if r_command cell = relay_num Relay_DATA \<and> r_stream_id cell = sid then r_data cell else [])"

lemma deliver_buffer:
  assumes "map_of (c_streams w) sid = Some r"
    and inj: "\<And>sid'. map_of (c_streams w) sid' = Some r \<Longrightarrow> sid' = sid"
  shows "s_buffer (stream_heap (deliver_to_stream cell w) r) = s_buffer (stream_heap w r) @ data_for sid cell"
proof (cases "map_of (c_streams w) (r_stream_id cell)")
  case None
  then have "r_stream_id cell \<noteq> sid" using assms(1) by auto
  then show ?thesis by (simp add: deliver_to_stream_def data_for_def None)
next
  case (Some q)
  show ?thesis
  proof (cases "q = r")
    case True
    then have "r_stream_id cell = sid" using Some by (intro inj) simp
    then show ?thesis using Some True by (simp add: deliver_to_stream_def data_for_def handle_relay_buffer)
  next
    case False
    then have "r_stream_id cell \<noteq> sid" using assms(1) Some by auto
    then show ?thesis using Some False by (simp add: deliver_to_stream_def data_for_def)
  qed
qed

lemma route_stream_cell_buffer:
  assumes "stream_cell w cell" "map_of (c_streams w) sid = Some r"
    and "\<And>sid'. map_of (c_streams w) sid' = Some r \<Longrightarrow> sid' = sid"
    and "route_relay P urandom cell i w = (w', Inr ())"
  shows "s_buffer (stream_heap w' r) = s_buffer (stream_heap w r) @ data_for sid cell
    \<and> c_streams w' = c_streams w \<and> c_relay_waiters w' = c_relay_waiters w \<and> c_destroyed w' = c_destroyed w"
proof -
  obtain w1 where c: "count_data P urandom cell i w = (w1, Inr ())" and w': "w' = deliver_to_stream cell w1"
    using assms(4) unfolding route_stream_cell [OF assms(1)] by (auto simp: obind_Inr_iff)
  have s: "stream_heap w1 = stream_heap w" "c_streams w1 = c_streams w"
    "c_relay_waiters w1 = c_relay_waiters w" "c_destroyed w1 = c_destroyed w"
    using count_data_same [of P urandom cell i w] c by simp_all
  have "s_buffer (stream_heap w' r) = s_buffer (stream_heap w1 r) @ data_for sid cell"
    unfolding w' by (rule deliver_buffer) (simp_all only: s assms(2,3))
  then show ?thesis using s by (simp add: w' deliver_same)
qed

text \<open>C26: the bytes of a stream arrive in order and nowhere else. Over any sequence of cells for the
circuit's streams, interleaved in any way and whatever hop each comes from, the buffer of a registered
stream grows by exactly the data of its own DATA cells, in order.\<close>

theorem stream_data_arrives_in_order:
  assumes "\<forall>(cell, i)\<in>set cells. stream_cell w cell" and "map_of (c_streams w) sid = Some r"
    and "\<forall>sid'. map_of (c_streams w) sid' = Some r \<longrightarrow> sid' = sid"
    and "route_all P urandom cells w = (w', Inr ())"
  shows "s_buffer (stream_heap w' r)
    = s_buffer (stream_heap w r) @ concat (map (\<lambda>(cell, i). data_for sid cell) cells)"
  using assms
proof (induction cells arbitrary: w)
  case Nil
  from Nil.prems(4) show ?case by simp
next
  case (Cons x cells)
  obtain cell i where x: "x = (cell, i)" by (cases x)
  from Cons.prems(4) obtain w1 where w1: "route_relay P urandom cell i w = (w1, Inr ())"
    and rest: "route_all P urandom cells w1 = (w', Inr ())" by (auto simp: x obind_Inr_iff)
  have sc: "stream_cell w cell" using Cons.prems(1) x by simp
  have b: "s_buffer (stream_heap w1 r) = s_buffer (stream_heap w r) @ data_for sid cell"
    "c_streams w1 = c_streams w" "c_relay_waiters w1 = c_relay_waiters w"
  proof -
    have inj: "sid' = sid" if "map_of (c_streams w) sid' = Some r" for sid'
      using Cons.prems(3) that by blast
    show "s_buffer (stream_heap w1 r) = s_buffer (stream_heap w r) @ data_for sid cell"
      "c_streams w1 = c_streams w" "c_relay_waiters w1 = c_relay_waiters w"
      using route_stream_cell_buffer [OF sc Cons.prems(2) inj w1] by simp_all
  qed
  have "s_buffer (stream_heap w' r)
      = s_buffer (stream_heap w1 r) @ concat (map (\<lambda>(cell, i). data_for sid cell) cells)"
  proof (rule Cons.IH [OF _ _ _ rest])
    show "\<forall>(cell, i)\<in>set cells. stream_cell w1 cell" using Cons.prems(1) b(3) by (simp add: stream_cell_def)
    show "\<forall>sid'. map_of (c_streams w1) sid' = Some r \<longrightarrow> sid' = sid"
      unfolding b by (rule Cons.prems(3))
  qed (simp only: b Cons.prems(2))
  then show ?case by (simp add: b x)
qed

definition toy_data :: "int \<Rightarrow> bytes \<Rightarrow> relay_cell" where
  "toy_data sid data = RelayCell zeros (relay_num Relay_DATA) sid data"

lemma toy_data_sel [simp]:
  "r_command (toy_data sid d) = 2" "r_stream_id (toy_data sid d) = sid" "r_data (toy_data sid d) = d"
  by (simp_all add: toy_data_def RelayCell_def RelayCell_full_def)

lemma toy_circ_more [simp]:
  "c_relay_waiters toy_circ = [(39, 1)]" "c_deliver toy_circ = \<lparr>dc_increment = 100, dc_count = 0\<rparr>"
  "stream_heap toy_circ r = Stream_init 1"
  by (simp_all add: toy_circ_def Circuit_init_def DeliverCounter_def)

theorem stream_data_arrives_in_order_witness:
  "\<exists>w'. route_all toy_prims zeros [(toy_data 2 [1, 2], 1), (toy_data 1 [9], 0), (toy_data 2 [3], 0)] toy_circ
      = (w', Inr ())
    \<and> s_buffer (stream_heap w' 5) = [1, 2, 3]"
proof -
  let ?cells = "[(toy_data 2 [1, 2], 1 :: nat), (toy_data 1 [9], 0), (toy_data 2 [3], 0)]"
  obtain w' where w': "route_all toy_prims zeros ?cells toy_circ = (w', Inr ())"
    by (simp add: route_relay_def note_received_def Let_def obind_def)
  have "s_buffer (stream_heap w' 5)
      = s_buffer (stream_heap toy_circ 5) @ concat (map (\<lambda>(cell, i). data_for 2 cell) ?cells)"
    by (rule stream_data_arrives_in_order [OF _ _ _ w']) (auto simp: stream_cell_def split: if_splits)
  then show ?thesis using w' by (simp add: data_for_def Stream_init_def)
qed

section \<open>Circuit SENDMEs for received data\<close>

definition sendable :: "prims \<Rightarrow> (nat \<Rightarrow> bytes) \<Rightarrow> circ \<Rightarrow> bool" where
  "sendable P urandom w \<longleftrightarrow> prims_ok P \<and> (\<forall>n. length (urandom n) = n) \<and> \<not> c_destroyed w
     \<and> c_hops w \<noteq> [] \<and> chan_error w = None \<and> 4 \<le> link_ver w \<and> 0 \<le> c_circ_id w \<and> c_circ_id w < 4294967296"

lemma sendable_same: "sendable P u w \<Longrightarrow> same_registry w w' \<Longrightarrow> sendable P u w'"
  by (auto simp: sendable_def same_registry_def length_greater_0_conv [symmetric]
      simp del: length_greater_0_conv)

lemma sendable_deliver [simp]:
  "sendable P u (w\<lparr>c_deliver := d\<rparr>) = sendable P u w"
  "sendable P u (deliver_to_stream cell w) = sendable P u w"
  by (simp_all add: sendable_def deliver_to_stream_def split: option.splits)

lemma send_adds_one:
  assumes s: "sendable P u w" and c: "sealable c"
  shows "\<exists>w' cell. send_relay_cell P c early count w = (w', Inr ())
    \<and> sent_cells w' = sent_cells w @ [cell]"
proof -
  have ok: "prims_ok P" and live: "\<not> c_destroyed w" "c_hops w \<noteq> []" using s by (auto simp: sendable_def)
  obtain hops body where fw: "forward_wrapped P c (c_hops w) = (hops, body)"
    by (cases "forward_wrapped P c (c_hops w)")
  have len: "length body = 509"
    using fw wrap_forward_length_snd stamped_bytes_shape(1) [OF ok c] by (metis forward_wrapped_def snd_conv)
  show ?thesis
    using s c live len unfolding send_relay_cell_wf [OF live ok c [unfolded sealable_def, THEN conjunct1]] fw
    by (simp add: chan_send_def RawCell_pack_def is_variable_cell_def circid_len_def sendable_def Let_def)
qed

lemma emit_adds_one:
  assumes s: "sendable P u w"
  shows "\<exists>w' cell. emit_circuit_sendme P u i w = (w', Inr ()) \<and> sent_cells w' = sent_cells w @ [cell]
    \<and> sendable P u w'"
proof -
  let ?d = "take 20 (backward_digest P (hop_crypto (c_hops w ! i)))"
  have ok: "prims_ok P" using s by (simp add: sendable_def)
  have "length ?d = 20"
    using prims_okD(1) [OF ok] by (cases "rc_alg (hop_crypto (c_hops w ! i))") (simp_all add: backward_digest_def)
  then have b: "sendme_v1_body ?d = Inr (be_enc 1 1 @ be_enc 2 20 @ ?d)" by (simp add: sendme_v1_body_Inr_iff)
  have "sealable (RelayCell u (relay_num Relay_SENDME) 0 (be_enc 1 1 @ be_enc 2 20 @ ?d))"
    by (rule sealable_RelayCell) (use s \<open>length ?d = 20\<close> in \<open>simp_all add: sendable_def\<close>)
  from send_adds_one [OF s this, of False False] obtain w' cell where
    w': "send_relay_cell P (RelayCell u (relay_num Relay_SENDME) 0 (be_enc 1 1 @ be_enc 2 20 @ ?d)) False False w
      = (w', Inr ())" "sent_cells w' = sent_cells w @ [cell]" by blast
  have "same_registry w w'"
    using send_relay_cell_same(1) [where w = w and P = P and early = False and count = False] w'(1)
    by (metis fst_conv)
  with sendable_same [OF s] w' show ?thesis
    by (simp add: emit_circuit_sendme_def suppress_def b)
qed

lemma count_data_step:
  assumes s: "sendable P u w" and d: "r_command cell = relay_num Relay_DATA"
    and c: "dc_increment (c_deliver w) = 100" "0 \<le> dc_count (c_deliver w)" "dc_count (c_deliver w) < 100"
  shows "\<exists>w'. count_data P u cell i w = (w', Inr ()) \<and> sendable P u w'
    \<and> dc_increment (c_deliver w') = 100 \<and> dc_count (c_deliver w') = (dc_count (c_deliver w) + 1) mod 100
    \<and> int (length (sent_cells w')) = int (length (sent_cells w)) + (dc_count (c_deliver w) + 1) div 100"
proof (cases "dc_count (c_deliver w) = 99")
  case True
  let ?w = "w\<lparr>c_deliver := (c_deliver w)\<lparr>dc_count := 0\<rparr>\<rparr>"
  have "sendable P u ?w" using s by simp
  from emit_adds_one [OF this, of i] obtain w' cell' where
    w': "emit_circuit_sendme P u i ?w = (w', Inr ())" "sent_cells w' = sent_cells ?w @ [cell']" "sendable P u w'"
    by blast
  have "c_deliver w' = c_deliver ?w" using send_same_stream(5) [of P u i ?w] w'(1) by simp
  then show ?thesis using w' c True d by (simp add: count_data_def note_received_def Let_def)
next
  case False
  then show ?thesis using s c d by (simp add: count_data_def note_received_def Let_def)
qed

lemma carry_div:
  fixes a m k :: int
  assumes "0 < k"
  shows "a div k + (a mod k + m) div k = (a + m) div k"
proof -
  have "a + m = (a mod k + m) + (a div k) * k" by simp
  then have "(a + m) div k = (a mod k + m) div k + a div k" using assms by (metis div_mult_self1 add.commute less_numeral_extra(3))
  then show ?thesis by simp
qed

text \<open>No acknowledgement is lost. While a circuit can send, it answers exactly every hundredth DATA
cell with one circuit SENDME, whether or not the cell's stream is still open, so the relay's window for
it always recovers.\<close>

theorem every_hundredth_data_cell_acknowledged:
  assumes "sendable P urandom w"
    and "\<forall>(cell, i)\<in>set cells. r_command cell = relay_num Relay_DATA \<and> stream_cell w cell"
    and "dc_increment (c_deliver w) = CIRCUIT_WINDOW_INCREMENT"
    and "0 \<le> dc_count (c_deliver w)" "dc_count (c_deliver w) < CIRCUIT_WINDOW_INCREMENT"
  shows "\<exists>w'. route_all P urandom cells w = (w', Inr ())
    \<and> int (length (sent_cells w'))
        = int (length (sent_cells w)) + (dc_count (c_deliver w) + int (length cells)) div 100
    \<and> dc_count (c_deliver w') = (dc_count (c_deliver w) + int (length cells)) mod 100"
  using assms
proof (induction cells arbitrary: w)
  case Nil
  then show ?case by simp
next
  case (Cons x cells)
  obtain cell i where x: "x = (cell, i)" by (cases x)
  have sc: "stream_cell w cell" and d: "r_command cell = relay_num Relay_DATA"
    using Cons.prems(2) by (simp_all add: x)
  let ?n = "dc_count (c_deliver w)"
  from count_data_step [OF Cons.prems(1) d, of i] Cons.prems(3-5) obtain w1 where
    c: "count_data P urandom cell i w = (w1, Inr ())" and s1: "sendable P urandom w1"
    and d1: "dc_increment (c_deliver w1) = 100" "dc_count (c_deliver w1) = (?n + 1) mod 100"
    and l1: "int (length (sent_cells w1)) = int (length (sent_cells w)) + (?n + 1) div 100" by auto
  let ?w2 = "deliver_to_stream cell w1"
  have r: "route_relay P urandom cell i w = (?w2, Inr ())"
    by (simp add: route_stream_cell [OF sc] c)
  have rw: "c_relay_waiters ?w2 = c_relay_waiters w"
    using count_data_same(3) [of P urandom cell i w] c by (simp add: deliver_same)
  have "\<exists>w'. route_all P urandom cells ?w2 = (w', Inr ())
    \<and> int (length (sent_cells w'))
        = int (length (sent_cells ?w2)) + (dc_count (c_deliver ?w2) + int (length cells)) div 100
    \<and> dc_count (c_deliver w') = (dc_count (c_deliver ?w2) + int (length cells)) mod 100"
    by (rule Cons.IH) (use Cons.prems(2) s1 d1 rw in \<open>auto simp: deliver_same stream_cell_def\<close>)
  then obtain w' where w': "route_all P urandom cells ?w2 = (w', Inr ())"
    "int (length (sent_cells w')) = int (length (sent_cells w)) + (?n + 1) div 100
      + ((?n + 1) mod 100 + int (length cells)) div 100"
    "dc_count (c_deliver w') = ((?n + 1) mod 100 + int (length cells)) mod 100"
    by (auto simp: deliver_same d1 l1)
  have q: "(?n + 1) div 100 + ((?n + 1) mod 100 + int (length cells)) div 100
      = (?n + int (length (x # cells))) div 100"
    "((?n + 1) mod 100 + int (length cells)) mod 100 = (?n + int (length (x # cells))) mod 100"
    using carry_div [where a = "?n + 1" and m = "int (length cells)" and k = 100] by (simp_all add: mod_add_left_eq add.assoc)
  show ?case using w' q by (auto simp: x r)
qed

lemma toy_two_hops_sendable: "sendable toy_prims zeros toy_two_hops"
  by (simp add: sendable_def toy_prims_ok toy_two_hops_sel)

theorem every_hundredth_data_cell_acknowledged_witness:
  "\<exists>w'. route_all toy_prims zeros (replicate 250 (toy_data 9 [1], 1)) toy_two_hops = (w', Inr ())
    \<and> length (sent_cells w') = 2"
proof -
  have d: "c_deliver toy_two_hops = \<lparr>dc_increment = 100, dc_count = 0\<rparr>"
    "c_relay_waiters toy_two_hops = [(39, 1)]"
    by (simp_all add: toy_two_hops_def)
  obtain w' where "route_all toy_prims zeros (replicate 250 (toy_data 9 [1], 1)) toy_two_hops = (w', Inr ())"
    "int (length (sent_cells w')) = int (length (sent_cells toy_two_hops))
      + (dc_count (c_deliver toy_two_hops) + int (length (replicate 250 (toy_data 9 [1], 1 :: nat)))) div 100"
    using every_hundredth_data_cell_acknowledged [OF toy_two_hops_sendable, of "replicate 250 (toy_data 9 [1], 1)"]
    by (auto simp: d stream_cell_def)
  then show ?thesis by (simp add: d toy_two_hops_sel)
qed

end
