(* ===== verification/CircuitBuild.thy ===== *)
theory CircuitBuild
  imports CircuitLaws
begin

text \<open>
  Building circuits: the first hop agrees with an honest relay on the keys; a failed build leaves
  nothing behind. Also the authentication of circuit SENDMEs as the handler does it, and stream ids.
\<close>

section \<open>Keys of the first hop\<close>

lemma fire_build_armed:
  "c_build_waiter w = Some r \<Longrightarrow> r < length (waiter_heap w) \<Longrightarrow> w_error (waiter_heap w ! r) = None \<Longrightarrow>
    snd (waiter_wait r (fire_build d w)) = Inr (Some (Build d))"
  by (simp add: fire_build_def waiter_set_result_def waiter_wait_def Let_def)

lemma created2_parsed:
  assumes "length reply < 65536"
  shows "Created2Cell_from_raw \<lparr>circ_id = cid, command = cmd, payload = be_enc 2 (int (length reply)) @ reply @ pad\<rparr>
    = Inr reply"
  using assms by (simp add: Created2Cell_from_raw_def be_int_enc py_slice_def)

lemma send_create2_ok:
  assumes "length skin = 84" "chan_error w = None" "4 \<le> link_ver w" "0 \<le> c_circ_id w" "c_circ_id w < 4294967296"
  shows "send_create2 skin w = (w\<lparr>sent_cells := sent_cells w
    @ [raw_of (c_circ_id w) Cell_CREATE2 (be_enc 2 2 @ be_enc 2 84 @ skin)]\<rparr>, Inr ())"
  using assms
  by (simp add: send_create2_def Create2Cell_to_raw_def chan_send_def RawCell_pack_def is_variable_cell_def
      circid_len_def Let_def)

lemma start_create_ok:
  assumes "length skin = 84" "\<not> c_destroyed w" "chan_error w = None" "4 \<le> link_ver w"
    "0 \<le> c_circ_id w" "c_circ_id w < 4294967296"
  shows "start_create skin w =
    (w\<lparr>waiter_heap := waiter_heap w @ [\<lparr>w_event = False, w_result = None, w_error = None\<rparr>],
       c_build_waiter := Some (length (waiter_heap w)),
       sent_cells := sent_cells w @ [raw_of (c_circ_id w) Cell_CREATE2 (be_enc 2 2 @ be_enc 2 84 @ skin)]\<rparr>,
     Inr (length (waiter_heap w)))"
  using assms by (simp add: start_create_def arm_build_waiter_def new_waiter_def send_create2_ok obind_def Let_def)

text \<open>C21: creating the first hop with an honest relay works and agrees on the keys: the client sends one
CREATE2 carrying its onion skin, and when the relay's CREATED2 answer arrives, however padded, the hop
is added with exactly the cipher and digest state the relay derives from its own key material.\<close>

theorem create_agrees_with_relay:
  assumes ok: "prims_ok P" "dh_commutes P" and keys: "length b = 32" "length y = 32" "length generated = 32"
    and relay: "ri_ntor_onion_key relay = dh_public P b" "ri_identity_digest relay = node_id" "length node_id = 20"
    and live: "\<not> c_destroyed w" "chan_error w = None" "4 \<le> link_ver w" "0 \<le> c_circ_id w"
      "c_circ_id w < 4294967296"
    and answer: "ntor_relay P node_id b y (node_id @ dh_public P b @ dh_public P generated) = Some (reply, km)"
    and env: "\<And>v. env v = fst (circuit_handle_cell P urandom \<lparr>circ_id = c_circ_id w,
        command = cell_num Cell_CREATED2, payload = be_enc 2 (int (length reply)) @ reply @ pad\<rparr> v)"
  shows "\<exists>w' rc. circuit_create P generated env relay w = (w', Inr ()) \<and> tor1 km = Inr rc
    \<and> c_hops w' = c_hops w @ [\<lparr>hop_relay = relay, hop_crypto = rc\<rparr>]
    \<and> sent_cells w' = sent_cells w @ [raw_of (c_circ_id w) Cell_CREATE2
        (be_enc 2 2 @ be_enc 2 84 @ node_id @ dh_public P b @ dh_public P generated)]"
proof -
  have lp: "length (dh_public P x) = 32" for x by (rule prims_okD(4) [OF ok(1)])
  obtain h where h: "NtorHandshake P (dh_public P b) node_id None generated = Inr h"
    and hs: "create_onion_skin h = node_id @ dh_public P b @ dh_public P generated"
    using keys relay lp by (simp add: NtorHandshake_def x25519_public_from_private_def ephemeral_or_def
        create_onion_skin_def Let_def)
  have skin: "length (create_onion_skin h) = 84" using relay(3) lp by (simp add: hs)
  have comp: "ntor_complete P h reply = Inr km" "length km = 72"
    using ntor_agreement [OF ok keys(1,2) h] answer by (auto simp: hs)
  have rl: "length reply < 65536"
  proof -
    obtain a where "reply = dh_public P y @ hmac_sha256 P T_MAC a"
      using answer by (auto simp: ntor_relay_def Let_def split: option.splits sum.splits if_splits)
    then show ?thesis by (simp add: lp prims_okD(3) [OF ok(1)])
  qed
  obtain rc where rc: "tor1 km = Inr rc"
    using RelayCrypto_init_ok [of SHA1 16 km] comp(2) by (auto simp: tor1_def)
  let ?r = "length (waiter_heap w)"
  obtain w1 where st: "start_create (create_onion_skin h) w = (w1, Inr ?r)"
    and w1: "w1 = w\<lparr>waiter_heap := waiter_heap w @ [\<lparr>w_event = False, w_result = None, w_error = None\<rparr>],
       c_build_waiter := Some ?r,
       sent_cells := sent_cells w @ [raw_of (c_circ_id w) Cell_CREATE2
         (be_enc 2 2 @ be_enc 2 84 @ node_id @ dh_public P b @ dh_public P generated)]\<rparr>"
    using start_create_ok [OF skin live] by (simp add: hs)
  have e: "env w1 = fire_build reply w1"
    unfolding env by (simp add: circuit_handle_cell_def created2_parsed [OF rl] del: of_nat_less_iff)
  have wait: "waiter_wait ?r (fire_build reply w1) = (fire_build reply w1, Inr (Some (Build reply)))"
    by (simp add: w1 fire_build_def waiter_set_result_def waiter_wait_def Let_def)
  have f: "c_hops (fire_build reply w1) = c_hops w" "sent_cells (fire_build reply w1) = sent_cells w1"
    by (simp_all add: w1 fire_build_def waiter_set_result_def)
  show ?thesis
    by (simp add: circuit_create_start relay h st build_reply_def e wait comp rc f) (simp add: w1)
qed

theorem create_agrees_with_relay_witness:
  "\<exists>reply km w' rc.
     circuit_create toy_prims (zeros 32)
       (\<lambda>v. fst (circuit_handle_cell toy_prims zeros \<lparr>circ_id = 0x80000001, command = cell_num Cell_CREATED2,
          payload = be_enc 2 (int (length reply)) @ reply @ [0, 0]\<rparr> v)) toy_relay_info toy_two_hops
       = (w', Inr ())
     \<and> tor1 km = Inr rc
     \<and> c_hops w' = c_hops toy_two_hops @ [\<lparr>hop_relay = toy_relay_info, hop_crypto = rc\<rparr>]"
proof -
  have pub: "dh_public toy_prims (zeros 32) = zeros 32" by (simp add: toy_dh)
  obtain reply km where r: "ntor_relay toy_prims (zeros 20) (zeros 32) (replicate 32 1)
      (zeros 20 @ dh_public toy_prims (zeros 32) @ dh_public toy_prims (zeros 32)) = Some (reply, km)"
    using ntor_relay_answers [OF toy_prims_ok, of "zeros 20" "zeros 32" "replicate 32 1"
        "xor_zip (replicate 32 1) (zeros 32)" "zeros 32" "xor_zip (zeros 32) (zeros 32)"]
    by (auto simp: toy_dh)
  from create_agrees_with_relay [OF toy_prims_ok toy_prims_commute, of "zeros 32" "replicate 32 1" "zeros 32"
      toy_relay_info "zeros 20" toy_two_hops reply km _ zeros "[0, 0]", OF _ _ _ _ _ _ _ _ _ _ _ r refl]
  show ?thesis by (simp add: toy_relay_info_def toy_two_hops_sel pub) blast
qed

section \<open>A failed build leaves nothing behind\<close>

definition chan_ok :: "circ \<Rightarrow> bool" where
  "chan_ok w \<longleftrightarrow> 0 \<le> c_circ_id w \<and> c_circ_id w < 4294967296 \<and> 4 \<le> link_ver w
     \<and> (chan_error w = None \<or> chan_error w = Some ChannelError)"

lemma chan_ok_upd [simp]:
  "chan_ok (w\<lparr>c_hops := h\<rparr>) = chan_ok w"
  "chan_ok (w\<lparr>c_deliver := d\<rparr>) = chan_ok w"
  "chan_ok (w\<lparr>c_tracker := t\<rparr>) = chan_ok w"
  "chan_ok (w\<lparr>c_package := p\<rparr>) = chan_ok w"
  "chan_ok (w\<lparr>deregistered := b\<rparr>) = chan_ok w"
  "chan_ok (w\<lparr>c_next_stream_id := n\<rparr>) = chan_ok w"
  "chan_ok (w\<lparr>waiter_heap := h'\<rparr>) = chan_ok w"
  "chan_ok (w\<lparr>stream_heap := sh\<rparr>) = chan_ok w"
  "chan_ok (w\<lparr>c_streams := st\<rparr>) = chan_ok w"
  "chan_ok (w\<lparr>c_relay_waiters := rw\<rparr>) = chan_ok w"
  "chan_ok (w\<lparr>c_build_waiter := bw\<rparr>) = chan_ok w"
  "chan_ok (w\<lparr>sent_cells := sc\<rparr>) = chan_ok w"
  "chan_ok (teardown e w) = chan_ok w"
  by (simp_all add: chan_ok_def)

lemma chan_ok_send: "chan_ok w \<Longrightarrow> chan_ok (fst (send_relay_cell P cell early count w))"
  using send_relay_cell_same(1) [where w = w and P = P and cell = cell and early = early and count = count]
  by (simp add: same_registry_def chan_ok_def)

lemma chan_ok_chan_send: "chan_ok w \<Longrightarrow> chan_ok (fst (chan_send cell w))"
  using chan_send_same(1) [where w = w and cell = cell] by (simp add: same_registry_def chan_ok_def)

lemma chan_ok_emit: "chan_ok w \<Longrightarrow> chan_ok (fst (emit_circuit_sendme P u i w))"
  using emit_circuit_sendme_fst [of P u i w] by (auto simp: chan_ok_send)

lemma chan_ok_small:
  "chan_ok (fire_build d w) = chan_ok w"
  "chan_ok w \<Longrightarrow> chan_ok (handle_circuit_sendme cell w)"
  by (auto simp: fire_build_def waiter_set_result_def handle_circuit_sendme_def Let_def
      split: option.splits sum.splits prod.splits)

lemma chan_ok_route: "chan_ok w \<Longrightarrow> chan_ok (fst (route_relay P u cell i w))"
  unfolding route_relay_def
  by (auto simp: chan_ok_small waiter_set_result_def Let_def split: prod.splits option.splits
      intro!: obind_keeps [where I = chan_ok] chan_ok_emit)

lemma chan_ok_close: "chan_ok w \<Longrightarrow> chan_ok (fst (circuit_close w))"
  unfolding circuit_close_def
  by (intro obind_keeps [where I = chan_ok]) (auto simp: chan_ok_chan_send split: sum.splits)

lemma chan_ok_send_relay: "chan_ok w \<Longrightarrow> chan_ok (fst (send_relay P cell d id w))"
  by (auto simp: send_relay_def chan_ok_send Let_def split: prod.splits sum.splits)

lemma chan_ok_step: "chan_ok w \<Longrightarrow> chan_ok (circ_do P u op w)"
proof (cases op)
  case (OpHandle cell)
  assume "chan_ok w"
  then show ?thesis
    by (auto simp: OpHandle circuit_handle_cell_def handle_relay_cell_def chan_ok_small Let_def
        chan_ok_route split: prod.splits sum.splits option.splits)
next
  case (OpStreamSendme sid)
  then show "chan_ok w \<Longrightarrow> ?thesis"
    using emit_stream_sendme_fst [of P u sid w] chan_ok_send [of w] by auto
next
  case (OpStartCreate skin)
  then show "chan_ok w \<Longrightarrow> ?thesis"
    by (auto simp: start_create_def send_create2_def arm_build_waiter_def new_waiter_def chan_ok_chan_send
        Let_def split: sum.splits intro!: obind_keeps [where I = chan_ok])
next
  case (OpStartExtend cell)
  then show "chan_ok w \<Longrightarrow> ?thesis"
    by (auto simp: start_extend_def arm_build_waiter_def new_waiter_def chan_ok_send Let_def
        intro!: obind_keeps [where I = chan_ok])
next
  case OpChannelFails
  then show "chan_ok w \<Longrightarrow> ?thesis" by (simp add: chan_ok_def)
next
  case (OpUnregister sid)
  then show "chan_ok w \<Longrightarrow> ?thesis" by (simp add: unregister_stream_def Let_def chan_ok_close)
qed (simp_all add: on_channel_closed_def chan_ok_close chan_ok_send_relay add_virtual_hop_def arm_relay_def
    new_waiter_def next_stream_id_def register_stream_def Let_def)

interpretation chan_ok_circuit: circuit_invariant P u chan_ok
  by unfold_locales (rule chan_ok_step)

lemma close_succeeds:
  assumes "chan_ok w"
  shows "\<exists>w'. circuit_close w = (w', Inr ()) \<and> c_destroyed w' \<and> deregistered w'"
proof -
  let ?m = "\<lambda>w. case DestroyCell_to_raw 0 (c_circ_id w) of Inl e \<Rightarrow> (w, Inl e) | Inr cell \<Rightarrow> chan_send cell w"
  have "\<exists>w'. suppress [ChannelError] ?m w = (w', Inr ())"
    using assms
    by (auto simp: suppress_def DestroyCell_to_raw_def chan_send_def RawCell_pack_def is_variable_cell_def
        circid_len_def chan_ok_def catches_def Let_def)
  then show ?thesis by (auto simp: circuit_close_def)
qed

text \<open>C22: a circuit whose building fails, at any hop, for any reason and whatever the network did
meanwhile, is torn down and taken off its channel, and the caller gets an error: it never leaks.\<close>

theorem failed_build_is_cleaned_up:
  assumes "chan_ok w" and env: "\<forall>(relay, generated, env)\<in>set path. \<forall>v. chan_ok v \<longrightarrow> chan_ok (env v)"
    and fail: "build_circuit P urandom path w = (w', Inl e)"
  shows "c_destroyed w' \<and> deregistered w'"
proof -
  let ?b = "case path of [] \<Rightarrow> (w, Inl IndexError)
      | (relay, generated, env) # rest \<Rightarrow>
          obind (circuit_create P generated env relay) (\<lambda>_. extend_all P urandom rest) w"
  have b: "chan_ok (fst ?b)"
    using assms(1) env by (auto split: list.splits prod.splits
        intro!: obind_keeps [where I = chan_ok] chan_ok_circuit.create_inv chan_ok_circuit.extend_all_inv)
  obtain w1 r where w1: "?b = (w1, r)" by (cases ?b)
  then obtain e1 where r: "r = Inl e1" using fail by (cases r) (auto simp: build_circuit_def)
  have "chan_ok w1" using b w1 by simp
  from close_succeeds [OF this] obtain w2 where
    w2: "circuit_close w1 = (w2, Inr ())" "c_destroyed w2" "deregistered w2" by blast
  then show ?thesis using fail unfolding build_circuit_def w1 r by (auto simp: obind_def)
qed

theorem failed_build_is_cleaned_up_witness:
  "\<exists>w' e. build_circuit toy_prims zeros [(toy_relay_info, zeros 32, id)]
      (Circuit_init 0x80000001 False 4 (\<lambda>_. Stream_init 0)) = (w', Inl e)
    \<and> c_destroyed w' \<and> deregistered w'"
proof -
  let ?w = "Circuit_init 0x80000001 False 4 (\<lambda>_. Stream_init 0)"
  let ?h = "\<lparr>nt_onion_key = zeros 32, nt_node_id = zeros 20, nt_x = zeros 32, nt_pub_x = zeros 32\<rparr>"
  have ok: "chan_ok ?w" by (simp add: chan_ok_def Circuit_init_def)
  have h: "NtorHandshake toy_prims (zeros 32) (zeros 20) None (zeros 32) = Inr ?h"
    by (simp add: NtorHandshake_def x25519_public_from_private_def toy_dh ephemeral_or_def Let_def)
  have s: "start_create (create_onion_skin ?h) ?w =
    (?w\<lparr>waiter_heap := [\<lparr>w_event = False, w_result = None, w_error = None\<rparr>], c_build_waiter := Some 0,
       sent_cells := [raw_of 0x80000001 Cell_CREATE2 (be_enc 2 2 @ be_enc 2 84 @ create_onion_skin ?h)]\<rparr>, Inr 0)"
    by (subst start_create_ok) (simp_all add: create_onion_skin_def Circuit_init_def)
  have c: "\<exists>w1. circuit_create toy_prims (zeros 32) id toy_relay_info ?w = (w1, Inl CircuitBuildTimeout)"
    by (simp add: circuit_create_start toy_relay_info_def h s build_reply_def waiter_wait_def Let_def)
  then obtain w1 where w1: "circuit_create toy_prims (zeros 32) id toy_relay_info ?w = (w1, Inl CircuitBuildTimeout)"
    by blast
  obtain w' r where b: "build_circuit toy_prims zeros [(toy_relay_info, zeros 32, id)] ?w = (w', r)"
    by (cases "build_circuit toy_prims zeros [(toy_relay_info, zeros 32, id)] ?w")
  then obtain e where e: "r = Inl e"
    by (auto simp: build_circuit_def w1 obind_def split: prod.splits sum.splits)
  show ?thesis
    using failed_build_is_cleaned_up [OF ok _ b [unfolded e]] b e by auto
qed

section \<open>Forged SENDMEs\<close>

text \<open>C23: only an authentic SENDME moves the send window. A circuit SENDME whose body is malformed or does
not carry the oldest outstanding digest tears the circuit down and leaves the window as it was but
closed; one that carries it refills the window by one increment.\<close>

theorem only_authentic_sendme_refills:
  assumes "\<not> c_destroyed w"
  shows "case parse_sendme_v1 (r_data cell) of
      Inl _ \<Rightarrow> handle_circuit_sendme cell w = teardown CircuitError w
    | Inr digest \<Rightarrow>
        (if (\<exists>rest. st_expected (c_tracker w) = digest # rest)
         then c_package (handle_circuit_sendme cell w) = PackageWindow_refill (c_package w)
              \<and> \<not> c_destroyed (handle_circuit_sendme cell w)
         else c_package (handle_circuit_sendme cell w) = PackageWindow_close (c_package w)
              \<and> c_destroyed (handle_circuit_sendme cell w)
              \<and> c_error (handle_circuit_sendme cell w) = Some CircuitError)"
proof (cases "parse_sendme_v1 (r_data cell)")
  case (Inl e)
  then show ?thesis by (simp add: handle_circuit_sendme_def)
next
  case (Inr digest)
  have "take 20 digest = digest" using parse_sendme_v1_length [OF Inr] by simp
  then show ?thesis using assms
    by (cases "st_expected (c_tracker w)")
      (auto simp: Inr handle_circuit_sendme_def tracker_verify_def Let_def teardown_fresh)
qed

theorem only_authentic_sendme_refills_witness:
  "c_package (handle_circuit_sendme (RelayCell zeros 5 0 []) toy_circ)
     = PackageWindow_close (c_package toy_circ)"
  using only_authentic_sendme_refills [OF toy_circ_sel(4), of "RelayCell zeros 5 0 []"]
  by (simp add: RelayCell_def RelayCell_full_def parse_sendme_v1_def teardown_fresh)

section \<open>Stream ids\<close>

fun stream_ids :: "nat \<Rightarrow> circ \<Rightarrow> int list" where
  "stream_ids 0 w = []"
| "stream_ids (Suc n) w = (let (w', i) = next_stream_id w in i # stream_ids n w')"

lemma stream_ids_eq:
  "stream_ids n w = map (\<lambda>i. (c_next_stream_id w + int i) mod 65535 + 1) [0..<n]"
proof (induction n arbitrary: w)
  case (Suc n)
  let ?w = "fst (next_stream_id w)"
  have "(c_next_stream_id ?w + int i) mod 65535 = (c_next_stream_id w + int (Suc i)) mod 65535" for i
    by (simp add: next_stream_id_def Let_def) (metis add.assoc mod_add_left_eq)
  then have "stream_ids n ?w = map (\<lambda>i. (c_next_stream_id w + int (Suc i)) mod 65535 + 1) [0..<n]"
    by (simp only: Suc.IH)
  moreover have "snd (next_stream_id w) = (c_next_stream_id w + int 0) mod 65535 + 1"
    by (simp add: next_stream_id_def Let_def)
  moreover have "[0..<Suc n] = 0 # map Suc [0..<n]" by (simp add: upt_conv_Cons map_Suc_upt)
  ultimately show ?case by (simp add: case_prod_beta Let_def o_def del: upt_Suc of_nat_Suc)
qed simp

text \<open>Stream ids lie in 1..65535 and run through all of them before one comes back: any 65535
successive ids are distinct, and the next one after them is the first again, whether or not the stream
that has it is still open.\<close>

theorem stream_ids_cycle:
  "distinct (stream_ids 65535 w) \<and> set (stream_ids n w) \<subseteq> {1..65535}
    \<and> stream_ids (65535 + k) w ! 0 = c_next_stream_id w mod 65535 + 1
    \<and> stream_ids 65536 w ! 65535 = stream_ids 65536 w ! 0"
proof -
  let ?f = "\<lambda>i. (c_next_stream_id w + int i) mod 65535 + 1"
  have "inj_on ?f {0..<65535}"
  proof (rule inj_onI)
    fix i j assume ij: "i \<in> {0..<65535}" "j \<in> {0..<65535}" "?f i = ?f j"
    then have "(c_next_stream_id w + int i) mod 65535 = (c_next_stream_id w + int j) mod 65535" by simp
    then have "int i mod 65535 = int j mod 65535" by (simp add: mod_eq_dvd_iff)
    then show "i = j" using ij(1,2) by simp
  qed
  then have d: "distinct (map ?f [0..<65535])" by (simp only: distinct_map distinct_upt set_upt)
  have r: "?f i \<in> {1..65535}" for i
    using pos_mod_bound [of 65535 "c_next_stream_id w + int i"] pos_mod_sign [of 65535 "c_next_stream_id w + int i"]
    by simp
  have n: "map ?f [0..<m] ! i = ?f i" if "i < m" for i m
    using that by (simp only: nth_map_upt diff_zero add_0)
  have "set (map ?f [0..<n]) \<subseteq> {1..65535}" using r by (auto simp only: set_map)
  then show ?thesis
    unfolding stream_ids_eq using d n [of 0 "65535 + k"] n [of 65535 65536] n [of 0 65536]
    by (simp only: simp_thms) simp
qed

text \<open>Registering an id that is still in use takes the stream's cells away from it.\<close>

lemma register_replaces:
  "\<not> c_destroyed w \<Longrightarrow> \<exists>w'. register_stream sid r' w = (w', Inr ()) \<and> map_of (c_streams w') sid = Some r'"
  by (simp add: register_stream_def update_conv')

end
