(* ===== verification/StreamOps.thy ===== *)
theory StreamOps
  imports CircuitBuild
begin

text \<open>
  The operations of a stream's owner (\<open>_net/stream.py\<close>): open, send, receive and close. They work on
  the circuit's state, where the stream is the object number \<open>r\<close>. A wait takes an \<open>env\<close>, what the
  other threads do until it ends; \<open>wait_for\<close> does not wait when its predicate already holds.
\<close>

definition upd_stream :: "nat \<Rightarrow> (stream \<Rightarrow> stream) \<Rightarrow> circ \<Rightarrow> circ" where
  "upd_stream r f w = w\<lparr>stream_heap := (stream_heap w)(r := f (stream_heap w r))\<rparr>"

definition open_ready :: "stream \<Rightarrow> bool" where
  "open_ready s \<longleftrightarrow> s_connected s \<or> s_eof s \<or> s_error s \<noteq> None"

definition await_open :: "nat \<Rightarrow> (circ \<Rightarrow> circ) \<Rightarrow> (circ, exc, unit) op" where
  "await_open r env w =
    (let w1 = (if open_ready (stream_heap w r) then w else env w); s = stream_heap w1 r in
     if \<not> open_ready s then (w1, Inl StreamConnectTimeout)
     else case s_error s of
       Some e \<Rightarrow> (w1, Inl e)
     | None \<Rightarrow> if \<not> s_connected s then (w1, Inl StreamConnectError) else (w1, Inr ()))"

definition stream_open ::
  "prims \<Rightarrow> relay_cell \<Rightarrow> nat \<Rightarrow> (circ \<Rightarrow> circ) \<Rightarrow> (circ, exc, unit) op" where
  "stream_open P begin_cell r env w =
    obind (register_stream (s_id (stream_heap w r)) r) (\<lambda>_ w.
      case obind (send_relay P begin_cell False id) (\<lambda>_. await_open r env) w of
        (w', Inr u) \<Rightarrow> (w', Inr u)
      | (w', Inl e) \<Rightarrow> obind (unregister_stream (s_id (stream_heap w' r))) (\<lambda>_. oraise e) w') w"

definition stream_connect ::
  "prims \<Rightarrow> (nat \<Rightarrow> bytes) \<Rightarrow> string \<Rightarrow> int \<Rightarrow> nat \<Rightarrow> (circ \<Rightarrow> circ) \<Rightarrow> (circ, exc, unit) op" where
  "stream_connect P urandom hst port r env w =
     stream_open P (RelayCell urandom (relay_num Relay_BEGIN) (s_id (stream_heap w r)) (begin_body hst port))
       r env w"

definition stream_connect_dir ::
  "prims \<Rightarrow> (nat \<Rightarrow> bytes) \<Rightarrow> nat \<Rightarrow> (circ \<Rightarrow> circ) \<Rightarrow> (circ, exc, unit) op" where
  "stream_connect_dir P urandom r env w =
     stream_open P (RelayCell urandom (relay_num Relay_BEGIN_DIR) (s_id (stream_heap w r)) []) r env w"

section \<open>Sending\<close>

text \<open>\<open>for start in range(0, len(view), RELAY_PAYLOAD_LEN): view[start : start + RELAY_PAYLOAD_LEN]\<close>.\<close>

definition data_chunks :: "bytes \<Rightarrow> bytes list" where
  "data_chunks data =
     map (\<lambda>i. py_slice (i * RELAY_PAYLOAD_LEN) (i * RELAY_PAYLOAD_LEN + RELAY_PAYLOAD_LEN) data)
       [0..<(length data + (RELAY_PAYLOAD_LEN - 1)) div RELAY_PAYLOAD_LEN]"

definition stream_consume :: "nat \<Rightarrow> (circ \<Rightarrow> circ) \<Rightarrow> (circ, exc, unit) op" where
  "stream_consume r env w =
    (let w1 = (if window_blocked (s_window (stream_heap w r)) then env w else w);
         (win, res) = PackageWindow_consume (s_window (stream_heap w1 r))
     in (upd_stream r (\<lambda>s. s\<lparr>s_window := win\<rparr>) w1, res))"

fun send_chunks ::
  "prims \<Rightarrow> (nat \<Rightarrow> bytes) \<Rightarrow> nat \<Rightarrow> (circ \<Rightarrow> circ) \<Rightarrow> bytes list \<Rightarrow> (circ, exc, unit) op" where
  "send_chunks P urandom r env [] w = (w, Inr ())"
| "send_chunks P urandom r env (chunk # rest) w =
     obind (stream_consume r env) (\<lambda>_.
     obind (\<lambda>w. send_relay P (RelayCell urandom (relay_num Relay_DATA) (s_id (stream_heap w r)) chunk) True env w)
       (\<lambda>_. send_chunks P urandom r env rest)) w"

definition stream_send ::
  "prims \<Rightarrow> (nat \<Rightarrow> bytes) \<Rightarrow> nat \<Rightarrow> (circ \<Rightarrow> circ) \<Rightarrow> bytes \<Rightarrow> (circ, exc, unit) op" where
  "stream_send P urandom r env data = send_chunks P urandom r env (data_chunks data)"

section \<open>Receiving\<close>

definition recv_ready :: "stream \<Rightarrow> bool" where
  "recv_ready s \<longleftrightarrow> s_buffer s \<noteq> [] \<or> s_eof s \<or> s_error s \<noteq> None"

definition SENDME_AFTER :: int where
  "SENDME_AFTER = STREAM_WINDOW_INCREMENT * int RELAY_PAYLOAD_LEN"

lemma SENDME_AFTER_eq [simp]: "SENDME_AFTER = 24900"
  by (simp add: SENDME_AFTER_def)

text \<open>The \<open>while\<close> loop of \<open>recv\<close>; \<open>n\<close> is \<open>_consumed_since_sendme\<close>, which the sends leave alone.\<close>

function credit_loop :: "prims \<Rightarrow> (nat \<Rightarrow> bytes) \<Rightarrow> nat \<Rightarrow> int \<Rightarrow> (circ, exc, unit) op" where
  "credit_loop P urandom r n w =
    (if SENDME_AFTER \<le> n then
       obind (emit_stream_sendme P urandom (s_id (stream_heap w r)))
         (\<lambda>_. credit_loop P urandom r (n - SENDME_AFTER))
         (upd_stream r (\<lambda>s. s\<lparr>s_consumed := n - SENDME_AFTER\<rparr>) w)
     else (w, Inr ()))"
  by pat_completeness auto
termination by (relation "measure (\<lambda>(P, u, r, n, w). nat n)") auto

declare credit_loop.simps [simp del]

definition stream_recv ::
  "prims \<Rightarrow> (nat \<Rightarrow> bytes) \<Rightarrow> nat \<Rightarrow> nat \<Rightarrow> (circ \<Rightarrow> circ) \<Rightarrow> (circ, exc, bytes) op" where
  "stream_recv P urandom r max_bytes env w =
    (let w1 = (if recv_ready (stream_heap w r) then w else env w); s = stream_heap w1 r in
     if \<not> recv_ready s then (w1, Inl TorReadTimeout)
     else if s_buffer s \<noteq> [] then
       let data = take max_bytes (s_buffer s); n = s_consumed s + int (length data);
           w2 = upd_stream r (\<lambda>s. s\<lparr>s_buffer := drop max_bytes (s_buffer s), s_consumed := n\<rparr>) w1
       in obind (credit_loop P urandom r n) (\<lambda>_. oreturn data) w2
     else case s_error s of
       Some e \<Rightarrow> (w1, Inl e)
     | None \<Rightarrow> (w1, Inr []))"

section \<open>Closing\<close>

definition stream_close :: "prims \<Rightarrow> (nat \<Rightarrow> bytes) \<Rightarrow> nat \<Rightarrow> (circ, exc, unit) op" where
  "stream_close P urandom r w =
    (let s = stream_heap w r in
     if s_closed s then (w, Inr ())
     else
       let send_end = \<not> s_eof s;
           w1 = upd_stream r (\<lambda>s. s\<lparr>s_closed := True, s_eof := True\<rparr>) w
       in obind (if send_end
                 then suppress [CircuitError, ChannelError]
                   (\<lambda>w. case end_body (end_reason_num End_DONE) of
                          Inl e \<Rightarrow> (w, Inl e)
                        | Inr body \<Rightarrow> send_relay P (RelayCell urandom (relay_num Relay_END) (s_id s) body) False id w)
                 else oreturn ())
            (\<lambda>_ w. unregister_stream (s_id s)
               (upd_stream r (\<lambda>s. s\<lparr>s_window := PackageWindow_close (s_window s)\<rparr>) w)) w1)"

end
