(* ===== verification/StreamLaws.thy ===== *)
theory StreamLaws
  imports StreamOps
begin

text \<open>
  Laws of the stream operations: sending cuts the data without loss, receiving hands the buffer out in
  order, stream SENDMEs credit consumed bytes, a failed open and a close leave no registration.
\<close>

section \<open>Segmentation\<close>

lemma concat_slices: "concat (map (\<lambda>i. py_slice (i * n) (i * n + n) xs) [0..<k]) = take (k * n) xs"
proof (induction k)
  case (Suc k)
  have "take (k * n) xs @ py_slice (k * n) (k * n + n) xs = take (k * n + n) xs"
    using slice_join [of 0 "k * n" "k * n + n" xs] by simp
  with Suc show ?case by (simp add: add.commute)
qed simp

text \<open>Sending cuts the data into DATA cells without loss: the chunks concatenate to the data, each has
between 1 and 498 bytes, and all but the last are full.\<close>

theorem data_chunks_partition:
  "concat (data_chunks data) = data
    \<and> list_all (\<lambda>c. 0 < length c \<and> length c \<le> RELAY_PAYLOAD_LEN) (data_chunks data)
    \<and> list_all (\<lambda>c. length c = RELAY_PAYLOAD_LEN) (butlast (data_chunks data))"
proof -
  let ?k = "(length data + 497) div 498"
  have d: "data_chunks data = map (\<lambda>i. py_slice (i * 498) (i * 498 + 498) data) [0..<?k]"
    by (simp add: data_chunks_def)
  have k: "length data \<le> ?k * 498"
    using div_mult_mod_eq [of "length data + 497" 498] mod_less_divisor [of 498 "length data + 497"] by linarith
  have i: "i * 498 < length data" if "i < ?k" for i
    using that less_eq_div_iff_mult_less_eq [of 498 "Suc i" "length data + 497"] by linarith
  have f: "i * 498 + 498 \<le> length data" if "Suc i < ?k" for i
    using i [OF that] by simp
  have "concat (data_chunks data) = data" unfolding d concat_slices using k by simp
  moreover have "list_all (\<lambda>c. 0 < length c \<and> length c \<le> RELAY_PAYLOAD_LEN) (data_chunks data)"
    unfolding d using i by (auto simp: list_all_iff py_slice_def leD)
  moreover have "list_all (\<lambda>c. length c = RELAY_PAYLOAD_LEN) (butlast (data_chunks data))"
  proof -
    have "butlast [0..<m] = [0..<m - 1]" for m by (cases m) simp_all
    then show ?thesis unfolding d map_butlast [symmetric] using f by (auto simp: list_all_iff)
  qed
  ultimately show ?thesis by blast
qed

section \<open>Receiving\<close>

lemma upd_stream_sel [simp]:
  "stream_heap (upd_stream r f w) r = f (stream_heap w r)"
  "r' \<noteq> r \<Longrightarrow> stream_heap (upd_stream r f w) r' = stream_heap w r'"
  "sent_cells (upd_stream r f w) = sent_cells w"
  "c_streams (upd_stream r f w) = c_streams w"
  "c_destroyed (upd_stream r f w) = c_destroyed w"
  by (simp_all add: upd_stream_def)

lemma sendable_upd [simp]: "sendable P u (upd_stream r f w) = sendable P u w"
  by (simp add: sendable_def upd_stream_def)

lemma stream_sendme_keeps:
  "stream_heap (fst (emit_stream_sendme P u sid w)) = stream_heap w"
  using emit_stream_sendme_fst [of P u sid w] send_relay_cell_same(1) [where w = w and P = P and early = False and count = False]
  by (auto simp: same_registry_def)

lemma stream_sendme_ok:
  assumes s: "sendable P u w" and sid: "0 \<le> sid" "sid < 65536"
  shows "\<exists>w' cell. emit_stream_sendme P u sid w = (w', Inr ()) \<and> sent_cells w' = sent_cells w @ [cell]
    \<and> sendable P u w' \<and> stream_heap w' = stream_heap w"
proof -
  let ?c = "RelayCell u (relay_num Relay_SENDME) sid []"
  have "sealable ?c" by (rule sealable_RelayCell) (use s sid in \<open>simp_all add: sendable_def\<close>)
  from send_adds_one [OF s this, of False False] obtain w' cell where
    w': "send_relay_cell P ?c False False w = (w', Inr ())" "sent_cells w' = sent_cells w @ [cell]" by blast
  have r: "same_registry w w'"
    using send_relay_cell_same(1) [where w = w and P = P and early = False and count = False] w'(1) by (metis fst_conv)
  then show ?thesis using sendable_same [OF s r] w'
    by (simp add: emit_stream_sendme_def suppress_def same_registry_def)
qed

lemma credit_loop_ok:
  "sendable P u w \<Longrightarrow> 0 \<le> s_id (stream_heap w r) \<Longrightarrow> s_id (stream_heap w r) < 65536 \<Longrightarrow>
    0 \<le> n \<Longrightarrow> s_consumed (stream_heap w r) = n \<Longrightarrow>
    \<exists>w'. credit_loop P u r n w = (w', Inr ())
      \<and> int (length (sent_cells w')) = int (length (sent_cells w)) + n div SENDME_AFTER
      \<and> s_consumed (stream_heap w' r) = n mod SENDME_AFTER
      \<and> s_buffer (stream_heap w' r) = s_buffer (stream_heap w r) \<and> sendable P u w'
      \<and> s_id (stream_heap w' r) = s_id (stream_heap w r)"
proof (induction "nat n" arbitrary: n w rule: less_induct)
  case less
  show ?case
  proof (cases "SENDME_AFTER \<le> n")
    case False
    then show ?thesis using less.prems by (simp add: credit_loop.simps)
  next
    case True
    let ?w = "upd_stream r (\<lambda>s. s\<lparr>s_consumed := n - SENDME_AFTER\<rparr>) w"
    obtain w1 cell where e: "emit_stream_sendme P u (s_id (stream_heap w r)) ?w = (w1, Inr ())"
      "sent_cells w1 = sent_cells ?w @ [cell]" "sendable P u w1" "stream_heap w1 = stream_heap ?w"
      using stream_sendme_ok [of P u ?w "s_id (stream_heap w r)"] less.prems by auto
    obtain w' where w': "credit_loop P u r (n - SENDME_AFTER) w1 = (w', Inr ())"
      "int (length (sent_cells w')) = int (length (sent_cells w1)) + (n - SENDME_AFTER) div SENDME_AFTER"
      "s_consumed (stream_heap w' r) = (n - SENDME_AFTER) mod SENDME_AFTER"
      "s_buffer (stream_heap w' r) = s_buffer (stream_heap w1 r)" "sendable P u w'"
      "s_id (stream_heap w' r) = s_id (stream_heap w1 r)"
      using less.hyps [of "n - SENDME_AFTER" w1] less.prems True e by auto
    have "(n - 24900) div 24900 = n div 24900 - 1" "(n - 24900) mod 24900 = n mod 24900"
      using div_mult_self3 [of 24900 "-1" n] mod_mult_self1 [of n "-1" 24900] by simp_all
    then show ?thesis using True w' e
      by (subst credit_loop.simps) simp
  qed
qed


definition toy_reading :: circ where
  "toy_reading = toy_two_hops\<lparr>stream_heap := (\<lambda>_. (Stream_init 1)\<lparr>s_buffer := replicate 30000 7\<rparr>)\<rparr>"


section \<open>The stream window can starve\<close>

text \<open>
  The peer counts cells: it may send 500 DATA cells and gets 50 back for each SENDME. \<open>recv\<close> counts
  bytes, so a peer that sends small cells uses its window up before a SENDME is due.
\<close>

fun recv_each :: "prims \<Rightarrow> (nat \<Rightarrow> bytes) \<Rightarrow> nat \<Rightarrow> nat \<Rightarrow> bytes list \<Rightarrow> (circ, exc, unit) op" where
  "recv_each P urandom r max_bytes [] w = (w, Inr ())"
| "recv_each P urandom r max_bytes (d # ds) w =
     obind (stream_recv P urandom r max_bytes id) (\<lambda>_. recv_each P urandom r max_bytes ds)
       (upd_stream r (\<lambda>s. s\<lparr>s_buffer := s_buffer s @ d\<rparr>) w)"

text \<open>Stream SENDMEs follow bytes, not cells: a reader that drains each of a peer's DATA cells as it
arrives sends no stream SENDME at all while they total under 24900 bytes, so 500 cells of up to 49 bytes
exhaust the peer's 500-cell window with nothing to refill it.\<close>

theorem small_cells_are_never_acknowledged:
  assumes "s_buffer (stream_heap w r) = []" and "0 \<le> s_consumed (stream_heap w r)"
    and "\<forall>d\<in>set cells. d \<noteq> [] \<and> length d \<le> max_bytes"
    and "s_consumed (stream_heap w r) + int (length (concat cells)) < SENDME_AFTER"
  shows "\<exists>w'. recv_each P urandom r max_bytes cells w = (w', Inr ()) \<and> sent_cells w' = sent_cells w
    \<and> s_buffer (stream_heap w' r) = []
    \<and> s_consumed (stream_heap w' r) = s_consumed (stream_heap w r) + int (length (concat cells))"
  using assms
proof (induction cells arbitrary: w)
  case Nil
  then show ?case by simp
next
  case (Cons d cells)
  let ?w = "upd_stream r (\<lambda>s. s\<lparr>s_buffer := [], s_consumed := s_consumed s + int (length d)\<rparr>) w"
  let ?v = "upd_stream r (\<lambda>s. s\<lparr>s_buffer := s_buffer s @ d\<rparr>) w"
  have "upd_stream r (\<lambda>s. s\<lparr>s_buffer := drop max_bytes (s_buffer s),
      s_consumed := s_consumed (stream_heap ?v r) + int (length d)\<rparr>) ?v = ?w"
    using Cons.prems(1,3) by (simp add: upd_stream_def)
  then have r: "stream_recv P urandom r max_bytes id ?v = (?w, Inr d)"
    using Cons.prems by (simp add: stream_recv_def recv_ready_def Let_def credit_loop.simps)
  from Cons.IH [of ?w] Cons.prems show ?case by (simp add: r add.assoc)
qed

theorem small_cells_are_never_acknowledged_witness:
  "\<exists>w'. recv_each toy_prims zeros 0 65536 (replicate 500 (replicate 49 7)) toy_two_hops = (w', Inr ())
    \<and> sent_cells w' = []"
proof -
  have m: "s_buffer (stream_heap toy_two_hops 0) = []" "s_consumed (stream_heap toy_two_hops 0) = 0"
    by (simp_all add: toy_two_hops_def Stream_init_def)
  have l: "length (concat (replicate n (replicate k x))) = n * k" for n k and x :: byte
    by (induction n) simp_all
  show ?thesis
    using small_cells_are_never_acknowledged [of toy_two_hops 0 "replicate 500 (replicate 49 7)" 65536
        toy_prims zeros] m l [of 500 49 7]
    by (auto simp: toy_two_hops_sel)
qed

section \<open>Opening and closing\<close>

lemma close_registry:
  "map_of (c_streams w) k = None \<Longrightarrow> map_of (c_streams (fst (circuit_close w))) k = None"
proof -
  have c: "c_streams (fst (chan_send cell w)) = c_streams w" for cell w
    using chan_send_same(1) [where w = w and cell = cell] by (simp add: same_registry_def)
  have t: "map_of (c_streams v) k = None \<Longrightarrow> map_of (c_streams (teardown e v)) k = None" for e v
    by (cases "c_destroyed v") (simp_all add: teardown_fresh)
  assume "map_of (c_streams w) k = None"
  then show ?thesis
    unfolding circuit_close_def
    by (intro obind_keeps [where I = "\<lambda>w. map_of (c_streams w) k = None"]) (auto simp: c t split: sum.splits)
qed

lemma unregister_registry: "map_of (c_streams (fst (unregister_stream k w))) k = None"
  by (auto simp: unregister_stream_def Let_def delete_conv' intro: close_registry)

lemma close_stream_heap:
  "stream_heap (fst (circuit_close w)) r = stream_heap w r
    \<or> stream_heap (fst (circuit_close w)) r = Stream_on_circuit_closed (Some CircuitDestroyed) (stream_heap w r)"
proof -
  have c: "stream_heap (fst (chan_send cell w)) = stream_heap w" for cell w
    using chan_send_same(1) [where w = w and cell = cell] by (simp add: same_registry_def)
  have t: "stream_heap (teardown e v) r = stream_heap v r
      \<or> stream_heap (teardown e v) r = Stream_on_circuit_closed (Some e) (stream_heap v r)" for e v
    by (cases "c_destroyed v") (simp_all add: teardown_stream)
  have o: "stream_heap (fst (obind m (\<lambda>_ w. ((teardown e w)\<lparr>deregistered := True\<rparr>, Inr ())) w)) r = stream_heap w r
    \<or> stream_heap (fst (obind m (\<lambda>_ w. ((teardown e w)\<lparr>deregistered := True\<rparr>, Inr ())) w)) r
        = Stream_on_circuit_closed (Some e) (stream_heap w r)"
    if "stream_heap (fst (m w)) = stream_heap w" for e and m :: "(circ, exc, unit) op" and w
    using that t [of e "fst (m w)"] by (auto simp: obind_def split: prod.splits sum.splits)
  show ?thesis unfolding circuit_close_def
    by (rule o) (auto simp: c split: sum.splits)
qed

definition stream_over :: "stream \<Rightarrow> bool" where
  "stream_over s \<longleftrightarrow> s_closed s \<and> s_eof s \<and> pw_closed (s_window s)"

lemma stream_over_closed [simp]:
  "stream_over s \<Longrightarrow> stream_over (Stream_on_circuit_closed e s)"
  by (simp add: stream_over_def) (simp add: Stream_on_circuit_closed_def)

lemma unregister_over:
  "stream_over (stream_heap w r) \<Longrightarrow> stream_over (stream_heap (fst (unregister_stream k w)) r)"
  using close_stream_heap [of "w\<lparr>c_streams := AList.delete k (c_streams w)\<rparr>" r]
  by (auto simp: unregister_stream_def Let_def)

lemma send_relay_plain_heap: "stream_heap (fst (send_relay P cell False env w)) = stream_heap w"
  using send_relay_cell_same(1) [where w = w and P = P and cell = cell and early = False and count = False]
  by (simp add: send_relay_def same_registry_def)

lemma end_body_done: "end_body (end_reason_num End_DONE) = Inr [6]"
  by (simp add: end_body_def be_enc_1)

lemma stream_close_eq:
  "stream_close P urandom r w =
    (if s_closed (stream_heap w r) then (w, Inr ())
     else obind
       (if \<not> s_eof (stream_heap w r)
        then suppress [CircuitError, ChannelError]
          (send_relay P (RelayCell urandom (relay_num Relay_END) (s_id (stream_heap w r)) [6]) False id)
        else oreturn ())
       (\<lambda>_ v. unregister_stream (s_id (stream_heap w r))
          (upd_stream r (\<lambda>s. s\<lparr>s_window := PackageWindow_close (s_window s)\<rparr>) v))
       (upd_stream r (\<lambda>s. s\<lparr>s_closed := True, s_eof := True\<rparr>) w))"
  unfolding stream_close_def end_body_done sum.case Let_def ..

text \<open>Closing a stream is final. When a close returns, its id no longer routes to it, readers never
block again, a second close does nothing, and any further send raises before a cell leaves.\<close>

theorem stream_close_is_final:
  assumes "\<not> s_closed (stream_heap w r)" and "stream_close P urandom r w = (w', Inr ())" and "data \<noteq> []"
  shows "map_of (c_streams w') (s_id (stream_heap w r)) = None
    \<and> recv_ready (stream_heap w' r)
    \<and> stream_close P urandom r w' = (w', Inr ())
    \<and> (\<exists>w''. stream_send P urandom r env data w' = (w'', Inl CircuitDestroyed) \<and> sent_cells w'' = sent_cells w')"
proof -
  let ?sid = "s_id (stream_heap w r)"
  let ?w1 = "upd_stream r (\<lambda>s. s\<lparr>s_closed := True, s_eof := True\<rparr>) w"
  let ?m = "if \<not> s_eof (stream_heap w r)
      then suppress [CircuitError, ChannelError]
        (send_relay P (RelayCell urandom (relay_num Relay_END) ?sid [6]) False id) else oreturn ()"
  let ?f = "\<lambda>w. upd_stream r (\<lambda>s. s\<lparr>s_window := PackageWindow_close (s_window s)\<rparr>) w"
  obtain w2 u0 where m: "?m ?w1 = (w2, Inr u0)" and u: "unregister_stream ?sid (?f w2) = (w', Inr ())"
    using assms(1,2) unfolding stream_close_eq if_not_P [OF assms(1)] obind_Inr_iff by blast
  have "stream_heap (fst (?m ?w1)) = stream_heap ?w1" by (simp add: send_relay_plain_heap)
  then have "stream_over (stream_heap (?f w2) r)"
    using m by (simp add: stream_over_def PackageWindow_close_def)
  from unregister_over [OF this, of ?sid] have over: "stream_over (stream_heap w' r)" using u by simp
  obtain c cs where cs: "data_chunks data = c # cs"
    using assms(3) data_chunks_partition [of data] by (cases "data_chunks data") auto
  have send: "\<exists>w''. stream_send P urandom r env data w' = (w'', Inl CircuitDestroyed) \<and> sent_cells w'' = sent_cells w'"
    using over by (simp add: stream_send_def cs stream_consume_def stream_over_def window_blocked_def
        PackageWindow_consume_def)
  show ?thesis
    using unregister_registry [of ?sid "?f w2"] u over send
    by (simp add: recv_ready_def stream_over_def stream_close_def)
qed

theorem stream_close_is_final_witness:
  "\<exists>w'. stream_close toy_prims zeros 0 (toy_two_hops\<lparr>c_destroyed := True\<rparr>) = (w', Inr ())
    \<and> map_of (c_streams w') 1 = None
    \<and> (\<exists>w''. stream_send toy_prims zeros 0 id [1] w' = (w'', Inl CircuitDestroyed))"
proof -
  let ?w = "toy_two_hops\<lparr>c_destroyed := True\<rparr>"
  have h: "s_id (stream_heap ?w 0) = 1" "\<not> s_closed (stream_heap ?w 0)" "\<not> s_eof (stream_heap ?w 0)"
    by (simp_all add: toy_two_hops_def Stream_init_def)
  have e: "c_error toy_two_hops = None" by (simp add: toy_two_hops_def toy_circ_def Circuit_init_def)
  have idle: "\<not> c_close_when_idle (upd_stream 0 f ?w)" for f
    by (simp add: upd_stream_def toy_two_hops_def toy_circ_def Circuit_init_def)
  have i: "catches [CircuitError, ChannelError] CircuitDestroyed" by (simp add: catches_def isa.simps)
  obtain w' where c: "stream_close toy_prims zeros 0 ?w = (w', Inr ())"
    unfolding stream_close_eq if_not_P [OF h(2)] if_P [OF h(3)]
    using idle by (simp add: suppress_def send_relay_def closed_error_def e i Let_def unregister_stream_def
        upd_stream_def obind_def)
  show ?thesis
    using stream_close_is_final [OF h(2) c, of "[1]" id] c h(1) by auto
qed

text \<open>A stream that fails to open leaves no registration: whatever the reason, refusal, timeout, a lost
circuit or an error of the send itself, its id is free again when the error reaches the caller.\<close>

theorem failed_open_unregisters:
  assumes "\<not> c_destroyed w" and env: "\<And>v. s_id (stream_heap (env v) r) = s_id (stream_heap v r)"
    and fail: "stream_open P begin_cell r env w = (w', Inl e)"
  shows "map_of (c_streams w') (s_id (stream_heap w r)) = None"
proof -
  let ?sid = "s_id (stream_heap w r)"
  let ?w1 = "w\<lparr>c_streams := AList.update ?sid r (c_streams w)\<rparr>"
  let ?m = "obind (send_relay P begin_cell False id) (\<lambda>_. await_open r env)"
  obtain w2 res where m: "?m ?w1 = (w2, res)" by (cases "?m ?w1")
  have keep: "s_id (stream_heap (fst (await_open r env v)) r) = s_id (stream_heap v r)" for v
    by (simp add: await_open_def Let_def env split: option.splits)
  have "s_id (stream_heap (fst (?m ?w1)) r) = s_id (stream_heap ?w1 r)"
    by (rule obind_keeps [where I = "\<lambda>v. s_id (stream_heap v r) = s_id (stream_heap ?w1 r)"])
      (simp_all add: send_relay_plain_heap keep)
  then have sid: "s_id (stream_heap w2 r) = ?sid" using m by simp
  have o: "stream_open P begin_cell r env w = (case ?m ?w1 of (v, Inr u) \<Rightarrow> (v, Inr ())
      | (v, Inl e) \<Rightarrow> obind (unregister_stream (s_id (stream_heap v r))) (\<lambda>_. oraise e) v)"
    using assms(1) by (simp add: stream_open_def register_stream_def)
  have "w' = fst (unregister_stream ?sid w2)"
    using fail unfolding o m by (cases res) (auto simp: sid obind_def split: prod.splits sum.splits)
  then show ?thesis by (simp add: unregister_registry)
qed

theorem failed_open_unregisters_witness:
  "\<exists>w'. stream_connect_dir toy_prims zeros 0 id (toy_two_hops\<lparr>c_streams := []\<rparr>) = (w', Inl StreamConnectTimeout)
    \<and> map_of (c_streams w') 1 = None"
proof -
  let ?w = "toy_two_hops\<lparr>c_streams := []\<rparr>"
  let ?c = "RelayCell zeros (relay_num Relay_BEGIN_DIR) 1 []"
  let ?w1 = "?w\<lparr>c_streams := [(1, 0)]\<rparr>"
  have st: "stream_heap ?w 0 = Stream_init 1" by (simp add: toy_two_hops_def)
  have "sealable ?c" by (rule sealable_RelayCell) simp_all
  moreover have s: "sendable toy_prims zeros ?w1"
    using toy_two_hops_sendable by (simp add: sendable_def)
  ultimately obtain w2 where w2: "send_relay_cell toy_prims ?c False False ?w1 = (w2, Inr ())"
    using send_adds_one by blast
  have sh: "stream_heap w2 = stream_heap ?w1" "c_close_when_idle w2 = c_close_when_idle ?w1"
    using send_relay_cell_same(1) [where w = ?w1 and P = toy_prims and cell = ?c and early = False and count = False] w2
    by (simp_all add: same_registry_def)
  have idle: "\<not> c_close_when_idle w2"
    using sh(2) by (simp add: toy_two_hops_def toy_circ_def Circuit_init_def)
  have o: "stream_open toy_prims ?c 0 id ?w = (w2\<lparr>c_streams := AList.delete 1 (c_streams w2)\<rparr>, Inl StreamConnectTimeout)"
    using st sh(1) w2 idle
    by (simp add: stream_open_def register_stream_def toy_two_hops_sel send_relay_def Stream_init_def
        await_open_def open_ready_def Let_def unregister_stream_def obind_def)
  have "map_of (c_streams (w2\<lparr>c_streams := AList.delete 1 (c_streams w2)\<rparr>)) (s_id (stream_heap ?w 0)) = None"
    by (rule failed_open_unregisters [OF _ _ o]) (simp_all add: toy_two_hops_sel)
  then show ?thesis using o st by (simp add: stream_connect_dir_def Stream_init_def)
qed

end
