(* ===== verification/Link.thy ===== *)
theory Link
  imports CellLaws Certs Complex_Main
begin

text \<open>
  The link handshake (\<open>_net/link.py\<close>) over a transport: version negotiation, the validation of the
  CERTS chain against the TLS certificate, and the client's side of the exchange. The clock is the
  argument \<open>now\<close>. The loop that waits for NETINFO ends because every cell it reads takes bytes from
  the transport (\<open>read_cell_consumes\<close>).
\<close>

record link_info =
  li_link_version :: int
  li_relay_ed_identity :: bytes

definition negotiate_version :: "int list \<Rightarrow> int res" where
  "negotiate_version peer_versions =
    (let common = filter (\<lambda>v. v \<in> set SUPPORTED_LINK_VERSIONS) peer_versions in
     if common = [] then Inl ChannelError else Inr (Max (set common)))"

definition parse_link_cert :: "bytes \<Rightarrow> int \<Rightarrow> ed_cert res" where
  "parse_link_cert cert_bytes expected_type =
    rbind (rcatch (cert_parse cert_bytes) (catches [ValueError]) (\<lambda>_. Inl LinkAuthError)) (\<lambda>cert.
      if cert_type cert \<noteq> expected_type then Inl LinkAuthError else Inr cert)"

definition validate_certs :: "prims \<Rightarrow> certs_cell \<Rightarrow> bytes \<Rightarrow> real \<Rightarrow> bytes res" where
  "validate_certs P certs tls_digest now =
    (case (CertsCell_by_type certs (cert_type_num IDENTITY_V_SIGNING),
           CertsCell_by_type certs (cert_type_num SIGNING_V_TLS)) of
       (Some identity_bytes, Some tls_bytes) \<Rightarrow>
         rbind (parse_link_cert identity_bytes (cert_type_num IDENTITY_V_SIGNING)) (\<lambda>identity_cert.
         rbind (parse_link_cert tls_bytes (cert_type_num SIGNING_V_TLS)) (\<lambda>tls_cert.
         if cert_is_expired identity_cert now \<or> cert_is_expired tls_cert now then Inl LinkAuthError
         else if \<not> cert_verify_self_signed P identity_cert then Inl LinkAuthError
         else case cert_signing_key identity_cert of
           None \<Rightarrow> Inl LinkAuthError
         | Some relay_identity \<Rightarrow>
            if \<not> cert_verify P tls_cert (certified_key identity_cert) then Inl LinkAuthError
            else if certified_key tls_cert \<noteq> tls_digest then Inl LinkAuthError
            else Inr relay_identity))
     | _ \<Rightarrow> Inl LinkAuthError)"

section \<open>Every cell read takes bytes\<close>

context byte_source
begin

lemma recv_takes:
  "0 < n \<Longrightarrow> recv n s = (s', Inr d) \<Longrightarrow> length (avail s') + n = length (avail s)"
proof -
  assume n: "0 < n" and r: "recv n s = (s', Inr d)"
  then have "n \<le> length (avail s)" using recv_short [of s n] by (cases "length (avail s) < n") auto
  then show ?thesis using recv_ok [OF n, of s] r by auto
qed

lemma read_cell_takes:
  assumes "read_cell recv v s = (s', Inr c)"
  shows "length (avail s') < length (avail s)"
proof -
  let ?w = "circid_len v"
  from assms obtain s1 header where
    h: "recv (?w + 1) s = (s1, Inr header)"
    by (auto simp: read_cell_def Let_def obind_Inr_iff)
  have a: "length (avail s1) < length (avail s)" using recv_takes [of "?w + 1" s s1] h by auto
  have "length (avail s') \<le> length (avail s1)"
  proof (cases "is_variable_cell (uint (header ! ?w))")
    case False
    then show ?thesis using assms h
      by (auto simp: read_cell_def Let_def obind_Inr_iff byte_at_Inr_iff dest!: recv_takes [rotated])
  next
    case True
    with assms h obtain s2 lb where l: "recv 2 s1 = (s2, Inr lb)"
      and r: "be_int lb = 0 \<and> s2 = s' \<or> be_int lb \<noteq> 0 \<and> (\<exists>d. recv (nat (be_int lb)) s2 = (s', Inr d))"
      by (auto simp: read_cell_def Let_def obind_Inr_iff byte_at_Inr_iff unpack_Inr_iff split: if_splits)
    have "0 < nat (be_int lb)" if "be_int lb \<noteq> 0" using that be_int_nonneg [of lb] by linarith
    then show ?thesis using recv_takes [OF _ l] r by (auto dest!: recv_takes [rotated])
  qed
  with a show ?thesis by simp
qed

end

lemma read_cell_consumes:
  "read_cell recv_exact v t = (t', Inr c) \<Longrightarrow> length (transport_avail t') < length (transport_avail t)"
  by (rule tls.read_cell_takes)

section \<open>The exchange\<close>

text \<open>\<open>while netinfo is None\<close>; the result is the last CERTS cell seen.\<close>

function link_loop :: "int \<Rightarrow> certs_cell option \<Rightarrow> (transport, exc, certs_cell option) op" where
  "link_loop v certs t =
    (case read_cell recv_exact v t of
       (t', Inl e) \<Rightarrow> (t', Inl e)
     | (t', Inr cell) \<Rightarrow>
        if command cell = cell_num Cell_CERTS
        then (case CertsCell_from_raw cell of Inl e \<Rightarrow> (t', Inl e) | Inr cs \<Rightarrow> link_loop v (Some cs) t')
        else if command cell = cell_num Cell_NETINFO
        then (case NetInfoCell_from_raw cell of Inl e \<Rightarrow> (t', Inl e) | Inr _ \<Rightarrow> (t', Inr certs))
        else link_loop v certs t')"
  by pat_completeness auto
termination
  by (relation "measure (\<lambda>(v, certs, t). length (transport_avail t))") (auto dest: read_cell_consumes [OF sym])

declare link_loop.simps [simp del]

definition send_raw :: "raw_cell res \<Rightarrow> int \<Rightarrow> (transport, exc, unit) op" where
  "send_raw raw v = obind (olift (rbind raw (\<lambda>c. RawCell_pack c v))) transport_send"

definition do_link_handshake ::
  "prims \<Rightarrow> real \<Rightarrow> ip_addr option \<Rightarrow> bytes option \<Rightarrow> (transport, exc, link_info) op" where
  "do_link_handshake P now peer expected_identity =
    obind (send_raw (VersionsCell_to_raw SUPPORTED_LINK_VERSIONS) 2) (\<lambda>_.
    obind (read_cell recv_exact 2) (\<lambda>versions_raw.
    if command versions_raw \<noteq> cell_num Cell_VERSIONS then oraise ChannelError
    else
    obind (olift (negotiate_version (VersionsCell_from_raw versions_raw))) (\<lambda>v.
    obind (link_loop v None) (\<lambda>certs.
    (case certs of
       None \<Rightarrow> oraise LinkAuthError
     | Some cs \<Rightarrow>
        obind (\<lambda>t. (t, validate_certs P cs (tr_cert_digest t) now)) (\<lambda>relay_identity.
        if (\<exists>x. expected_identity = Some x \<and> relay_identity \<noteq> x) then oraise LinkAuthError
        else
        obind (send_raw (NetInfoCell_to_raw \<lparr>ni_timestamp = 0, ni_other = peer, ni_mine = []\<rparr> 0) v) (\<lambda>_.
        oreturn \<lparr>li_link_version = v, li_relay_ed_identity = relay_identity\<rparr>)))))))"

end
