(* ===== verification/LinkLaws.thy ===== *)
theory LinkLaws
  imports Link Crypto
begin

text \<open>
  What the link handshake guarantees: the certificate chain it accepts is exactly the one tor-spec
  asks for, nothing but VERSIONS is sent before the relay is authenticated, its failures are channel
  errors, and an honest relay is accepted.
\<close>

lemma negotiate_version_iff:
  "negotiate_version vs = Inr v \<longleftrightarrow>
     v \<in> set vs \<and> v \<in> {4, 5} \<and> (\<forall>u. u \<in> set vs \<and> u \<in> {4, 5} \<longrightarrow> u \<le> v)"
proof -
  let ?C = "{u \<in> set vs. u \<in> {4, 5}}"
  have C: "set (filter (\<lambda>v. v \<in> set SUPPORTED_LINK_VERSIONS) vs) = ?C" by auto
  have e: "filter (\<lambda>v. v \<in> set SUPPORTED_LINK_VERSIONS) vs = [] \<longleftrightarrow> ?C = {}"
    by (simp only: C [symmetric] set_empty)
  have fin: "finite ?C" by simp
  show ?thesis
    unfolding negotiate_version_def Let_def C e
    using Max_eq_iff [OF fin, of v] by (auto split: if_splits)
qed

lemma parse_link_cert_iff:
  "parse_link_cert b ty = Inr c \<longleftrightarrow> cert_parse b = Inr c \<and> cert_type c = ty"
  by (auto simp: parse_link_cert_def rcatch_Inr_iff)

lemma parse_link_cert_raises: "raises_only {LinkAuthError} (parse_link_cert b ty)"
  unfolding parse_link_cert_def using cert_parse_raises [of b]
  by (intro raises_intros raises_only_rcatch) (auto simp: raises_only_def)

text \<open>The handshake accepts a relay identity exactly when the CERTS chain proves it: both
certificates are there, well-formed, of the right types and unexpired, the identity certificate is
signed by the identity key it carries, the link certificate by the key that certifies, and the link
certificate binds the digest of the TLS certificate of this very connection.\<close>

theorem validate_certs_exact:
  "validate_certs P certs tls_digest now = Inr identity \<longleftrightarrow>
    (\<exists>ib tb ic tc.
        CertsCell_by_type certs (cert_type_num IDENTITY_V_SIGNING) = Some ib
      \<and> CertsCell_by_type certs (cert_type_num SIGNING_V_TLS) = Some tb
      \<and> cert_parse ib = Inr ic \<and> cert_type ic = cert_type_num IDENTITY_V_SIGNING
      \<and> cert_parse tb = Inr tc \<and> cert_type tc = cert_type_num SIGNING_V_TLS
      \<and> now < of_int (expiration_hours ic * 3600) \<and> now < of_int (expiration_hours tc * 3600)
      \<and> cert_signing_key ic = Some identity \<and> cert_verify P ic identity
      \<and> cert_verify P tc (certified_key ic) \<and> certified_key tc = tls_digest)"
proof -
  have "validate_certs P certs tls_digest now = Inr identity \<longleftrightarrow>
    (\<exists>ib tb ic tc.
        CertsCell_by_type certs (cert_type_num IDENTITY_V_SIGNING) = Some ib
      \<and> CertsCell_by_type certs (cert_type_num SIGNING_V_TLS) = Some tb
      \<and> parse_link_cert ib (cert_type_num IDENTITY_V_SIGNING) = Inr ic
      \<and> parse_link_cert tb (cert_type_num SIGNING_V_TLS) = Inr tc
      \<and> now < of_int (expiration_hours ic * 3600) \<and> now < of_int (expiration_hours tc * 3600)
      \<and> cert_signing_key ic = Some identity \<and> cert_verify P ic identity
      \<and> cert_verify P tc (certified_key ic) \<and> certified_key tc = tls_digest)"
    (is "?L \<longleftrightarrow> ?R")
  proof
    assume ?L
    then show ?R
      by (auto simp: validate_certs_def cert_is_expired_def cert_verify_self_signed_def not_le
          split: option.splits if_splits)
  next
    assume ?R
    then show ?L
      by (auto simp: validate_certs_def cert_is_expired_def cert_verify_self_signed_def not_le
          simp del: rbind_Inr_iff)
  qed
  then show ?thesis unfolding parse_link_cert_iff conj_assoc .
qed

lemma validate_certs_raises: "raises_only {LinkAuthError} (validate_certs P certs d now)"
  unfolding validate_certs_def prod.case
  by (intro raises_intros raises_only_mono [OF parse_link_cert_raises]) auto

section \<open>What the handshake sends and when\<close>

lemma recv_exact_keeps:
  "tr_sent (fst (recv_exact n t)) = tr_sent t" "tr_cert_digest (fst (recv_exact n t)) = tr_cert_digest t"
  "tr_send_fails (fst (recv_exact n t)) = tr_send_fails t"
  "tr_sock (fst (recv_exact n t)) = None \<longleftrightarrow> tr_sock t = None"
  "tr_open_fds (fst (recv_exact n t)) = tr_open_fds t"
  by (auto simp: recv_exact_def Let_def case_prod_beta split: option.splits)

definition same_wire :: "transport \<Rightarrow> transport \<Rightarrow> bool" where
  "same_wire t t' \<longleftrightarrow> tr_sent t' = tr_sent t \<and> tr_cert_digest t' = tr_cert_digest t
     \<and> tr_send_fails t' = tr_send_fails t \<and> (tr_sock t' = None \<longleftrightarrow> tr_sock t = None)
     \<and> tr_open_fds t' = tr_open_fds t"

lemma same_wire_refl [simp]: "same_wire t t"
  by (simp add: same_wire_def)

lemma same_wire_trans: "same_wire a b \<Longrightarrow> same_wire b c \<Longrightarrow> same_wire a c"
  by (simp add: same_wire_def)

lemma recv_exact_same: "same_wire t0 t \<Longrightarrow> same_wire t0 (fst (recv_exact n t))"
  by (simp add: same_wire_def recv_exact_keeps)

lemma read_cell_same: "same_wire t0 t \<Longrightarrow> same_wire t0 (fst (read_cell recv_exact v t))"
  unfolding read_cell_def Let_def
  by (intro obind_keeps [where I = "same_wire t0"] recv_exact_same)
    (auto intro!: obind_keeps [where I = "same_wire t0"] recv_exact_same)

lemma link_loop_same: "same_wire t0 t \<Longrightarrow> same_wire t0 (fst (link_loop v certs t))"
proof (induction v certs t rule: link_loop.induct)
  case (1 v certs t)
  have r: "same_wire t0 (fst (read_cell recv_exact v t))" by (rule read_cell_same [OF "1.prems"])
  obtain t' res where t': "read_cell recv_exact v t = (t', res)" by (cases "read_cell recv_exact v t")
  have w: "same_wire t0 t'" using r t' by simp
  show ?case
  proof (cases res)
    case (Inl e)
    then show ?thesis using w t' by (simp add: link_loop.simps [of v])
  next
    case (Inr cell)
    have rd: "(t', Inr cell) = read_cell recv_exact v t" using t' Inr by simp
    show ?thesis
    proof (cases "command cell = cell_num Cell_CERTS")
      case True
      show ?thesis
        using "1.IH"(1) [OF rd refl True _ w] w True
        by (cases "CertsCell_from_raw cell") (simp_all add: link_loop.simps [of v certs t] t' Inr)
    next
      case False
      show ?thesis
        using "1.IH"(2) [OF rd refl False _ w] w False
        by (cases "command cell = cell_num Cell_NETINFO"; cases "NetInfoCell_from_raw cell")
          (simp_all add: link_loop.simps [of v certs t] t' Inr)
    qed
  qed
qed

lemma transport_send_result:
  "transport_send d t = (t', Inr u) \<Longrightarrow> t' = t\<lparr>tr_sent := tr_sent t @ d\<rparr>"
  "transport_send d t = (t', Inl e) \<Longrightarrow> t' = t \<and> e = ChannelError"
  by (auto simp: transport_send_def split: option.splits if_splits)

definition versions_bytes :: bytes where
  "versions_bytes = frame 2 (raw_of 0 Cell_VERSIONS (be_enc 2 4 @ be_enc 2 5))"

definition netinfo_reply :: "ip_addr option \<Rightarrow> raw_cell" where
  "netinfo_reply peer = raw_of 0 Cell_NETINFO (be_enc 4 0 @ encode_optional_address peer @ be_enc 1 0)"

lemma versions_raw: "VersionsCell_to_raw SUPPORTED_LINK_VERSIONS = Inr (raw_of 0 Cell_VERSIONS (be_enc 2 4 @ be_enc 2 5))"
  by (simp add: VersionsCell_to_raw_def)

lemma versions_packed: "RawCell_pack (raw_of 0 Cell_VERSIONS (be_enc 2 4 @ be_enc 2 5)) 2 = Inr versions_bytes"
  unfolding versions_bytes_def
  by (rule RawCell_pack_frame) (simp add: frameable_def circid_len_def is_variable_cell_def)

lemma netinfo_raw:
  "NetInfoCell_to_raw \<lparr>ni_timestamp = 0, ni_other = peer, ni_mine = []\<rparr> 0 = Inr (netinfo_reply peer)"
  by (simp add: NetInfoCell_to_raw_def netinfo_reply_def)

lemma netinfo_frameable:
  assumes "opt_ip_wf peer" "v \<in> {4, 5}"
  shows "frameable v (netinfo_reply peer)"
proof -
  have "length (encode_optional_address peer) \<le> 18"
    using assms(1) by (cases peer rule: opt_ip_wf.cases) (auto elim: ip_wf.elims)
  then show ?thesis
    using assms(2) by (auto simp: frameable_def netinfo_reply_def is_variable_cell_def circid_len_def)
qed

lemma send_raw_Inr: "send_raw (Inr c) v t = (case RawCell_pack c v of
    Inl e \<Rightarrow> (t, Inl e) | Inr d \<Rightarrow> transport_send d t)"
  by (simp add: send_raw_def obind_def split: sum.splits)

lemma link_loop_raises: "raises_only {ChannelError} (snd (link_loop v certs t))"
proof (induction v certs t rule: link_loop.induct)
  case (1 v certs t)
  obtain t' res where t': "read_cell recv_exact v t = (t', res)" by (cases "read_cell recv_exact v t")
  show ?case
  proof (cases res)
    case (Inl e)
    then show ?thesis using tls.read_cell_raises [of v t] t' by (simp add: link_loop.simps [of v] raises_only_def)
  next
    case (Inr cell)
    have rd: "(t', Inr cell) = read_cell recv_exact v t" using t' Inr by simp
    show ?thesis
    proof (cases "command cell = cell_num Cell_CERTS")
      case True
      show ?thesis
        using "1.IH"(1) [OF rd refl True] True CertsCell_from_raw_raises [of cell]
        by (cases "CertsCell_from_raw cell")
          (simp_all add: link_loop.simps [of v certs t] t' Inr raises_only_def)
    next
      case False
      show ?thesis
        using "1.IH"(2) [OF rd refl False] False NetInfoCell_from_raw_raises [of cell]
        by (cases "command cell = cell_num Cell_NETINFO"; cases "NetInfoCell_from_raw cell")
          (simp_all add: link_loop.simps [of v certs t] t' Inr raises_only_def)
    qed
  qed
qed

text \<open>What the handshake does once the version and the certificates are there.\<close>

abbreviation authenticate where
  "authenticate P now peer expected v certs \<equiv>
    (case certs of
       None \<Rightarrow> oraise LinkAuthError
     | Some cs \<Rightarrow>
        obind (\<lambda>t. (t, validate_certs P cs (tr_cert_digest t) now)) (\<lambda>relay_identity.
        if \<exists>x. expected = Some x \<and> relay_identity \<noteq> x then oraise LinkAuthError
        else
        obind (send_raw (NetInfoCell_to_raw \<lparr>ni_timestamp = 0, ni_other = peer, ni_mine = []\<rparr> 0) v) (\<lambda>_.
        oreturn \<lparr>li_link_version = v, li_relay_ed_identity = relay_identity\<rparr>)))"

abbreviation outcome_ok where
  "outcome_ok P now peer expected digest sent t' res \<equiv>
    (case res of
       Inr info \<Rightarrow>
         (\<exists>certs. validate_certs P certs digest now = Inr (li_relay_ed_identity info))
         \<and> (expected = None \<or> expected = Some (li_relay_ed_identity info))
         \<and> li_link_version info \<in> {4, 5}
         \<and> tr_sent t' = sent @ frame (li_link_version info) (netinfo_reply peer)
     | Inl e \<Rightarrow> e \<in> {ChannelError, LinkAuthError} \<and> tr_sent t' = sent)"

lemma authenticate_outcome:
  assumes peer: "opt_ip_wf peer" and v: "v \<in> {4, 5}"
    and run: "authenticate P now peer expected v certs t = (t', res)"
  shows "outcome_ok P now peer expected (tr_cert_digest t) (tr_sent t) t' res"
proof (cases certs)
  case None
  then show ?thesis using run by auto
next
  case (Some cs)
  show ?thesis
  proof (cases "validate_certs P cs (tr_cert_digest t) now")
    case (Inl e)
    then show ?thesis using run validate_certs_raises [of P cs "tr_cert_digest t" now]
      by (auto simp: Some raises_only_def obind_def)
  next
    case (Inr rid)
    show ?thesis
      using run v netinfo_frameable [OF peer v] Inr
      by (cases expected)
        (auto simp: Some netinfo_raw send_raw_Inr RawCell_pack_frame obind_def
          split: if_splits prod.splits sum.splits dest!: transport_send_result)
  qed
qed

text \<open>From the answer to our VERSIONS on.\<close>

lemma negotiated_outcome:
  assumes peer: "opt_ip_wf peer"
    and run: "obind (olift (negotiate_version (VersionsCell_from_raw raw))) (\<lambda>v.
      obind (link_loop v None) (\<lambda>certs. authenticate P now peer expected v certs)) t = (t', res)"
  shows "outcome_ok P now peer expected (tr_cert_digest t) (tr_sent t) t' res"
  using run
proof (cases rule: obind_cases)
  case (first e)
  then show ?thesis by (auto simp: negotiate_version_def Let_def split: if_splits)
next
  case (second t2 v)
  then have v: "v \<in> {4, 5}" "t2 = t" by (auto simp: negotiate_version_iff)
  have same: "same_wire t t" by (simp add: same_wire_def)
  from second(2) show ?thesis
  proof (cases rule: obind_cases)
    case (first e)
    then show ?thesis using link_loop_same [OF same, of v None] link_loop_raises [of v None t] v(2)
      by (auto simp: same_wire_def raises_only_def)
  next
    case (second t3 certs)
    have t3: "tr_sent t3 = tr_sent t" "tr_cert_digest t3 = tr_cert_digest t"
      using link_loop_same [OF same, of v None] second(1) v(2) by (simp_all add: same_wire_def)
    show ?thesis using authenticate_outcome [OF peer v(1) second(2)] unfolding t3 .
  qed
qed

lemma handshake_outcome:
  assumes peer: "opt_ip_wf peer" and run: "do_link_handshake P now peer expected t = (t', res)"
  shows "case res of
      Inr info \<Rightarrow>
        (\<exists>certs. validate_certs P certs (tr_cert_digest t) now = Inr (li_relay_ed_identity info))
        \<and> (expected = None \<or> expected = Some (li_relay_ed_identity info))
        \<and> li_link_version info \<in> {4, 5}
        \<and> tr_sent t' = tr_sent t @ versions_bytes @ frame (li_link_version info) (netinfo_reply peer)
    | Inl e \<Rightarrow> e \<in> {ChannelError, LinkAuthError}
        \<and> (tr_sent t' = tr_sent t \<or> tr_sent t' = tr_sent t @ versions_bytes)"
  using run unfolding do_link_handshake_def versions_raw
proof (cases rule: obind_cases)
  case (first e)
  then show ?thesis
    by (auto simp: send_raw_Inr versions_packed dest!: transport_send_result(2))
next
  case (second t1 u)
  have t1: "t1 = t\<lparr>tr_sent := tr_sent t @ versions_bytes\<rparr>"
    using second(1) by (auto simp: send_raw_Inr versions_packed dest!: transport_send_result(1))
  from second(2) show ?thesis
  proof (cases rule: obind_cases)
    case (first e)
    then show ?thesis
      using read_cell_same [of t1 t1 2] tls.read_cell_raises [of 2 t1] by (simp add: same_wire_def t1 raises_only_def)
  next
    case (second t2 raw)
    have t2: "tr_sent t2 = tr_sent t @ versions_bytes" "tr_cert_digest t2 = tr_cert_digest t"
      using read_cell_same [of t1 t1 2] second(1) by (simp_all add: same_wire_def t1)
    show ?thesis
    proof (cases "command raw = cell_num Cell_VERSIONS")
      case False
      then show ?thesis using second(2) t2 by auto
    next
      case True
      then have "obind (olift (negotiate_version (VersionsCell_from_raw raw))) (\<lambda>v.
          obind (link_loop v None) (\<lambda>certs. authenticate P now peer expected v certs)) t2 = (t', res)"
        using second(2) by simp
      from negotiated_outcome [OF peer this, unfolded t2] show ?thesis by (auto split: sum.splits)
    qed
  qed
qed

text \<open>C11: the client reveals nothing before it has authenticated the relay. A handshake that succeeds has
validated a CERTS chain against this connection's TLS certificate for the identity it returns, which is
the expected one if there was one, at the highest common link version; exactly VERSIONS and then its
NETINFO were sent. A handshake that fails has sent at most VERSIONS, and failed with a channel error.\<close>

theorem handshake_authenticates_before_replying:
  assumes peer: "opt_ip_wf peer" and run: "do_link_handshake P now peer expected t = (t', res)"
  shows "case res of
      Inr info \<Rightarrow>
        (\<exists>certs. validate_certs P certs (tr_cert_digest t) now = Inr (li_relay_ed_identity info))
        \<and> (expected = None \<or> expected = Some (li_relay_ed_identity info))
        \<and> li_link_version info \<in> {4, 5}
        \<and> tr_sent t' = tr_sent t @ versions_bytes @ frame (li_link_version info) (netinfo_reply peer)
    | Inl e \<Rightarrow> e \<in> {ChannelError, LinkAuthError}
        \<and> (tr_sent t' = tr_sent t \<or> tr_sent t' = tr_sent t @ versions_bytes)"
  using peer run by (rule handshake_outcome)

section \<open>An honest relay is accepted\<close>

definition ignored_cell :: "raw_cell \<Rightarrow> bool" where
  "ignored_cell c \<longleftrightarrow> command c \<noteq> cell_num Cell_CERTS \<and> command c \<noteq> cell_num Cell_NETINFO"

lemma on_wire_sel [simp]: "command (on_wire c) = command c" "circ_id (on_wire c) = circ_id c"
  by (simp_all add: on_wire_def)

lemma on_wire_payload: "\<exists>pad. payload (on_wire c) = payload c @ pad"
  by (auto simp: on_wire_def ljust0_def)

lemma link_loop_step:
  assumes "frameable v c" "transport_avail t = frame v c @ rest"
  obtains t' where "read_cell recv_exact v t = (t', Inr (on_wire c))" "transport_avail t' = rest"
    "same_wire t t'"
  using tls.read_cell_frame [OF assms] read_cell_same [OF same_wire_refl, of t v] by auto

lemma link_loop_ignores:
  "list_all (frameable v) cs \<Longrightarrow> list_all ignored_cell cs \<Longrightarrow>
    transport_avail t = concat (map (frame v) cs) @ rest \<Longrightarrow>
    \<exists>t'. link_loop v certs t = link_loop v certs t' \<and> transport_avail t' = rest \<and> same_wire t t'"
proof (induction cs arbitrary: t)
  case Nil
  then show ?case by auto
next
  case (Cons c cs)
  obtain t1 where t1: "read_cell recv_exact v t = (t1, Inr (on_wire c))"
    "transport_avail t1 = concat (map (frame v) cs) @ rest" "same_wire t t1"
    using link_loop_step [of v c t "concat (map (frame v) cs) @ rest"] Cons.prems by auto
  have "link_loop v certs t = link_loop v certs t1"
    using Cons.prems(2) by (subst link_loop.simps) (simp add: t1 ignored_cell_def)
  with Cons.IH [of t1] Cons.prems t1 show ?case by (auto intro: same_wire_trans)
qed

lemma transport_send_ok:
  "tr_sock t \<noteq> None \<Longrightarrow> \<not> tr_send_fails t \<Longrightarrow>
    transport_send d t = (t\<lparr>tr_sent := tr_sent t @ d\<rparr>, Inr ())"
  by (auto simp: transport_send_def)

lemma transport_avail_sent [simp]: "transport_avail (t\<lparr>tr_sent := d\<rparr>) = transport_avail t"
  by (simp add: transport_avail_def)

text \<open>An honest relay is accepted: over a working connection, however the network splits its bytes,
the handshake succeeds at the highest common version for a relay that sends VERSIONS, a provable CERTS
chain and NETINFO, with any other cells among them, and leaves everything after NETINFO unread.\<close>

theorem honest_relay_is_accepted:
  assumes peer: "opt_ip_wf peer" and conn: "tr_sock t \<noteq> None" "\<not> tr_send_fails t"
    and vers: "VersionsCell_to_raw vs = Inr vraw" "2 * length vs \<le> 65535" "negotiate_version vs = Inr v"
    and others: "list_all (frameable v) (others1 @ others2)" "list_all ignored_cell (others1 @ others2)"
    and certs: "CertsCell_to_raw cs cid = Inr craw" "frameable v craw"
    and netinfo: "NetInfoCell_to_raw n cid' = Inr nraw" "frameable v nraw"
      "opt_ip_wf (ni_other n)" "list_all ip_wf (ni_mine n)"
    and avail: "transport_avail t
      = frame 2 vraw @ concat (map (frame v) (others1 @ [craw] @ others2 @ [nraw])) @ rest"
    and chain: "validate_certs P cs (tr_cert_digest t) now = Inr identity"
    and expected: "expected = None \<or> expected = Some identity"
  shows "\<exists>t'. do_link_handshake P now peer expected t
      = (t', Inr \<lparr>li_link_version = v, li_relay_ed_identity = identity\<rparr>) \<and> transport_avail t' = rest"
proof -
  have v: "v \<in> {4, 5}" using vers(3) by (simp add: negotiate_version_iff)
  obtain bss where bss: "rmap pack_H vs = Inr bss" and vr: "vraw = raw_of 0 Cell_VERSIONS (concat bss)"
    using vers(1) by (auto simp: VersionsCell_to_raw_def)
  have fv: "frameable 2 vraw"
    using unpack_Hs_pack [OF bss] vers(2) by (simp add: vr frameable_def is_variable_cell_def circid_len_def)
  let ?t1 = "t\<lparr>tr_sent := tr_sent t @ versions_bytes\<rparr>"
  let ?c3 = "concat (map (frame v) others2) @ frame v nraw @ rest"
  let ?c1 = "concat (map (frame v) others1) @ frame v craw @ ?c3"
  have s1: "send_raw (VersionsCell_to_raw SUPPORTED_LINK_VERSIONS) 2 t = (?t1, Inr ())"
    unfolding versions_raw send_raw_Inr versions_packed sum.case by (rule transport_send_ok [OF conn])
  have "transport_avail ?t1 = frame 2 vraw @ ?c1" using avail by simp
  then obtain t2 where t2: "read_cell recv_exact 2 ?t1 = (t2, Inr (on_wire vraw))" "transport_avail t2 = ?c1"
    "same_wire ?t1 t2" by (rule link_loop_step [OF fv])
  have ow: "on_wire vraw = vraw" by (simp add: vr on_wire_def is_variable_cell_def)
  have vs: "VersionsCell_from_raw vraw = vs" by (rule VersionsCell_roundtrip [OF vers(1)])
  obtain t3 where t3: "link_loop v None t2 = link_loop v None t3" "transport_avail t3 = frame v craw @ ?c3"
    "same_wire t2 t3" using link_loop_ignores [of v others1 t2 _ None] others t2(2) by auto
  obtain t4 where t4: "read_cell recv_exact v t3 = (t4, Inr (on_wire craw))" "transport_avail t4 = ?c3"
    "same_wire t3 t4" by (rule link_loop_step [OF certs(2) t3(2)])
  have pc: "CertsCell_from_raw (on_wire craw) = Inr cs"
    using on_wire_payload [of craw] CertsCell_parses_back [OF certs(1)] by blast
  have cc: "command craw = cell_num Cell_CERTS" using certs(1) by (auto simp: CertsCell_to_raw_def)
  have l3: "link_loop v None t3 = link_loop v (Some cs) t4"
    by (subst link_loop.simps) (simp add: t4 pc cc)
  obtain t5 where t5: "link_loop v (Some cs) t4 = link_loop v (Some cs) t5" "transport_avail t5 = frame v nraw @ rest"
    "same_wire t4 t5" using link_loop_ignores [of v others2 t4 _ "Some cs"] others t4(2) by auto
  obtain t6 where t6: "read_cell recv_exact v t5 = (t6, Inr (on_wire nraw))" "transport_avail t6 = rest"
    "same_wire t5 t6" by (rule link_loop_step [OF netinfo(2) t5(2)])
  have pn: "NetInfoCell_from_raw (on_wire nraw) = Inr n"
    using on_wire_payload [of nraw] NetInfoCell_parses_back [OF netinfo(1,3,4)] by blast
  have nc: "command nraw = cell_num Cell_NETINFO" using netinfo(1) by (auto simp: NetInfoCell_to_raw_def)
  have l5: "link_loop v (Some cs) t5 = (t6, Inr (Some cs))"
    by (subst link_loop.simps) (simp add: t6 pn nc)
  have loop: "link_loop v None t2 = (t6, Inr (Some cs))" using t3(1) l3 t5(1) l5 by simp
  have w6: "same_wire ?t1 t6"
    using t2(3) t3(3) t4(3) t5(3) t6(3) by (blast intro: same_wire_trans)
  then have c6: "tr_sock t6 \<noteq> None" "\<not> tr_send_fails t6" "tr_cert_digest t6 = tr_cert_digest t"
    using conn by (simp_all add: same_wire_def)
  have s6: "send_raw (NetInfoCell_to_raw \<lparr>ni_timestamp = 0, ni_other = peer, ni_mine = []\<rparr> 0) v t6
      = (t6\<lparr>tr_sent := tr_sent t6 @ frame v (netinfo_reply peer)\<rparr>, Inr ())"
    unfolding netinfo_raw send_raw_Inr RawCell_pack_frame [OF netinfo_frameable [OF peer v]] sum.case
    by (rule transport_send_ok [OF c6(1,2)])
  have vc: "command vraw = cell_num Cell_VERSIONS" by (simp add: vr)
  have ne: "\<not> (\<exists>x. expected = Some x \<and> identity \<noteq> x)" using expected by auto
  show ?thesis
    unfolding do_link_handshake_def using s1 t2(1) vers(3) loop chain c6(3) s6 t6(2) ne
    by (simp add: ow vs vc)
qed


section \<open>Concrete runs\<close>

theorem handshake_authenticates_before_replying_witness:
  "case snd (do_link_handshake toy_prims 0 None None
      \<lparr>tr_sock = Some [Chunk [0, 0]], tr_send_fails = False, tr_sent = [], tr_cert_digest = [], tr_open_fds = 1\<rparr>) of
      Inr info \<Rightarrow> (\<exists>certs. validate_certs toy_prims certs [] 0 = Inr (li_relay_ed_identity info))
    | Inl e \<Rightarrow> e \<in> {ChannelError, LinkAuthError}"
proof -
  let ?t = "\<lparr>tr_sock = Some [Chunk [0, 0]], tr_send_fails = False, tr_sent = [], tr_cert_digest = [], tr_open_fds = 1\<rparr>"
  obtain t' res where run: "do_link_handshake toy_prims 0 None None ?t = (t', res)"
    by (cases "do_link_handshake toy_prims 0 None None ?t")
  from handshake_authenticates_before_replying [OF _ run] run show ?thesis
    by (cases res) auto
qed

definition toy_identity_cert :: ed_cert where
  "toy_identity_cert = \<lparr>cert_version = 1, cert_type = 4, expiration_hours = 1, cert_key_type = 1,
     certified_key = replicate 32 2, extensions = [\<lparr>ext_type = 4, ext_flags = 0, ext_data = replicate 32 7\<rparr>],
     cert_signature = zeros 64,
     signed_body = [1, 4, 0, 0, 0, 1, 1] @ replicate 32 2 @ [1, 0, 32, 4, 0] @ replicate 32 7\<rparr>"

definition toy_link_cert :: ed_cert where
  "toy_link_cert = \<lparr>cert_version = 1, cert_type = 5, expiration_hours = 1, cert_key_type = 3,
     certified_key = replicate 32 9, extensions = [], cert_signature = zeros 64,
     signed_body = [1, 5, 0, 0, 0, 1, 3] @ replicate 32 9 @ [0]\<rparr>"

definition toy_certs :: certs_cell where
  "toy_certs = [(4, signed_body toy_identity_cert @ zeros 64), (5, signed_body toy_link_cert @ zeros 64)]"

lemma toy_certs_parse:
  "cert_parse (signed_body toy_identity_cert @ zeros 64) = Inr toy_identity_cert"
  "cert_parse (signed_body toy_link_cert @ zeros 64) = Inr toy_link_cert"
  using cert_parse_complete [of toy_identity_cert "[]"] cert_parse_complete [of toy_link_cert "[]"]
  by (simp_all add: toy_identity_cert_def toy_link_cert_def cert_wf_def cert_ext_wf_def
      cert_body_bytes_def cert_ext_bytes_def be_enc_unfold)

lemma toy_certs_validate: "validate_certs toy_prims toy_certs (replicate 32 9) 0 = Inr (replicate 32 7)"
proof -
  have p: "parse_link_cert (signed_body toy_identity_cert @ zeros 64) 4 = Inr toy_identity_cert"
    "parse_link_cert (signed_body toy_link_cert @ zeros 64) 5 = Inr toy_link_cert"
    unfolding parse_link_cert_iff by (simp_all add: toy_certs_parse) (simp_all add: toy_identity_cert_def toy_link_cert_def)
  have k: "cert_signing_key toy_identity_cert = Some (replicate 32 7)"
    "certified_key toy_link_cert = replicate 32 9"
    "expiration_hours toy_identity_cert = 1" "expiration_hours toy_link_cert = 1"
    by (simp_all add: cert_signing_key_def toy_identity_cert_def toy_link_cert_def)
  show ?thesis
    by (simp add: validate_certs_def toy_certs_def CertsCell_by_type_def p k cert_is_expired_def
        cert_verify_self_signed_def cert_verify_def ed25519_verify_def toy_prims_def)
qed

theorem honest_relay_is_accepted_witness:
  "\<exists>t'. do_link_handshake toy_prims 0 None (Some (replicate 32 7))
      \<lparr>tr_sock = Some [Chunk (frame 2 (raw_of 0 Cell_VERSIONS [0, 3, 0, 4])
          @ concat (map (frame 4) ([raw_of 0 Cell_PADDING []]
              @ [raw_of 0 Cell_CERTS ([2] @ concat (map cert_entry_bytes toy_certs))] @ []
              @ [raw_of 0 Cell_NETINFO [0, 0, 1, 0, 0, 0, 0]])) @ [1, 2])],
        tr_send_fails = False, tr_sent = [], tr_cert_digest = replicate 32 9, tr_open_fds = 1\<rparr>
      = (t', Inr \<lparr>li_link_version = 4, li_relay_ed_identity = replicate 32 7\<rparr>) \<and> transport_avail t' = [1, 2]"
proof (rule honest_relay_is_accepted [where vs = "[3, 4]" and cs = toy_certs and cid = 0 and cid' = 0
    and n = "\<lparr>ni_timestamp = 256, ni_other = None, ni_mine = []\<rparr>"])
  have wf: "list_all cert_entry_wf toy_certs" "length toy_certs = 2"
    by (simp_all add: toy_certs_def cert_entry_wf_def toy_identity_cert_def toy_link_cert_def)
  then have es: "rmap cert_entry toy_certs = Inr (map cert_entry_bytes toy_certs)"
    by (simp add: rmap_cert_entry_iff)
  show "CertsCell_to_raw toy_certs 0 = Inr (raw_of 0 Cell_CERTS ([2] @ concat (map cert_entry_bytes toy_certs)))"
    using wf by (simp add: CertsCell_to_raw_def es be_enc_1)
  show "frameable 4 (raw_of 0 Cell_CERTS ([2] @ concat (map cert_entry_bytes toy_certs)))"
    by (simp add: frameable_def raw_of_def is_variable_cell_def toy_certs_def cert_entry_bytes_def
        toy_identity_cert_def toy_link_cert_def)
  show "VersionsCell_to_raw [3, 4] = Inr (raw_of 0 Cell_VERSIONS [0, 3, 0, 4])"
    by (simp add: VersionsCell_to_raw_def be_enc_unfold)
  show "negotiate_version [3, 4] = Inr 4"
    by (simp add: negotiate_version_def)
  show "list_all (frameable 4) ([raw_of 0 Cell_PADDING []] @ [])"
    by (simp add: frameable_def is_variable_cell_def)
  show "list_all ignored_cell ([raw_of 0 Cell_PADDING []] @ [])"
    by (simp add: ignored_cell_def)
  show "NetInfoCell_to_raw \<lparr>ni_timestamp = 256, ni_other = None, ni_mine = []\<rparr> 0
      = Inr (raw_of 0 Cell_NETINFO [0, 0, 1, 0, 0, 0, 0])"
    by (simp add: NetInfoCell_to_raw_def be_enc_unfold)
  show "frameable 4 (raw_of 0 Cell_NETINFO [0, 0, 1, 0, 0, 0, 0])"
    by (simp add: frameable_def is_variable_cell_def)
  show "validate_certs toy_prims toy_certs (tr_cert_digest
     \<lparr>tr_sock = Some [Chunk (frame 2 (raw_of 0 Cell_VERSIONS [0, 3, 0, 4])
          @ concat (map (frame 4) ([raw_of 0 Cell_PADDING []]
              @ [raw_of 0 Cell_CERTS ([2] @ concat (map cert_entry_bytes toy_certs))] @ []
              @ [raw_of 0 Cell_NETINFO [0, 0, 1, 0, 0, 0, 0]])) @ [1, 2])],
        tr_send_fails = False, tr_sent = [], tr_cert_digest = replicate 32 9, tr_open_fds = 1\<rparr>) 0
     = Inr (replicate 32 7)"
    by (simp add: toy_certs_validate)
qed (auto simp: transport_avail_def frame_def be_enc_1)

end
