(* ===== verification/Channel.thy ===== *)
theory Channel
  imports Link Circuit "HOL-Library.AList"
begin

text \<open>
  The channel (\<open>_net/channel.py\<close>) and the interface of what it delivers to (\<open>_net/sink.py\<close>): circuit
  ids, the registry of sinks, sending under the closing check, the receiver thread and its shutdown.
  A sink is a reference; \<open>ch_world\<close> holds the objects the references denote, so the channel does not
  know what a circuit is, as in the code. The interface is the locale \<open>cell_sinks\<close>; circuits provide it.

  The receive loop is a partial function, since nothing but its sinks and the socket makes it end;
  \<open>None\<close> is a loop that never returns, and that it does return is proved from the interface. What the
  other threads do while the receiver is blocked in a read is a list of operations per read.
\<close>

record 'w channel =
  ch_transport :: transport
  ch_link_version :: int
  ch_relay_identity :: bytes
  ch_sinks :: "(int \<times> nat) list"
  ch_closing :: bool
  ch_next_circ_id :: int
  ch_world :: 'w

definition Channel_init :: "transport \<Rightarrow> int \<Rightarrow> bytes \<Rightarrow> 'w \<Rightarrow> 'w channel" where
  "Channel_init t v identity world =
     \<lparr>ch_transport = t, ch_link_version = v, ch_relay_identity = identity, ch_sinks = [],
      ch_closing = False, ch_next_circ_id = 0, ch_world = world\<rparr>"

text \<open>\<open>Channel.open\<close>; the \<open>except BaseException\<close> clause closes the transport on any failure.\<close>

definition channel_open ::
  "prims \<Rightarrow> real \<Rightarrow> ip_addr option \<Rightarrow> bytes option \<Rightarrow> connect_env \<Rightarrow> 'w \<Rightarrow> (transport, exc, 'w channel) op" where
  "channel_open P now peer expected env world =
    obind (tls_connect (hash P SHA256) env) (\<lambda>_ t.
      case do_link_handshake P now peer expected t of
        (t', Inl e) \<Rightarrow> (transport_close t', Inl e)
      | (t', Inr info) \<Rightarrow>
         (t', Inr (Channel_init t' (li_link_version info) (li_relay_ed_identity info) world)))"

section \<open>The registry\<close>

fun circuit_id_loop :: "nat \<Rightarrow> 'w channel \<Rightarrow> ('w channel \<times> int res)" where
  "circuit_id_loop 0 ch = (ch, Inl ChannelError)"
| "circuit_id_loop (Suc n) ch =
    (let next_id = (ch_next_circ_id ch + 1) mod 0x80000000;
         ch1 = ch\<lparr>ch_next_circ_id := next_id\<rparr>;
         circ = next_id + CIRCID_MSB
     in if map_of (ch_sinks ch1) circ = None then (ch1, Inr circ) else circuit_id_loop n ch1)"

definition new_circuit_id :: "('w channel, exc, int) op" where
  "new_circuit_id = circuit_id_loop 0x7FFFFFFF"

definition channel_register :: "int \<Rightarrow> nat \<Rightarrow> ('w channel, exc, unit) op" where
  "channel_register circ sink ch =
    (if ch_closing ch then (ch, Inl ChannelError)
     else if map_of (ch_sinks ch) circ \<noteq> None then (ch, Inl ChannelError)
     else (ch\<lparr>ch_sinks := AList.update circ sink (ch_sinks ch)\<rparr>, Inr ()))"

definition channel_unregister :: "int \<Rightarrow> 'w channel \<Rightarrow> 'w channel" where
  "channel_unregister circ ch = ch\<lparr>ch_sinks := AList.delete circ (ch_sinks ch)\<rparr>"

section \<open>Sending\<close>

definition channel_send_cell :: "raw_cell \<Rightarrow> ('w channel, exc, unit) op" where
  "channel_send_cell cell ch =
    (case RawCell_pack cell (ch_link_version ch) of
       Inl e \<Rightarrow> (ch, Inl e)
     | Inr data \<Rightarrow>
        if ch_closing ch then (ch, Inl ChannelError)
        else let (t, r) = transport_send data (ch_transport ch) in (ch\<lparr>ch_transport := t\<rparr>, r))"

section \<open>Receiving\<close>

text \<open>\<open>CellSink\<close>: the two methods the channel calls on a sink.\<close>

record 'w cell_sink =
  sink_handle_cell :: "nat \<Rightarrow> raw_cell \<Rightarrow> ('w channel, exc, unit) op"
  sink_on_channel_closed :: "nat \<Rightarrow> exc option \<Rightarrow> 'w channel \<Rightarrow> 'w channel"

definition dispatch :: "'w cell_sink \<Rightarrow> raw_cell \<Rightarrow> ('w channel, exc, unit) op" where
  "dispatch S cell ch =
    (if command cell = cell_num Cell_PADDING \<or> command cell = cell_num Cell_VPADDING then (ch, Inr ())
     else case map_of (ch_sinks ch) (circ_id cell) of
            Some sink \<Rightarrow> sink_handle_cell S sink cell ch
          | None \<Rightarrow> (ch, Inr ()))"

definition shutdown :: "'w cell_sink \<Rightarrow> exc option \<Rightarrow> 'w channel \<Rightarrow> 'w channel" where
  "shutdown S error ch =
     fold (\<lambda>sink. sink_on_channel_closed S sink error) (map snd (ch_sinks ch))
       (ch\<lparr>ch_sinks := [], ch_closing := True\<rparr>)"

definition channel_close :: "'w channel \<Rightarrow> 'w channel" where
  "channel_close ch = ch\<lparr>ch_closing := True, ch_transport := transport_close (ch_transport ch)\<rparr>"

text \<open>What other threads do to the channel, and to the objects behind its sinks.\<close>

datatype 'w chan_op =
    ChNewId | ChRegister int nat | ChUnregister int | ChSend raw_cell | ChClose | ChWorld "'w \<Rightarrow> 'w"

fun chan_do :: "'w chan_op \<Rightarrow> 'w channel \<Rightarrow> 'w channel" where
  "chan_do ChNewId ch = fst (new_circuit_id ch)"
| "chan_do (ChRegister circ sink) ch = fst (channel_register circ sink ch)"
| "chan_do (ChUnregister circ) ch = channel_unregister circ ch"
| "chan_do (ChSend cell) ch = fst (channel_send_cell cell ch)"
| "chan_do ChClose ch = channel_close ch"
| "chan_do (ChWorld f) ch = ch\<lparr>ch_world := f (ch_world ch)\<rparr>"

definition channel_read :: "'w chan_op list \<Rightarrow> ('w channel, exc, raw_cell) op" where
  "channel_read meanwhile ch0 =
    (let ch = fold chan_do meanwhile ch0;
         (t, r) = read_cell recv_exact (ch_link_version ch) (ch_transport ch)
     in (ch\<lparr>ch_transport := t\<rparr>, r))"

partial_function (option) receive_loop ::
  "'w cell_sink \<Rightarrow> 'w chan_op list list \<Rightarrow> 'w channel \<Rightarrow> ('w channel \<times> exc option) option" where
  "receive_loop S envs ch =
    (if ch_closing ch then Some (ch, None)
     else case channel_read (case envs of [] \<Rightarrow> [] | ops # _ \<Rightarrow> ops) ch of
         (ch1, Inl e) \<Rightarrow> Some (ch1, Some e)
       | (ch1, Inr cell) \<Rightarrow>
          (case dispatch S cell ch1 of
             (ch2, Inl e) \<Rightarrow> Some (ch2, Some e)
           | (ch2, Inr _) \<Rightarrow> receive_loop S (tl envs) ch2))"

text \<open>The receiver thread: the loop, then the \<open>except\<close> and \<open>finally\<close> clauses.\<close>

definition receiver :: "'w cell_sink \<Rightarrow> 'w chan_op list list \<Rightarrow> 'w channel \<Rightarrow> 'w channel option" where
  "receiver S envs ch =
    map_option (\<lambda>(ch', exc). shutdown S (if ch_closing ch' then None else exc) ch') (receive_loop S envs ch)"

section \<open>Circuits as sinks\<close>

text \<open>
  A circuit sees of its channel the link version and whether a send would fail; the cells it adds to its
  log \<open>sent_cells\<close> go out through \<open>send_cell\<close>.
\<close>

definition chan_status :: "'w channel \<Rightarrow> exc option" where
  "chan_status ch =
    (if ch_closing ch \<or> tr_sock (ch_transport ch) = None \<or> tr_send_fails (ch_transport ch)
     then Some ChannelError else None)"

definition circuit_view :: "(nat \<Rightarrow> circ) channel \<Rightarrow> nat \<Rightarrow> circ" where
  "circuit_view ch r =
     (ch_world ch r)\<lparr>link_ver := ch_link_version ch, chan_error := chan_status ch\<rparr>"

definition send_all :: "raw_cell list \<Rightarrow> 'w channel \<Rightarrow> 'w channel" where
  "send_all cells ch = fold (\<lambda>cell ch. fst (channel_send_cell cell ch)) cells ch"

definition circuit_sink :: "prims \<Rightarrow> (nat \<Rightarrow> bytes) \<Rightarrow> (nat \<Rightarrow> circ) cell_sink" where
  "circuit_sink P urandom =
    \<lparr>sink_handle_cell = (\<lambda>r cell ch.
       let (w, res) = circuit_handle_cell P urandom cell (circuit_view ch r)
       in (send_all (drop (length (sent_cells (ch_world ch r))) (sent_cells w))
             (ch\<lparr>ch_world := (ch_world ch)(r := w)\<rparr>), res)),
     sink_on_channel_closed = (\<lambda>r error ch.
       ch\<lparr>ch_world := (ch_world ch)(r := on_channel_closed error (circuit_view ch r))\<rparr>)\<rparr>"

end
