(* ===== verification/ChannelLaws.thy ===== *)
theory ChannelLaws
  imports Channel LinkLaws CircuitTeardown
begin

text \<open>
  What the channel guarantees: fresh circuit ids, no leaked connection, cells delivered to the circuit
  they name and to no other, and a receiver that always ends and tells every circuit. The lemmas about
  the receive loop are proved inside the sink interface and hold for circuits by interpretation.
\<close>

section \<open>Circuit ids\<close>

lemma circuit_id_loop_Inr:
  "circuit_id_loop n ch = (ch', Inr c) \<Longrightarrow>
    map_of (ch_sinks ch) c = None \<and> 0x80000000 \<le> c \<and> c < 0x100000000
    \<and> c = ch_next_circ_id ch' + 0x80000000 \<and> ch' = ch\<lparr>ch_next_circ_id := ch_next_circ_id ch'\<rparr>"
proof (induction n arbitrary: ch)
  case (Suc n)
  then show ?case
    by (auto simp: Let_def split: if_splits dest!: Suc.IH)
qed simp

lemma circuit_id_loop_Inl:
  "circuit_id_loop n ch = (ch', Inl e) \<Longrightarrow>
    \<forall>i. 1 \<le> i \<and> i \<le> int n \<longrightarrow>
      map_of (ch_sinks ch) ((ch_next_circ_id ch + i) mod 0x80000000 + 0x80000000) \<noteq> None"
proof (induction n arbitrary: ch)
  case (Suc n)
  let ?ch = "ch\<lparr>ch_next_circ_id := (ch_next_circ_id ch + 1) mod 0x80000000\<rparr>"
  from Suc.prems have first: "map_of (ch_sinks ch) ((ch_next_circ_id ch + 1) mod 0x80000000 + 0x80000000) \<noteq> None"
    and rest: "circuit_id_loop n ?ch = (ch', Inl e)"
    by (auto simp: Let_def split: if_splits)
  have shift: "(ch_next_circ_id ?ch + (i - 1)) mod 0x80000000 = (ch_next_circ_id ch + i) mod 0x80000000" for i
    by (simp add: mod_add_left_eq)
  show ?case
  proof (intro allI impI)
    fix i assume i: "1 \<le> i \<and> i \<le> int (Suc n)"
    show "map_of (ch_sinks ch) ((ch_next_circ_id ch + i) mod 0x80000000 + 0x80000000) \<noteq> None"
    proof (cases "i = 1")
      case True
      then show ?thesis using first by simp
    next
      case False
      then show ?thesis using Suc.IH [OF rest, rule_format, of "i - 1"] i shift [of i] by simp
    qed
  qed
qed auto

lemma mod_shift_inj:
  "inj_on (\<lambda>i. (k + i) mod 0x80000000 + (0x80000000::int)) {1..0x7FFFFFFF}"
proof (rule inj_onI)
  fix i j :: int
  assume ij: "i \<in> {1..0x7FFFFFFF}" "j \<in> {1..0x7FFFFFFF}"
    and e: "(k + i) mod 0x80000000 + 0x80000000 = (k + j) mod 0x80000000 + 0x80000000"
  then have "0x80000000 dvd (i - j)" by (simp add: mod_eq_dvd_iff)
  moreover from this have "0x80000000 dvd (j - i)" by (simp add: dvd_diff_commute)
  ultimately have "\<not> 0 < i - j" "\<not> 0 < j - i" using ij zdvd_imp_le by force+
  then show "i = j" by simp
qed

lemma new_circuit_id_total:
  assumes "length (ch_sinks ch) < 0x7FFFFFFF"
  shows "\<exists>ch' c. new_circuit_id ch = (ch', Inr c)"
proof (rule ccontr)
  assume "\<nexists>ch' c. new_circuit_id ch = (ch', Inr c)"
  then obtain ch' e where e: "circuit_id_loop 0x7FFFFFFF ch = (ch', Inl e)"
    unfolding new_circuit_id_def by (metis prod.exhaust sum.exhaust)
  let ?f = "\<lambda>i. (ch_next_circ_id ch + i) mod 0x80000000 + (0x80000000::int)"
  have "?f ` {1..0x7FFFFFFF} \<subseteq> dom (map_of (ch_sinks ch))"
    using circuit_id_loop_Inl [OF e] by (auto simp: dom_def)
  then have "card (?f ` {1..0x7FFFFFFF}) \<le> card (dom (map_of (ch_sinks ch)))"
    by (intro card_mono) (simp_all add: finite_dom_map_of)
  also have "\<dots> \<le> length (ch_sinks ch)"
    unfolding dom_map_of_conv_image_fst by (metis card_image_le card_length finite_set le_trans)
  finally show False using assms card_image [OF mod_shift_inj [of "ch_next_circ_id ch"]] by simp
qed

lemma circuit_id_loop_advances:
  "circuit_id_loop n x = (x', Inr d) \<Longrightarrow>
    \<exists>i. 1 \<le> i \<and> i \<le> int n \<and> ch_next_circ_id x' = (ch_next_circ_id x + i) mod 0x80000000"
proof (induction n arbitrary: x)
  case (Suc n)
  let ?x = "x\<lparr>ch_next_circ_id := (ch_next_circ_id x + 1) mod 0x80000000\<rparr>"
  show ?case
  proof (cases "x' = ?x")
    case True
    then show ?thesis by (intro exI [of _ 1]) simp
  next
    case False
    then have "circuit_id_loop n ?x = (x', Inr d)" using Suc.prems by (auto simp: Let_def split: if_splits)
    from Suc.IH [OF this] obtain i where i: "1 \<le> i" "i \<le> int n"
      "ch_next_circ_id x' = (ch_next_circ_id ?x + i) mod 0x80000000" by auto
    have "ch_next_circ_id ?x = (ch_next_circ_id x + 1) mod 0x80000000" by simp
    then have "ch_next_circ_id x' = (ch_next_circ_id x + (i + 1)) mod 0x80000000"
      unfolding i(3) by (simp only: mod_add_left_eq add.assoc add.commute [of 1 i])
    moreover have "1 \<le> i + 1" "i + 1 \<le> int (Suc n)" using i by simp_all
    ultimately show ?thesis by blast
  qed
qed simp

text \<open>Circuit ids are fresh: as long as fewer than 2^31 - 1 circuits are registered the allocator returns
one, it has the client's most significant bit, fits the four bytes of the wire and is not in use, so it
can be registered; nothing else of the channel changes, and the next call returns another one.\<close>

theorem new_circuit_id_is_free:
  assumes "length (ch_sinks ch) < 0x7FFFFFFF"
  shows "\<exists>n c. new_circuit_id ch = (ch\<lparr>ch_next_circ_id := n\<rparr>, Inr c)
    \<and> 0x80000000 \<le> c \<and> c < 0x100000000 \<and> map_of (ch_sinks ch) c = None
    \<and> (\<forall>sink. \<not> ch_closing ch \<longrightarrow> snd (channel_register c sink ch) = Inr ())
    \<and> snd (new_circuit_id (ch\<lparr>ch_next_circ_id := n\<rparr>)) \<noteq> Inr c"
proof -
  obtain ch' c where r: "new_circuit_id ch = (ch', Inr c)"
    using new_circuit_id_total [OF assms] by blast
  note f = circuit_id_loop_Inr [OF r [unfolded new_circuit_id_def]]
  have next_id: "ch_next_circ_id ch'' \<noteq> ch_next_circ_id ch'"
    if n: "new_circuit_id ch' = (ch'', Inr d)" for ch'' d
  proof -
    obtain i where i: "1 \<le> i" "i \<le> 0x7FFFFFFF" "ch_next_circ_id ch'' = (ch_next_circ_id ch' + i) mod 0x80000000"
      using circuit_id_loop_advances [OF n [unfolded new_circuit_id_def]] by auto
    have "0 \<le> ch_next_circ_id ch'" "ch_next_circ_id ch' < 0x80000000" using f by auto
    then have "ch_next_circ_id ch' mod 0x80000000 = ch_next_circ_id ch'" by simp
    then have "ch_next_circ_id ch'' = ch_next_circ_id ch' \<longleftrightarrow> 0x80000000 dvd i"
      using i(3) mod_eq_dvd_iff [where a = "ch_next_circ_id ch' + i" and b = "ch_next_circ_id ch'" and c = "0x80000000"]
      by simp
    then show ?thesis using i(1,2) zdvd_imp_le by force
  qed
  have "snd (new_circuit_id ch') \<noteq> Inr c"
  proof
    assume "snd (new_circuit_id ch') = Inr c"
    then obtain ch'' where n: "new_circuit_id ch' = (ch'', Inr c)" by (cases "new_circuit_id ch'") auto
    with circuit_id_loop_Inr [OF n [unfolded new_circuit_id_def]] f next_id [OF n] show False by simp
  qed
  then show ?thesis
    using f r by (intro exI [of _ "ch_next_circ_id ch'"] exI [of _ c]) (auto simp: channel_register_def)
qed

definition toy_transport :: transport where
  "toy_transport = \<lparr>tr_sock = None, tr_send_fails = False, tr_sent = [], tr_cert_digest = [], tr_open_fds = 0\<rparr>"

theorem new_circuit_id_is_free_witness:
  "\<exists>n c. new_circuit_id \<lparr>ch_transport = toy_transport, ch_link_version = 4, ch_relay_identity = [], ch_sinks = [(0x80000001, 3)],
      ch_closing = False, ch_next_circ_id = 0, ch_world = ()\<rparr>
    = (\<lparr>ch_transport = toy_transport, ch_link_version = 4, ch_relay_identity = [], ch_sinks = [(0x80000001, 3)],
      ch_closing = False, ch_next_circ_id = n, ch_world = ()\<rparr>, Inr c) \<and> c \<noteq> 0x80000001"
  using new_circuit_id_is_free [of "\<lparr>ch_transport = toy_transport, ch_link_version = 4, ch_relay_identity = [],
      ch_sinks = [(0x80000001, 3)], ch_closing = False, ch_next_circ_id = 0, ch_world = ()\<rparr>"]
  by auto

section \<open>Opening a channel\<close>

definition same_socket :: "transport \<Rightarrow> transport \<Rightarrow> bool" where
  "same_socket t t' \<longleftrightarrow> tr_open_fds t' = tr_open_fds t \<and> (tr_sock t' = None \<longleftrightarrow> tr_sock t = None)"

lemma same_wire_socket: "same_wire t t' \<Longrightarrow> same_socket s t \<Longrightarrow> same_socket s t'"
  by (simp add: same_wire_def same_socket_def)

lemma handshake_keeps_socket: "same_socket t (fst (do_link_handshake P now peer expected t))"
proof -
  have cell: "same_socket t (fst (read_cell recv_exact v x))"
    and loop: "same_socket t (fst (link_loop v certs x))" if "same_socket t x" for v certs x
    using that read_cell_same [OF same_wire_refl, of x v] link_loop_same [OF same_wire_refl, of x v certs]
    by (auto intro: same_wire_socket)
  have send: "same_socket t (fst (send_raw c v x))" if "same_socket t x" for c v x
    unfolding send_raw_def
    by (intro obind_keeps [where I = "same_socket t"])
      (use that in \<open>auto simp: transport_send_def same_socket_def split: option.splits\<close>)
  have refl: "same_socket t t" by (simp add: same_socket_def)
  show ?thesis
    unfolding do_link_handshake_def
    by (intro obind_keeps [where I = "same_socket t"] send refl)
      (auto intro!: obind_keeps [where I = "same_socket t"] send cell loop split: option.splits)
qed

text \<open>Opening a channel is all or nothing: a failure, of the connection or of the handshake, raises a
channel error and leaves no socket open and none connected; on success exactly one socket is open, the
channel's identity was proved by a certificate chain for that socket's TLS certificate and is the
expected one, its link version is a supported one, and no circuit is registered.\<close>

theorem channel_open_all_or_nothing:
  assumes peer: "opt_ip_wf peer" and closed: "tr_sock t = None"
    and run: "channel_open P now peer expected env world t = (t', res)"
  shows "case res of
      Inl e \<Rightarrow> e \<in> {ChannelError, LinkAuthError} \<and> tr_open_fds t' = tr_open_fds t \<and> tr_sock t' = None
    | Inr ch \<Rightarrow> tr_open_fds t' = Suc (tr_open_fds t) \<and> ch_transport ch = t'
        \<and> (\<exists>der es certs. env = Connects der es \<and> validate_certs P certs (hash P SHA256 der) now
              = Inr (ch_relay_identity ch))
        \<and> (expected = None \<or> expected = Some (ch_relay_identity ch))
        \<and> ch_link_version ch \<in> {4, 5} \<and> ch_sinks ch = [] \<and> \<not> ch_closing ch"
  using run unfolding channel_open_def
proof (cases rule: obind_cases)
  case (first e)
  then show ?thesis using closed
    by (cases "(hash P SHA256, env, t)" rule: tls_connect.cases) (auto simp: Let_def split: if_splits)
next
  case (second t1 u)
  then obtain der es where env: "env = Connects der es"
    and t1: "tr_open_fds t1 = Suc (tr_open_fds t)" "tr_sock t1 = Some es" "tr_cert_digest t1 = hash P SHA256 der"
    by (cases "(hash P SHA256, env, t)" rule: tls_connect.cases) (auto simp: Let_def split: if_splits)
  obtain t2 r where r: "do_link_handshake P now peer expected t1 = (t2, r)"
    by (cases "do_link_handshake P now peer expected t1")
  have k: "same_socket t1 t2" using handshake_keeps_socket [of t1 P now peer expected] r by simp
  show ?thesis
    using second(2) handshake_outcome [OF peer r] k t1
    by (cases r) (auto simp: r env Channel_init_def transport_close_def same_socket_def split: option.splits)
qed

theorem channel_open_all_or_nothing_witness:
  "tr_open_fds (fst (channel_open toy_prims 0 None None (Connects [1] [Chunk [0, 0]]) ()
      \<lparr>tr_sock = None, tr_send_fails = False, tr_sent = [], tr_cert_digest = [], tr_open_fds = 2\<rparr>)) \<in> {2, 3}"
proof -
  let ?t = "\<lparr>tr_sock = None, tr_send_fails = False, tr_sent = [], tr_cert_digest = [], tr_open_fds = 2\<rparr>"
  obtain t' res where run: "channel_open toy_prims 0 None None (Connects [1] [Chunk [0, 0]]) () ?t = (t', res)"
    by (cases "channel_open toy_prims 0 None None (Connects [1] [Chunk [0, 0]]) () ?t")
  from channel_open_all_or_nothing [OF _ _ run] run show ?thesis
    by (cases res) auto
qed

end
