(* ===== verification/Receiver.thy ===== *)
theory Receiver
  imports Channel ChannelLaws CircuitOnion
begin

text \<open>
  The receiver thread. \<open>cell_sinks\<close> is the contract of \<open>CellSink\<close>: a sink may write to the channel but
  neither closes it, nor edits its registry, nor feeds its own input. The receive loop is proved to end
  inside it; circuits are an instance, for which delivery and shutdown are then spelled out.
\<close>

definition same_channel :: "'w channel \<Rightarrow> 'w channel \<Rightarrow> bool" where
  "same_channel ch ch' \<longleftrightarrow> transport_avail (ch_transport ch') = transport_avail (ch_transport ch)
     \<and> ch_link_version ch' = ch_link_version ch \<and> ch_sinks ch' = ch_sinks ch
     \<and> ch_closing ch' = ch_closing ch \<and> chan_status ch' = chan_status ch"

lemma same_channel_refl [simp]: "same_channel ch ch"
  by (simp add: same_channel_def)

lemma same_channel_trans: "same_channel a b \<Longrightarrow> same_channel b c \<Longrightarrow> same_channel a c"
  by (simp add: same_channel_def)

lemma send_cell_same: "same_channel ch (fst (channel_send_cell cell ch))"
  by (auto simp: channel_send_cell_def same_channel_def chan_status_def transport_send_def transport_avail_def
      Let_def split: sum.splits option.splits)

lemma send_all_same: "same_channel ch (send_all cells ch)"
  unfolding send_all_def
  by (induction cells arbitrary: ch) (auto intro: same_channel_trans [OF send_cell_same])

lemma channel_send_cell_world: "ch_world (fst (channel_send_cell cell ch)) = ch_world ch"
  by (simp add: channel_send_cell_def case_prod_beta Let_def split: sum.splits)

lemma send_all_world [simp]: "ch_world (send_all cells ch) = ch_world ch"
  unfolding send_all_def
  by (induction cells arbitrary: ch) (simp_all add: channel_send_cell_world)

text \<open>Nothing another thread does adds to what the socket will deliver.\<close>

lemma transport_close_avail: "transport_avail (transport_close t) = []"
  by (simp add: transport_close_def transport_avail_def split: option.splits)

lemma circuit_id_loop_transport: "ch_transport (fst (circuit_id_loop n ch)) = ch_transport ch"
  by (induction n arbitrary: ch) (simp_all add: Let_def)

lemma chan_do_avail:
  "length (transport_avail (ch_transport (chan_do op ch))) \<le> length (transport_avail (ch_transport ch))"
proof (cases op)
  case (ChSend cell)
  then show ?thesis using send_cell_same [of ch cell] by (simp add: same_channel_def)
qed (simp_all add: channel_register_def channel_unregister_def channel_close_def transport_close_avail
    new_circuit_id_def circuit_id_loop_transport)

lemma chan_run_avail:
  "length (transport_avail (ch_transport (fold chan_do ops ch))) \<le> length (transport_avail (ch_transport ch))"
  by (induction ops arbitrary: ch) (auto intro: le_trans [OF _ chan_do_avail])

lemma channel_read_takes:
  assumes "channel_read ops ch = (ch', Inr cell)"
  shows "length (transport_avail (ch_transport ch')) < length (transport_avail (ch_transport ch))"
proof -
  let ?c = "fold chan_do ops ch"
  from assms obtain t where "read_cell recv_exact (ch_link_version ?c) (ch_transport ?c) = (t, Inr cell)"
    "ch' = ?c\<lparr>ch_transport := t\<rparr>"
    by (auto simp: channel_read_def Let_def split: prod.splits)
  then show ?thesis using read_cell_consumes chan_run_avail [of ops ch] by fastforce
qed

section \<open>The contract of a sink\<close>

locale cell_sinks =
  fixes S :: "'w cell_sink"
  assumes handle_same: "same_channel ch (fst (sink_handle_cell S sink cell ch))"
    and closed_same: "same_channel ch (sink_on_channel_closed S sink error ch)"
begin

lemma dispatch_same: "same_channel ch (fst (dispatch S cell ch))"
  by (simp add: dispatch_def handle_same split: option.splits)

lemma shutdown_same: "same_channel (ch\<lparr>ch_sinks := [], ch_closing := True\<rparr>) (shutdown S error ch)"
proof -
  have "same_channel c (fold (\<lambda>sink. sink_on_channel_closed S sink error) sinks c)" for sinks c
    by (induction sinks arbitrary: c) (auto intro: same_channel_trans [OF closed_same])
  then show ?thesis by (simp add: shutdown_def)
qed

lemma loop_ends: "\<exists>ch' exc. receive_loop S envs ch = Some (ch', exc)"
proof (induction "length (transport_avail (ch_transport ch))" arbitrary: envs ch rule: less_induct)
  case less
  let ?ops = "case envs of [] \<Rightarrow> [] | ops # _ \<Rightarrow> ops"
  obtain ch1 r1 where r1: "channel_read ?ops ch = (ch1, r1)" by (cases "channel_read ?ops ch")
  obtain ch2 r2 where r2: "dispatch S cell ch1 = (ch2, r2)" if "r1 = Inr cell" for cell
    by (cases r1) (auto intro: prod.exhaust)
  show ?case
  proof (cases r1)
    case (Inl e)
    then show ?thesis using r1 by (subst receive_loop.simps) simp
  next
    case (Inr cell)
    have "length (transport_avail (ch_transport ch2)) < length (transport_avail (ch_transport ch))"
      using channel_read_takes [of ?ops ch ch1 cell] dispatch_same [of ch1 cell] r1 r2 Inr
      by (simp add: same_channel_def)
    from less [OF this, of "tl envs"] show ?thesis
      using r1 r2 [OF Inr] Inr by (subst receive_loop.simps) (auto split: sum.splits)
  qed
qed

text \<open>The receiver ends; the channel is then closed, with an empty registry and no way to send.\<close>

lemma receiver_ends:
  obtains ch1 exc where "receive_loop S envs ch = Some (ch1, exc)"
    "receiver S envs ch = Some (shutdown S (if ch_closing ch1 then None else exc) ch1)"
  using loop_ends [of envs ch] by (auto simp: receiver_def)

lemma shutdown_closed:
  "ch_closing (shutdown S error ch)" "ch_sinks (shutdown S error ch) = []"
  using shutdown_same [of ch error] by (simp_all add: same_channel_def)

end

section \<open>Circuits are sinks\<close>

lemma circuit_view_sel [simp]:
  "link_ver (circuit_view ch r) = ch_link_version ch" "chan_error (circuit_view ch r) = chan_status ch"
  "sent_cells (circuit_view ch r) = sent_cells (ch_world ch r)"
  by (simp_all add: circuit_view_def)

lemma same_channel_world [simp]: "same_channel ch (ch\<lparr>ch_world := x\<rparr>)"
  by (simp add: same_channel_def chan_status_def)

interpretation circuits: cell_sinks "circuit_sink P urandom"
proof
  fix ch :: "(nat \<Rightarrow> circ) channel" and sink cell error
  show "same_channel ch (fst (sink_handle_cell (circuit_sink P urandom) sink cell ch))"
    by (auto simp: circuit_sink_def case_prod_beta Let_def intro: same_channel_trans [OF _ send_all_same])
  show "same_channel ch (sink_on_channel_closed (circuit_sink P urandom) sink error ch)"
    by (simp add: circuit_sink_def)
qed

text \<open>The circuit's side of a send is the channel's: same outcome, and exactly the cells the circuit
logged as sent have gone through \<open>send_cell\<close>.\<close>

lemma chan_send_refines:
  assumes "link_ver w = ch_link_version ch" "chan_error w = chan_status ch"
    and run: "chan_send cell w = (w', r)"
  shows "snd (channel_send_cell cell ch) = r
    \<and> fst (channel_send_cell cell ch) = send_all (drop (length (sent_cells w)) (sent_cells w')) ch"
proof -
  have "chan_status ch = None \<or> chan_status ch = Some ChannelError"
    by (simp add: chan_status_def)
  then show ?thesis
    using assms
    by (auto simp: chan_send_def channel_send_cell_def chan_status_def send_all_def transport_send_def
        split: sum.splits option.splits if_splits)
qed

section \<open>Delivery\<close>

definition same_end :: "circ \<Rightarrow> circ \<Rightarrow> bool" where
  "same_end w w' \<longleftrightarrow> link_ver w' = link_ver w \<and> chan_error w' = chan_error w"

lemma same_end_upd [simp]:
  "same_end w w" "same_end w (w'\<lparr>c_hops := h\<rparr>) = same_end w w'" "same_end w (w'\<lparr>c_tracker := t\<rparr>) = same_end w w'"
  "same_end w (w'\<lparr>c_deliver := d\<rparr>) = same_end w w'" "same_end w (w'\<lparr>c_package := p\<rparr>) = same_end w w'"
  "same_end w (w'\<lparr>stream_heap := s\<rparr>) = same_end w w'" "same_end w (w'\<lparr>waiter_heap := x\<rparr>) = same_end w w'"
  "same_end w (w'\<lparr>c_relay_waiters := y\<rparr>) = same_end w w'" "same_end w (w'\<lparr>c_build_waiter := z\<rparr>) = same_end w w'"
  "same_end w (teardown e w') = same_end w w'" "same_end w (waiter_set_result q v w') = same_end w w'"
  by (simp_all add: same_end_def waiter_set_result_def)

lemma same_end_send: "same_end w w' \<Longrightarrow> same_end w (fst (send_relay_cell P cell early count w'))"
  using send_relay_cell_same(1) [where P = P and cell = cell and early = early and count = count and w = w']
  by (simp add: same_end_def same_registry_def)

lemma same_end_emit: "same_end w w' \<Longrightarrow> same_end w (fst (emit_circuit_sendme P urandom i w'))"
  using emit_circuit_sendme_fst [of P urandom i w'] same_end_send [of w w' P _ False False] by auto

lemma same_end_route: "same_end w w' \<Longrightarrow> same_end w (fst (route_relay P urandom cell i w'))"
  unfolding route_relay_def
  by (auto simp: fire_build_def handle_circuit_sendme_def Let_def case_prod_beta
      intro!: obind_keeps [where I = "same_end w"] same_end_emit split: option.splits sum.splits)

lemma same_end_handle: "same_end w (fst (circuit_handle_cell P urandom cell w))"
  by (auto simp: circuit_handle_cell_def handle_relay_cell_def fire_build_def Let_def case_prod_beta
      intro!: same_end_route split: option.splits sum.splits)

definition is_padding :: "raw_cell \<Rightarrow> bool" where
  "is_padding cell \<longleftrightarrow> command cell = cell_num Cell_PADDING \<or> command cell = cell_num Cell_VPADDING"

fun dispatch_all :: "'w cell_sink \<Rightarrow> raw_cell list \<Rightarrow> ('w channel, exc, unit) op" where
  "dispatch_all S [] ch = (ch, Inr ())"
| "dispatch_all S (cell # cells) ch = obind (dispatch S cell) (\<lambda>_. dispatch_all S cells) ch"

lemma circuit_view_same:
  "same_channel ch ch' \<Longrightarrow> same_end (circuit_view ch r) (ch_world ch' r) \<Longrightarrow> circuit_view ch' r = ch_world ch' r"
  by (simp add: same_channel_def same_end_def circuit_view_def)

lemma circuit_view_cong: "same_channel ch ch' \<Longrightarrow> ch_world ch' r = ch_world ch r \<Longrightarrow> circuit_view ch' r = circuit_view ch r"
  by (simp add: same_channel_def circuit_view_def)

lemma dispatch_view:
  assumes "(circ_id cell = cid \<longrightarrow> map_of (ch_sinks ch) cid = Some r)"
    and "(\<forall>(c, r') \<in> set (ch_sinks ch). r' = r \<longrightarrow> c = cid)"
  shows "circuit_view (fst (dispatch (circuit_sink P urandom) cell ch)) r
    = (if circ_id cell = cid \<and> \<not> is_padding cell
       then fst (circuit_handle_cell P urandom cell (circuit_view ch r)) else circuit_view ch r)"
proof -
  let ?ch' = "fst (dispatch (circuit_sink P urandom) cell ch)"
  have same: "same_channel ch ?ch'" by (rule circuits.dispatch_same)
  show ?thesis
  proof (cases "circ_id cell = cid \<and> \<not> is_padding cell")
    case True
    then have "ch_world ?ch' r = fst (circuit_handle_cell P urandom cell (circuit_view ch r))"
      using assms(1) by (simp add: dispatch_def is_padding_def circuit_sink_def case_prod_beta Let_def)
    then show ?thesis using True circuit_view_same [OF same, of r] same_end_handle by simp
  next
    case False
    then have "ch_world ?ch' r = ch_world ch r"
      using assms(2)
      by (auto simp: dispatch_def is_padding_def circuit_sink_def case_prod_beta Let_def
          split: option.splits dest!: map_of_SomeD)
    then have "circuit_view ?ch' r = circuit_view ch r" by (rule circuit_view_cong [OF same])
    then show ?thesis using False by auto
  qed
qed

text \<open>C24: the channel demultiplexes: however cells of different circuits are interleaved on the link, a
registered circuit ends in the state it would reach by handling exactly the cells that carry its id, in
their order, padding left out; cells for unknown ids and for other circuits have no effect on it.\<close>

theorem channel_demultiplexes:
  assumes run: "dispatch_all (circuit_sink P urandom) cells ch = (ch', Inr ())"
    and reg: "map_of (ch_sinks ch) cid = Some r"
    and own: "\<forall>(c, r') \<in> set (ch_sinks ch). r' = r \<longrightarrow> c = cid"
  shows "circuit_view ch' r
    = fold (\<lambda>cell w. fst (circuit_handle_cell P urandom cell w))
        (filter (\<lambda>cell. circ_id cell = cid \<and> \<not> is_padding cell) cells) (circuit_view ch r)"
  using assms
proof (induction cells arbitrary: ch)
  case (Cons cell cells)
  obtain ch1 where d: "dispatch (circuit_sink P urandom) cell ch = (ch1, Inr ())"
    "dispatch_all (circuit_sink P urandom) cells ch1 = (ch', Inr ())"
    using Cons.prems(1) by (auto simp: obind_Inr_iff)
  have same: "same_channel ch ch1" using circuits.dispatch_same [of ch P urandom cell] d by simp
  then have sinks: "ch_sinks ch1 = ch_sinks ch" by (simp add: same_channel_def)
  have v: "circuit_view ch1 r = (if circ_id cell = cid \<and> \<not> is_padding cell
       then fst (circuit_handle_cell P urandom cell (circuit_view ch r)) else circuit_view ch r)"
    using dispatch_view [of cell cid ch r P urandom] d(1) Cons.prems(2,3) by simp
  show ?case
    using Cons.IH [OF d(2)] Cons.prems(2,3) v by (simp add: sinks)
qed simp

section \<open>Shutdown\<close>

lemma circuit_shutdown_fold:
  "ch_world (fold (\<lambda>sink. sink_on_channel_closed (circuit_sink P urandom) sink error) refs ch) r
    = (if r \<in> set refs then on_channel_closed error (circuit_view ch r) else ch_world ch r)"
proof (induction refs arbitrary: ch)
  case (Cons x refs)
  let ?ch = "sink_on_channel_closed (circuit_sink P urandom) x error ch"
  have x: "?ch = ch\<lparr>ch_world := (ch_world ch)(x := on_channel_closed error (circuit_view ch x))\<rparr>"
    by (simp add: circuit_sink_def)
  have s: "same_channel ch ?ch" by (rule circuits.closed_same)
  have v: "circuit_view ?ch x = on_channel_closed error (circuit_view ch x)"
    by (rule trans [OF circuit_view_same [OF s]]) (simp_all add: x on_channel_closed_def)
  have twice: "on_channel_closed error (on_channel_closed error w) = on_channel_closed error w" for w
    by (simp add: on_channel_closed_def)
  have o: "circuit_view ?ch r = circuit_view ch r" if "r \<noteq> x"
    using that by (intro circuit_view_cong [OF s]) (simp add: x)
  show ?case
    using Cons.IH [of ?ch] v twice o by (cases "r = x") (auto simp: x)
qed simp

lemma shutdown_circuit:
  "ch_world (shutdown (circuit_sink P urandom) error ch) r
    = (if r \<in> snd ` set (ch_sinks ch)
       then on_channel_closed error (circuit_view (ch\<lparr>ch_sinks := [], ch_closing := True\<rparr>) r)
       else ch_world ch r)"
  by (simp add: shutdown_def circuit_shutdown_fold)

definition close_cause :: "exc option \<Rightarrow> exc" where
  "close_cause error = (case error of None \<Rightarrow> CircuitDestroyed | Some e \<Rightarrow> e)"

text \<open>Every circuit registered at the end of the loop is torn down, with the loop's error if it had one
and nobody had closed the channel.\<close>

lemma shutdown_tears_down:
  assumes "(c, r) \<in> set (ch_sinks ch)"
  shows "c_destroyed (ch_world (shutdown (circuit_sink P urandom) error ch) r)"
    and "\<not> c_destroyed (ch_world ch r) \<Longrightarrow>
      c_error (ch_world (shutdown (circuit_sink P urandom) error ch) r) = Some (close_cause error)"
  using assms
  by (force simp: shutdown_circuit on_channel_closed_def circuit_view_def close_cause_def teardown_fresh)+

text \<open>C25: the receiver thread always ends, whatever bytes the relay sends and whatever the other threads do
meanwhile; when it has ended the channel is closed with an empty registry, every circuit that was
registered is destroyed, with the error that ended the loop or as destroyed if the channel was closed,
nothing can be registered and no cell can be sent.\<close>

theorem receiver_ends_and_tells_everyone:
  "\<exists>ch1 exc ch'. receive_loop (circuit_sink P urandom) envs ch = Some (ch1, exc)
    \<and> receiver (circuit_sink P urandom) envs ch = Some ch' \<and> ch_closing ch' \<and> ch_sinks ch' = []
    \<and> list_all (\<lambda>(c, r). c_destroyed (ch_world ch' r)
         \<and> (c_destroyed (ch_world ch1 r)
            \<or> c_error (ch_world ch' r) = Some (close_cause (if ch_closing ch1 then None else exc))))
        (ch_sinks ch1)
    \<and> (\<forall>c r. snd (channel_register c r ch') = Inl ChannelError)
    \<and> (\<forall>cell. snd (channel_send_cell cell ch') \<noteq> Inr ())"
proof -
  obtain ch1 exc where l: "receive_loop (circuit_sink P urandom) envs ch = Some (ch1, exc)"
    and r: "receiver (circuit_sink P urandom) envs ch
      = Some (shutdown (circuit_sink P urandom) (if ch_closing ch1 then None else exc) ch1)"
    by (rule circuits.receiver_ends)
  let ?ch' = "shutdown (circuit_sink P urandom) (if ch_closing ch1 then None else exc) ch1"
  have "snd (channel_send_cell cell ?ch') \<noteq> Inr ()" for cell
    by (simp add: channel_send_cell_def circuits.shutdown_closed split: sum.splits)
  then show ?thesis
    using l r
    by - (rule exI [of _ ch1], rule exI [of _ exc], rule exI [of _ ?ch'],
      auto simp: channel_register_def circuits.shutdown_closed list_all_iff intro: shutdown_tears_down)
qed

text \<open>One cell can end every circuit of the channel: when the handler of one circuit raises, as it does for
a relay cell a relay of that circuit sends with a length field above 498, the exception leaves the
receive loop and all the circuits on the link are torn down with it, not only the one that sent it.\<close>

theorem malformed_relay_cell_ends_every_circuit:
  assumes open_ch: "\<not> ch_closing ch" "\<not> ch_closing ch1"
    and read: "channel_read (case envs of [] \<Rightarrow> [] | ops # _ \<Rightarrow> ops) ch = (ch1, Inr cell)"
    and relay: "command cell = cell_num Cell_RELAY" "map_of (ch_sinks ch1) (circ_id cell) = Some r"
    and bad: "unwrap_backward P urandom (c_hops (ch_world ch1 r)) 0 (payload cell) = (hops, Inl e)"
  shows "\<exists>ch'. receiver (circuit_sink P urandom) envs ch = Some ch'
    \<and> (\<forall>(c, r') \<in> set (ch_sinks ch1). c_destroyed (ch_world ch1 r') \<or> c_error (ch_world ch' r') = Some e)"
proof -
  let ?S = "circuit_sink P urandom"
  let ?w = "(circuit_view ch1 r)\<lparr>c_hops := hops\<rparr>"
  have hops: "c_hops (circuit_view ch1 r) = c_hops (ch_world ch1 r)" by (simp add: circuit_view_def)
  have h: "circuit_handle_cell P urandom cell (circuit_view ch1 r) = (?w, Inl e)"
    using relay(1) bad by (simp add: circuit_handle_cell_def handle_relay_cell_def hops)
  obtain ch2 where d: "dispatch ?S cell ch1 = (ch2, Inl e)"
    and world: "ch_world ch2 = (ch_world ch1)(r := ?w)"
    using relay h by (simp add: dispatch_def circuit_sink_def)
  have same: "same_channel ch1 ch2" using circuits.dispatch_same [of ch1 P urandom cell] d by simp
  have loop: "receive_loop ?S envs ch = Some (ch2, Some e)"
    using open_ch(1) read d by (subst receive_loop.simps) simp
  have alive: "c_destroyed (ch_world ch2 r') = c_destroyed (ch_world ch1 r')" for r'
    by (simp add: world circuit_view_def)
  have "c_destroyed (ch_world ch1 r') \<or> c_error (ch_world (shutdown ?S (Some e) ch2) r') = Some e"
    if "(c, r') \<in> set (ch_sinks ch1)" for c r'
    using shutdown_tears_down(2) [of c r' ch2 P urandom "Some e"] that same alive [of r']
    by (auto simp: same_channel_def close_cause_def)
  then show ?thesis
    using loop open_ch(2) same by (auto simp: receiver_def same_channel_def)
qed

section \<open>Concrete runs\<close>

definition toy_channel :: "bytes \<Rightarrow> (nat \<Rightarrow> circ) channel" where
  "toy_channel bs =
    \<lparr>ch_transport = \<lparr>tr_sock = Some [Chunk bs], tr_send_fails = False, tr_sent = [], tr_cert_digest = [],
       tr_open_fds = 1\<rparr>,
     ch_link_version = 4, ch_relay_identity = zeros 32, ch_sinks = [(0x80000001, 0), (0x80000002, 1)],
     ch_closing = False, ch_next_circ_id = 2, ch_world = (\<lambda>r. toy_two_hops)\<rparr>"

theorem channel_demultiplexes_witness:
  "c_destroyed (circuit_view (fst (dispatch_all (circuit_sink toy_prims zeros)
      [raw_of 0x80000001 Cell_PADDING [], raw_of 0x80000002 Cell_DESTROY [0], raw_of 7 Cell_DESTROY [0]]
      (toy_channel [0]))) 1)"
proof -
  let ?cells = "[raw_of 0x80000001 Cell_PADDING [], raw_of 0x80000002 Cell_DESTROY [0], raw_of 7 Cell_DESTROY [0]]"
  have "snd (dispatch_all (circuit_sink toy_prims zeros) ?cells (toy_channel [0])) = Inr ()"
    by (simp add: obind_def dispatch_def toy_channel_def circuit_sink_def circuit_handle_cell_def send_all_def
        circuit_view_def)
  then obtain ch' where run:
    "dispatch_all (circuit_sink toy_prims zeros) ?cells (toy_channel [0]) = (ch', Inr ())"
    by (metis prod.collapse)
  have reg: "map_of (ch_sinks (toy_channel [0])) 0x80000002 = Some 1" by (simp add: toy_channel_def)
  have own: "\<forall>(c, r') \<in> set (ch_sinks (toy_channel [0])). r' = 1 \<longrightarrow> c = 0x80000002"
    by (simp add: toy_channel_def)
  from channel_demultiplexes [OF run reg own] show ?thesis
    using run by (simp add: is_padding_def circuit_handle_cell_def)
qed

definition toy_bad_body :: bytes where
  "toy_bad_body = [2, 0, 0, 0, 0] @ replicate 4 (of_nat (length (backward_absorbed toy_crypto) + 509)) @ [255, 255] @ zeros 498"

definition toy_bad_cell :: raw_cell where
  "toy_bad_cell = raw_of 0x80000001 Cell_RELAY (snd (ctr_update toy_prims (backward_cipher toy_crypto) toy_bad_body))"

lemma toy_bad_cell_raises:
  "\<exists>hops. unwrap_backward toy_prims zeros (c_hops toy_two_hops) 0 (payload toy_bad_cell) = (hops, Inl CircuitError)"
proof -
  obtain c enc where enc: "ctr_update toy_prims (backward_cipher toy_crypto) toy_bad_body = (c, enc)"
    by (cases "ctr_update toy_prims (backward_cipher toy_crypto) toy_bad_body")
  have dec: "apply_backward_cipher toy_prims enc toy_crypto = (toy_crypto\<lparr>backward_cipher := c\<rparr>, toy_bad_body)"
    using ctr_update_symmetric [OF enc] by (simp add: apply_backward_cipher_def)
  have len: "length toy_bad_body = 509" by (simp add: toy_bad_body_def)
  have big: "498 < be_int [255, 255]" by (simp add: be_int_def)
  have parse: "RelayCell_parse zeros toy_bad_body = Inl CircuitError"
    using big by (simp add: RelayCell_parse_def toy_bad_body_def py_slice_def eval_nat_numeral)
  have f: "py_slice 1 3 toy_bad_body = [0, 0]"
    "py_slice 5 9 toy_bad_body = replicate 4 (of_nat (length (backward_absorbed toy_crypto) + 509))"
    by (simp_all add: toy_bad_body_def py_slice_def eval_nat_numeral)
  have rec: "snd (recognize_backward toy_prims zeros toy_bad_body (toy_crypto\<lparr>backward_cipher := c\<rparr>)) = Inl CircuitError"
    unfolding recognize_backward_def recognize_def Let_def f
    by (simp add: len parse toy_crypto_def toy_prims_def ZERO_DIGEST_def)
  show ?thesis
    using dec rec enc
    by (cases "recognize_backward toy_prims zeros toy_bad_body (toy_crypto\<lparr>backward_cipher := c\<rparr>)")
      (simp add: toy_two_hops_sel toy_bad_cell_def numeral_2_eq_2)
qed

theorem malformed_relay_cell_ends_every_circuit_witness:
  "\<exists>ch'. receiver (circuit_sink toy_prims zeros) [] (toy_channel (frame 4 toy_bad_cell)) = Some ch'
    \<and> c_error (ch_world ch' 1) = Some CircuitError"
proof -
  let ?ch = "toy_channel (frame 4 toy_bad_cell)"
  have len: "length (payload toy_bad_cell) = 509"
    by (simp add: toy_bad_cell_def toy_bad_body_def)
  have fr: "frameable 4 toy_bad_cell"
    using len by (simp add: frameable_def toy_bad_cell_def is_variable_cell_def circid_len_def)
  have ow: "on_wire toy_bad_cell = toy_bad_cell" using len by (simp add: on_wire_def)
  have "transport_avail (ch_transport ?ch) = frame 4 toy_bad_cell @ []"
    by (simp add: toy_channel_def transport_avail_def frame_def circid_len_def be_enc_unfold)
  from tls.read_cell_frame [OF fr this] obtain t where
    t: "read_cell recv_exact 4 (ch_transport ?ch) = (t, Inr toy_bad_cell)" by (auto simp: ow)
  have read: "channel_read (case [] of [] \<Rightarrow> [] | ops # _ \<Rightarrow> ops) ?ch = (?ch\<lparr>ch_transport := t\<rparr>, Inr toy_bad_cell)"
    using t by (simp add: channel_read_def toy_channel_def)
  obtain hops where bad: "unwrap_backward toy_prims zeros (c_hops (ch_world (?ch\<lparr>ch_transport := t\<rparr>) 0)) 0
      (payload toy_bad_cell) = (hops, Inl CircuitError)"
    using toy_bad_cell_raises by (auto simp: toy_channel_def)
  have o: "\<not> ch_closing ?ch" "\<not> ch_closing (?ch\<lparr>ch_transport := t\<rparr>)"
    and r: "command toy_bad_cell = cell_num Cell_RELAY"
      "map_of (ch_sinks (?ch\<lparr>ch_transport := t\<rparr>)) (circ_id toy_bad_cell) = Some 0"
    by (simp_all add: toy_channel_def toy_bad_cell_def)
  from malformed_relay_cell_ends_every_circuit [OF o read r bad] show ?thesis
    by (auto simp: toy_channel_def toy_two_hops_sel)
qed

end
