(* ===== verification/HsDir.thy ===== *)
theory HsDir
  imports Crypto "HOL-Library.List_Lexorder" "HOL-Library.Multiset"
begin

text \<open>
  The HSDir hash ring (\<open>_onion/hsdir.py\<close>): the two index formulas, the disaster value and the selection
  of the responsible relays. A relay is any type \<open>'n\<close> with an identity \<open>ed\<close>, as the code's protocol class
  has it; digests compare as byte strings, that is lexicographically. The walk around the ring is a
  partial function; that it always returns, and what, is proved against \<open>ring_spec\<close>, the specification's
  description of the selection.
\<close>

definition int8 :: "int \<Rightarrow> bytes res" where
  "int8 v = (if 0 \<le> v \<and> v < 2 ^ 64 then Inr (be_enc 8 v) else Inl StructError)"

definition hs_index :: "prims \<Rightarrow> bytes \<Rightarrow> int \<Rightarrow> int \<Rightarrow> int \<Rightarrow> bytes res" where
  "hs_index P blinded_pubkey replica_num period_length period_num =
    rbind (int8 replica_num) (\<lambda>r. rbind (int8 period_length) (\<lambda>l. rbind (int8 period_num) (\<lambda>n.
      Inr (sha3_256 P (ascii ''store-at-idx'' @ blinded_pubkey @ r @ l @ n)))))"

definition hsdir_index :: "prims \<Rightarrow> bytes \<Rightarrow> bytes \<Rightarrow> int \<Rightarrow> int \<Rightarrow> bytes res" where
  "hsdir_index P node_ed_identity srv period_num period_length =
    rbind (int8 period_num) (\<lambda>n. rbind (int8 period_length) (\<lambda>l.
      Inr (sha3_256 P (ascii ''node-idx'' @ node_ed_identity @ srv @ n @ l))))"

definition disaster_srv :: "prims \<Rightarrow> int \<Rightarrow> int \<Rightarrow> bytes res" where
  "disaster_srv P period_length period_num =
    rbind (int8 period_length) (\<lambda>l. rbind (int8 period_num) (\<lambda>n.
      Inr (sha3_256 P (ascii ''shared-random-disaster'' @ l @ n))))"

text \<open>The standard library's \<open>bisect.bisect_left(a, x)\<close>.\<close>

function bisect_loop :: "'a::linorder list \<Rightarrow> 'a \<Rightarrow> nat \<Rightarrow> nat \<Rightarrow> nat" where
  "bisect_loop a x lo hi =
    (if lo < hi then
       let mid = (lo + hi) div 2 in
       if a ! mid < x then bisect_loop a x (mid + 1) hi else bisect_loop a x lo mid
     else lo)"
  by pat_completeness auto
termination
  by (relation "measure (\<lambda>(a, x, lo, hi). hi - lo)") auto

declare bisect_loop.simps [simp del]

definition bisect_left :: "'a::linorder list \<Rightarrow> 'a \<Rightarrow> nat" where
  "bisect_left a x = bisect_loop a x 0 (length a)"

text \<open>The inner \<open>while added < spread_fetch\<close>; \<open>chosen\<close> is the set of identities as a list.\<close>

partial_function (option) ring_walk ::
  "('n \<Rightarrow> bytes) \<Rightarrow> nat \<Rightarrow> 'n list \<Rightarrow> nat \<Rightarrow> nat \<Rightarrow> nat \<Rightarrow> bytes list \<Rightarrow> 'n list \<Rightarrow> (bytes list \<times> 'n list) option" where
  "ring_walk ed spread_fetch ordered start pos added chosen selected =
    (if added < spread_fetch then
       let node = ordered ! pos;
           fresh = ed node \<notin> set chosen;
           chosen' = (if fresh then ed node # chosen else chosen);
           selected' = (if fresh then selected @ [node] else selected);
           added' = (if fresh then added + 1 else added);
           pos' = (if pos + 1 = length ordered then 0 else pos + 1)
       in if pos' = start then Some (chosen', selected')
          else ring_walk ed spread_fetch ordered start pos' added' chosen' selected'
     else Some (chosen, selected))"

text \<open>The loop over the replicas \<open>1, \<dots>, n_replicas\<close>.\<close>

fun replica_loop ::
  "prims \<Rightarrow> ('n \<Rightarrow> bytes) \<Rightarrow> bytes \<Rightarrow> int \<Rightarrow> int \<Rightarrow> nat \<Rightarrow> 'n list \<Rightarrow> bytes list \<Rightarrow> nat list \<Rightarrow>
    bytes list \<Rightarrow> 'n list \<Rightarrow> 'n list res option" where
  "replica_loop P ed blinded period_num period_length spread_fetch ordered indices [] chosen selected
     = Some (Inr selected)"
| "replica_loop P ed blinded period_num period_length spread_fetch ordered indices (replica # rs) chosen selected =
    (case hs_index P blinded (int replica) period_length period_num of
       Inl e \<Rightarrow> Some (Inl e)
     | Inr target \<Rightarrow>
        let b = bisect_left indices target;
            start = (if b = length ordered then 0 else b)
        in case ring_walk ed spread_fetch ordered start start 0 chosen selected of
             None \<Rightarrow> None
           | Some (chosen', selected') \<Rightarrow>
               replica_loop P ed blinded period_num period_length spread_fetch ordered indices rs chosen' selected')"

definition responsible_hsdirs ::
  "prims \<Rightarrow> ('n \<Rightarrow> bytes) \<Rightarrow> bytes \<Rightarrow> 'n list \<Rightarrow> bytes \<Rightarrow> int \<Rightarrow> int \<Rightarrow> nat \<Rightarrow> nat \<Rightarrow> 'n list res option" where
  "responsible_hsdirs P ed blinded hsdir_nodes srv period_num period_length n_replicas spread_fetch =
    (if hsdir_nodes = [] then Some (Inr [])
     else case rmap (\<lambda>node. hsdir_index P (ed node) srv period_num period_length) hsdir_nodes of
         Inl e \<Rightarrow> Some (Inl e)
       | Inr keys \<Rightarrow>
          let ring = sort_key snd (zip hsdir_nodes keys)
          in replica_loop P ed blinded period_num period_length spread_fetch (map fst ring) (map snd ring)
               [1..<n_replicas + 1] [] [])"

definition DEFAULT_N_REPLICAS :: nat where
  "DEFAULT_N_REPLICAS = 2"

definition DEFAULT_SPREAD_FETCH :: nat where
  "DEFAULT_SPREAD_FETCH = 3"

section \<open>The specification of the selection\<close>

text \<open>A replica takes the first \<open>spread\<close> relays not yet selected, from its index on around the ring.\<close>

fun ring_spec ::
  "('n \<Rightarrow> bytes) \<Rightarrow> nat \<Rightarrow> ('n \<Rightarrow> bytes) \<Rightarrow> 'n list \<Rightarrow> bytes list \<Rightarrow> 'n list \<Rightarrow> 'n list" where
  "ring_spec ed spread key ring [] selected = selected"
| "ring_spec ed spread key ring (target # ts) selected =
    ring_spec ed spread key ring ts
      (selected @ take spread (filter (\<lambda>n. ed n \<notin> ed ` set selected)
         (filter (\<lambda>n. target \<le> key n) ring @ filter (\<lambda>n. key n < target) ring)))"

lemma bisect_loop_sorted:
  assumes "sorted a" "lo \<le> hi" "hi \<le> length a"
    and "\<forall>i < lo. a ! i < x" "\<forall>i. hi \<le> i \<and> i < length a \<longrightarrow> x \<le> a ! i"
  shows "bisect_loop a x lo hi \<le> length a
    \<and> (\<forall>i < bisect_loop a x lo hi. a ! i < x)
    \<and> (\<forall>i. bisect_loop a x lo hi \<le> i \<and> i < length a \<longrightarrow> x \<le> a ! i)"
  using assms
proof (induction a x lo hi rule: bisect_loop.induct)
  case (1 a x lo hi)
  let ?m = "(lo + hi) div 2"
  consider "\<not> lo < hi" | "lo < hi" "a ! ?m < x" | "lo < hi" "\<not> a ! ?m < x" by blast
  then show ?case
  proof cases
    case 1
    then show ?thesis using "1.prems" by (subst (1 2 3) bisect_loop.simps) auto
  next
    case 2
    then have step: "bisect_loop a x lo hi = bisect_loop a x (?m + 1) hi"
      by (subst bisect_loop.simps) (simp add: Let_def)
    have lt: "\<forall>i < ?m + 1. a ! i < x"
    proof (intro allI impI)
      fix i assume "i < ?m + 1"
      then have "a ! i \<le> a ! ?m" using "1.prems" 2(1) by (intro sorted_nth_mono) auto
      then show "a ! i < x" using 2(2) by simp
    qed
    have le: "?m + 1 \<le> hi" using 2(1) by linarith
    show ?thesis unfolding step
      by (rule "1.IH"(1) [OF 2(1) refl 2(2) "1.prems"(1) le "1.prems"(3) lt "1.prems"(5)])
  next
    case 3
    then have step: "bisect_loop a x lo hi = bisect_loop a x lo ?m"
      by (subst bisect_loop.simps) (simp add: Let_def)
    have ge: "\<forall>i. ?m \<le> i \<and> i < length a \<longrightarrow> x \<le> a ! i"
    proof (intro allI impI)
      fix i assume "?m \<le> i \<and> i < length a"
      then have "a ! ?m \<le> a ! i" using "1.prems" by (intro sorted_nth_mono) auto
      then show "x \<le> a ! i" using 3(2) by simp
    qed
    have le: "lo \<le> ?m" "?m \<le> length a" using 3(1) "1.prems"(3) by linarith+
    show ?thesis unfolding step
      by (rule "1.IH"(2) [OF 3(1) refl 3(2) "1.prems"(1) le "1.prems"(4) ge])
  qed
qed

lemma bisect_left_split:
  assumes "sorted (map f xs)"
  shows "bisect_left (map f xs) x \<le> length xs"
    "take (bisect_left (map f xs) x) xs = filter (\<lambda>n. f n < x) xs"
    "drop (bisect_left (map f xs) x) xs = filter (\<lambda>n. x \<le> f n) xs"
proof -
  let ?b = "bisect_left (map f xs) x"
  have b: "?b \<le> length xs" "\<forall>i < ?b. f (xs ! i) < x" "\<forall>i. ?b \<le> i \<and> i < length xs \<longrightarrow> x \<le> f (xs ! i)"
  proof -
    have "bisect_left (map f xs) x \<le> length (map f xs)
        \<and> (\<forall>i < bisect_left (map f xs) x. map f xs ! i < x)
        \<and> (\<forall>i. bisect_left (map f xs) x \<le> i \<and> i < length (map f xs) \<longrightarrow> x \<le> map f xs ! i)"
      unfolding bisect_left_def by (rule bisect_loop_sorted [OF assms]) auto
    then show "?b \<le> length xs" "\<forall>i < ?b. f (xs ! i) < x" "\<forall>i. ?b \<le> i \<and> i < length xs \<longrightarrow> x \<le> f (xs ! i)"
      by auto
  qed
  show "?b \<le> length xs" by (rule b(1))
  have lt: "\<forall>n \<in> set (take ?b xs). f n < x" using b(1,2) by (auto simp: in_set_conv_nth)
  have ge: "\<forall>n \<in> set (drop ?b xs). x \<le> f n" using b(1,3) by (auto simp: in_set_conv_nth)
  have "filter (\<lambda>n. f n < x) (take ?b xs @ drop ?b xs) = take ?b xs"
    unfolding filter_append using lt ge by (auto simp: filter_empty_conv not_less filter_id_conv)
  then show "take ?b xs = filter (\<lambda>n. f n < x) xs" by simp
  have "filter (\<lambda>n. x \<le> f n) (take ?b xs @ drop ?b xs) = drop ?b xs"
    unfolding filter_append using lt ge by (auto simp: filter_empty_conv not_le filter_id_conv)
  then show "drop ?b xs = filter (\<lambda>n. x \<le> f n) xs" by simp
qed

section \<open>The walk\<close>

fun walk_list :: "('n \<Rightarrow> bytes) \<Rightarrow> nat \<Rightarrow> nat \<Rightarrow> bytes list \<Rightarrow> 'n list \<Rightarrow> 'n list \<Rightarrow> bytes list \<times> 'n list" where
  "walk_list ed spread added chosen selected [] = (chosen, selected)"
| "walk_list ed spread added chosen selected (n # ns) =
    (if added < spread then
       if ed n \<notin> set chosen then walk_list ed spread (added + 1) (ed n # chosen) (selected @ [n]) ns
       else walk_list ed spread added chosen selected ns
     else (chosen, selected))"

lemma rotate_pos:
  "start < length xs \<Longrightarrow> k < length xs \<Longrightarrow>
    (drop start xs @ take start xs) ! k = xs ! ((start + k) mod length xs)"
  by (auto simp: nth_append mod_if add.commute)

lemma ring_walk_step:
  assumes "ordered ! pos = node" "(if pos + 1 = length ordered then 0 else pos + 1) = pos'"
  shows "ring_walk ed spread ordered start pos added chosen selected =
    (if added < spread then
       if ed node \<notin> set chosen
       then if pos' = start then Some (ed node # chosen, selected @ [node])
            else ring_walk ed spread ordered start pos' (added + 1) (ed node # chosen) (selected @ [node])
       else if pos' = start then Some (chosen, selected)
            else ring_walk ed spread ordered start pos' added chosen selected
     else Some (chosen, selected))"
  unfolding ring_walk.simps [of ed spread ordered start pos added chosen selected] Let_def assms
  by (cases "ed node \<in> set chosen") (simp_all only: if_True if_False simp_thms not_True_eq_False not_False_eq_True)

lemma ring_walk_list:
  assumes start: "start < length ordered" and r: "r = drop start ordered @ take start ordered"
  shows "k < length ordered \<Longrightarrow>
    ring_walk ed spread ordered start ((start + k) mod length ordered) added chosen selected
      = Some (walk_list ed spread added chosen selected (drop k r))"
proof (induction "length ordered - k" arbitrary: k added chosen selected)
  case 0
  then show ?case by simp
next
  case (Suc d)
  let ?n = "length ordered"
  let ?pos = "(start + k) mod ?n"
  have lr: "length r = ?n" using start r by simp
  have node: "ordered ! ?pos = r ! k" using rotate_pos [OF start Suc.prems] r by simp
  have dr: "drop k r = r ! k # drop (Suc k) r" using Suc.prems lr by (simp add: Cons_nth_drop_Suc)
  have pos': "(if ?pos + 1 = ?n then 0 else ?pos + 1) = (start + Suc k) mod ?n"
    by (simp add: mod_Suc)
  note step = ring_walk_step [OF node pos', of ed spread start added chosen selected]
  have last: "(start + Suc k) mod ?n = start \<longleftrightarrow> Suc k = ?n"
  proof
    assume "(start + Suc k) mod ?n = start"
    then have "(start + Suc k) mod ?n = start mod ?n" using start by simp
    then have "?n dvd Suc k" by (metis add_diff_cancel_left' le_add1 mod_eq_dvd_iff_nat)
    then show "Suc k = ?n" using Suc.prems dvd_imp_le [of ?n "Suc k"] by simp
  qed (use start in simp)
  show ?case
  proof (cases "Suc k = ?n")
    case True
    then have "drop (Suc k) r = []" using lr by simp
    then show ?thesis unfolding step last dr using True by simp
  next
    case False
    then have k: "Suc k < ?n" using Suc.prems by simp
    have d: "d = ?n - Suc k" using Suc.hyps(2) by simp
    show ?thesis unfolding step last dr using False Suc.hyps(1) [OF d k] by simp
  qed
qed

lemma walk_list_take:
  "distinct (map ed ns) \<Longrightarrow> added \<le> spread \<Longrightarrow>
    walk_list ed spread added chosen selected ns
      = (rev (map ed (take (spread - added) (filter (\<lambda>n. ed n \<notin> set chosen) ns))) @ chosen,
         selected @ take (spread - added) (filter (\<lambda>n. ed n \<notin> set chosen) ns))"
proof (induction ns arbitrary: added chosen selected)
  case (Cons n ns)
  have f: "filter (\<lambda>x. ed x \<noteq> ed n \<and> ed x \<notin> set chosen) ns = filter (\<lambda>x. ed x \<notin> set chosen) ns"
    using Cons.prems(1) by (intro filter_cong) (auto simp: image_iff)
  show ?case
    using Cons by (cases "added < spread") (auto simp: f Suc_diff_Suc [symmetric])
qed simp

lemma ring_walk_take:
  assumes start: "start < length ordered" and dist: "distinct (map ed ordered)"
    and chosen: "set chosen = ed ` set selected"
  shows "\<exists>chosen'. ring_walk ed spread ordered start start 0 chosen selected
      = Some (chosen', selected @ take spread (filter (\<lambda>n. ed n \<notin> ed ` set selected)
          (drop start ordered @ take start ordered)))
    \<and> set chosen' = ed ` set (selected @ take spread (filter (\<lambda>n. ed n \<notin> ed ` set selected)
          (drop start ordered @ take start ordered)))"
proof -
  let ?r = "drop start ordered @ take start ordered"
  have "set (map ed ?r) = set (map ed ordered)" "length (map ed ?r) = length (map ed ordered)"
    by (metis append_take_drop_id set_append sup_commute set_map, simp)
  then have d: "distinct (map ed ?r)" using dist by (metis distinct_card card_distinct)
  show ?thesis
    using ring_walk_list [OF start refl, of 0 ed spread 0 chosen selected] start walk_list_take [OF d, of 0 spread chosen selected]
      chosen by (simp only: mod_less add_0_right drop_0 le0 diff_zero) auto
qed

section \<open>The selection\<close>

definition node_key :: "prims \<Rightarrow> ('n \<Rightarrow> bytes) \<Rightarrow> bytes \<Rightarrow> int \<Rightarrow> int \<Rightarrow> 'n \<Rightarrow> bytes" where
  "node_key P ed srv period_num period_length n =
     sha3_256 P (ascii ''node-idx'' @ ed n @ srv @ be_enc 8 period_num @ be_enc 8 period_length)"

definition replica_key :: "prims \<Rightarrow> bytes \<Rightarrow> int \<Rightarrow> int \<Rightarrow> nat \<Rightarrow> bytes" where
  "replica_key P blinded period_num period_length r =
     sha3_256 P (ascii ''store-at-idx'' @ blinded @ be_enc 8 (int r) @ be_enc 8 period_length @ be_enc 8 period_num)"

definition periods_ok :: "int \<Rightarrow> int \<Rightarrow> bool" where
  "periods_ok period_num period_length \<longleftrightarrow>
     0 \<le> period_num \<and> period_num < 2 ^ 64 \<and> 0 \<le> period_length \<and> period_length < 2 ^ 64"

lemma hsdir_index_key:
  "periods_ok num len \<Longrightarrow> hsdir_index P (ed n) srv num len = Inr (node_key P ed srv num len n)"
  by (simp add: periods_ok_def hsdir_index_def int8_def node_key_def)

lemma hs_index_key:
  "periods_ok num len \<Longrightarrow> r < 2 ^ 64 \<Longrightarrow> hs_index P blinded (int r) len num = Inr (replica_key P blinded num len r)"
  by (simp add: periods_ok_def hs_index_def int8_def replica_key_def)

lemma replica_loop_spec:
  assumes ring: "sorted (map key ordered)" "distinct (map ed ordered)" "ordered \<noteq> []"
    and idx: "\<forall>r \<in> set rs. hs_index P blinded (int r) len num = Inr (target r)"
    and chosen: "set chosen = ed ` set selected"
  shows "replica_loop P ed blinded num len spread ordered (map key ordered) rs chosen selected
    = Some (Inr (ring_spec ed spread key ordered (map target rs) selected))"
  using idx chosen
proof (induction rs arbitrary: chosen selected)
  case (Cons r rs)
  let ?b = "bisect_left (map key ordered) (target r)"
  let ?s = "if ?b = length ordered then 0 else ?b"
  note b = bisect_left_split [OF ring(1), of "target r"]
  have rot: "drop ?s ordered @ take ?s ordered
      = filter (\<lambda>n. target r \<le> key n) ordered @ filter (\<lambda>n. key n < target r) ordered"
  proof (cases "?b = length ordered")
    case True
    then have "filter (\<lambda>n. target r \<le> key n) ordered = []" "filter (\<lambda>n. key n < target r) ordered = ordered"
      using b(2,3) by simp_all
    then show ?thesis using True by simp
  qed (simp add: b)
  have "?s < length ordered" using b(1) ring(3) by (cases "?b = length ordered") auto
  let ?new = "selected @ take spread (filter (\<lambda>n. ed n \<notin> ed ` set selected)
      (filter (\<lambda>n. target r \<le> key n) ordered @ filter (\<lambda>n. key n < target r) ordered))"
  from ring_walk_take [OF \<open>?s < length ordered\<close> ring(2) Cons.prems(2), of spread] obtain chosen' where
    w: "ring_walk ed spread ordered ?s ?s 0 chosen selected = Some (chosen', ?new)" "set chosen' = ed ` set ?new"
    unfolding rot by blast
  have h: "hs_index P blinded (int r) len num = Inr (target r)" using Cons.prems(1) by simp
  have "\<forall>r \<in> set rs. hs_index P blinded (int r) len num = Inr (target r)" using Cons.prems(1) by simp
  from Cons.IH [OF this w(2)] show ?case
    unfolding replica_loop.simps h sum.case Let_def w(1) option.case prod.case list.map ring_spec.simps .
qed simp

lemma sort_zip_key: "sort_key snd (zip xs (map f xs)) = map (\<lambda>n. (n, f n)) (sort_key f xs)"
proof -
  have i: "insort_key snd (n, f n) (map (\<lambda>n. (n, f n)) ys) = map (\<lambda>n. (n, f n)) (insort_key f n ys)" for n ys
    by (induction ys) auto
  show ?thesis by (induction xs) (simp_all add: i)
qed

lemma responsible_hsdirs_spec:
  assumes "periods_ok num len" "n_replicas < 2 ^ 64" "distinct (map ed nodes)"
  shows "responsible_hsdirs P ed blinded nodes srv num len n_replicas spread
    = Some (Inr (ring_spec ed spread (node_key P ed srv num len)
        (sort_key (node_key P ed srv num len) nodes)
        (map (replica_key P blinded num len) [1..<n_replicas + 1]) []))"
proof (cases "nodes = []")
  case True
  have "ring_spec ed spread key [] ts [] = []" for key ts
    by (induction ts) simp_all
  then show ?thesis using True by (simp add: responsible_hsdirs_def)
next
  case False
  let ?key = "node_key P ed srv num len"
  let ?ring = "sort_key ?key nodes"
  have keys: "rmap (\<lambda>node. hsdir_index P (ed node) srv num len) nodes = Inr (map ?key nodes)"
    by (rule rmap_total) (rule hsdir_index_key [OF assms(1)])
  have "mset (map ed ?ring) = mset (map ed nodes)" by simp
  then have d: "distinct (map ed ?ring)" using assms(3) by (metis mset_eq_imp_distinct_iff)
  have ne: "?ring \<noteq> []" using False by (metis length_0_conv length_sort)
  have idx: "\<forall>r \<in> set [1..<n_replicas + 1]. hs_index P blinded (int r) len num = Inr (replica_key P blinded num len r)"
    using assms(2) by (auto intro!: hs_index_key [OF assms(1)])
  have "sorted (map ?key ?ring)" by simp
  from replica_loop_spec [OF this d ne idx, of "[]" "[]" spread] False keys show ?thesis
    by (simp add: responsible_hsdirs_def sort_zip_key o_def Let_def)
qed

lemma ring_spec_counts:
  assumes ring: "distinct (map ed ring)"
  shows "set selected \<subseteq> set ring \<Longrightarrow> distinct (map ed selected) \<Longrightarrow>
    set (ring_spec ed spread key ring ts selected) \<subseteq> set ring
    \<and> distinct (map ed (ring_spec ed spread key ring ts selected))
    \<and> length (ring_spec ed spread key ring ts selected) = min (length ring) (length selected + spread * length ts)"
proof (induction ts arbitrary: selected)
  case Nil
  have "length selected \<le> length ring"
    using Nil ring by (metis card_mono distinct_card distinct_map finite_set)
  then show ?case using Nil by simp
next
  case (Cons target ts)
  define rot where "rot = filter (\<lambda>n. target \<le> key n) ring @ filter (\<lambda>n. key n < target) ring"
  define free where "free = filter (\<lambda>n. ed n \<notin> ed ` set selected) rot"
  have inj: "inj_on ed (set ring)" "distinct ring" "distinct selected"
    using ring Cons.prems(2) by (simp_all add: distinct_map)
  have rot: "set rot = set ring" "distinct rot" using inj(2) by (auto simp: rot_def not_le)
  have "ed n \<notin> ed ` set selected \<longleftrightarrow> n \<notin> set selected" if "n \<in> set ring" for n
    using inj_on_image_mem_iff [OF inj(1) that Cons.prems(1)] by simp
  then have free: "set free = set ring - set selected" "distinct free"
    using rot by (auto simp: free_def)
  have lf: "length free = length ring - length selected"
    using free Cons.prems(1) inj by (metis card_Diff_subset distinct_card finite_set)
  let ?new = "selected @ take spread free"
  have t: "set (take spread free) \<subseteq> set ring - set selected" "distinct (take spread free)"
    using free set_take_subset [of spread free] by auto
  have sub: "set ?new \<subseteq> set ring" using t(1) Cons.prems(1) by auto
  moreover have "distinct (map ed ?new)"
    unfolding distinct_map using t inj(3) inj_on_subset [OF inj(1) sub] by auto
  moreover have "length ?new = min (length ring) (length selected + spread)"
  proof -
    have "length selected \<le> length ring"
      using card_mono [OF finite_set Cons.prems(1)] inj by (simp add: distinct_card)
    then show ?thesis using lf by simp
  qed
  ultimately show ?case
    using Cons.IH [of ?new] by (simp add: free_def rot_def del: filter_append append_assoc)
qed

text \<open>C37: the responsible directories are the successors of the descriptor on the ring: with period values that
fit eight bytes and distinct relay identities, the search always returns, and it returns for each replica
in turn the next \<open>spread_fetch\<close> relays, in ring order from the replica's index and around the end of the
ring, that no earlier replica took.\<close>

theorem hsdirs_are_the_ring_successors:
  assumes "periods_ok num len" "n_replicas < 2 ^ 64" "distinct (map ed nodes)"
  shows "responsible_hsdirs P ed blinded nodes srv num len n_replicas spread
    = Some (Inr (ring_spec ed spread (node_key P ed srv num len)
        (sort_key (node_key P ed srv num len) nodes)
        (map (replica_key P blinded num len) [1..<n_replicas + 1]) []))"
  using assms by (rule responsible_hsdirs_spec)

text \<open>Client and service meet: the selection depends on which relays the consensus lists and not on the order
it lists them in, as long as no two relays have the same ring position; and it names exactly
\<open>n_replicas * spread_fetch\<close> different relays of the consensus, or all of them if there are fewer.\<close>

theorem hsdirs_agree_and_are_enough:
  assumes "periods_ok num len" "n_replicas < 2 ^ 64" "distinct (map ed nodes)"
    and same: "mset nodes' = mset nodes" "inj_on (node_key P ed srv num len) (set nodes)"
  shows "\<exists>sel. responsible_hsdirs P ed blinded nodes srv num len n_replicas spread = Some (Inr sel)
    \<and> responsible_hsdirs P ed blinded nodes' srv num len n_replicas spread = Some (Inr sel)
    \<and> set sel \<subseteq> set nodes \<and> distinct (map ed sel) \<and> length sel = min (length nodes) (n_replicas * spread)"
proof -
  let ?key = "node_key P ed srv num len"
  have "mset (map ed nodes') = mset (map ed nodes)" using same(1) by simp
  then have d': "distinct (map ed nodes')" using assms(3) by (metis mset_eq_imp_distinct_iff)
  have ring: "sort_key ?key nodes' = sort_key ?key nodes"
    by (rule sort_key_inj_key_eq) (use same in \<open>simp_all add: mset_eq_setD [OF same(1)]\<close>)
  have "mset (map ed (sort_key ?key nodes)) = mset (map ed nodes)" by simp
  then have "distinct (map ed (sort_key ?key nodes))" using assms(3) by (metis mset_eq_imp_distinct_iff)
  from ring_spec_counts [OF this, of "[]" spread ?key "map (replica_key P blinded num len) [1..<n_replicas + 1]"]
  show ?thesis
    using responsible_hsdirs_spec [OF assms(1,2,3), of P blinded srv spread]
      responsible_hsdirs_spec [OF assms(1,2) d', of P blinded srv spread]
    by (cases n_replicas) (simp_all add: ring mult.commute del: upt_Suc)
qed

theorem hsdirs_are_the_ring_successors_witness:
  "\<exists>sel. responsible_hsdirs toy_prims id [5] [[1], [2], [3]] [] 20000 1440 2 3 = Some (Inr sel)"
  using hsdirs_are_the_ring_successors [of 20000 1440 2 id "[[1], [2], [3]]" toy_prims "[5]" "[]" 3]
  by (simp add: periods_ok_def)

text \<open>A hash that spreads the ring: the identity byte and the period fill the digest.\<close>

definition spread_prims :: prims where
  "spread_prims = toy_prims\<lparr>hash := (\<lambda>alg m. take 32 (drop 8 m @ zeros 32))\<rparr>"

theorem hsdirs_agree_and_are_enough_witness:
  "\<exists>sel. responsible_hsdirs spread_prims id [5] [[1], [2], [3]] [] 20000 1440 2 1 = Some (Inr sel)
    \<and> responsible_hsdirs spread_prims id [5] [[3], [1], [2]] [] 20000 1440 2 1 = Some (Inr sel) \<and> length sel = 2"
proof -
  have p: "periods_ok 20000 1440" by (simp add: periods_ok_def)
  have m: "mset [[3], [1], [2]] = mset [[1], [2], [3 :: byte]]" by simp
  have i: "inj_on (node_key spread_prims id [] 20000 1440) (set [[1], [2], [3]])"
    by (simp add: node_key_def spread_prims_def sha3_256_def ascii_def zeros_def numeral_eq_Suc)
  from hsdirs_agree_and_are_enough [OF p _ _ m i, of 2 "[5]" 1] show ?thesis by auto
qed

end
