(* ===== verification/Blinding.thy ===== *)
theory Blinding
  imports Crypto HsDir
begin

text \<open>
  Ed25519 key blinding (\<open>_crypto/ed25519_blind.py\<close>): the time period, the clamped blinding factor, the
  blinded key and the credentials. The curve multiplication and the point check are libsodium's and
  belong to the primitives.
\<close>

unbundle bit_operations_syntax

definition DEFAULT_PERIOD_LENGTH_MINUTES :: int where
  "DEFAULT_PERIOD_LENGTH_MINUTES = 1440"

definition DEFAULT_ROTATION_OFFSET_MINUTES :: int where
  "DEFAULT_ROTATION_OFFSET_MINUTES = 720"

definition BLIND_STRING :: bytes where
  "BLIND_STRING = ascii ''Derive temporary signing key'' @ [0]"

definition BASEPOINT_STRING :: bytes where
  "BASEPOINT_STRING =
    ascii (''(15112221349535400772501151409588531511454012693041857206046113283949847762202,''
      @ '' 46316835694926478169428394003475163141307993866256225615783033603165251855960)'')"

definition time_period :: "int \<Rightarrow> int \<Rightarrow> int \<Rightarrow> int res" where
  "time_period valid_after_unix period_length_minutes rotation_offset_minutes =
    (if period_length_minutes = 0 then Inl ZeroDivisionError
     else Inr ((valid_after_unix div 60 - rotation_offset_minutes) div period_length_minutes))"

definition blinding_factor :: "prims \<Rightarrow> bytes \<Rightarrow> int \<Rightarrow> int \<Rightarrow> bytes res" where
  "blinding_factor P identity period_number period_length =
    (if length identity \<noteq> 32 then Inl ValueError
     else rbind (int8 period_number) (\<lambda>n. rbind (int8 period_length) (\<lambda>l.
       let h = sha3_256 P (BLIND_STRING @ identity @ BASEPOINT_STRING @ ascii ''key-blind'' @ n @ l);
           h1 = h[0 := h ! 0 AND 248];
           h2 = h1[31 := h1 ! 31 AND 63]
       in Inr (h2[31 := h2 ! 31 OR 64]))))"

definition blind_public_key :: "prims \<Rightarrow> bytes \<Rightarrow> int \<Rightarrow> int \<Rightarrow> bytes res" where
  "blind_public_key P identity period_number period_length =
    rbind (blinding_factor P identity period_number period_length) (\<lambda>h.
      case ed_scalarmult P h identity of None \<Rightarrow> Inl ValueError | Some p \<Rightarrow> Inr p)"

definition credential :: "prims \<Rightarrow> bytes \<Rightarrow> bytes" where
  "credential P identity = sha3_256 P (ascii ''credential'' @ identity)"

definition subcredential :: "prims \<Rightarrow> bytes \<Rightarrow> bytes \<Rightarrow> bytes" where
  "subcredential P identity blinded = sha3_256 P (ascii ''subcredential'' @ credential P identity @ blinded)"

definition is_torsion_free :: "prims \<Rightarrow> bytes \<Rightarrow> bool" where
  "is_torsion_free P public_key = (if length public_key \<noteq> 32 then False else ed_valid_point P public_key)"

text \<open>The clamp: a multiple of the cofactor 8, and the top bit of the scalar is bit 254.\<close>

lemma blinding_factor_clamped:
  assumes P: "prims_ok P" and r: "blinding_factor P identity n l = Inr h"
  shows "length h = 32 \<and> h ! 0 AND 7 = 0 \<and> h ! 31 AND 192 = 64"
proof -
  from r obtain m where h: "h = ((m[0 := m ! 0 AND 248])[31 := m ! 31 AND 63])[31 := (m ! 31 AND 63) OR 64]"
    and m: "length m = 32"
    by (auto simp: blinding_factor_def Let_def sha3_256_def prims_okD [OF P] split: if_splits)
  have a: "(b AND 248) AND 7 = 0" "((b AND 63) OR 64) AND 192 = 64" for b :: byte
    by (simp_all add: and.assoc bit.conj_disj_distrib2)
  show ?thesis unfolding h using m a by simp
qed

lemma time_period_covers:
  assumes "0 < len"
  shows "time_period t len off = Inr n \<longleftrightarrow>
     n * len + off \<le> t div 60 \<and> t div 60 < (n + 1) * len + off"
proof -
  let ?x = "t div 60 - off"
  have m: "?x = len * (?x div len) + ?x mod len" "0 \<le> ?x mod len" "?x mod len < len"
    using assms by simp_all
  have "?x div len = n \<longleftrightarrow> n * len \<le> ?x \<and> ?x < n * len + len"
  proof
    assume "?x div len = n"
    then have "?x = n * len + ?x mod len" using m(1) by (simp add: mult.commute)
    then show "n * len \<le> ?x \<and> ?x < n * len + len" using m(2,3) by linarith
  next
    assume "n * len \<le> ?x \<and> ?x < n * len + len"
    then show "?x div len = n"
      by (intro int_div_pos_eq [of _ _ _ "?x - n * len"]) (auto simp: mult.commute)
  qed
  moreover have "time_period t len off = Inr n \<longleftrightarrow> ?x div len = n" using assms by (auto simp: time_period_def)
  ultimately show ?thesis by (simp add: algebra_simps)
qed

end
