(* ===== verification/OnionAddress.thy ===== *)
theory OnionAddress
  imports Codecs Blinding
begin

text \<open>
  v3 onion addresses (\<open>_onion/address.py\<close>). An address is accepted exactly when its last label before
  \<open>.onion\<close> is the encoding of a valid identity key (\<open>parse_address_exact\<close>); the comment that a label of 56
  characters always decodes to 35 bytes does not hold (\<open>padded_label_raises_IndexError\<close>).
\<close>

definition ONION_SUFFIX :: string where
  "ONION_SUFFIX = ''.onion''"

definition LABEL_LENGTH :: nat where
  "LABEL_LENGTH = 56"

definition onion_checksum :: "prims \<Rightarrow> bytes \<Rightarrow> int \<Rightarrow> bytes" where
  "onion_checksum P identity_key version =
     take 2 (sha3_256 P (ascii ''.onion checksum'' @ identity_key @ [of_int version]))"

definition onion_payload :: "prims \<Rightarrow> bytes \<Rightarrow> bytes" where
  "onion_payload P identity_key = identity_key @ onion_checksum P identity_key 3 @ [3]"

definition onion_label :: "prims \<Rightarrow> bytes \<Rightarrow> string" where
  "onion_label P identity_key = py_lower (b32_encode (onion_payload P identity_key))"

definition onion_hostname :: "prims \<Rightarrow> bytes \<Rightarrow> string" where
  "onion_hostname P identity_key = onion_label P identity_key @ ONION_SUFFIX"

definition address_label :: "string \<Rightarrow> string" where
  "address_label address =
    (let hostname = py_lower (py_strip address);
         hostname' = (if ends_with hostname ONION_SUFFIX
                      then take (length hostname - length ONION_SUFFIX) hostname else hostname)
     in after_last CHR ''.'' hostname')"

definition parse_address :: "prims \<Rightarrow> string \<Rightarrow> bytes res" where
  "parse_address P address =
    (let label = address_label address in
     if length label \<noteq> LABEL_LENGTH then Inl InvalidOnionAddress
     else
       rbind (rcatch (b32_decode (py_upper label)) (catches [BinasciiError, ValueError])
                (\<lambda>_. Inl InvalidOnionAddress)) (\<lambda>payload.
       let identity_key = take 32 payload; checksum = py_slice 32 34 payload in
       rbind (byte_at payload 34) (\<lambda>version.
       if version \<noteq> 3 then Inl InvalidOnionAddress
       else if onion_checksum P identity_key version \<noteq> checksum then Inl InvalidOnionAddress
       else if \<not> is_torsion_free P identity_key then Inl InvalidOnionAddress
       else Inr identity_key)))"

definition encode_address_label :: "prims \<Rightarrow> bytes \<Rightarrow> string res" where
  "encode_address_label P identity_key =
     (if length identity_key \<noteq> 32 then Inl ValueError else Inr (onion_hostname P identity_key))"

definition is_onion_host :: "string \<Rightarrow> bool" where
  "is_onion_host host = ends_with (py_rstrip (\<lambda>c. c = CHR ''.'') (py_lower host)) ONION_SUFFIX"

text \<open>\<open>_normalize_onion_host\<close> of the client, which looks up client-authorization keys.\<close>

definition normalize_onion_host :: "string \<Rightarrow> string" where
  "normalize_onion_host host = remove_suffix (py_lower host) ''.onion''"

section \<open>Case\<close>

lemma lower_char_code:
  "code_of (lower_char c) = (if 65 \<le> code_of c \<and> code_of c \<le> 90 \<or> 192 \<le> code_of c \<and> code_of c \<le> 222 \<and> code_of c \<noteq> 215
     then code_of c + 32 else code_of c)"
  by (auto simp: lower_char_def Let_def)

lemma lower_lower [simp]: "py_lower (py_lower s) = py_lower s"
proof -
  have "lower_char (lower_char c) = lower_char c" for c
    by (simp add: code_of_inj [symmetric] lower_char_code)
  then show ?thesis by (simp add: py_lower_def)
qed

lemma upper_ascii: "code_of c < 128 \<Longrightarrow>
  \<exists>d. upper_char c = [d] \<and> code_of d = (if 97 \<le> code_of c \<and> code_of c \<le> 122 then code_of c - 32 else code_of c)"
  by (auto simp: upper_char_def Let_def)

lemma lower_upper_ascii:
  "is_ascii s \<Longrightarrow> py_lower (py_upper s) = py_lower s \<and> length (py_upper s) = length s \<and> is_ascii (py_upper s)"
proof (induction s)
  case (Cons c s)
  then have c: "code_of c < 128" by (simp add: is_ascii_def)
  obtain d where d: "upper_char c = [d]"
    "code_of d = (if 97 \<le> code_of c \<and> code_of c \<le> 122 then code_of c - 32 else code_of c)"
    using upper_ascii [OF c] by blast
  have "lower_char d = lower_char c" "code_of d < 128"
    using d(2) c by (auto simp: code_of_inj [symmetric] lower_char_code)
  then show ?case using Cons d(1) by (simp add: py_upper_def py_lower_def is_ascii_def)
qed (simp add: py_upper_def py_lower_def is_ascii_def)

lemma upper_lower_digits: "py_upper (py_lower (b32_encode bs)) = b32_encode bs"
proof -
  have c: "upper_char (lower_char c) = [c]" if "c \<in> set (b32_encode bs)" for c
  proof -
    obtain n where n: "n < 32" "c = b32_digit n" using b32_encode_chars [OF \<open>c \<in> _\<close>] by blast
    then have "code_of c = (if n < 26 then n + 65 else n + 24)" by (simp add: b32_digit_def)
    then have "code_of c < 91" "65 \<le> code_of c \<or> code_of c < 58" using n(1) by (auto split: if_splits)
    then have "upper_char (lower_char c) = [char_at (code_of c)]"
      by (auto simp: upper_char_def lower_char_def Let_def)
    then show ?thesis by simp
  qed
  have "concat (map upper_char (map lower_char s)) = s" if "\<forall>c \<in> set s. upper_char (lower_char c) = [c]" for s
    using that by (induction s) auto
  then show ?thesis using c by (simp add: py_upper_def py_lower_def)
qed

lemma b32_plain: "n < 32 \<Longrightarrow> \<not> is_space (b32_digit n)"
  by (auto simp: is_space_def b32_digit_def Let_def)

lemma b32_lower_plain: "n < 32 \<Longrightarrow> \<not> is_space (lower_char (b32_digit n)) \<and> lower_char (b32_digit n) \<noteq> CHR ''.''"
proof -
  assume n: "n < 32"
  then have "code_of (b32_digit n) = (if n < 26 then n + 65 else n + 24)" by (simp add: b32_digit_def)
  then have c: "code_of (lower_char (b32_digit n)) = (if n < 26 then n + 97 else n + 24)"
    using n by (simp add: lower_char_code)
  moreover have "code_of CHR ''.'' = 46" by (simp add: code_of_def)
  ultimately show ?thesis using n by (auto simp: is_space_def Let_def code_of_inj [symmetric] split: if_splits)
qed

lemma b32_groups_length: "opt_map b32_group gs = Some bs \<Longrightarrow> \<forall>b \<in> set bs. length b = 5"
  by (induction gs arbitrary: bs) (auto simp: b32_group_def split: option.splits)

lemma b32_decode_sound:
  assumes d: "b32_decode s = Inr bs" and l: "length s = 56"
  shows "length bs < 35 \<or> length bs = 35 \<and> b32_encode bs = s"
proof -
  let ?t = "py_rstrip (\<lambda>c. c = CHR ''='') s"
  have tl: "length ?t \<le> length s" using length_dropWhile_le [of _ "rev s"] by (simp add: py_rstrip_def)
  show ?thesis
  proof (cases "length s - length ?t = 0")
    case True
    obtain u where u: "s = ?t @ u" by (metis py_rstrip_def rev_append rev_rev_ident takeWhile_dropWhile_id)
    then have "length s = length ?t + length u" by (metis length_append)
    then have "u = []" using True by simp
    then have ts: "?t = s" using u by simp
    have g: "\<forall>g \<in> set (groups 8 s). length g = 8" "concat (groups 8 s) = s"
      using groups_full [of 8 s] l by auto
    have gl: "length (groups 8 s) = 7" using length_groups [of 8 s] l by simp
    from d True ts obtain gs where gs: "opt_map b32_group (groups 8 s) = Some gs" "bs = concat gs"
      by (auto simp: b32_decode_def Let_def split: if_splits option.splits)
    then have a2: "list_all2 (\<lambda>x y. b32_group x = Some y) (groups 8 s) gs" by (simp add: opt_map_iff)
    then have n: "length gs = 7" "\<forall>i < 7. length (gs ! i) = 5
        \<and> map b32_digit (digits 32 8 (bytes_nat (gs ! i))) = groups 8 s ! i"
      using gl g(1) b32_group_digits by (auto simp: list_all2_conv_all_nth)
    have g5: "\<forall>x \<in> set gs. length x = 5" using n by (auto simp: in_set_conv_nth)
    have "map (\<lambda>g. map b32_digit (digits 32 8 (bytes_nat g))) gs = groups 8 s"
      using n gl by (intro nth_equalityI) auto
    then have "b32_encode bs = s"
      using g(2) gs(2) g5 by (simp add: b32_encode_def groups_concat)
    then show ?thesis using gs(2) g5 n(1) length_concat_const [of gs 5] by simp
  next
    case False
    let ?pad = "length s - length ?t"
    from d False obtain gs x where p: "?pad \<in> {1, 3, 4, 6}"
      and gs: "opt_map b32_group (groups 8 ?t) = Some gs" and x: "b32_last (last (groups 8 ?t)) ?pad = Some x"
      and bs: "bs = concat (butlast gs) @ x"
      by (auto simp: b32_decode_def Let_def split: if_splits option.splits)
    have "length gs = length (groups 8 ?t)" using gs by (auto simp: opt_map_iff dest: list_all2_lengthD)
    then have "length (butlast gs) \<le> 6" using groups_count [of 8 ?t] tl l by simp
    moreover have "\<forall>g \<in> set (butlast gs). length g = 5"
      using b32_groups_length [OF gs] by (auto dest: in_set_butlastD)
    ultimately have "length (concat (butlast gs)) \<le> 30" using length_concat_const [of "butlast gs" 5] by simp
    moreover have "length x \<le> 4" using x p by (auto simp: b32_last_def)
    ultimately show ?thesis by (simp add: bs)
  qed
qed

section \<open>What the parser accepts\<close>

lemma onion_payload_length: "prims_ok P \<Longrightarrow> length k = 32 \<Longrightarrow> length (onion_payload P k) = 35"
  by (simp add: onion_payload_def onion_checksum_def sha3_256_def prims_okD)

lemma onion_label_decodes:
  assumes "prims_ok P" "length k = 32"
  shows "b32_decode (py_upper (onion_label P k)) = Inr (onion_payload P k)"
    "length (onion_label P k) = 56"
proof -
  have m: "length (onion_payload P k) mod 5 = 0" using onion_payload_length [OF assms] by simp
  show "b32_decode (py_upper (onion_label P k)) = Inr (onion_payload P k)"
    using b32_decode_encode [OF m] by (simp add: onion_label_def upper_lower_digits)
  show "length (onion_label P k) = 56"
    using b32_encode_length [OF m] onion_payload_length [OF assms] by (simp add: onion_label_def py_lower_def)
qed

lemma parse_address_complete:
  assumes P: "prims_ok P" and k: "length k = 32" "is_torsion_free P k" and l: "address_label a = onion_label P k"
  shows "parse_address P a = Inr k"
proof -
  have len: "length (onion_payload P k) = 35" by (rule onion_payload_length [OF P k(1)])
  have c: "length (onion_checksum P k 3) = 2" by (simp add: onion_checksum_def sha3_256_def prims_okD [OF P])
  have parts: "take 32 (onion_payload P k) = k" "py_slice 32 34 (onion_payload P k) = onion_checksum P k 3"
    "onion_payload P k ! 34 = 3"
    using k(1) c by (simp_all add: onion_payload_def py_slice_def nth_append)
  show ?thesis
    using onion_label_decodes [OF P k(1)] len k(2)
    by (simp add: parse_address_def l LABEL_LENGTH_def parts)
qed

lemma address_label_lower: "py_lower (address_label a) = address_label a"
proof -
  have s: "py_lower t = t" if "set t \<subseteq> set (py_lower s)" for s t
  proof -
    have "lower_char (lower_char c) = lower_char c" for c
      by (simp add: code_of_inj [symmetric] lower_char_code)
    then have "\<forall>c \<in> set (py_lower s). lower_char c = c" by (auto simp: py_lower_def)
    then show ?thesis using that by (auto simp: py_lower_def intro: map_idI)
  qed
  have "set (after_last c t) \<subseteq> set t" for c :: char and t
    using set_takeWhileD [of _ _ "rev t"] by (auto simp: after_last_def)
  then show ?thesis
    using set_take_subset unfolding address_label_def Let_def by (intro s [of _ "py_strip a"]) (auto dest!: subsetD in_set_takeD)
qed

lemma parse_address_sound:
  assumes P: "prims_ok P" and a: "is_ascii (address_label a)" and p: "parse_address P a = Inr k"
  shows "length k = 32 \<and> is_torsion_free P k \<and> address_label a = onion_label P k"
proof -
  let ?l = "address_label a"
  from p obtain bs where len: "length ?l = 56" and d: "b32_decode (py_upper ?l) = Inr bs"
    and l34: "34 < length bs" and v: "uint (bs ! 34) = 3"
    and chk: "onion_checksum P (take 32 bs) 3 = py_slice 32 34 bs"
    and tor: "is_torsion_free P (take 32 bs)" and k: "k = take 32 bs"
    by (auto simp: parse_address_def Let_def LABEL_LENGTH_def rcatch_Inr_iff byte_at_Inr_iff split: if_splits)
  note u = lower_upper_ascii [OF a]
  from b32_decode_sound [OF d] len u l34 have b: "length bs = 35" "b32_encode bs = py_upper ?l" by auto
  have "bs ! 34 = 3" using v by (metis of_int_numeral word_of_int_uint)
  moreover have "bs = take 32 bs @ py_slice 32 34 bs @ [bs ! 34]"
  proof -
    have "drop 34 bs = [bs ! 34]" using b(1) by (simp add: Cons_nth_drop_Suc [symmetric])
    then show ?thesis using take_slice_drop [of 32 34 bs] b(1) by simp
  qed
  ultimately have "bs = onion_payload P k" using chk by (simp add: onion_payload_def k)
  then have "onion_label P k = py_lower (py_upper ?l)" using b(2) by (simp add: onion_label_def)
  then show ?thesis using u tor b(1) by (simp add: k address_label_lower)
qed

text \<open>C38: the address parser accepts exactly the canonical addresses: an ASCII label yields an identity key just
when the key is 32 bytes and a point of the prime-order subgroup and the label is, case aside, the
encoding of that key with its checksum and version; so no key has two labels and no label two keys.\<close>

theorem parse_address_exact:
  assumes "prims_ok P" "is_ascii (address_label a)"
  shows "parse_address P a = Inr k \<longleftrightarrow>
    length k = 32 \<and> is_torsion_free P k \<and> address_label a = onion_label P k"
  using parse_address_sound [OF assms, of k] parse_address_complete [OF assms(1), of k a] by blast

lemma py_lower_append: "py_lower (x @ y) = py_lower x @ py_lower y"
  by (simp add: py_lower_def)

lemma py_strip_plain: "\<forall>c \<in> set t. \<not> is_space c \<Longrightarrow> py_strip t = t"
  using rstrip_none [of t is_space] by (cases t) (auto simp: py_strip_def py_lstrip_def)

lemma py_strip_suffixed: "py_strip (u @ ONION_SUFFIX) = dropWhile is_space (u @ ONION_SUFFIX)"
proof -
  have "py_rstrip is_space (u @ ONION_SUFFIX) = u @ ONION_SUFFIX"
    unfolding py_rstrip_def ONION_SUFFIX_def by (simp add: is_space_def code_of_def)
  then show ?thesis by (simp add: py_strip_def py_lstrip_def)
qed

text \<open>White space at the front of a subdomain is all that stripping can take of it.\<close>

lemma strip_keeps_tail: "\<exists>u. dropWhile is_space (sub @ ''.'' @ t) = u @ ''.'' @ t"
proof (induction sub)
  case Nil
  have "\<not> is_space CHR ''.''" by code_simp
  then show ?case by auto
qed auto

lemma onion_label_chars:
  "c \<in> set (onion_label P k) \<Longrightarrow> \<not> is_space c \<and> c \<noteq> CHR ''.''"
  "c \<in> set (b32_encode (onion_payload P k)) \<Longrightarrow> \<not> is_space c"
  by (auto simp: onion_label_def py_lower_def b32_lower_plain b32_plain dest!: b32_encode_chars)

lemma onion_label_lower:
  "py_lower (onion_label P k) = onion_label P k" "py_lower (b32_encode (onion_payload P k)) = onion_label P k"
  by (simp_all add: onion_label_def)

lemma after_last_label:
  "after_last CHR ''.'' (onion_label P k) = onion_label P k"
  "after_last CHR ''.'' (x @ ''.'' @ onion_label P k) = onion_label P k"
  using onion_label_chars(1) [of _ P k] by (auto intro!: after_last_none after_last_append)

lemma label_without_suffix:
  assumes "py_strip t = t" "py_lower t = onion_label P k"
  shows "address_label t = onion_label P k"
proof -
  have "\<not> ends_with (onion_label P k) ONION_SUFFIX"
  proof
    assume "ends_with (onion_label P k) ONION_SUFFIX"
    then obtain t where "onion_label P k = t @ ''.onion''" by (auto simp: ends_with_iff ONION_SUFFIX_def)
    then have "CHR ''.'' \<in> set (onion_label P k)" by simp
    then show False using onion_label_chars(1) [of "CHR ''.''" P k] by simp
  qed
  then show ?thesis unfolding address_label_def assms Let_def using after_last_label(1) by simp
qed

lemma label_of_hostname:
  assumes "onion_label P k \<noteq> []"
  shows "address_label (onion_label P k @ ONION_SUFFIX) = onion_label P k"
proof -
  have "dropWhile is_space (onion_label P k @ t) = onion_label P k @ t" for t
    using assms onion_label_chars(1) [of _ P k] by (cases "onion_label P k") auto
  moreover have "py_lower ONION_SUFFIX = ONION_SUFFIX" by code_simp
  ultimately show ?thesis
    by (simp add: address_label_def py_strip_suffixed onion_label_lower py_lower_append after_last_label)
qed

lemma label_of_subdomain: "address_label (sub @ ''.'' @ onion_label P k @ ONION_SUFFIX) = onion_label P k"
proof -
  have low: "py_lower ONION_SUFFIX = ONION_SUFFIX" "py_lower ''.'' = ''.''" by code_simp+
  obtain u where u: "dropWhile is_space (sub @ ''.'' @ onion_label P k @ ONION_SUFFIX) = u @ ''.'' @ onion_label P k @ ONION_SUFFIX"
    using strip_keeps_tail [of sub "onion_label P k @ ONION_SUFFIX"] by auto
  have h: "py_lower (py_strip (sub @ ''.'' @ onion_label P k @ ONION_SUFFIX)) = (py_lower u @ ''.'' @ onion_label P k) @ ONION_SUFFIX"
    using py_strip_suffixed [of "sub @ ''.'' @ onion_label P k"] unfolding append_assoc u
    by (simp only: py_lower_append onion_label_lower low append_assoc)
  show ?thesis
    unfolding address_label_def h Let_def using after_last_label(2) [of "py_lower u"] by (simp del: append_assoc)
qed

text \<open>An address survives encoding: the hostname of a valid key parses back to the key, also with a
subdomain in front, in capitals, and without the suffix.\<close>

theorem encoded_address_parses:
  assumes P: "prims_ok P" and k: "length k = 32" "is_torsion_free P k"
    and a: "a \<in> {onion_label P k, onion_hostname P k, sub @ ''.'' @ onion_hostname P k, b32_encode (onion_payload P k)}"
  shows "parse_address P a = Inr k"
proof (rule parse_address_complete [OF P k])
  have ne: "onion_label P k \<noteq> []" using onion_label_decodes(2) [OF P k(1)] by auto
  consider "a = onion_label P k" | "a = onion_label P k @ ONION_SUFFIX" | "a = sub @ ''.'' @ onion_label P k @ ONION_SUFFIX"
    | "a = b32_encode (onion_payload P k)"
    using a by (auto simp only: onion_hostname_def insert_iff empty_iff)
  then show "address_label a = onion_label P k"
  proof cases
    case 1
    show ?thesis unfolding 1 by (rule label_without_suffix [OF py_strip_plain onion_label_lower(1)]) (use onion_label_chars(1) in blast)
  next
    case 2
    show ?thesis unfolding 2 by (rule label_of_hostname [OF ne])
  next
    case 3
    show ?thesis unfolding 3 by (rule label_of_subdomain)
  next
    case 4
    show ?thesis unfolding 4
      by (rule label_without_suffix [OF py_strip_plain onion_label_lower(2)]) (use onion_label_chars(2) in blast)
  qed
qed

text \<open>A label of 56 characters need not decode to 35 bytes: with base32 padding it decodes to less, and the
version is read out of range. The exception is not an \<open>InvalidOnionAddress\<close>.\<close>

lemma padded_label_raises_IndexError:
  "parse_address P (replicate 55 (CHR ''a'') @ ''='') = Inl IndexError"
proof -
  have "length (address_label (replicate 55 (CHR ''a'') @ ''='')) = LABEL_LENGTH" by code_simp
  moreover have "b32_decode (py_upper (address_label (replicate 55 (CHR ''a'') @ ''=''))) = Inr (replicate 34 0)"
    by code_simp
  ultimately show ?thesis by (simp add: parse_address_def byte_at_def)
qed

theorem parse_address_exact_witness:
  "parse_address toy_prims ''www.example.onion'' \<noteq> Inr (zeros 32)"
proof -
  have "is_ascii (address_label ''www.example.onion'')" "length (address_label ''www.example.onion'') \<noteq> 56"
    by code_simp+
  with parse_address_exact [OF toy_prims_ok, of "''www.example.onion''" "zeros 32"]
    onion_label_decodes(2) [OF toy_prims_ok, of "zeros 32"] show ?thesis by auto
qed

theorem encoded_address_parses_witness:
  "parse_address toy_prims (''www'' @ ''.'' @ onion_hostname toy_prims (zeros 32)) = Inr (zeros 32)"
proof (rule encoded_address_parses [OF toy_prims_ok, where sub = "''www''"])
  show "is_torsion_free toy_prims (zeros 32)" by (simp add: is_torsion_free_def toy_prims_def)
qed simp_all

end
