(* ===== verification/DirModels.thy ===== *)
theory DirModels
  imports PyText Complex_Main
begin

text \<open>
  The typed views of the directory documents (\<open>_dir/models.py\<close>), the directory authorities
  (\<open>_dir/authorities.py\<close>) and the rule for a relay's usable identity (\<open>_dir/microdesc.py\<close>). Instants are
  seconds since the epoch; a \<open>datetime\<close> argument may also be naive, which the callers reject.
\<close>

datatype py_datetime = Naive | Aware real

record exit_policy =
  ep_accept :: bool
  ep_ports :: "(int \<times> int) list"

definition policy_allows :: "exit_policy \<Rightarrow> int \<Rightarrow> bool" where
  "policy_allows p port =
    (let listed = list_ex (\<lambda>(low, high). low \<le> port \<and> port \<le> high) (ep_ports p)
     in if ep_accept p then listed else \<not> listed)"

record microdescriptor =
  md_digest :: bytes
  md_ntor_onion_key :: bytes
  md_ed25519_id :: "bytes option"
  md_exit_policy :: "exit_policy option"
  md_family :: "string set"

record router_status =
  rs_nickname :: string
  rs_fingerprint :: bytes
  rs_address :: string
  rs_or_port :: int
  rs_dir_port :: int
  rs_flags :: "string set"
  rs_bandwidth :: int
  rs_md_digest :: "bytes option"
  rs_ed_identity :: "bytes option"
  rs_microdescriptor :: "microdescriptor option"

definition is_guard :: "router_status \<Rightarrow> bool" where
  "is_guard r \<longleftrightarrow> ''Guard'' \<in> rs_flags r"

definition is_exit :: "router_status \<Rightarrow> bool" where
  "is_exit r \<longleftrightarrow> ''Exit'' \<in> rs_flags r \<and> ''BadExit'' \<notin> rs_flags r"

definition is_hsdir :: "router_status \<Rightarrow> bool" where
  "is_hsdir r \<longleftrightarrow> ''HSDir'' \<in> rs_flags r"

definition is_v2dir :: "router_status \<Rightarrow> bool" where
  "is_v2dir r \<longleftrightarrow> ''V2Dir'' \<in> rs_flags r"

record consensus_signature =
  cs_algorithm :: string
  cs_identity :: bytes
  cs_signing_key_digest :: bytes
  cs_signature :: bytes

record consensus =
  con_valid_after :: real
  con_fresh_until :: real
  con_valid_until :: real
  con_routers :: "router_status list"
  con_params :: "(string \<times> int) list"
  con_bandwidth_weights :: "(string \<times> int) list"
  con_srv_current :: "bytes option"
  con_srv_previous :: "bytes option"
  con_signatures :: "consensus_signature list"

definition is_live :: "consensus \<Rightarrow> real \<Rightarrow> bool" where
  "is_live c now \<longleftrightarrow> con_valid_after c \<le> now \<and> now \<le> con_valid_until c"

record directory_authority =
  da_nickname :: string
  da_v3ident :: bytes
  da_dir_address :: "string \<times> int"
  da_signing_key_pem :: "bytes option"

definition with_signing_key :: "directory_authority \<Rightarrow> bytes \<Rightarrow> directory_authority" where
  "with_signing_key a pem = a\<lparr>da_signing_key_pem := Some pem\<rparr>"

text \<open>\<open>_authority\<close>; the identities are hexadecimal literals of the source.\<close>

definition make_authority :: "string \<Rightarrow> string \<Rightarrow> string \<Rightarrow> int \<Rightarrow> directory_authority res" where
  "make_authority nickname v3ident_hex host dir_port =
    rbind (from_hex v3ident_hex) (\<lambda>ident.
      Inr \<lparr>da_nickname = nickname, da_v3ident = ident, da_dir_address = (host, dir_port), da_signing_key_pem = None\<rparr>)"

definition DEFAULT_AUTHORITIES :: "directory_authority list res" where
  "DEFAULT_AUTHORITIES = rmap (\<lambda>(n, i, h, p). make_authority n i h p)
    [(''moria1'', ''F533C81CEF0BC0267857C99B2F471ADF249FA232'', ''128.31.0.39'', 9231),
     (''tor26'', ''2F3DF9CA0E5D36F2685A2DA67184EB8DCB8CBA8C'', ''217.196.147.77'', 80),
     (''dizum'', ''E8A9C45EDE6D711294FADF8E7951F4DE6CA56B58'', ''45.66.35.11'', 80),
     (''gabelmoo'', ''ED03BB616EB2F60BEC80151114BB25CEF515B226'', ''131.188.40.189'', 80),
     (''dannenberg'', ''0232AF901C31A04EE9848595AF9BB7620D4C5B2E'', ''193.23.244.244'', 80),
     (''maatuska'', ''49015F787433103580E3B66A1707A00E60F2D15B'', ''171.25.193.9'', 443),
     (''longclaw'', ''23D15D965BC35114467363C165C4F724B64B4F66'', ''199.58.81.140'', 80),
     (''bastet'', ''27102BC123E7AF1D4741AE047E160C91ADC76B21'', ''204.13.164.118'', 80),
     (''faravahar'', ''70849B868D606BAECFB6128C5E3D782029AA394F'', ''216.218.219.41'', 80)]"

definition usable_ed_identity :: "string set \<Rightarrow> microdescriptor \<Rightarrow> bytes option" where
  "usable_ed_identity flags md = (if ''NoEdConsensus'' \<notin> flags then md_ed25519_id md else None)"

end
