(* ===== verification/PathSelect.thy ===== *)
theory PathSelect
  imports DirModels "HOL-Library.AList"
begin

text \<open>
  Bandwidth-weighted path selection (\<open>_dir/pathselect.py\<close>). The generator is an argument: one draw
  \<open>random()\<close> and one \<open>randrange\<close> per choice. Bandwidths and factors are real numbers, so the rounding of
  the floating-point sums is left out.
\<close>

definition GUARD_FLAGS :: "string set" where
  "GUARD_FLAGS = {''Guard'', ''Stable'', ''Fast'', ''V2Dir'', ''Running'', ''Valid''}"

definition MIDDLE_FLAGS :: "string set" where
  "MIDDLE_FLAGS = {''Running'', ''Valid''}"

definition DEFAULT_BWWEIGHTSCALE :: int where
  "DEFAULT_BWWEIGHTSCALE = 10000"

definition WEIGHTED_POSITIONS :: "string list" where
  "WEIGHTED_POSITIONS = [''guard'', ''middle'', ''exit'']"

definition POSITION_WEIGHT_KEYS :: "(string \<times> (string \<times> string) list) list" where
  "POSITION_WEIGHT_KEYS =
    [(''guard'', [(''guard'', ''Wgg''), (''middle'', ''Wgm''), (''dual'', ''Wgd'')]),
     (''middle'', [(''guard'', ''Wmg''), (''middle'', ''Wmm''), (''exit'', ''Wme''), (''dual'', ''Wmd'')]),
     (''exit'', [(''guard'', ''Weg''), (''middle'', ''Wem''), (''exit'', ''Wee''), (''dual'', ''Wed'')])]"

definition flag_class :: "router_status \<Rightarrow> string" where
  "flag_class router =
    (let is_guard = ''Guard'' \<in> rs_flags router; is_exit = is_exit router in
     if is_guard \<and> is_exit then ''dual''
     else if is_guard then ''guard''
     else if is_exit then ''exit''
     else ''middle'')"

record bandwidth_weights =
  bw_weights :: "(string \<times> int) list"
  bw_scale :: int

definition weight_factor :: "bandwidth_weights \<Rightarrow> router_status \<Rightarrow> string \<Rightarrow> real res" where
  "weight_factor W router position =
    (case map_of POSITION_WEIGHT_KEYS position of
       None \<Rightarrow> Inr 1
     | Some keys \<Rightarrow>
        (case map_of keys (flag_class router) of
           None \<Rightarrow> Inr 0
         | Some key \<Rightarrow>
            (case map_of (bw_weights W) key of
               None \<Rightarrow> Inl ConsensusError
             | Some w \<Rightarrow> if bw_scale W = 0 then Inl ZeroDivisionError else Inr (real_of_int w / real_of_int (bw_scale W)))))"

record rng_draw =
  rd_random :: real
  rd_randrange :: "nat \<Rightarrow> nat"

definition draw_ok :: "rng_draw \<Rightarrow> bool" where
  "draw_ok d \<longleftrightarrow> 0 \<le> rd_random d \<and> rd_random d < 1 \<and> (\<forall>n > 0. rd_randrange d n < n)"

definition effective_weights :: "router_status list \<Rightarrow> string \<Rightarrow> bandwidth_weights option \<Rightarrow> real list res" where
  "effective_weights candidates position weights =
    (case weights of
       None \<Rightarrow> Inr (map (\<lambda>r. real_of_int (rs_bandwidth r)) candidates)
     | Some W \<Rightarrow> rmap (\<lambda>r. rbind (weight_factor W r position) (\<lambda>f. Inr (real_of_int (rs_bandwidth r) * f))) candidates)"

text \<open>The loop over \<open>zip(candidates, effective)\<close>; \<open>None\<close> when it ends without returning.\<close>

fun choice_loop :: "real \<Rightarrow> real \<Rightarrow> ('r \<times> real) list \<Rightarrow> 'r option" where
  "choice_loop point accumulated [] = None"
| "choice_loop point accumulated ((router, weight) # rest) =
    (if point < accumulated + weight then Some router else choice_loop point (accumulated + weight) rest)"

definition bandwidth_weighted_choice ::
  "rng_draw \<Rightarrow> router_status list \<Rightarrow> string \<Rightarrow> bandwidth_weights option \<Rightarrow> router_status res" where
  "bandwidth_weighted_choice d candidates position weights =
    (if candidates = [] then Inl ConsensusError
     else rbind (effective_weights candidates position weights) (\<lambda>effective.
       let total = sum_list effective in
       if total \<le> 0 then Inr (candidates ! rd_randrange d (length candidates))
       else case choice_loop (rd_random d * total) 0 (zip candidates effective) of
              Some router \<Rightarrow> Inr router
            | None \<Rightarrow> Inr (last candidates)))"

definition normalize_family :: "string set \<Rightarrow> string set" where
  "normalize_family entries =
    (\<lambda>entry. py_upper (fst (partition_char CHR ''~'' (fst (partition_char CHR ''='' (tl entry))))))
      ` {entry \<in> entries. starts_with entry ''$''}"

definition family_conflict :: "bytes \<Rightarrow> string set \<Rightarrow> bytes \<Rightarrow> string set \<Rightarrow> bool" where
  "family_conflict fp_a family_a fp_b family_b \<longleftrightarrow>
     py_upper (bytes_hex fp_b) \<in> family_a \<or> py_upper (bytes_hex fp_a) \<in> family_b"

definition family_ids :: "router_status \<Rightarrow> string set" where
  "family_ids router =
    (case rs_microdescriptor router of None \<Rightarrow> {} | Some md \<Rightarrow> normalize_family (md_family md))"

definition same_family :: "router_status \<Rightarrow> router_status \<Rightarrow> bool" where
  "same_family a b = family_conflict (rs_fingerprint a) (family_ids a) (rs_fingerprint b) (family_ids b)"

definition same_subnet :: "router_status \<Rightarrow> router_status \<Rightarrow> bool" where
  "same_subnet a b \<longleftrightarrow> take 2 (split_char CHR ''.'' (rs_address a)) = take 2 (split_char CHR ''.'' (rs_address b))"

definition conflicts :: "router_status \<Rightarrow> router_status \<Rightarrow> bool" where
  "conflicts candidate chosen \<longleftrightarrow>
     rs_fingerprint candidate = rs_fingerprint chosen \<or> same_subnet candidate chosen \<or> same_family candidate chosen"

record path_selector =
  ps_routers :: "router_status list"
  ps_weights :: "bandwidth_weights option"

definition pick ::
  "path_selector \<Rightarrow> rng_draw \<Rightarrow> string set \<Rightarrow> router_status list \<Rightarrow> string \<Rightarrow> router_status res" where
  "pick ps d required exclude position =
    (let candidates = filter (\<lambda>router. required \<subseteq> rs_flags router \<and> \<not> list_ex (conflicts router) exclude) (ps_routers ps);
         weights = (if position \<in> set WEIGHTED_POSITIONS then ps_weights ps else None)
     in bandwidth_weighted_choice d candidates position weights)"

definition is_usable_guard :: "router_status \<Rightarrow> router_status list \<Rightarrow> bool" where
  "is_usable_guard router exclude \<longleftrightarrow> GUARD_FLAGS \<subseteq> rs_flags router \<and> \<not> list_ex (conflicts router) exclude"

definition select_guard ::
  "path_selector \<Rightarrow> rng_draw \<Rightarrow> router_status list \<Rightarrow> router_status list \<Rightarrow> router_status res" where
  "select_guard ps d exclude prefer =
    (case find (\<lambda>candidate. is_usable_guard candidate exclude) prefer of
       Some candidate \<Rightarrow> Inr candidate
     | None \<Rightarrow> pick ps d GUARD_FLAGS exclude ''guard'')"

definition select_middle :: "path_selector \<Rightarrow> rng_draw \<Rightarrow> router_status list \<Rightarrow> router_status res" where
  "select_middle ps d exclude = pick ps d MIDDLE_FLAGS exclude ''middle''"

definition example_router :: "byte \<Rightarrow> string \<Rightarrow> string set \<Rightarrow> int \<Rightarrow> router_status" where
  "example_router n address flags bandwidth =
    \<lparr>rs_nickname = ''r'', rs_fingerprint = replicate 20 n, rs_address = address, rs_or_port = 9001, rs_dir_port = 0,
     rs_flags = flags, rs_bandwidth = bandwidth, rs_md_digest = None, rs_ed_identity = None,
     rs_microdescriptor = None\<rparr>"

definition example_draw :: rng_draw where
  "example_draw = \<lparr>rd_random = 1 / 2, rd_randrange = (\<lambda>n. 0)\<rparr>"

lemma example_draw_ok: "draw_ok example_draw"
  by (simp add: draw_ok_def example_draw_def)

section \<open>The choice\<close>

lemma choice_loop_Some:
  "length cs = length ws \<Longrightarrow> list_all ((\<le>) 0) ws \<Longrightarrow> acc \<le> point \<Longrightarrow> point < acc + sum_list ws \<Longrightarrow>
    \<exists>i < length cs. choice_loop point acc (zip cs ws) = Some (cs ! i)
      \<and> acc + sum_list (take i ws) \<le> point \<and> point < acc + sum_list (take (Suc i) ws)"
proof (induction cs ws arbitrary: acc rule: list_induct2)
  case (Cons c cs w ws)
  show ?case
  proof (cases "point < acc + w")
    case True
    then show ?thesis using Cons.prems by (intro exI [of _ 0]) simp
  next
    case False
    with Cons.IH [of "acc + w"] Cons.prems obtain i where
      "i < length cs" "choice_loop point (acc + w) (zip cs ws) = Some (cs ! i)"
      "acc + w + sum_list (take i ws) \<le> point" "point < acc + w + sum_list (take (Suc i) ws)"
      by (auto simp: add.assoc)
    then show ?thesis using False by (intro exI [of _ "Suc i"]) (simp add: add.assoc)
  qed
qed simp

text \<open>Relays are drawn with probability proportional to their weight: for non-negative weights with a positive
sum the relay drawn by a random number \<open>u\<close> is the one whose interval, of length its share of the weights,
contains \<open>u\<close>; so a relay of weight zero is never drawn, and the fallback to the last relay is never taken.\<close>

theorem choice_is_proportional:
  assumes d: "draw_ok d" and w: "effective_weights candidates position weights = Inr ws"
    and pos: "list_all ((\<le>) 0) ws" "0 < sum_list ws"
  shows "\<exists>i < length candidates. bandwidth_weighted_choice d candidates position weights = Inr (candidates ! i)
    \<and> sum_list (take i ws) / sum_list ws \<le> rd_random d
    \<and> rd_random d < sum_list (take i ws) / sum_list ws + ws ! i / sum_list ws \<and> 0 < ws ! i"
proof -
  have len: "length candidates = length ws"
    using w by (auto simp: effective_weights_def rmap_Inr_iff dest: list_all2_lengthD split: option.splits)
  have ne: "candidates \<noteq> []" using pos(2) len by auto
  let ?p = "rd_random d * sum_list ws"
  have p: "0 \<le> ?p" "?p < 0 + sum_list ws" using d pos(2) by (simp_all add: draw_ok_def)
  obtain i where i: "i < length candidates"
    "choice_loop ?p 0 (zip candidates ws) = Some (candidates ! i)"
    "0 + sum_list (take i ws) \<le> ?p" "?p < 0 + sum_list (take (Suc i) ws)"
    using choice_loop_Some [OF len pos(1) p] by blast
  have s: "sum_list (take (Suc i) ws) = sum_list (take i ws) + ws ! i"
    using i(1) len by (simp add: take_Suc_conv_app_nth)
  have "sum_list (take i ws) / sum_list ws \<le> rd_random d"
    "rd_random d < sum_list (take i ws) / sum_list ws + ws ! i / sum_list ws"
    using i(3,4) pos(2) s by (simp_all add: pos_divide_le_eq pos_less_divide_eq add_divide_distrib [symmetric])
  moreover have "0 < ws ! i" using i(3,4) s by simp
  moreover have "bandwidth_weighted_choice d candidates position weights = Inr (candidates ! i)"
    using ne w pos(2) i(2) by (simp add: bandwidth_weighted_choice_def Let_def)
  ultimately show ?thesis using i(1) by blast
qed

lemma choice_is_proportional_witness:
  "let candidates = [example_router 1 ''10.1.0.1'' {} 100, example_router 2 ''10.2.0.1'' {} 300] in
   \<exists>i < length candidates. bandwidth_weighted_choice example_draw candidates ''relay'' None = Inr (candidates ! i)
    \<and> sum_list (take i [100, 300]) / sum_list [100, 300] \<le> rd_random example_draw
    \<and> rd_random example_draw < sum_list (take i [100, 300]) / sum_list [100, 300] + [100, 300 :: real] ! i / sum_list [100, 300]
    \<and> 0 < [100, 300 :: real] ! i"
  unfolding Let_def
  by (rule choice_is_proportional [OF example_draw_ok])
    (simp_all add: effective_weights_def example_router_def)

lemma choice_loop_mem: "choice_loop p acc (zip cs ws) = Some r \<Longrightarrow> r \<in> set cs"
proof (induction cs ws arbitrary: acc rule: list_induct2')
  case (4 c cs w ws)
  then show ?case by (auto split: if_splits)
qed simp_all

lemma choice_mem:
  "draw_ok d \<Longrightarrow> bandwidth_weighted_choice d candidates position weights = Inr r \<Longrightarrow> r \<in> set candidates"
  by (auto simp: bandwidth_weighted_choice_def Let_def draw_ok_def
      split: if_splits option.splits dest: choice_loop_mem)

lemma weight_factor_raises: "raises_only {ConsensusError, ZeroDivisionError} (weight_factor W r p)"
  by (auto simp: weight_factor_def raises_only_def split: option.splits)

lemma choice_raises:
  "raises_only {ConsensusError, ZeroDivisionError} (bandwidth_weighted_choice d candidates position weights)"
  unfolding bandwidth_weighted_choice_def effective_weights_def Let_def
  by (intro raises_intros weight_factor_raises) (auto intro: raises_intros)

section \<open>Disjoint paths\<close>

lemma conflicts_sym: "conflicts a b \<longleftrightarrow> conflicts b a"
  by (auto simp: conflicts_def same_subnet_def same_family_def family_conflict_def)

lemma pick_sound:
  assumes "draw_ok d" and "pick ps d required exclude position = Inr r"
  shows "r \<in> set (ps_routers ps) \<and> required \<subseteq> rs_flags r \<and> (\<forall>x \<in> set exclude. \<not> conflicts r x)"
proof -
  have "r \<in> set (filter (\<lambda>router. required \<subseteq> rs_flags router \<and> \<not> list_ex (conflicts router) exclude) (ps_routers ps))"
    using assms by (intro choice_mem) (simp_all add: pick_def Let_def)
  then show ?thesis by (simp add: list_ex_iff)
qed

definition disjoint_path :: "router_status list \<Rightarrow> bool" where
  "disjoint_path path = sorted_wrt (\<lambda>a b. \<not> conflicts a b) path"

text \<open>A selected guard and middle never conflict with each other or with the relays they must avoid: no
two of them share an identity, an IPv4 /16 or a declared family; each has the flags of its position and
comes from the consensus or the preferred list, and a usable preferred guard is always taken, the first
one first.\<close>

theorem selected_relays_are_disjoint:
  assumes d: "draw_ok d" "draw_ok d'" and exclude: "disjoint_path exclude"
    and g: "select_guard ps d exclude prefer = Inr guard"
    and m: "select_middle ps d' (guard # exclude) = Inr middle"
  shows "disjoint_path (middle # guard # exclude)
    \<and> GUARD_FLAGS \<subseteq> rs_flags guard \<and> guard \<in> set (ps_routers ps) \<union> set prefer
    \<and> MIDDLE_FLAGS \<subseteq> rs_flags middle \<and> middle \<in> set (ps_routers ps)
    \<and> (case find (\<lambda>c. is_usable_guard c exclude) prefer of Some c \<Rightarrow> guard = c | None \<Rightarrow> guard \<in> set (ps_routers ps))"
proof -
  have guard: "GUARD_FLAGS \<subseteq> rs_flags guard \<and> (\<forall>x \<in> set exclude. \<not> conflicts guard x)
      \<and> (case find (\<lambda>c. is_usable_guard c exclude) prefer of
            Some c \<Rightarrow> guard = c \<and> guard \<in> set prefer | None \<Rightarrow> guard \<in> set (ps_routers ps))"
  proof (cases "find (\<lambda>c. is_usable_guard c exclude) prefer")
    case None
    then show ?thesis using g pick_sound [OF d(1)] by (auto simp: select_guard_def)
  next
    case (Some c)
    then have "is_usable_guard c exclude" "c \<in> set prefer" by (auto simp: find_Some_iff)
    then show ?thesis using g Some by (auto simp: select_guard_def is_usable_guard_def list_ex_iff)
  qed
  moreover have "middle \<in> set (ps_routers ps) \<and> MIDDLE_FLAGS \<subseteq> rs_flags middle
      \<and> (\<forall>x \<in> set (guard # exclude). \<not> conflicts middle x)"
    by (rule pick_sound [OF d(2) m [unfolded select_middle_def]])
  ultimately show ?thesis
    using exclude by (auto simp: disjoint_path_def split: option.splits)
qed

lemma selected_relays_are_disjoint_witness:
  "let ps = \<lparr>ps_routers = [example_router 1 ''10.1.0.1'' GUARD_FLAGS 100, example_router 2 ''10.2.0.1'' MIDDLE_FLAGS 300],
       ps_weights = None\<rparr>;
       exclude = [example_router 3 ''10.3.0.1'' {} 1];
       guard = example_router 1 ''10.1.0.1'' GUARD_FLAGS 100;
       middle = example_router 2 ''10.2.0.1'' MIDDLE_FLAGS 300
   in disjoint_path (middle # guard # exclude)
    \<and> GUARD_FLAGS \<subseteq> rs_flags guard \<and> guard \<in> set (ps_routers ps) \<union> set []
    \<and> MIDDLE_FLAGS \<subseteq> rs_flags middle \<and> middle \<in> set (ps_routers ps)
    \<and> (case find (\<lambda>c. is_usable_guard c exclude) [] of Some c \<Rightarrow> guard = c | None \<Rightarrow> guard \<in> set (ps_routers ps))"
  unfolding Let_def
  by (rule selected_relays_are_disjoint [OF example_draw_ok example_draw_ok])
    (simp_all add: disjoint_path_def select_guard_def select_middle_def pick_def Let_def conflicts_def same_subnet_def
      same_family_def family_conflict_def family_ids_def example_router_def GUARD_FLAGS_def MIDDLE_FLAGS_def
      bandwidth_weighted_choice_def effective_weights_def WEIGHTED_POSITIONS_def example_draw_def)

end
