(* ===== verification/Guards.thy ===== *)
theory Guards
  imports PathSelect
begin

text \<open>
  The guard manager (\<open>_dir/guards.py\<close>): the sample of entry guards, kept in the order they were drawn across
  consensuses. Python's dicts keep their insertion order, so they are association lists under
  \<^const>\<open>AList.update\<close>. The draws of the generator are a sequence, one per pick. An update that raises keeps
  the entries it had appended before.
\<close>

record guard_entry =
  ge_fingerprint :: string
  ge_listed :: bool

record guard_manager =
  gm_sample_size :: int
  gm_entries :: "guard_entry list"

definition GuardManager_init :: "int \<Rightarrow> guard_manager res" where
  "GuardManager_init sample_size =
    (if sample_size < 1 then Inl ValueError else Inr \<lparr>gm_sample_size = sample_size, gm_entries = []\<rparr>)"

definition router_key :: "router_status \<Rightarrow> string" where
  "router_key r = py_upper (bytes_hex (rs_fingerprint r))"

text \<open>The dict comprehension \<open>{router.fingerprint.hex().upper(): router for ...}\<close>.\<close>

definition by_fingerprint :: "router_status list \<Rightarrow> (string \<times> router_status) list" where
  "by_fingerprint routers = fold (\<lambda>r. AList.update (router_key r) r) routers []"

definition listed_count :: "guard_entry list \<Rightarrow> int" where
  "listed_count entries = int (length (filter ge_listed entries))"

text \<open>The \<open>while\<close> loop of \<open>update\<close>; \<open>remaining.remove\<close> raises when the pick is not there.\<close>

function top_up ::
  "int \<Rightarrow> bandwidth_weights option \<Rightarrow> (nat \<Rightarrow> rng_draw) \<Rightarrow> nat \<Rightarrow> router_status list \<Rightarrow> guard_entry list \<Rightarrow>
    guard_entry list \<times> unit res" where
  "top_up n weights draws k remaining entries =
    (if listed_count entries < n \<and> remaining \<noteq> [] then
       (case bandwidth_weighted_choice (draws k) remaining ''guard'' weights of
          Inl e \<Rightarrow> (entries, Inl e)
        | Inr chosen \<Rightarrow>
           if chosen \<in> set remaining then
             top_up n weights draws (Suc k) (remove1 chosen remaining)
               (entries @ [\<lparr>ge_fingerprint = router_key chosen, ge_listed = True\<rparr>])
           else (entries, Inl ValueError))
     else (entries, Inr ()))"
  by pat_completeness auto
termination
  by (relation "measure (\<lambda>(n, weights, draws, k, remaining, entries). length remaining)")
    (auto simp: length_remove1 length_pos_if_in_set)

declare top_up.simps [simp del]

definition guard_update ::
  "(nat \<Rightarrow> rng_draw) \<Rightarrow> router_status list \<Rightarrow> bandwidth_weights option \<Rightarrow> guard_manager \<Rightarrow> guard_manager \<times> unit res" where
  "guard_update draws routers weights gm =
    (let eligible = by_fingerprint (filter (\<lambda>router. GUARD_FLAGS \<subseteq> rs_flags router) routers);
         entries = map (\<lambda>e. e\<lparr>ge_listed := ge_fingerprint e \<in> fst ` set eligible\<rparr>) (gm_entries gm);
         sampled = ge_fingerprint ` set entries;
         remaining = map snd (filter (\<lambda>(fp, r). fp \<notin> sampled) eligible);
         (entries', result) = top_up (gm_sample_size gm) weights draws 0 remaining entries
     in (gm\<lparr>gm_entries := entries'\<rparr>, result))"

text \<open>The loop of \<open>primary_guards\<close>.\<close>

fun primary_loop :: "int \<Rightarrow> (string \<times> router_status) list \<Rightarrow> guard_entry list \<Rightarrow> router_status list \<Rightarrow> router_status list" where
  "primary_loop n known [] primary = primary"
| "primary_loop n known (entry # rest) primary =
    (if \<not> ge_listed entry then primary_loop n known rest primary
     else
       let primary' = (case map_of known (ge_fingerprint entry) of None \<Rightarrow> primary | Some router \<Rightarrow> primary @ [router])
       in if int (length primary') = n then primary' else primary_loop n known rest primary')"

definition primary_guards :: "guard_manager \<Rightarrow> router_status list \<Rightarrow> router_status list" where
  "primary_guards gm routers = primary_loop (gm_sample_size gm) (by_fingerprint routers) (gm_entries gm) []"

section \<open>The dict of routers\<close>

lemma by_fingerprint_snoc:
  "by_fingerprint (rs @ [r]) = AList.update (router_key r) r (by_fingerprint rs)"
  by (simp add: by_fingerprint_def)

lemma by_fingerprint_props:
  "fst ` set (by_fingerprint rs) = router_key ` set rs \<and> distinct (map fst (by_fingerprint rs))
    \<and> (\<forall>(k, r) \<in> set (by_fingerprint rs). r \<in> set rs \<and> k = router_key r)"
proof (induction rs rule: rev_induct)
  case Nil
  then show ?case by (simp add: by_fingerprint_def)
next
  case (snoc r rs)
  have "fst ` set (by_fingerprint (rs @ [r])) = router_key ` set (rs @ [r])"
    using snoc by (auto simp: by_fingerprint_snoc dom_update)
  moreover have "distinct (map fst (by_fingerprint (rs @ [r])))"
    using snoc by (simp add: by_fingerprint_snoc distinct_update)
  moreover have "\<forall>(k, x) \<in> set (by_fingerprint (rs @ [r])). x \<in> set (rs @ [r]) \<and> k = router_key x"
  proof clarify
    fix k x
    assume m: "(k, x) \<in> set (by_fingerprint (rs @ [r]))"
    moreover have d: "distinct (map fst (by_fingerprint (rs @ [r])))" by fact
    ultimately have "map_of (by_fingerprint (rs @ [r])) k = Some x" by simp
    then show "x \<in> set (rs @ [r]) \<and> k = router_key x"
      using snoc map_of_SomeD by (fastforce simp: by_fingerprint_snoc update_conv' split: if_splits)
  qed
  ultimately show ?case by blast
qed

lemma distinct_mapI: "distinct (map f xs) \<Longrightarrow> distinct xs"
  by (simp add: distinct_map)

lemma distinct_map_remove1: "distinct (map f xs) \<Longrightarrow> distinct (map f (remove1 x xs))"
  by (auto simp: distinct_map inj_on_def dest: notin_set_remove1)

lemmas by_fingerprint_keys = by_fingerprint_props [THEN conjunct1]
lemmas by_fingerprint_distinct = by_fingerprint_props [THEN conjunct2, THEN conjunct1]
lemmas by_fingerprint_values = by_fingerprint_props [THEN conjunct2, THEN conjunct2]

section \<open>Topping up\<close>

abbreviation new_entry :: "router_status \<Rightarrow> guard_entry" where
  "new_entry r \<equiv> \<lparr>ge_fingerprint = router_key r, ge_listed = True\<rparr>"

lemma listed_count_append [simp]: "listed_count (xs @ ys) = listed_count xs + listed_count ys"
  by (simp add: listed_count_def)

text \<open>What one run of the loop does, with the guards it picks.\<close>

definition tops_up ::
  "int \<Rightarrow> router_status list \<Rightarrow> guard_entry list \<Rightarrow> router_status list \<Rightarrow> guard_entry list \<times> unit res \<Rightarrow> bool" where
  "tops_up n remaining entries picks out \<longleftrightarrow>
     distinct (map router_key picks) \<and> set picks \<subseteq> set remaining
     \<and> fst out = entries @ map new_entry picks
     \<and> (picks \<noteq> [] \<longrightarrow> listed_count entries + int (length picks) \<le> n)
     \<and> raises_only {ConsensusError, ZeroDivisionError} (snd out)
     \<and> (snd out = Inr () \<longrightarrow> int (length picks) = max 0 (min (n - listed_count entries) (int (length remaining))))"

lemma top_up_stop:
  "\<not> (listed_count entries < n \<and> remaining \<noteq> []) \<Longrightarrow>
    tops_up n remaining entries [] (top_up n weights draws k remaining entries)"
  by (auto simp: tops_up_def top_up.simps raises_only_def)

lemma top_up_step:
  assumes c: "chosen \<in> set remaining" and go: "listed_count entries < n" and d: "distinct (map router_key remaining)"
    and rest: "tops_up n (remove1 chosen remaining) (entries @ [new_entry chosen]) picks out"
  shows "tops_up n remaining entries (chosen # picks) out"
proof -
  have sub: "set picks \<subseteq> set (remove1 chosen remaining)" using rest by (simp add: tops_up_def)
  have dr: "distinct remaining" using d by (rule distinct_mapI)
  then have ps: "set picks \<subseteq> set remaining - {chosen}" using sub by simp
  have "router_key chosen \<notin> router_key ` set picks"
  proof
    assume "router_key chosen \<in> router_key ` set picks"
    then obtain r where r: "r \<in> set picks" "router_key r = router_key chosen" by auto
    then have "r \<in> set remaining" "r \<noteq> chosen" using ps by auto
    with r(2) show False using d c by (auto simp: distinct_map inj_on_def)
  qed
  moreover have "int (length (remove1 chosen remaining)) = int (length remaining) - 1"
    using c length_pos_if_in_set [OF c] by (simp add: length_remove1 of_nat_diff Suc_le_eq)
  ultimately show ?thesis
    using rest ps c go by (auto simp: tops_up_def listed_count_def)
qed

lemma top_up_spec:
  "(\<And>k. draw_ok (draws k)) \<Longrightarrow> distinct (map router_key remaining) \<Longrightarrow>
    \<exists>picks. tops_up n remaining entries picks (top_up n weights draws k remaining entries)"
proof (induction n weights draws k remaining entries rule: top_up.induct)
  case (1 n weights draws k remaining entries)
  let ?choice = "bandwidth_weighted_choice (draws k) remaining ''guard'' weights"
  show ?case
  proof (cases "listed_count entries < n \<and> remaining \<noteq> []")
    case False
    then show ?thesis by (blast intro: top_up_stop)
  next
    case go: True
    show ?thesis
    proof (cases ?choice)
      case (Inl e)
      then have "e \<in> {ConsensusError, ZeroDivisionError}"
        using choice_raises [of "draws k" remaining "''guard''" weights] by (simp add: raises_only_def)
      then show ?thesis using go Inl
        by (intro exI [of _ "[]"]) (auto simp: top_up.simps [of n] tops_up_def raises_only_def)
    next
      case (Inr chosen)
      have mem: "chosen \<in> set remaining" by (rule choice_mem [OF "1.prems"(1) Inr])
      have "distinct (map router_key (remove1 chosen remaining))"
        using "1.prems"(2) by (rule distinct_map_remove1)
      with "1.IH" [OF go Inr mem "1.prems"(1)] obtain picks where
        "tops_up n (remove1 chosen remaining) (entries @ [new_entry chosen]) picks
          (top_up n weights draws (Suc k) (remove1 chosen remaining) (entries @ [new_entry chosen]))" by blast
      from top_up_step [OF mem _ "1.prems"(2) this] go show ?thesis
        using Inr mem by (intro exI [of _ "chosen # picks"]) (simp add: top_up.simps [of n _ _ _ _ entries])
    qed
  qed
qed


section \<open>The sample across consensuses\<close>

definition eligible_keys :: "router_status list \<Rightarrow> string set" where
  "eligible_keys routers = router_key ` {router \<in> set routers. GUARD_FLAGS \<subseteq> rs_flags router}"

definition sample_ok :: "guard_manager \<Rightarrow> bool" where
  "sample_ok gm \<longleftrightarrow> 1 \<le> gm_sample_size gm \<and> distinct (map ge_fingerprint (gm_entries gm))"

lemma card_filter_keys:
  "distinct (map f xs) \<Longrightarrow> length (filter (\<lambda>x. P (f x)) xs) = card {k \<in> f ` set xs. P k}"
proof (induction xs)
  case (Cons x xs)
  have "{k \<in> f ` set (x # xs). P k} = (if P (f x) then insert (f x) {k \<in> f ` set xs. P k} else {k \<in> f ` set xs. P k})"
    by auto
  then show ?case using Cons by auto
qed simp

lemma primary_loop_take:
  "int (length primary) < n \<Longrightarrow>
    primary_loop n known entries primary =
      take (nat n) (primary @ List.map_filter (\<lambda>e. if ge_listed e then map_of known (ge_fingerprint e) else None) entries)"
proof (induction n known entries primary rule: primary_loop.induct)
  case (1 n known primary)
  then show ?case by simp
next
  case (2 n known entry rest primary)
  show ?case
  proof (cases "ge_listed entry \<and> map_of known (ge_fingerprint entry) \<noteq> None")
    case False
    then show ?thesis using 2 by (auto simp: Let_def map_filter_simps split: option.splits)
  next
    case True
    then obtain r where r: "map_of known (ge_fingerprint entry) = Some r" by auto
    show ?thesis
    proof (cases "int (length (primary @ [r])) = n")
      case True
      then have "nat n = length (primary @ [r])" by simp
      then show ?thesis using r \<open>ge_listed entry \<and> _\<close> True by (simp add: map_filter_simps)
    next
      case False
      then have "int (length (primary @ [r])) < n" using "2.prems" by simp
      then show ?thesis using r \<open>ge_listed entry \<and> _\<close> False "2.IH"(2) by (simp add: map_filter_simps)
    qed
  qed
qed

lemma keys_of_kept:
  "\<forall>(k, r) \<in> set d. k = f r \<Longrightarrow> map f (map snd (filter (\<lambda>(k, r). P k) d)) = filter P (map fst d)"
  by (induction d) auto

text \<open>What an update does to the sample.\<close>

lemma guard_update_spec:
  assumes ok: "sample_ok gm" and d: "\<And>k. draw_ok (draws k)" and u: "guard_update draws routers weights gm = (gm', result)"
  obtains new where "map ge_fingerprint (gm_entries gm') = map ge_fingerprint (gm_entries gm) @ new"
    "sample_ok gm'" "gm_sample_size gm' = gm_sample_size gm"
    "\<forall>e \<in> set (gm_entries gm'). ge_listed e \<longleftrightarrow> ge_fingerprint e \<in> eligible_keys routers"
    "set new \<subseteq> eligible_keys routers" "raises_only {ConsensusError, ZeroDivisionError} result"
    "new \<noteq> [] \<Longrightarrow> listed_count (gm_entries gm') \<le> gm_sample_size gm"
    "result = Inr () \<Longrightarrow> min (gm_sample_size gm) (int (card (eligible_keys routers))) \<le> listed_count (gm_entries gm')"
proof -
  obtain el where el: "el = by_fingerprint (filter (\<lambda>router. GUARD_FLAGS \<subseteq> rs_flags router) routers)" by blast
  obtain old where old: "old = map (\<lambda>e. e\<lparr>ge_listed := ge_fingerprint e \<in> fst ` set el\<rparr>) (gm_entries gm)" by blast
  obtain sampled where sampled: "sampled = ge_fingerprint ` set old" by blast
  obtain rem where rem: "rem = map snd (filter (\<lambda>(fp, r). fp \<notin> sampled) el)" by blast
  obtain top where top: "top = top_up (gm_sample_size gm) weights draws 0 rem old" by blast
  have "(gm', result) = (gm\<lparr>gm_entries := fst top\<rparr>, snd top)"
    unfolding u [symmetric] by (simp only: guard_update_def Let_def case_prod_beta top rem sampled old el)
  then have eq: "gm' = gm\<lparr>gm_entries := fst top\<rparr>" and res: "result = snd top"
    unfolding prod.inject by (rule conjunct1, rule conjunct2)
  have sampled': "sampled = ge_fingerprint ` set (gm_entries gm)" by (simp add: sampled old image_image)
  have keys: "fst ` set el = eligible_keys routers" by (auto simp: el by_fingerprint_keys eligible_keys_def)
  have rk: "map router_key rem = filter (\<lambda>fp. fp \<notin> sampled) (map fst el)"
    using by_fingerprint_values [of "filter (\<lambda>router. GUARD_FLAGS \<subseteq> rs_flags router) routers"]
    unfolding rem by (intro keys_of_kept) (auto simp: el)
  have dk: "distinct (map fst el)" unfolding el by (rule by_fingerprint_distinct)
  then have dr: "distinct (map router_key rem)" unfolding rk by (rule distinct_filter)
  obtain picks where p: "tops_up (gm_sample_size gm) rem old picks top"
    using top_up_spec [of draws rem, OF d dr] unfolding top by blast
  have gm': "gm_entries gm' = old @ map new_entry picks" "gm_sample_size gm' = gm_sample_size gm"
    using p unfolding eq tops_up_def by simp_all
  have "router_key ` set picks \<subseteq> set (map router_key rem)" using p by (auto simp: tops_up_def)
  then have pk: "router_key ` set picks \<subseteq> eligible_keys routers - ge_fingerprint ` set (gm_entries gm)"
    unfolding rk sampled' using keys by auto
  have cnt: "listed_count (gm_entries gm') = listed_count old + int (length picks)"
    by (simp add: gm' listed_count_def)
  let ?both = "{k \<in> ge_fingerprint ` set (gm_entries gm). k \<in> eligible_keys routers}"
  have fin: "finite (eligible_keys routers)" by (simp add: eligible_keys_def)
  have oldc: "listed_count old = int (card ?both)"
    using card_filter_keys [of ge_fingerprint "gm_entries gm" "\<lambda>k. k \<in> eligible_keys routers"] ok
    by (simp add: old keys listed_count_def filter_map o_def sample_ok_def)
  have "length rem = length (filter (\<lambda>fp. fp \<notin> sampled) (map fst el))" using rk by (metis length_map)
  also have "\<dots> = card {k \<in> fst ` set el. k \<notin> sampled}"
    using card_filter_keys [of id "map fst el" "\<lambda>fp. fp \<notin> sampled"] dk by simp
  also have "\<dots> = card (eligible_keys routers - ?both)"
    unfolding keys sampled' by (rule arg_cong [of _ _ card]) auto
  also have "\<dots> = card (eligible_keys routers) - card ?both" using fin by (intro card_Diff_subset) auto
  finally have len: "length rem = card (eligible_keys routers) - card ?both" .
  have "?both \<subseteq> eligible_keys routers" by blast
  from card_mono [OF fin this] have remc: "int (length rem) = int (card (eligible_keys routers)) - listed_count old"
    using oldc len by (simp add: of_nat_diff)
  show thesis
  proof (rule that)
    show "map ge_fingerprint (gm_entries gm') = map ge_fingerprint (gm_entries gm) @ map router_key picks"
      by (simp add: gm' old o_def)
    show "sample_ok gm'" using ok p pk by (auto simp: sample_ok_def gm' old o_def tops_up_def)
    show "gm_sample_size gm' = gm_sample_size gm" by (rule gm')
    show "\<forall>e \<in> set (gm_entries gm'). ge_listed e \<longleftrightarrow> ge_fingerprint e \<in> eligible_keys routers"
      using pk keys by (auto simp: gm' old)
    show "set (map router_key picks) \<subseteq> eligible_keys routers" using pk by auto
    show "raises_only {ConsensusError, ZeroDivisionError} result" using p res by (simp add: tops_up_def)
    show "map router_key picks \<noteq> [] \<Longrightarrow> listed_count (gm_entries gm') \<le> gm_sample_size gm"
      using p cnt by (simp add: tops_up_def)
    show "result = Inr () \<Longrightarrow> min (gm_sample_size gm) (int (card (eligible_keys routers))) \<le> listed_count (gm_entries gm')"
      using p res cnt remc by (simp add: tops_up_def)
  qed
qed

lemma listed_count_bound:
  assumes "sample_ok gm" and l: "\<forall>e \<in> set (gm_entries gm). ge_listed e \<longleftrightarrow> ge_fingerprint e \<in> eligible_keys routers"
  shows "listed_count (gm_entries gm) \<le> int (card (eligible_keys routers))"
proof -
  have "filter ge_listed (gm_entries gm) = filter (\<lambda>e. ge_fingerprint e \<in> eligible_keys routers) (gm_entries gm)"
    using l by (intro filter_cong) auto
  then have "length (filter ge_listed (gm_entries gm)) = card {k \<in> ge_fingerprint ` set (gm_entries gm). k \<in> eligible_keys routers}"
    using card_filter_keys [of ge_fingerprint "gm_entries gm" "\<lambda>k. k \<in> eligible_keys routers"] assms
    by (simp add: sample_ok_def)
  also have "\<dots> \<le> card (eligible_keys routers)" by (intro card_mono) (auto simp: eligible_keys_def)
  finally show ?thesis by (simp add: listed_count_def)
qed

lemma resolve_keys:
  "(\<forall>e \<in> set entries. ge_listed e \<longrightarrow> ge_fingerprint e \<in> fst ` set (by_fingerprint routers)) \<Longrightarrow>
    map router_key (List.map_filter
      (\<lambda>e. if ge_listed e then map_of (by_fingerprint routers) (ge_fingerprint e) else None) entries)
    = map ge_fingerprint (filter ge_listed entries)"
proof (induction entries)
  case (Cons e entries)
  have "\<exists>r. map_of (by_fingerprint routers) (ge_fingerprint e) = Some r \<and> router_key r = ge_fingerprint e" if "ge_listed e"
  proof -
    from that Cons.prems obtain r where r: "map_of (by_fingerprint routers) (ge_fingerprint e) = Some r"
      by (metis domD dom_map_of_conv_image_fst list.set_intros(1))
    then show ?thesis using by_fingerprint_values [of routers] map_of_SomeD by fastforce
  qed
  then show ?case using Cons by (auto simp: map_filter_simps)
qed (simp add: map_filter_simps)

lemma primary_keys:
  assumes "sample_ok gm" and "gm_sample_size gm = n"
    and l: "\<forall>e \<in> set (gm_entries gm). ge_listed e \<longleftrightarrow> ge_fingerprint e \<in> eligible_keys routers"
  shows "map router_key (primary_guards gm routers) = take (nat n) (map ge_fingerprint (filter ge_listed (gm_entries gm)))"
proof -
  have k: "\<forall>e \<in> set (gm_entries gm). ge_listed e \<longrightarrow> ge_fingerprint e \<in> fst ` set (by_fingerprint routers)"
    using l by (auto simp: by_fingerprint_keys eligible_keys_def)
  have "int (length ([] :: router_status list)) < n" using assms by (simp add: sample_ok_def)
  from primary_loop_take [OF this] show ?thesis
    using assms(2) by (simp add: primary_guards_def take_map resolve_keys [OF k, symmetric])
qed

text \<open>C39: the entry guards stay put: an update never drops or reorders a sampled guard; it marks as listed exactly
those that still qualify in the new consensus, adds only qualifying relays, and only while fewer than the
sample size are listed. When it succeeds as many guards are listed as the sample size asks for or the
consensus has, and the primary guards are the first listed ones in the order they were sampled.\<close>

theorem guards_stay_put:
  assumes ok: "sample_ok gm" and d: "\<And>k. draw_ok (draws k)"
    and u: "guard_update draws routers weights gm = (gm', result)"
  shows "(\<exists>new. map ge_fingerprint (gm_entries gm') = map ge_fingerprint (gm_entries gm) @ new
          \<and> set new \<subseteq> eligible_keys routers
          \<and> (new \<noteq> [] \<longrightarrow> listed_count (gm_entries gm') \<le> gm_sample_size gm))
    \<and> sample_ok gm'
    \<and> (\<forall>e \<in> set (gm_entries gm'). ge_listed e \<longleftrightarrow> ge_fingerprint e \<in> eligible_keys routers)
    \<and> map router_key (primary_guards gm' routers)
        = take (nat (gm_sample_size gm)) (map ge_fingerprint (filter ge_listed (gm_entries gm')))
    \<and> (result = Inr () \<longrightarrow>
        length (primary_guards gm' routers) = min (nat (gm_sample_size gm)) (card (eligible_keys routers)))"
proof -
  obtain new where n: "map ge_fingerprint (gm_entries gm') = map ge_fingerprint (gm_entries gm) @ new"
    "sample_ok gm'" "gm_sample_size gm' = gm_sample_size gm"
    "\<forall>e \<in> set (gm_entries gm'). ge_listed e \<longleftrightarrow> ge_fingerprint e \<in> eligible_keys routers"
    "set new \<subseteq> eligible_keys routers"
    "new \<noteq> [] \<Longrightarrow> listed_count (gm_entries gm') \<le> gm_sample_size gm"
    "result = Inr () \<Longrightarrow> min (gm_sample_size gm) (int (card (eligible_keys routers))) \<le> listed_count (gm_entries gm')"
    by (rule guard_update_spec [OF ok d u]) blast
  have prim: "map router_key (primary_guards gm' routers)
      = take (nat (gm_sample_size gm)) (map ge_fingerprint (filter ge_listed (gm_entries gm')))"
    by (rule primary_keys [OF n(2,3,4)])
  have "length (primary_guards gm' routers) = min (nat (gm_sample_size gm)) (card (eligible_keys routers))"
    if "result = Inr ()"
  proof -
    have "length (primary_guards gm' routers) = min (nat (gm_sample_size gm)) (nat (listed_count (gm_entries gm')))"
      using arg_cong [OF prim, of length] by (simp add: listed_count_def min.commute)
    moreover have "listed_count (gm_entries gm') \<le> int (card (eligible_keys routers))"
      by (rule listed_count_bound [OF n(2,4)])
    ultimately show ?thesis using n(7) [OF that] by linarith
  qed
  then show ?thesis using n prim by blast
qed

lemma guards_stay_put_witness:
  "let r = example_router 1 ''10.1.0.1'' GUARD_FLAGS 100; routers = [r];
       gm = \<lparr>gm_sample_size = 1, gm_entries = []\<rparr>;
       out = guard_update (\<lambda>k. example_draw) routers None gm; gm' = fst out; result = snd out
   in result = Inr () \<and>
    (\<exists>new. map ge_fingerprint (gm_entries gm') = map ge_fingerprint (gm_entries gm) @ new
          \<and> set new \<subseteq> eligible_keys routers
          \<and> (new \<noteq> [] \<longrightarrow> listed_count (gm_entries gm') \<le> gm_sample_size gm))
    \<and> sample_ok gm'
    \<and> (\<forall>e \<in> set (gm_entries gm'). ge_listed e \<longleftrightarrow> ge_fingerprint e \<in> eligible_keys routers)
    \<and> map router_key (primary_guards gm' routers)
        = take (nat (gm_sample_size gm)) (map ge_fingerprint (filter ge_listed (gm_entries gm')))
    \<and> (result = Inr () \<longrightarrow>
        length (primary_guards gm' routers) = min (nat (gm_sample_size gm)) (card (eligible_keys routers)))"
proof -
  let ?r = "example_router 1 ''10.1.0.1'' GUARD_FLAGS 100"
  let ?gm = "\<lparr>gm_sample_size = 1, gm_entries = []\<rparr>"
  let ?out = "guard_update (\<lambda>k. example_draw) [?r] None ?gm"
  have "snd ?out = Inr ()"
    by (simp add: guard_update_def by_fingerprint_def top_up.simps listed_count_def example_draw_def example_router_def
        bandwidth_weighted_choice_def effective_weights_def Let_def split: prod.splits)
  moreover have "sample_ok ?gm" by (simp add: sample_ok_def)
  note guards_stay_put [OF this, of "\<lambda>k. example_draw" "[?r]" None "fst ?out" "snd ?out", OF example_draw_ok prod.collapse [symmetric]]
  ultimately show ?thesis unfolding Let_def by (intro conjI [of "snd ?out = Inr ()"])
qed

end
