(* ===== verification/NetDoc.thy ===== *)
theory NetDoc
  imports Base64 DirModels "HOL-Library.AList"
begin

text \<open>
  The netdoc line grammar of the directory documents (\<open>_dir/parsers.py\<close>): items, the generator that cuts a
  document into items, and the readers of the arguments. The generator is lazy: an item is only looked at when
  the consumer asks for it, so \<open>next_item\<close> is one step of it and returns the lines that are left. The regular
  expressions of the source are written out, and so is \<open>strptime\<close> for the one format used.
\<close>

section \<open>Items\<close>

record item =
  it_keyword :: string
  it_args :: "string list"
  it_label :: "string option"
  it_data :: string

definition is_alnum :: "char \<Rightarrow> bool" where
  "is_alnum c \<longleftrightarrow> (let n = code_of c in 48 \<le> n \<and> n \<le> 57 \<or> 65 \<le> n \<and> n \<le> 90 \<or> 97 \<le> n \<and> n \<le> 122)"

definition keyword_ok :: "string \<Rightarrow> bool" where
  "keyword_ok s =
    (case s of [] \<Rightarrow> False | c # cs \<Rightarrow> is_alnum c \<and> list_all (\<lambda>d. is_alnum d \<or> d = CHR ''-'') cs)"

text \<open>The lines of an object up to its end line.\<close>

fun read_body :: "string \<Rightarrow> string list \<Rightarrow> string list \<Rightarrow> (string list \<times> string list) res" where
  "read_body end_line body [] = Inl ConsensusError"
| "read_body end_line body (line # lines) =
    (if line = end_line then Inr (body, lines)
     else if starts_with line ''-----'' then Inl ConsensusError
     else read_body end_line (body @ [line]) lines)"

definition read_object :: "string list \<Rightarrow> (string option \<times> string \<times> string list) res" where
  "read_object lines =
    (case lines of
       [] \<Rightarrow> Inr (None, [], [])
     | begin_line # rest \<Rightarrow>
        if starts_with begin_line ''-----BEGIN '' then
          if \<not> ends_with begin_line ''-----'' then Inl ConsensusError
          else
            let label = drop 11 (take (length begin_line - 5) begin_line);
                end_line = ''-----END '' @ label @ ''-----''
            in rbind (read_body end_line [] rest) (\<lambda>(body, rest'). Inr (Some label, concat body, rest'))
        else Inr (None, [], lines))"

fun next_item :: "string list \<Rightarrow> (item \<times> string list) option res" where
  "next_item [] = Inr None"
| "next_item (line # lines) =
    (if line = [] then next_item lines
     else if starts_with line ''-----'' then Inl ConsensusError
     else
       let parts = split_space line;
           parts' = (case parts of p # ps \<Rightarrow> if p = ''opt'' then ps else parts | [] \<Rightarrow> [])
       in case parts' of
            [] \<Rightarrow> Inl ConsensusError
          | keyword # args \<Rightarrow>
             if \<not> keyword_ok keyword then Inl ConsensusError
             else rbind (read_object lines) (\<lambda>(label, data, rest).
               Inr (Some (\<lparr>it_keyword = keyword, it_args = args, it_label = label, it_data = data\<rparr>, rest))))"

section \<open>Arguments\<close>

definition to_consensus_error :: "'a res \<Rightarrow> (exc \<Rightarrow> bool) \<Rightarrow> 'a res" where
  "to_consensus_error m p = rcatch m p (\<lambda>e. Inl ConsensusError)"

text \<open>Only \<open>binascii.Error\<close> is caught; the bare \<open>ValueError\<close> of a character outside ASCII is not.\<close>

definition b64_field :: "string \<Rightarrow> nat option \<Rightarrow> bytes res" where
  "b64_field value n =
    rbind (to_consensus_error (b64_decode (value @ replicate (pad_to 4 (length value)) (CHR ''=''))) (catches [BinasciiError])) (\<lambda>raw.
      case n of Some k \<Rightarrow> if length raw \<noteq> k then Inl ConsensusError else Inr raw | None \<Rightarrow> Inr raw)"

definition hex_field :: "string \<Rightarrow> nat \<Rightarrow> bytes res" where
  "hex_field value n =
    rbind (to_consensus_error (from_hex value) (catches [ValueError])) (\<lambda>raw.
      if length raw \<noteq> n then Inl ConsensusError else Inr raw)"

definition int_field :: "string \<Rightarrow> int res" where
  "int_field value = to_consensus_error (py_int value) (catches [ValueError])"

text \<open>\<open>datetime.strptime(s, "%Y-%m-%d %H:%M:%S")\<close> on two words without white space: the fields in their
ranges, then the checks of the \<open>datetime\<close> constructor; the value is the POSIX time.\<close>

definition is_leap :: "int \<Rightarrow> bool" where
  "is_leap y \<longleftrightarrow> y mod 4 = 0 \<and> (y mod 100 \<noteq> 0 \<or> y mod 400 = 0)"

definition days_in_month :: "int \<Rightarrow> int \<Rightarrow> int" where
  "days_in_month y m = (if m = 2 then (if is_leap y then 29 else 28) else if m \<in> {4, 6, 9, 11} then 30 else 31)"

definition days_before_year :: "int \<Rightarrow> int" where
  "days_before_year y = (let p = y - 1 in p * 365 + p div 4 - p div 100 + p div 400)"

definition to_ordinal :: "int \<Rightarrow> int \<Rightarrow> int \<Rightarrow> int" where
  "to_ordinal y m d = days_before_year y + sum_list (map (days_in_month y) [1..m - 1]) + d"

definition num_field :: "nat \<Rightarrow> nat \<Rightarrow> int \<Rightarrow> int \<Rightarrow> string \<Rightarrow> int option" where
  "num_field shortest longest lo hi s =
    (if shortest \<le> length s \<and> length s \<le> longest \<and> list_all is_digit s
        \<and> lo \<le> digits_value s \<and> digits_value s \<le> hi
     then Some (digits_value s) else None)"

definition strptime :: "string \<Rightarrow> string \<Rightarrow> real res" where
  "strptime date time =
    (case (split_char CHR ''-'' date, split_char CHR '':'' time) of
       ([y, m, d], [h, mi, s]) \<Rightarrow>
        (case (num_field 4 4 1 9999 y, num_field 1 2 1 12 m, num_field 1 2 1 31 d,
               num_field 1 2 0 23 h, num_field 1 2 0 59 mi, num_field 1 2 0 59 s) of
           (Some y, Some m, Some d, Some h, Some mi, Some s) \<Rightarrow>
             if d \<le> days_in_month y m then
               Inr (real_of_int ((to_ordinal y m d - 719163) * 86400 + h * 3600 + mi * 60 + s))
             else Inl ValueError
         | _ \<Rightarrow> Inl ValueError)
     | _ \<Rightarrow> Inl ValueError)"

definition datetime_field :: "string list \<Rightarrow> real res" where
  "datetime_field args =
    (case args of
       date # time # _ \<Rightarrow> to_consensus_error (strptime date time) (catches [ValueError])
     | _ \<Rightarrow> Inl ConsensusError)"

text \<open>\<open>(\d{1,3})\.(\d{1,3})\.(\d{1,3})\.(\d{1,3})\Z\<close>, and every octet at most 255.\<close>

definition ipv4_ok :: "string \<Rightarrow> bool" where
  "ipv4_ok value =
    (let octets = split_char CHR ''.'' value in
     length octets = 4 \<and> list_all (\<lambda>x. x \<noteq> [] \<and> length x \<le> 3 \<and> list_all is_digit x \<and> digits_value x \<le> 255) octets)"

definition ipv4_field :: "string \<Rightarrow> string res" where
  "ipv4_field value = (if ipv4_ok value then Inr value else Inl ConsensusError)"

definition shared_random :: "string list \<Rightarrow> bytes res" where
  "shared_random args =
    (case args of _ # value # _ \<Rightarrow> b64_field value (Some 32) | _ \<Rightarrow> Inl ConsensusError)"

fun params_loop :: "string list \<Rightarrow> (string \<times> int) list \<Rightarrow> (string \<times> int) list res" where
  "params_loop [] params = Inr params"
| "params_loop (arg # args) params =
    (let (key, sep, value) = partition_char CHR ''='' arg in
     if \<not> sep \<or> key = [] then Inl ConsensusError
     else rbind (int_field value) (\<lambda>v. params_loop args (AList.update key v params)))"

definition parse_params :: "string list \<Rightarrow> (string \<times> int) list res" where
  "parse_params args = params_loop args []"

section \<open>Properties of the grammar\<close>

lemma read_body_rest: "read_body e body lines = Inr (b, rest) \<Longrightarrow> length rest < length lines"
  by (induction e body lines arbitrary: b rule: read_body.induct) (fastforce split: if_splits)+

lemma read_object_rest: "read_object lines = Inr (l, d, rest) \<Longrightarrow> length rest \<le> length lines"
  by (auto simp: read_object_def Let_def split: list.splits if_splits dest!: read_body_rest)

lemma next_item_rest: "next_item lines = Inr (Some (it, rest)) \<Longrightarrow> length rest < length lines"
  by (induction lines rule: next_item.induct)
    (auto simp: Let_def less_Suc_eq_le split: if_splits list.splits dest!: read_object_rest)

lemma read_body_raises [raises_intros]: "ConsensusError \<in> S \<Longrightarrow> raises_only S (read_body e body lines)"
  by (induction e body lines rule: read_body.induct) (auto intro: raises_intros)

lemma next_item_raises [raises_intros]: "ConsensusError \<in> S \<Longrightarrow> raises_only S (next_item lines)"
  by (induction lines rule: next_item.induct)
    (auto simp: read_object_def Let_def intro!: raises_intros split: list.splits prod.splits)

lemma to_consensus_error_raises:
  "raises_only T m \<Longrightarrow> ConsensusError \<in> S \<Longrightarrow> (\<And>e. e \<in> T \<Longrightarrow> \<not> p e \<Longrightarrow> e \<in> S) \<Longrightarrow> raises_only S (to_consensus_error m p)"
  unfolding to_consensus_error_def by (intro raises_only_rcatch) (auto simp: raises_only_def)

lemma b64_field_raises: "raises_only {ConsensusError, ValueError} (b64_field value n)"
  unfolding b64_field_def
  by (intro raises_intros to_consensus_error_raises [OF b64_decode_raises]) (auto intro: raises_intros split: option.splits)

lemma hex_field_raises [raises_intros]: "ConsensusError \<in> S \<Longrightarrow> raises_only S (hex_field value n)"
  unfolding hex_field_def
  by (intro raises_intros to_consensus_error_raises [OF from_hex_raises [of "{ValueError}"]]) (auto intro: raises_intros)

lemma int_field_raises [raises_intros]: "ConsensusError \<in> S \<Longrightarrow> raises_only S (int_field value)"
  unfolding int_field_def by (intro to_consensus_error_raises [OF py_int_raises [of "{ValueError}"]]) auto

lemma strptime_raises: "raises_only {ValueError} (strptime d t)"
  unfolding strptime_def by (auto simp: raises_only_def split: list.splits option.splits prod.splits)

lemma datetime_field_raises [raises_intros]: "ConsensusError \<in> S \<Longrightarrow> raises_only S (datetime_field args)"
  unfolding datetime_field_def
  by (auto intro!: raises_intros to_consensus_error_raises [OF strptime_raises] split: list.splits)

lemma ipv4_field_raises [raises_intros]: "ConsensusError \<in> S \<Longrightarrow> raises_only S (ipv4_field value)"
  unfolding ipv4_field_def by (intro raises_intros)

lemma params_loop_raises [raises_intros]: "ConsensusError \<in> S \<Longrightarrow> raises_only S (params_loop args params)"
  by (induction args params rule: params_loop.induct) (auto intro!: raises_intros split: prod.splits)

lemma b64_field_length: "b64_field value (Some n) = Inr raw \<Longrightarrow> length raw = n"
  by (auto simp: b64_field_def split: if_splits)

lemma hex_field_length: "hex_field value n = Inr raw \<Longrightarrow> length raw = n"
  by (auto simp: hex_field_def split: if_splits)

text \<open>A character outside ASCII in a base64 field escapes as a bare \<open>ValueError\<close>.\<close>

lemma b64_field_non_ascii: "\<not> is_ascii value \<Longrightarrow> b64_field value n = Inl ValueError"
proof -
  assume "\<not> is_ascii value"
  then have "\<not> is_ascii (value @ replicate (pad_to 4 (length value)) (CHR ''=''))" by (simp add: is_ascii_def)
  then have "b64_decode (value @ replicate (pad_to 4 (length value)) (CHR ''='')) = Inl ValueError"
    unfolding b64_decode_def by (simp only: simp_thms if_True)
  then show ?thesis
    by (simp add: b64_field_def to_consensus_error_def rcatch_def catches_def isa.simps [of ValueError] isa.simps [of Exception])
qed

end
