(* ===== verification/DirParsers.thy ===== *)
theory DirParsers
  imports NetDoc Crypto Utf8
begin

text \<open>
  The parsers of the microdescriptor consensus and of microdescriptors (\<open>_dir/parsers.py\<close>): the loop over
  the items, with the router entry under construction, as a fold over the lazy generator.
\<close>

section \<open>The consensus\<close>

record router_builder =
  rb_nickname :: string
  rb_fingerprint :: bytes
  rb_address :: string
  rb_or_port :: int
  rb_dir_port :: int
  rb_flags :: "string set"
  rb_bandwidth :: int
  rb_md_digest :: "bytes option"

definition RouterBuilder_init :: "string list \<Rightarrow> router_builder res" where
  "RouterBuilder_init args =
    (case args of
       nickname # identity # _ # _ # ip # or_port # dir_port # _ \<Rightarrow>
         rbind (b64_field identity (Some 20)) (\<lambda>fingerprint.
         rbind (ipv4_field ip) (\<lambda>address.
         rbind (int_field or_port) (\<lambda>orp.
         rbind (int_field dir_port) (\<lambda>dirp.
           Inr \<lparr>rb_nickname = nickname, rb_fingerprint = fingerprint, rb_address = address, rb_or_port = orp,
                rb_dir_port = dirp, rb_flags = {}, rb_bandwidth = 0, rb_md_digest = None\<rparr>))))
     | _ \<Rightarrow> Inl ConsensusError)"

definition RouterBuilder_build :: "router_builder \<Rightarrow> router_status" where
  "RouterBuilder_build b =
    \<lparr>rs_nickname = rb_nickname b, rs_fingerprint = rb_fingerprint b, rs_address = rb_address b,
     rs_or_port = rb_or_port b, rs_dir_port = rb_dir_port b, rs_flags = rb_flags b,
     rs_bandwidth = rb_bandwidth b, rs_md_digest = rb_md_digest b, rs_ed_identity = None,
     rs_microdescriptor = None\<rparr>"

definition signature_item :: "item \<Rightarrow> consensus_signature res" where
  "signature_item it =
    rbind (case it_args it of
             [identity, digest] \<Rightarrow> Inr (''sha1'', identity, digest)
           | algorithm # identity # digest # _ \<Rightarrow> Inr (algorithm, identity, digest)
           | _ \<Rightarrow> Inl ConsensusError) (\<lambda>(algorithm, identity_hex, digest_hex).
    if it_label it \<noteq> Some ''SIGNATURE'' then Inl ConsensusError
    else
      rbind (hex_field identity_hex 20) (\<lambda>identity.
      rbind (hex_field digest_hex 20) (\<lambda>key_digest.
      rbind (b64_field (it_data it) None) (\<lambda>signature.
        Inr \<lparr>cs_algorithm = algorithm, cs_identity = identity, cs_signing_key_digest = key_digest,
             cs_signature = signature\<rparr>))))"

text \<open>The local variables of \<open>parse_consensus\<close>.\<close>

record consensus_state =
  st_valid_after :: "real option"
  st_fresh_until :: "real option"
  st_valid_until :: "real option"
  st_params :: "(string \<times> int) list"
  st_bandwidth_weights :: "(string \<times> int) list"
  st_srv_current :: "bytes option"
  st_srv_previous :: "bytes option"
  st_routers :: "router_status list"
  st_signatures :: "consensus_signature list"
  st_current :: "router_builder option"

definition consensus_state0 :: consensus_state where
  "consensus_state0 =
    \<lparr>st_valid_after = None, st_fresh_until = None, st_valid_until = None, st_params = [],
     st_bandwidth_weights = [], st_srv_current = None, st_srv_previous = None, st_routers = [],
     st_signatures = [], st_current = None\<rparr>"

text \<open>\<open>if current is not None: routers.append(current.build())\<close>\<close>

definition flush_router :: "consensus_state \<Rightarrow> consensus_state" where
  "flush_router st =
    (case st_current st of None \<Rightarrow> st | Some b \<Rightarrow> st\<lparr>st_routers := st_routers st @ [RouterBuilder_build b]\<rparr>)"

definition w_line :: "string list \<Rightarrow> router_builder \<Rightarrow> router_builder res" where
  "w_line args b =
    (case find (\<lambda>arg. starts_with arg ''Bandwidth='') args of
       None \<Rightarrow> Inl ConsensusError
     | Some arg \<Rightarrow> rbind (int_field (drop 10 arg)) (\<lambda>n. Inr (b\<lparr>rb_bandwidth := n\<rparr>)))"

definition m_line :: "string list \<Rightarrow> router_builder \<Rightarrow> router_builder res" where
  "m_line args b =
    (case args of
       [] \<Rightarrow> Inl ConsensusError
     | arg # _ \<Rightarrow> rbind (b64_field arg (Some 32)) (\<lambda>d. Inr (b\<lparr>rb_md_digest := Some d\<rparr>)))"

text \<open>The branches on an item. A line that belongs to an entry while none is open falls through the
\<open>elif\<close> chain, where no other branch has its keyword.\<close>

definition consensus_item :: "item \<Rightarrow> consensus_state \<Rightarrow> consensus_state res" where
  "consensus_item it st =
    (let keyword = it_keyword it; args = it_args it;
         entry = (\<lambda>f. case st_current st of None \<Rightarrow> Inr st | Some b \<Rightarrow> rbind (f b) (\<lambda>b'. Inr (st\<lparr>st_current := Some b'\<rparr>)))
     in if keyword = ''r'' then
          rbind (RouterBuilder_init args) (\<lambda>b. Inr ((flush_router st)\<lparr>st_current := Some b\<rparr>))
        else if keyword = ''s'' then entry (\<lambda>b. Inr (b\<lparr>rb_flags := set args\<rparr>))
        else if keyword = ''w'' then entry (w_line args)
        else if keyword = ''m'' then entry (m_line args)
        else if keyword = ''vote-status'' then
          (if take 1 args \<noteq> [''consensus''] then Inl ConsensusError else Inr st)
        else if keyword = ''valid-after'' then rbind (datetime_field args) (\<lambda>t. Inr (st\<lparr>st_valid_after := Some t\<rparr>))
        else if keyword = ''fresh-until'' then rbind (datetime_field args) (\<lambda>t. Inr (st\<lparr>st_fresh_until := Some t\<rparr>))
        else if keyword = ''valid-until'' then rbind (datetime_field args) (\<lambda>t. Inr (st\<lparr>st_valid_until := Some t\<rparr>))
        else if keyword = ''params'' then rbind (parse_params args) (\<lambda>p. Inr (st\<lparr>st_params := p\<rparr>))
        else if keyword = ''bandwidth-weights'' then
          rbind (parse_params args) (\<lambda>p. Inr (st\<lparr>st_bandwidth_weights := p\<rparr>))
        else if keyword = ''shared-rand-current-value'' then
          rbind (shared_random args) (\<lambda>v. Inr (st\<lparr>st_srv_current := Some v\<rparr>))
        else if keyword = ''shared-rand-previous-value'' then
          rbind (shared_random args) (\<lambda>v. Inr (st\<lparr>st_srv_previous := Some v\<rparr>))
        else if keyword = ''directory-footer'' then Inr ((flush_router st)\<lparr>st_current := None\<rparr>)
        else if keyword = ''directory-signature'' then
          rbind (signature_item it) (\<lambda>s.
            let st' = (flush_router st)\<lparr>st_current := None\<rparr>
            in Inr (st'\<lparr>st_signatures := st_signatures st' @ [s]\<rparr>))
        else Inr st)"

function consensus_loop :: "string list \<Rightarrow> consensus_state \<Rightarrow> consensus_state res" where
  "consensus_loop lines st =
    rbind (next_item lines) (\<lambda>nxt.
      case nxt of
        None \<Rightarrow> Inr st
      | Some (it, rest) \<Rightarrow> rbind (consensus_item it st) (\<lambda>st'. consensus_loop rest st'))"
  by pat_completeness auto
termination
  by (relation "measure (\<lambda>(lines, st). length lines)") (auto dest: next_item_rest)

declare consensus_loop.simps [simp del]

text \<open>What follows the loop.\<close>

definition finish_consensus :: "consensus_state \<Rightarrow> consensus res" where
  "finish_consensus st0 =
    (let st = flush_router st0 in
     case (st_valid_after st, st_fresh_until st, st_valid_until st) of
       (Some va, Some fu, Some vu) \<Rightarrow>
         if st_signatures st = [] then Inl ConsensusError
         else Inr \<lparr>con_valid_after = va, con_fresh_until = fu, con_valid_until = vu,
                   con_routers = st_routers st, con_params = st_params st,
                   con_bandwidth_weights = st_bandwidth_weights st, con_srv_current = st_srv_current st,
                   con_srv_previous = st_srv_previous st, con_signatures = st_signatures st\<rparr>
     | _ \<Rightarrow> Inl ConsensusError)"

definition parse_consensus :: "string \<Rightarrow> consensus res" where
  "parse_consensus text =
    rbind (next_item (split_char (CHR 0x0A) text)) (\<lambda>first.
      case first of
        None \<Rightarrow> Inl ConsensusError
      | Some (it, rest) \<Rightarrow>
         if it_keyword it \<noteq> ''network-status-version'' then Inl ConsensusError
         else if take 2 (it_args it) \<noteq> [''3'', ''microdesc''] then Inl ConsensusError
         else rbind (consensus_loop rest consensus_state0) finish_consensus)"

section \<open>Microdescriptors\<close>

definition policy_range :: "string \<Rightarrow> (int \<times> int) res" where
  "policy_range part =
    (let (low_text, sep, high_text) = partition_char CHR ''-'' part in
     rbind (int_field low_text) (\<lambda>low.
     rbind (if sep then int_field high_text else Inr low) (\<lambda>high.
       if 1 \<le> low \<and> low \<le> high \<and> high \<le> 65535 then Inr (low, high) else Inl ConsensusError)))"

definition parse_exit_policy :: "string list \<Rightarrow> exit_policy res" where
  "parse_exit_policy args =
    (case args of
       kind # port_list # _ \<Rightarrow>
         if kind \<notin> {''accept'', ''reject''} then Inl ConsensusError
         else rbind (rmap policy_range (split_char CHR '','' port_list)) (\<lambda>ranges.
           Inr \<lparr>ep_accept = (kind = ''accept''), ep_ports = ranges\<rparr>)
     | _ \<Rightarrow> Inl ConsensusError)"

record md_state =
  ms_ntor :: "bytes option"
  ms_ed25519 :: "bytes option"
  ms_policy :: "exit_policy option"
  ms_family :: "string set"

definition md_item :: "item \<Rightarrow> md_state \<Rightarrow> md_state res" where
  "md_item it st =
    (let keyword = it_keyword it; args = it_args it in
     if keyword = ''ntor-onion-key'' then
       (case args of
          [] \<Rightarrow> Inl ConsensusError
        | key # _ \<Rightarrow> rbind (b64_field key (Some 32)) (\<lambda>k. Inr (st\<lparr>ms_ntor := Some k\<rparr>)))
     else if keyword = ''id'' \<and> take 1 args = [''ed25519''] then
       (case args of
          _ # key # _ \<Rightarrow> rbind (b64_field key (Some 32)) (\<lambda>k. Inr (st\<lparr>ms_ed25519 := Some k\<rparr>))
        | _ \<Rightarrow> Inl ConsensusError)
     else if keyword = ''p'' then rbind (parse_exit_policy args) (\<lambda>p. Inr (st\<lparr>ms_policy := Some p\<rparr>))
     else if keyword = ''family'' then Inr (st\<lparr>ms_family := set args\<rparr>)
     else Inr st)"

function md_loop :: "string list \<Rightarrow> md_state \<Rightarrow> md_state res" where
  "md_loop lines st =
    rbind (next_item lines) (\<lambda>nxt.
      case nxt of
        None \<Rightarrow> Inr st
      | Some (it, rest) \<Rightarrow> rbind (md_item it st) (\<lambda>st'. md_loop rest st'))"
  by pat_completeness auto
termination
  by (relation "measure (\<lambda>(lines, st). length lines)") (auto dest: next_item_rest)

declare md_loop.simps [simp del]

definition parse_microdescriptor :: "prims \<Rightarrow> string \<Rightarrow> microdescriptor res" where
  "parse_microdescriptor P chunk =
    rbind (md_loop (split_char (CHR 0x0A) chunk) \<lparr>ms_ntor = None, ms_ed25519 = None, ms_policy = None, ms_family = {}\<rparr>) (\<lambda>st.
      case ms_ntor st of
        None \<Rightarrow> Inl ConsensusError
      | Some key \<Rightarrow>
         Inr \<lparr>md_digest = hash P SHA256 (utf8_encode chunk), md_ntor_onion_key = key, md_ed25519_id = ms_ed25519 st,
              md_exit_policy = ms_policy st, md_family = ms_family st\<rparr>)"

text \<open>The offsets of the \<open>onion-key\<close> lines.\<close>

fun onion_key_starts :: "nat \<Rightarrow> string list \<Rightarrow> nat list" where
  "onion_key_starts offset [] = []"
| "onion_key_starts offset (line # lines) =
    (if line = ''onion-key'' then [offset] else []) @ onion_key_starts (offset + length line + 1) lines"

text \<open>\<open>text[a:b] for a, b in itertools.pairwise(bounds)\<close>\<close>

fun pairwise_slices :: "string \<Rightarrow> nat list \<Rightarrow> string list" where
  "pairwise_slices text (a # b # bounds) = drop a (take b text) # pairwise_slices text (b # bounds)"
| "pairwise_slices text _ = []"

definition parse_microdescriptors :: "prims \<Rightarrow> string \<Rightarrow> microdescriptor list res" where
  "parse_microdescriptors P text =
    (if py_strip text = [] then Inr []
     else
       let starts = onion_key_starts 0 (split_char (CHR 0x0A) text) in
       case starts of
         [] \<Rightarrow> Inl ConsensusError
       | s # _ \<Rightarrow>
          if py_strip (take s text) \<noteq> [] then Inl ConsensusError
          else rmap (parse_microdescriptor P) (pairwise_slices text (starts @ [length text])))"

end
