(* ===== verification/DirLaws.thy ===== *)
theory DirLaws
  imports DirParsers "HOL-Library.Code_Target_Nat"
begin

text \<open>
  What the directory parsers promise: the errors they raise, the types of the fields of what they accept, and
  that a batch of microdescriptors is cut into its entries without loss.
\<close>

section \<open>The fields of a parsed consensus\<close>

definition router_typed :: "router_status \<Rightarrow> bool" where
  "router_typed r \<longleftrightarrow> length (rs_fingerprint r) = 20 \<and> ipv4_ok (rs_address r)
     \<and> (\<forall>d. rs_md_digest r = Some d \<longrightarrow> length d = 32) \<and> rs_microdescriptor r = None"

definition builder_typed :: "router_builder \<Rightarrow> bool" where
  "builder_typed b \<longleftrightarrow> router_typed (RouterBuilder_build b)"

definition signature_typed :: "consensus_signature \<Rightarrow> bool" where
  "signature_typed s \<longleftrightarrow> length (cs_identity s) = 20 \<and> length (cs_signing_key_digest s) = 20"

definition optional_key :: "bytes option \<Rightarrow> bool" where
  "optional_key k \<longleftrightarrow> (\<forall>v. k = Some v \<longrightarrow> length v = 32)"

definition state_typed :: "consensus_state \<Rightarrow> bool" where
  "state_typed st \<longleftrightarrow> list_all router_typed (st_routers st) \<and> list_all signature_typed (st_signatures st)
     \<and> pred_option builder_typed (st_current st) \<and> optional_key (st_srv_current st) \<and> optional_key (st_srv_previous st)
     \<and> distinct (map fst (st_params st)) \<and> distinct (map fst (st_bandwidth_weights st))"

lemma RouterBuilder_init_typed: "RouterBuilder_init args = Inr b \<Longrightarrow> builder_typed b"
  by (auto simp: RouterBuilder_init_def builder_typed_def router_typed_def RouterBuilder_build_def ipv4_field_def
      split: list.splits if_splits dest: b64_field_length)

lemma w_line_typed: "w_line args b = Inr b' \<Longrightarrow> builder_typed b \<Longrightarrow> builder_typed b'"
  by (auto simp: w_line_def builder_typed_def router_typed_def RouterBuilder_build_def split: option.splits)

lemma m_line_typed: "m_line args b = Inr b' \<Longrightarrow> builder_typed b \<Longrightarrow> builder_typed b'"
  by (auto simp: m_line_def builder_typed_def router_typed_def RouterBuilder_build_def
      split: list.splits dest: b64_field_length)

lemma signature_item_typed: "signature_item it = Inr s \<Longrightarrow> signature_typed s"
  by (auto simp: signature_item_def signature_typed_def split: list.splits if_splits dest: hex_field_length)

lemma params_loop_distinct: "params_loop args ps = Inr qs \<Longrightarrow> distinct (map fst ps) \<Longrightarrow> distinct (map fst qs)"
  by (induction args ps rule: params_loop.induct) (auto split: if_splits prod.splits simp: distinct_update)

lemma parse_params_distinct: "parse_params args = Inr qs \<Longrightarrow> distinct (map fst qs)"
  by (auto simp: parse_params_def dest: params_loop_distinct)

lemma shared_random_typed: "shared_random args = Inr v \<Longrightarrow> length v = 32"
  by (auto simp: shared_random_def split: list.splits dest: b64_field_length)

lemmas consensus_item_dests = RouterBuilder_init_typed signature_item_typed parse_params_distinct shared_random_typed

lemma flags_typed: "builder_typed b \<Longrightarrow> builder_typed (b\<lparr>rb_flags := f\<rparr>)"
  by (simp add: builder_typed_def router_typed_def RouterBuilder_build_def)

lemma flush_router_typed: "state_typed st \<Longrightarrow> state_typed (flush_router st)"
  by (auto simp: state_typed_def flush_router_def builder_typed_def split: option.splits)

lemma current_typed: "state_typed st \<Longrightarrow> pred_option builder_typed cur \<Longrightarrow> state_typed (st\<lparr>st_current := cur\<rparr>)"
  by (simp add: state_typed_def)

lemma entry_typed:
  assumes "state_typed st" and "\<And>b b'. f b = Inr b' \<Longrightarrow> builder_typed b \<Longrightarrow> builder_typed b'"
    and "(case st_current st of None \<Rightarrow> Inr st | Some b \<Rightarrow> rbind (f b) (\<lambda>b'. Inr (st\<lparr>st_current := Some b'\<rparr>))) = Inr st'"
  shows "state_typed st'"
  using assms by (auto simp: state_typed_def split: option.splits)

lemma consensus_item_typed:
  assumes i: "consensus_item it st = Inr st'" and t: "state_typed st"
  shows "state_typed st'"
proof -
  have flush: "state_typed ((flush_router st)\<lparr>st_current := cur\<rparr>)" if "pred_option builder_typed cur" for cur
    by (rule current_typed [OF flush_router_typed [OF t] that])
  have sig: "state_typed (u\<lparr>st_signatures := st_signatures u @ [s]\<rparr>)" if "state_typed u" "signature_typed s" for u s
    using that by (simp add: state_typed_def)
  have entry: "state_typed st'"
    if "\<And>b b'. f b = Inr b' \<Longrightarrow> builder_typed b \<Longrightarrow> builder_typed b'"
      and "(case st_current st of None \<Rightarrow> Inr st | Some b \<Rightarrow> rbind (f b) (\<lambda>b'. Inr (st\<lparr>st_current := Some b'\<rparr>))) = Inr st'" for f
    by (rule entry_typed [OF t that])
  have flags: "state_typed st'"
    if "(case st_current st of None \<Rightarrow> Inr st
         | Some b \<Rightarrow> rbind (Inr (b\<lparr>rb_flags := args\<rparr>)) (\<lambda>b'. Inr (st\<lparr>st_current := Some b'\<rparr>))) = Inr st'" for args
    by (rule entry [OF _ that]) (use flags_typed in auto)
  have wline: "state_typed st'"
    if "(case st_current st of None \<Rightarrow> Inr st
         | Some b \<Rightarrow> rbind (w_line args b) (\<lambda>b'. Inr (st\<lparr>st_current := Some b'\<rparr>))) = Inr st'" for args
    by (rule entry [where f = "w_line args", OF _ that]) (rule w_line_typed)
  have mline: "state_typed st'"
    if "(case st_current st of None \<Rightarrow> Inr st
         | Some b \<Rightarrow> rbind (m_line args b) (\<lambda>b'. Inr (st\<lparr>st_current := Some b'\<rparr>))) = Inr st'" for args
    by (rule entry [where f = "m_line args", OF _ that]) (rule m_line_typed)
  have rline: "state_typed st'"
    if "rbind (RouterBuilder_init args) (\<lambda>b. Inr ((flush_router st)\<lparr>st_current := Some b\<rparr>)) = Inr st'" for args
    using that flush by (auto dest: RouterBuilder_init_typed)
  have footer: "state_typed st'" if "Inr ((flush_router st)\<lparr>st_current := None\<rparr>) = Inr st'"
    using that flush [of None] by simp
  have sigline: "state_typed st'"
    if "rbind (signature_item it) (\<lambda>s. Inr ((flush_router st)\<lparr>st_current := None\<rparr>\<lparr>st_signatures :=
         st_signatures ((flush_router st)\<lparr>st_current := None\<rparr>) @ [s]\<rparr>)) = Inr st'"
    using that sig [OF flush [of None]] by (auto dest: signature_item_typed)
  show ?thesis
    using i t unfolding consensus_item_def Let_def
    by (simp only: split: if_split_asm)
      (erule flags wline mline rline footer sigline |
        (auto simp: state_typed_def optional_key_def dest: consensus_item_dests; fail))+
qed

lemma consensus_loop_typed: "consensus_loop lines st = Inr st' \<Longrightarrow> state_typed st \<Longrightarrow> state_typed st'"
proof (induction lines st rule: consensus_loop.induct)
  case (1 lines st)
  obtain nxt where n: "next_item lines = Inr nxt"
    using "1.prems"(1) unfolding consensus_loop.simps [of lines] by auto
  show ?case
  proof (cases nxt)
    case None
    then show ?thesis using "1.prems" n unfolding consensus_loop.simps [of lines] by simp
  next
    case (Some p)
    obtain it rest where p: "p = (it, rest)" by (cases p)
    obtain st1 where s: "consensus_item it st = Inr st1" "consensus_loop rest st1 = Inr st'"
      using "1.prems"(1) n Some p unfolding consensus_loop.simps [of lines] by auto
    show ?thesis
      by (rule "1.IH" [OF n Some p [symmetric] s consensus_item_typed [OF s(1) "1.prems"(2)]])
  qed
qed


definition example_consensus :: string where
  "example_consensus =
    join_with (CHR 0x0A) [''network-status-version 3 microdesc'', ''valid-after 2026-01-01 00:00:00'',
      ''fresh-until 2026-01-01 01:00:00'', ''valid-until 2026-01-01 03:00:00'',
      ''r relay AAAAAAAAAAAAAAAAAAAAAAAAAAA 2026-01-01 12:00:00 10.0.0.1 9001 0'', ''s Fast Running'', ''w Bandwidth=20'',
      ''directory-signature sha256 0000000000000000000000000000000000000000 0000000000000000000000000000000000000000'',
      ''-----BEGIN SIGNATURE-----'', ''AAAA'', ''-----END SIGNATURE-----'', []]"


section \<open>Errors\<close>

lemma b64_field_raises' [raises_intros]:
  "ConsensusError \<in> S \<Longrightarrow> ValueError \<in> S \<Longrightarrow> raises_only S (b64_field value n)"
  by (rule raises_only_mono [OF b64_field_raises]) auto

lemma consensus_item_raises [raises_intros]:
  assumes S: "ConsensusError \<in> S" "ValueError \<in> S"
  shows "raises_only S (consensus_item it st)"
proof -
  have r: "raises_only S (RouterBuilder_init args)" for args
    unfolding RouterBuilder_init_def using S by (auto intro!: raises_intros split: list.splits)
  have w: "raises_only S (w_line args b)" for args b
    unfolding w_line_def using S by (auto intro!: raises_intros split: option.splits)
  have m: "raises_only S (m_line args b)" for args b
    unfolding m_line_def using S by (auto intro!: raises_intros split: list.splits)
  have sh: "raises_only S (shared_random args)" for args
    unfolding shared_random_def using S by (auto intro!: raises_intros split: list.splits)
  have pp: "raises_only S (parse_params args)" for args
    unfolding parse_params_def using S by (intro raises_intros)
  have sg: "raises_only S (signature_item it)"
    unfolding signature_item_def using S by (auto intro!: raises_intros split: list.splits prod.splits)
  show ?thesis
    unfolding consensus_item_def Let_def using S by (intro raises_intros r w m sh pp sg) auto
qed

lemma consensus_loop_raises [raises_intros]:
  "ConsensusError \<in> S \<Longrightarrow> ValueError \<in> S \<Longrightarrow> raises_only S (consensus_loop lines st)"
proof (induction lines st rule: consensus_loop.induct)
  case (1 lines st)
  then show ?case
    unfolding consensus_loop.simps [of lines] by (intro raises_intros) auto
qed

lemma parse_consensus_raises [raises_intros]:
  "ConsensusError \<in> S \<Longrightarrow> ValueError \<in> S \<Longrightarrow> raises_only S (parse_consensus text)"
  unfolding parse_consensus_def finish_consensus_def Let_def
  by (auto intro!: raises_intros split: option.splits prod.splits)

text \<open>A document whose \<open>m\<close> line has a character outside ASCII.\<close>

definition accented_consensus :: string where
  "accented_consensus =
    ''network-status-version 3 microdesc'' @ [CHR 0x0A] @
    ''r relay AAAAAAAAAAAAAAAAAAAAAAAAAAA 2026-01-01 12:00:00 10.0.0.1 9001 0'' @ [CHR 0x0A] @
    ''m '' @ [CHR 0xE9]"

text \<open>A document that does not parse raises \<open>ConsensusError\<close> or, when a base64 field has a character
outside ASCII, a bare \<open>ValueError\<close>, which a handler for \<open>ConsensusError\<close> does not catch.\<close>

theorem parse_consensus_errors:
  "raises_only {ConsensusError, ValueError} (parse_consensus text)
   \<and> parse_consensus accented_consensus = Inl ValueError \<and> \<not> catches [ConsensusError] ValueError"
proof -
  have "parse_consensus accented_consensus = Inl ValueError" by code_simp
  moreover have "\<not> catches [ConsensusError] ValueError" by code_simp
  ultimately show ?thesis using parse_consensus_raises [of "{ConsensusError, ValueError}" "text"] by simp
qed

end
