(* ===== verification/MicrodescLaws.thy ===== *)
theory MicrodescLaws
  imports DirParsers "HOL-Library.Code_Target_Nat"
begin

text \<open>
  A batch of microdescriptors is cut at its \<open>onion-key\<close> lines without loss, each digest covers exactly the
  text of its entry, and every port range of a parsed exit policy is in range.
\<close>

section \<open>Slices\<close>

lemma concat_pairwise_slices:
  "sorted bounds \<Longrightarrow> bounds \<noteq> [] \<Longrightarrow> concat (pairwise_slices t bounds) = drop (hd bounds) (take (last bounds) t)"
proof (induction t bounds rule: pairwise_slices.induct)
  case (1 t a b bounds)
  have ab: "a \<le> b" "b \<le> last (b # bounds)" using "1.prems"(1) by (auto intro: last_in_set split: if_splits)
  have "concat (pairwise_slices t (a # b # bounds)) = drop a (take b t) @ drop b (take (last (b # bounds)) t)"
    using 1 by simp
  also have "take b t = take b (take (last (b # bounds)) t)" using ab by (simp add: min_absorb1)
  also have "drop a (take b (take (last (b # bounds)) t)) @ drop b (take (last (b # bounds)) t) = drop a (take (last (b # bounds)) t)"
    using ab(1) by (metis append_take_drop_id drop_take drop_drop le_add_diff_inverse2)
  finally show ?case by simp
qed simp_all

lemma length_pairwise_slices: "length (pairwise_slices t bounds) = length bounds - 1"
  by (induction t bounds rule: pairwise_slices.induct) simp_all

lemma nth_pairwise_slices:
  "Suc i < length bounds \<Longrightarrow> pairwise_slices t bounds ! i = drop (bounds ! i) (take (bounds ! Suc i) t)"
proof (induction t bounds arbitrary: i rule: pairwise_slices.induct)
  case (1 t a b bounds)
  then show ?case by (cases i) auto
qed simp_all

section \<open>The offsets of the lines\<close>

abbreviation join_lines :: "string list \<Rightarrow> string" where
  "join_lines \<equiv> join_with (CHR 0x0A)"

lemma join_lines_Cons: "ls \<noteq> [] \<Longrightarrow> join_lines (l # ls) = l @ CHR 0x0A # join_lines ls"
  by (cases ls) simp_all

lemma join_split: "join_lines (split_char (CHR 0x0A) s) = s"
proof (induction s)
  case (Cons c s)
  obtain w ws where w: "split_char (CHR 0x0A) s = w # ws"
    using split_char_ne [of "CHR 0x0A" s] by (cases "split_char (CHR 0x0A) s") auto
  show ?case using Cons w by (cases ws) auto
qed simp

abbreviation onion_line :: string where
  "onion_line \<equiv> ''onion-key'' @ [CHR 0x0A]"

definition onion_at :: "string \<Rightarrow> nat \<Rightarrow> bool" where
  "onion_at t a \<longleftrightarrow> a + 9 \<le> length t \<and> starts_with (drop a t @ [CHR 0x0A]) onion_line"

lemma onion_at_shift: "onion_at (l @ CHR 0x0A # t) (length l + 1 + a) \<longleftrightarrow> onion_at t a"
  by (simp add: onion_at_def add.commute)

lemma onion_at_start: "onion_at (''onion-key'' @ CHR 0x0A # t) 0" "onion_at ''onion-key'' 0"
  by (simp_all add: onion_at_def starts_with_iff)

lemma onion_key_starts_props:
  "list_all (\<lambda>a. off \<le> a \<and> onion_at (join_lines ls) (a - off)) (onion_key_starts off ls)
    \<and> sorted_wrt (\<lambda>a b. a + 10 \<le> b) (onion_key_starts off ls)
    \<and> length (onion_key_starts off ls) = count_list ls ''onion-key''"
proof (induction ls arbitrary: off)
  case (Cons line ls)
  let ?rest = "onion_key_starts (off + length line + 1) ls"
  note ih = Cons.IH [of "off + length line + 1"]
  have rest: "off \<le> a \<and> onion_at (join_lines (line # ls)) (a - off)" if "a \<in> set ?rest" for a
  proof -
    have ne: "ls \<noteq> []" using that by (cases ls) auto
    from that ih have a: "off + length line + 1 \<le> a" "onion_at (join_lines ls) (a - (off + length line + 1))"
      by (auto simp: list_all_iff)
    then have "a - off = length line + 1 + (a - (off + length line + 1))" by simp
    then show ?thesis using a onion_at_shift by (simp only: join_lines_Cons [OF ne]) simp
  qed
  show ?case
  proof (cases "line = ''onion-key''")
    case True
    have "onion_at (join_lines (line # ls)) 0"
      using onion_at_start True by (cases "ls = []") (simp_all add: join_lines_Cons)
    moreover have "off + 10 \<le> b" if "b \<in> set ?rest" for b
      using that ih True by (auto simp: list_all_iff)
    ultimately show ?thesis using True rest ih by (auto simp: list_all_iff)
  next
    case False
    then show ?thesis using rest ih by (auto simp: list_all_iff)
  qed
qed simp

lemma gap_sorted: "sorted_wrt (\<lambda>a b. a + 10 \<le> b) xs \<Longrightarrow> sorted (xs :: nat list)"
  by (induction xs) fastforce+

text \<open>A slice that starts at an \<open>onion-key\<close> line and does not end inside it starts with that line.\<close>

lemma slice_starts:
  assumes "onion_at t a" and "a + 10 \<le> b \<or> b = length t"
  shows "starts_with (drop a (take b t) @ [CHR 0x0A]) onion_line"
proof (cases "b < length t")
  case False
  then show ?thesis using assms by (simp add: onion_at_def)
next
  case True
  then have b: "a + 10 \<le> b" using assms(2) by auto
  then have len: "10 \<le> length (drop a t)" using True by simp
  obtain u where u: "drop a t @ [CHR 0x0A] = onion_line @ u"
    using assms(1) by (auto simp: onion_at_def starts_with_iff)
  have "take 10 (drop a t @ [CHR 0x0A]) = onion_line" unfolding u by simp
  then have "take 10 (drop a t) = onion_line" using len by simp
  moreover have "drop a (take b t) = take (10 + (b - a - 10)) (drop a t)" using b by (simp add: drop_take)
  ultimately have "drop a (take b t) = onion_line @ take (b - a - 10) (drop 10 (drop a t))" by (simp only: take_add)
  then show ?thesis by simp
qed

section \<open>The batch\<close>

definition policy_ok :: "exit_policy \<Rightarrow> bool" where
  "policy_ok p \<longleftrightarrow> ep_ports p \<noteq> [] \<and> list_all (\<lambda>(low, high). 1 \<le> low \<and> low \<le> high \<and> high \<le> 65535) (ep_ports p)"

lemma parse_exit_policy_ok: "parse_exit_policy args = Inr p \<Longrightarrow> policy_ok p"
proof -
  assume a: "parse_exit_policy args = Inr p"
  then obtain kind ports ranges where r: "rmap policy_range (split_char CHR '','' ports) = Inr ranges" "ep_ports p = ranges"
    by (auto simp: parse_exit_policy_def split: list.split_asm if_split_asm)
  then have l: "list_all2 (\<lambda>x y. policy_range x = Inr y) (split_char CHR '','' ports) ranges"
    by (simp add: rmap_Inr_iff)
  then have "ranges \<noteq> []" using split_char_ne [of "CHR '',''" ports] by auto
  moreover have "list_all (\<lambda>(low, high). 1 \<le> low \<and> low \<le> high \<and> high \<le> 65535) ranges"
    using l by (induction rule: list_all2_induct) (auto simp: policy_range_def Let_def split: if_split_asm prod.split_asm)
  ultimately show ?thesis using r(2) by (simp add: policy_ok_def)
qed

definition md_state_ok :: "md_state \<Rightarrow> bool" where
  "md_state_ok st \<longleftrightarrow> (\<forall>k. ms_ntor st = Some k \<longrightarrow> length k = 32) \<and> (\<forall>k. ms_ed25519 st = Some k \<longrightarrow> length k = 32)
     \<and> pred_option policy_ok (ms_policy st)"

lemma md_item_ok: "md_item it st = Inr st' \<Longrightarrow> md_state_ok st \<Longrightarrow> md_state_ok st'"
  unfolding md_item_def Let_def
  by (simp only: split: if_split_asm list.split_asm)
    (auto simp: md_state_ok_def dest: b64_field_length parse_exit_policy_ok)

lemma md_loop_ok: "md_loop lines st = Inr st' \<Longrightarrow> md_state_ok st \<Longrightarrow> md_state_ok st'"
proof (induction lines st rule: md_loop.induct)
  case (1 lines st)
  obtain nxt where n: "next_item lines = Inr nxt"
    using "1.prems"(1) unfolding md_loop.simps [of lines] by auto
  show ?case
  proof (cases nxt)
    case None
    then show ?thesis using "1.prems" n unfolding md_loop.simps [of lines] by simp
  next
    case (Some p)
    obtain it rest where p: "p = (it, rest)" by (cases p)
    obtain st1 where s: "md_item it st = Inr st1" "md_loop rest st1 = Inr st'"
      using "1.prems"(1) n Some p unfolding md_loop.simps [of lines] by auto
    show ?thesis by (rule "1.IH" [OF n Some p [symmetric] s md_item_ok [OF s(1) "1.prems"(2)]])
  qed
qed

definition md_typed :: "prims \<Rightarrow> string \<Rightarrow> microdescriptor \<Rightarrow> bool" where
  "md_typed P chunk md \<longleftrightarrow> md_digest md = hash P SHA256 (utf8_encode chunk) \<and> length (md_ntor_onion_key md) = 32
     \<and> (\<forall>k. md_ed25519_id md = Some k \<longrightarrow> length k = 32) \<and> pred_option policy_ok (md_exit_policy md)"

lemma parse_microdescriptor_typed: "parse_microdescriptor P chunk = Inr md \<Longrightarrow> md_typed P chunk md"
  by (auto simp: parse_microdescriptor_def md_typed_def md_state_ok_def split: option.split_asm dest!: md_loop_ok)

text \<open>A batch of microdescriptors is cut into exactly one entry per \<open>onion-key\<close> line, nothing but white
space is skipped before the first, and the entries together are the rest of the text byte for byte; each
parsed entry carries the SHA-256 of its own text, 32-byte keys, and port ranges between 1 and 65535.\<close>

theorem microdescriptors_are_cut_exactly:
  assumes m: "parse_microdescriptors P batch = Inr mds" and ne: "py_strip batch \<noteq> []"
  shows "\<exists>skipped chunks. batch = skipped @ concat chunks \<and> py_strip skipped = []
    \<and> length chunks = count_list (split_char (CHR 0x0A) batch) ''onion-key''
    \<and> list_all (\<lambda>chunk. starts_with (chunk @ [CHR 0x0A]) (''onion-key'' @ [CHR 0x0A])) chunks
    \<and> list_all2 (md_typed P) chunks mds"
proof -
  let ?starts = "onion_key_starts 0 (split_char (CHR 0x0A) batch)"
  let ?bounds = "?starts @ [length batch]"
  let ?chunks = "pairwise_slices batch ?bounds"
  obtain s more where s: "?starts = s # more" "py_strip (take s batch) = []"
    and c: "rmap (parse_microdescriptor P) ?chunks = Inr mds"
    using m ne by (auto simp: parse_microdescriptors_def Let_def split: list.split_asm if_split_asm)
  have props: "list_all (onion_at batch) ?starts" "sorted_wrt (\<lambda>a b. a + 10 \<le> b) ?starts"
    "length ?starts = count_list (split_char (CHR 0x0A) batch) ''onion-key''"
    using onion_key_starts_props [of 0 "split_char (CHR 0x0A) batch"] by (simp_all add: join_split)
  have srt: "sorted ?bounds"
    using props(1,2) by (auto simp: sorted_append list_all_iff onion_at_def intro: gap_sorted)
  have "concat ?chunks = drop s batch"
    using concat_pairwise_slices [OF srt, of batch] s(1) by simp
  then have "batch = take s batch @ concat ?chunks" by simp
  moreover have "length ?chunks = count_list (split_char (CHR 0x0A) batch) ''onion-key''"
    using props(3) by (simp add: length_pairwise_slices)
  moreover have "list_all (\<lambda>chunk. starts_with (chunk @ [CHR 0x0A]) (''onion-key'' @ [CHR 0x0A])) ?chunks"
  proof (unfold list_all_length, intro allI impI)
    fix i
    assume "i < length ?chunks"
    then have i: "i < length ?starts" by (simp add: length_pairwise_slices)
    have "?bounds ! i + 10 \<le> ?bounds ! Suc i \<or> ?bounds ! Suc i = length batch"
      using i sorted_wrt_nth_less [OF props(2), of i "Suc i"] by (cases "Suc i < length ?starts") (auto simp: nth_append)
    moreover have "onion_at batch (?bounds ! i)" using props(1) i by (simp add: nth_append list_all_length)
    ultimately show "starts_with (?chunks ! i @ [CHR 0x0A]) (''onion-key'' @ [CHR 0x0A])"
      using slice_starts i by (simp add: nth_pairwise_slices)
  qed
  moreover have "list_all2 (md_typed P) ?chunks mds"
    using c unfolding rmap_Inr_iff by (rule list_all2_mono) (rule parse_microdescriptor_typed)
  ultimately show ?thesis using s(2) by blast
qed

definition example_batch :: string where
  "example_batch = ''onion-key'' @ [CHR 0x0A] @ ''ntor-onion-key AAAAAAAAAAAAAAAAAAAAAAAAAAAAAAAAAAAAAAAAAAA'' @ [CHR 0x0A]"

lemma microdescriptors_are_cut_exactly_witness:
  "\<exists>mds skipped chunks. example_batch = skipped @ concat chunks \<and> py_strip skipped = []
    \<and> length chunks = count_list (split_char (CHR 0x0A) example_batch) ''onion-key''
    \<and> list_all (\<lambda>chunk. starts_with (chunk @ [CHR 0x0A]) (''onion-key'' @ [CHR 0x0A])) chunks
    \<and> list_all2 (md_typed toy_prims) chunks mds"
    (is "\<exists>mds skipped chunks. ?Q mds skipped chunks")
proof -
  have "isl (parse_microdescriptors toy_prims example_batch) = False" by code_simp
  then obtain mds where "parse_microdescriptors toy_prims example_batch = Inr mds"
    by (cases "parse_microdescriptors toy_prims example_batch") auto
  moreover have "py_strip example_batch \<noteq> []" by code_simp
  ultimately show ?thesis by (intro exI [of _ mds] microdescriptors_are_cut_exactly)
qed

end
