(* ===== verification/ConsensusVerify.thy ===== *)
theory ConsensusVerify
  imports DirParsers
begin

text \<open>
  Consensus verification and the authorities' key certificates (\<open>_dir/consensus.py\<close>, \<open>_dir/keycerts.py\<close>).
  RSA is the \<open>cryptography\<close> package: loading a PEM key, the PKCS1 encoding of a key and the recovery of the
  payload of a signature are the fields of \<open>rsa_ops\<close>, with the outcomes the package documents.
\<close>

datatype 'k pem_outcome = Pem_raises exc | Pem_not_rsa | Pem_rsa 'k

record 'k rsa_ops =
  load_pem :: "bytes \<Rightarrow> 'k pem_outcome"
  key_pkcs1 :: "'k \<Rightarrow> bytes"
  recover_payload :: "'k \<Rightarrow> bytes \<Rightarrow> bytes res"

definition SIGNED_REGION_MARKER :: string where
  "SIGNED_REGION_MARKER = CHR 0x0A # ''directory-signature ''"

definition signature_digest :: "prims \<Rightarrow> string \<Rightarrow> (bytes \<Rightarrow> bytes) option" where
  "signature_digest P algorithm =
    (if algorithm = ''sha1'' then Some (hash P SHA1)
     else if algorithm = ''sha256'' then Some (hash P SHA256) else None)"

definition signing_key_digest :: "prims \<Rightarrow> 'k rsa_ops \<Rightarrow> 'k \<Rightarrow> bytes" where
  "signing_key_digest P R key = hash P SHA1 (key_pkcs1 R key)"

definition verify_document_signature :: "'k rsa_ops \<Rightarrow> 'k \<Rightarrow> bytes \<Rightarrow> bytes \<Rightarrow> bool res" where
  "verify_document_signature R key signature digest =
    rcatch (rbind (recover_payload R key signature) (\<lambda>recovered. Inr (const_time_eq recovered digest)))
      (catches [InvalidSignature, ValueError]) (\<lambda>e. Inr False)"

definition load_signing_key :: "'k rsa_ops \<Rightarrow> directory_authority \<Rightarrow> 'k option res" where
  "load_signing_key R authority =
    (case da_signing_key_pem authority of
       None \<Rightarrow> Inr None
     | Some pem \<Rightarrow>
        (case load_pem R pem of
           Pem_raises e \<Rightarrow> if catches [ValueError] e then Inl ConsensusError else Inl e
         | Pem_not_rsa \<Rightarrow> Inl ConsensusError
         | Pem_rsa key \<Rightarrow> Inr (Some key)))"

definition signed_region :: "string \<Rightarrow> bytes res" where
  "signed_region consensus_text =
    (case find_sub SIGNED_REGION_MARKER consensus_text of
       None \<Rightarrow> Inl ConsensusError
     | Some index \<Rightarrow> Inr (utf8_encode (take (index + length SIGNED_REGION_MARKER) consensus_text)))"

text \<open>The dict comprehension over the authorities: the last one of an identity wins.\<close>

definition by_identity :: "directory_authority list \<Rightarrow> bytes \<Rightarrow> directory_authority option" where
  "by_identity authorities = fold (\<lambda>a m. m(da_v3ident a \<mapsto> a)) authorities Map.empty"

text \<open>One turn of the loop over the signatures: whether the signature counts.\<close>

definition check_signature ::
  "prims \<Rightarrow> 'k rsa_ops \<Rightarrow> directory_authority list \<Rightarrow> bytes \<Rightarrow> consensus_signature \<Rightarrow> bool res" where
  "check_signature P R authorities region signature =
    (case signature_digest P (cs_algorithm signature) of
       None \<Rightarrow> Inr False
     | Some digest \<Rightarrow>
        (case by_identity authorities (cs_identity signature) of
           None \<Rightarrow> Inr False
         | Some authority \<Rightarrow>
            rbind (load_signing_key R authority) (\<lambda>loaded.
              case loaded of
                None \<Rightarrow> Inr False
              | Some key \<Rightarrow>
                 if \<not> const_time_eq (signing_key_digest P R key) (cs_signing_key_digest signature) then Inr False
                 else verify_document_signature R key (cs_signature signature) (digest region))))"

fun verified_identities ::
  "prims \<Rightarrow> 'k rsa_ops \<Rightarrow> directory_authority list \<Rightarrow> bytes \<Rightarrow> consensus_signature list \<Rightarrow> bytes set \<Rightarrow> bytes set res" where
  "verified_identities P R authorities region [] verified = Inr verified"
| "verified_identities P R authorities region (s # ss) verified =
    rbind (check_signature P R authorities region s) (\<lambda>ok.
      verified_identities P R authorities region ss (if ok then insert (cs_identity s) verified else verified))"

text \<open>\<open>clock\<close> is the current time, used when \<open>now\<close> is not given.\<close>

definition verify_consensus ::
  "prims \<Rightarrow> 'k rsa_ops \<Rightarrow> real \<Rightarrow> string \<Rightarrow> directory_authority list \<Rightarrow> py_datetime option \<Rightarrow> consensus res" where
  "verify_consensus P R clock consensus_text authorities now =
    (if authorities = [] then Inl ConsensusError
     else case (case now of None \<Rightarrow> Aware clock | Some t \<Rightarrow> t) of
       Naive \<Rightarrow> Inl ValueError
     | Aware t \<Rightarrow>
        rbind (parse_consensus consensus_text) (\<lambda>consensus.
          if t < con_valid_after consensus then Inl ConsensusError
          else if con_valid_until consensus < t then Inl ConsensusError
          else
            rbind (signed_region consensus_text) (\<lambda>region.
            rbind (verified_identities P R authorities region (con_signatures consensus) {}) (\<lambda>verified.
              if 2 * card verified \<le> length authorities then Inl ConsensusError else Inr consensus))))"

section \<open>Key certificates\<close>

definition CERT_MARKER :: string where
  "CERT_MARKER = ''dir-key-certificate-version 3''"

definition CERTIFICATION_TOKEN :: string where
  "CERTIFICATION_TOKEN = ''dir-key-certification'' @ [CHR 0x0A]"

record key_certificate =
  kc_v3ident :: bytes
  kc_signing_key_pem :: bytes

text \<open>\<open>re.search(start + "(.*?)" + stop, text, re.S)\<close>: the leftmost \<open>start\<close> with a \<open>stop\<close> after it is the leftmost
\<open>start\<close>, and the lazy group ends at the first \<open>stop\<close>.\<close>

definition search_between :: "string \<Rightarrow> string \<Rightarrow> string \<Rightarrow> string option" where
  "search_between start stop s =
    (case find_sub start s of
       None \<Rightarrow> None
     | Some i \<Rightarrow>
        let rest = drop (i + length start) s
        in map_option (\<lambda>j. take j rest) (find_sub stop rest))"

definition pem_block :: "string \<Rightarrow> string \<Rightarrow> string option" where
  "pem_block label s =
    map_option (\<lambda>body. ''-----BEGIN '' @ label @ ''-----'' @ CHR 0x0A # body @ ''-----END '' @ label @ ''-----'' @ [CHR 0x0A])
      (search_between (''-----BEGIN '' @ label @ ''-----'' @ [CHR 0x0A]) (''-----END '' @ label @ ''-----'') s)"

fun search_fingerprint :: "string \<Rightarrow> string option" where
  "search_fingerprint [] = None"
| "search_fingerprint (c # s) =
    (let digits = take 40 (drop 12 (c # s)) in
     if starts_with (c # s) ''fingerprint '' \<and> length digits = 40 \<and> list_all (\<lambda>d. hex_value d \<noteq> None) digits
     then Some digits else search_fingerprint s)"

text \<open>The signing key block, whose \<open>BEGIN\<close> line may have any label.\<close>

definition search_signing_key :: "string \<Rightarrow> string option" where
  "search_signing_key s =
    map_option (\<lambda>body. ''-----BEGIN'' @ body @ ''-----END RSA PUBLIC KEY-----'' @ [CHR 0x0A])
      (search_between (''dir-signing-key'' @ CHR 0x0A # ''-----BEGIN'') (''-----END RSA PUBLIC KEY-----'' @ [CHR 0x0A]) s)"

text \<open>\<open>re.sub(r"-----(BEGIN|END)[^-]*-----", "", pem)\<close>: what follows a delimiter line, if one starts here.\<close>

definition after_delimiter :: "string \<Rightarrow> string option" where
  "after_delimiter s =
    (let s' = (if starts_with s ''-----BEGIN'' then Some (drop 10 s)
               else if starts_with s ''-----END'' then Some (drop 8 s) else None)
     in case s' of
          None \<Rightarrow> None
        | Some t \<Rightarrow>
           let u = dropWhile (\<lambda>c. c \<noteq> CHR ''-'') t
           in if starts_with u ''-----'' then Some (drop 5 u) else None)"

lemma after_delimiter_length: "after_delimiter s = Some rest \<Longrightarrow> length rest < length s"
proof -
  assume a: "after_delimiter s = Some rest"
  have "length (dropWhile (\<lambda>c. c \<noteq> CHR ''-'') t) \<le> length t" for t :: string by (rule length_dropWhile_le)
  from this [of "drop 10 s"] this [of "drop 8 s"] a show ?thesis
    by (cases s) (auto simp: after_delimiter_def Let_def split: if_split_asm)
qed

function pem_body :: "string \<Rightarrow> string" where
  "pem_body [] = []"
| "pem_body (c # cs) =
    (case after_delimiter (c # cs) of Some rest \<Rightarrow> pem_body rest | None \<Rightarrow> c # pem_body cs)"
  by pat_completeness auto
termination
  by (relation "measure length") (auto dest: after_delimiter_length)

declare pem_body.simps [simp del]

definition load_rsa :: "'k rsa_ops \<Rightarrow> string \<Rightarrow> 'k res" where
  "load_rsa R pem =
    (case load_pem R (utf8_encode pem) of
       Pem_raises e \<Rightarrow> Inl e
     | Pem_not_rsa \<Rightarrow> Inl ValueError
     | Pem_rsa key \<Rightarrow> Inr key)"

definition parse_one :: "prims \<Rightarrow> 'k rsa_ops \<Rightarrow> string \<Rightarrow> key_certificate option res" where
  "parse_one P R cert_text =
    (case (search_fingerprint cert_text, pem_block ''RSA PUBLIC KEY'' cert_text, search_signing_key cert_text,
           pem_block ''SIGNATURE'' cert_text) of
       (Some fingerprint, Some identity_pem, Some signing_pem, Some signature_pem) \<Rightarrow>
         rbind (load_rsa R identity_pem) (\<lambda>identity_key.
           let v3ident = signing_key_digest P R identity_key in
           if bytes_hex v3ident \<noteq> py_lower fingerprint then Inr None
           else case find_sub CERTIFICATION_TOKEN cert_text of
             None \<Rightarrow> Inr None
           | Some token \<Rightarrow>
              let signed_region = utf8_encode (take (token + length CERTIFICATION_TOKEN) cert_text) in
              rbind (b64_decode_lenient (filter (\<lambda>c. \<not> is_space c) (pem_body signature_pem))) (\<lambda>signature.
              rbind (verify_document_signature R identity_key signature (hash P SHA1 signed_region)) (\<lambda>ok.
                if \<not> ok then Inr None
                else rbind (load_rsa R signing_pem) (\<lambda>_.
                  Inr (Some \<lparr>kc_v3ident = v3ident, kc_signing_key_pem = utf8_encode signing_pem\<rparr>)))))
     | _ \<Rightarrow> Inr None)"

fun collect_certs :: "prims \<Rightarrow> 'k rsa_ops \<Rightarrow> string list \<Rightarrow> key_certificate list \<Rightarrow> key_certificate list res" where
  "collect_certs P R [] certs = Inr certs"
| "collect_certs P R (chunk # chunks) certs =
    (case parse_one P R (CERT_MARKER @ chunk) of
       Inl e \<Rightarrow> if catches [ValueError] e then collect_certs P R chunks certs else Inl e
     | Inr None \<Rightarrow> collect_certs P R chunks certs
     | Inr (Some cert) \<Rightarrow> collect_certs P R chunks (certs @ [cert]))"

definition parse_key_certificates :: "prims \<Rightarrow> 'k rsa_ops \<Rightarrow> string \<Rightarrow> key_certificate list res" where
  "parse_key_certificates P R doc = collect_certs P R (tl (split_sub CERT_MARKER doc)) []"

end
