(* ===== verification/ConsensusLaws.thy ===== *)
theory ConsensusLaws
  imports ConsensusVerify "HOL-Library.Code_Target_Nat"
begin

text \<open>
  What an accepted consensus and a verified key certificate promise.
\<close>

section \<open>What acceptance means\<close>

text \<open>A signature that counts: its algorithm is known, its identity is a trusted authority's, the key it names is
the signing key we hold for that authority, and the payload recovered from it is the digest of the signed
region.\<close>

definition counts ::
  "prims \<Rightarrow> 'k rsa_ops \<Rightarrow> directory_authority list \<Rightarrow> bytes \<Rightarrow> consensus_signature \<Rightarrow> bool" where
  "counts P R authorities region s \<longleftrightarrow>
     (\<exists>alg \<in> {SHA1, SHA256}. cs_algorithm s = (if alg = SHA1 then ''sha1'' else ''sha256'')
       \<and> (\<exists>a pem key. by_identity authorities (cs_identity s) = Some a \<and> da_signing_key_pem a = Some pem
            \<and> load_pem R pem = Pem_rsa key \<and> signing_key_digest P R key = cs_signing_key_digest s
            \<and> recover_payload R key (cs_signature s) = Inr (hash P alg region)))"

lemma by_identity_snoc: "by_identity (as @ [a]) = (by_identity as)(da_v3ident a \<mapsto> a)"
  by (simp add: by_identity_def)

lemma by_identity_Some: "by_identity authorities i = Some a \<Longrightarrow> a \<in> set authorities \<and> da_v3ident a = i"
proof (induction authorities rule: rev_induct)
  case Nil
  then show ?case by (simp add: by_identity_def)
next
  case (snoc x xs)
  then show ?case by (auto simp: by_identity_snoc split: if_split_asm)
qed

lemma verify_document_signature_True:
  "verify_document_signature R key sig d = Inr True \<longleftrightarrow> recover_payload R key sig = Inr d"
  by (cases "recover_payload R key sig") (auto simp: verify_document_signature_def rcatch_def)

lemma check_signature_True: "check_signature P R as region s = Inr True \<longleftrightarrow> counts P R as region s"
proof
  assume "check_signature P R as region s = Inr True"
  then show "counts P R as region s"
    by (auto simp: check_signature_def counts_def signature_digest_def load_signing_key_def verify_document_signature_True
        split: option.split_asm pem_outcome.split_asm if_split_asm)
next
  assume "counts P R as region s"
  then show "check_signature P R as region s = Inr True"
    by (auto simp: check_signature_def counts_def signature_digest_def load_signing_key_def verify_document_signature_True)
qed

lemma verified_identities_exact:
  "verified_identities P R as region ss V = Inr V' \<Longrightarrow>
    V' = V \<union> cs_identity ` {s \<in> set ss. counts P R as region s}"
proof (induction ss arbitrary: V)
  case (Cons s ss)
  then obtain ok where ok: "check_signature P R as region s = Inr ok"
    "verified_identities P R as region ss (if ok then insert (cs_identity s) V else V) = Inr V'" by auto
  then have "ok \<longleftrightarrow> counts P R as region s" using check_signature_True [of P R as region s] by simp
  with Cons.IH [OF ok(2)] show ?case by (auto split: if_split_asm)
qed simp

text \<open>The keys of the authorities load and recovering a payload fails only as documented.\<close>

definition keys_usable :: "'k rsa_ops \<Rightarrow> directory_authority list \<Rightarrow> bool" where
  "keys_usable R authorities \<longleftrightarrow>
     (\<forall>a \<in> set authorities. \<forall>pem. da_signing_key_pem a = Some pem \<longrightarrow> (\<exists>key. load_pem R pem = Pem_rsa key))
     \<and> (\<forall>key sig. raises_only {InvalidSignature, ValueError} (recover_payload R key sig))"

lemma check_signature_total: "keys_usable R as \<Longrightarrow> \<exists>ok. check_signature P R as region s = Inr ok"
proof -
  assume k: "keys_usable R as"
  have v: "\<exists>ok. verify_document_signature R key sig d = Inr ok" for key sig d
    using k by (cases "recover_payload R key sig")
      (auto simp: keys_usable_def raises_only_def verify_document_signature_def rcatch_def)
  have l: "\<exists>x. load_signing_key R a = Inr x" if mem: "a \<in> set as" for a
  proof (cases "da_signing_key_pem a")
    case None
    then show ?thesis by (simp add: load_signing_key_def)
  next
    case (Some pem)
    then obtain key where "load_pem R pem = Pem_rsa key" using k mem unfolding keys_usable_def by blast
    then show ?thesis using Some by (simp add: load_signing_key_def)
  qed
  show ?thesis
  proof (cases "signature_digest P (cs_algorithm s)")
    case digest: (Some d)
    show ?thesis
    proof (cases "by_identity as (cs_identity s)")
      case auth: (Some a)
      obtain x where x: "load_signing_key R a = Inr x" using l by_identity_Some [OF auth] by blast
      show ?thesis
      proof (cases x)
        case (Some key)
        obtain ok where "verify_document_signature R key (cs_signature s) (d region) = Inr ok" using v by blast
        then show ?thesis using digest auth x Some by (auto simp: check_signature_def intro: exI [of _ False])
      qed (use digest auth x in \<open>auto simp: check_signature_def intro: exI [of _ False]\<close>)
    qed (use digest in \<open>auto simp: check_signature_def intro: exI [of _ False]\<close>)
  qed (auto simp: check_signature_def intro: exI [of _ False])
qed

lemma verified_identities_total: "keys_usable R as \<Longrightarrow> \<exists>V'. verified_identities P R as region ss V = Inr V'"
proof (induction ss arbitrary: V)
  case (Cons s ss)
  then show ?case using check_signature_total [OF Cons.prems, of P region s] by fastforce
qed simp

lemma consensus_verifies_iff:
  assumes k: "keys_usable R authorities" and a: "authorities \<noteq> []"
  shows "verify_consensus P R clock document authorities (Some (Aware t)) = Inr c \<longleftrightarrow>
    parse_consensus document = Inr c \<and> is_live c t
    \<and> (\<exists>region. signed_region document = Inr region
         \<and> length authorities < 2 * card (cs_identity ` {s \<in> set (con_signatures c). counts P R authorities region s}))"
    (is "?accepted \<longleftrightarrow> ?good")
proof
  assume ?accepted
  then obtain region V where r: "parse_consensus document = Inr c" "is_live c t" "signed_region document = Inr region"
    "verified_identities P R authorities region (con_signatures c) {} = Inr V" "length authorities < 2 * card V"
    using a by (auto simp: verify_consensus_def is_live_def not_less split: if_split_asm)
  with verified_identities_exact [OF r(4)] show ?good by auto
next
  assume ?good
  then obtain region where r: "parse_consensus document = Inr c" "is_live c t" "signed_region document = Inr region"
    "length authorities < 2 * card (cs_identity ` {s \<in> set (con_signatures c). counts P R authorities region s})" by blast
  obtain V where v: "verified_identities P R authorities region (con_signatures c) {} = Inr V"
    using verified_identities_total [OF k] by blast
  with verified_identities_exact [OF v] r a show ?accepted
    by (simp add: verify_consensus_def is_live_def not_le)
qed

text \<open>C3: a consensus is accepted exactly when it parses, is live, and more than half of the trusted authorities
signed it: when the distinct trusted identities with a signature that recovers to the digest of exactly the
signed region, under the signing key held for that authority, number more than half of the authorities. So
no set of forged signatures, repeated signatures, unknown identities or unknown algorithms adds up.\<close>

theorem consensus_needs_a_majority:
  assumes k: "keys_usable R authorities" and a: "authorities \<noteq> []"
  shows "verify_consensus P R clock document authorities (Some (Aware t)) = Inr c \<longleftrightarrow>
    parse_consensus document = Inr c \<and> is_live c t
    \<and> (\<exists>region. signed_region document = Inr region
         \<and> length authorities < 2 * card (cs_identity ` {s \<in> set (con_signatures c). counts P R authorities region s}))"
  using k a by (rule consensus_verifies_iff)

text \<open>A consensus signed by the only authority.\<close>

definition toy_rsa :: "bytes \<Rightarrow> unit rsa_ops" where
  "toy_rsa digest = \<lparr>load_pem = (\<lambda>pem. Pem_rsa ()), key_pkcs1 = (\<lambda>k. []), recover_payload = (\<lambda>k s. Inr digest)\<rparr>"

definition toy_authority :: directory_authority where
  "toy_authority = \<lparr>da_nickname = ''a'', da_v3ident = replicate 20 0, da_dir_address = (''10.0.0.2'', 80),
    da_signing_key_pem = Some []\<rparr>"

definition signed_example :: string where
  "signed_example =
    join_with (CHR 0x0A) [''network-status-version 3 microdesc'', ''valid-after 2026-01-01 00:00:00'',
      ''fresh-until 2026-01-01 01:00:00'', ''valid-until 2026-01-01 03:00:00'',
      ''directory-signature sha256 0000000000000000000000000000000000000000 0000000000000000000000000000000000000000'',
      ''-----BEGIN SIGNATURE-----'', ''AAAA'', ''-----END SIGNATURE-----'', []]"

lemma toy_keys_usable: "keys_usable (toy_rsa d) as"
  by (simp add: keys_usable_def toy_rsa_def raises_only_def)

lemma signed_example_verifies:
  obtains c where "verify_consensus toy_prims (toy_rsa (replicate 32 151)) 0 signed_example [toy_authority]
    (Some (Aware 1767229200)) = Inr c"
proof -
  have "isl (verify_consensus toy_prims (toy_rsa (replicate 32 151)) 0 signed_example [toy_authority] (Some (Aware 1767229200))) = False"
    by code_simp
  then show ?thesis
    using that by (cases "verify_consensus toy_prims (toy_rsa (replicate 32 151)) 0 signed_example [toy_authority]
      (Some (Aware 1767229200))") auto
qed

lemma consensus_needs_a_majority_witness:
  "\<exists>c region. verify_consensus toy_prims (toy_rsa (replicate 32 151)) 0 signed_example [toy_authority] (Some (Aware 1767229200)) = Inr c
    \<and> parse_consensus signed_example = Inr c \<and> is_live c 1767229200 \<and> signed_region signed_example = Inr region
    \<and> length [toy_authority] < 2 * card (cs_identity ` {s \<in> set (con_signatures c).
        counts toy_prims (toy_rsa (replicate 32 151)) [toy_authority] region s})"
proof -
  obtain c where "verify_consensus toy_prims (toy_rsa (replicate 32 151)) 0 signed_example [toy_authority]
      (Some (Aware 1767229200)) = Inr c" by (rule signed_example_verifies)
  with consensus_needs_a_majority [OF toy_keys_usable, of "[toy_authority]" toy_prims "replicate 32 151" 0 signed_example 1767229200 c]
  show ?thesis by blast
qed

section \<open>What a verified key certificate means\<close>

lemma search_between_Some:
  "search_between start stop s = Some body \<Longrightarrow> \<exists>pre post. s = pre @ start @ body @ stop @ post"
proof -
  assume "search_between start stop s = Some body"
  then obtain i j where i: "find_sub start s = Some i" and j: "find_sub stop (drop (i + length start) s) = Some j"
    and b: "body = take j (drop (i + length start) s)"
    by (auto simp: search_between_def Let_def split: option.split_asm)
  have s1: "s = take i s @ start @ drop (i + length start) s"
    using find_sub_Some [OF i] by (metis append_take_drop_id drop_drop add.commute)
  have "drop (i + length start) s = body @ stop @ drop (j + length stop) (drop (i + length start) s)"
    using find_sub_Some [OF j] b by (metis append_take_drop_id drop_drop add.commute)
  with s1 show ?thesis by metis
qed

definition certified :: "prims \<Rightarrow> 'k rsa_ops \<Rightarrow> string \<Rightarrow> key_certificate \<Rightarrow> bool" where
  "certified P R cert_text c \<longleftrightarrow>
     (\<exists>identity_pem signing_pem identity_key signing_key signature region.
        load_rsa R identity_pem = Inr identity_key \<and> kc_v3ident c = signing_key_digest P R identity_key
        \<and> region = take (length region) cert_text \<and> ends_with region CERTIFICATION_TOKEN
        \<and> recover_payload R identity_key signature = Inr (hash P SHA1 (utf8_encode region))
        \<and> load_rsa R signing_pem = Inr signing_key \<and> kc_signing_key_pem c = utf8_encode signing_pem
        \<and> (\<exists>pre post. cert_text = pre @ ''dir-signing-key'' @ CHR 0x0A # signing_pem @ post))"

lemma parse_one_certified:
  assumes "parse_one P R cert_text = Inr (Some c)"
  shows "certified P R cert_text c"
proof -
  obtain fingerprint identity_pem signing_pem signature_pem where
    s: "search_signing_key cert_text = Some signing_pem"
    and m: "search_fingerprint cert_text = Some fingerprint" "pem_block ''RSA PUBLIC KEY'' cert_text = Some identity_pem"
      "pem_block ''SIGNATURE'' cert_text = Some signature_pem"
    using assms by (auto simp: parse_one_def split: option.split_asm)
  obtain identity_key token signature signing_key where
    k: "load_rsa R identity_pem = Inr identity_key" "find_sub CERTIFICATION_TOKEN cert_text = Some token"
    and v: "recover_payload R identity_key signature
        = Inr (hash P SHA1 (utf8_encode (take (token + length CERTIFICATION_TOKEN) cert_text)))"
      "load_rsa R signing_pem = Inr signing_key"
      "c = \<lparr>kc_v3ident = signing_key_digest P R identity_key, kc_signing_key_pem = utf8_encode signing_pem\<rparr>"
    using assms s m
    by (auto simp: parse_one_def Let_def verify_document_signature_True split: option.split_asm if_split_asm)
  let ?region = "take (token + length CERTIFICATION_TOKEN) cert_text"
  have f: "token + length CERTIFICATION_TOKEN \<le> length cert_text"
    "take (length CERTIFICATION_TOKEN) (drop token cert_text) = CERTIFICATION_TOKEN"
    using find_sub_Some [OF k(2)] by auto
  then have "?region = take token cert_text @ CERTIFICATION_TOKEN" by (simp add: take_add)
  then have e: "ends_with ?region CERTIFICATION_TOKEN" by simp
  have l: "?region = take (length ?region) cert_text" using f(1) by simp
  obtain body where b: "signing_pem = ''-----BEGIN'' @ body @ ''-----END RSA PUBLIC KEY-----'' @ [CHR 0x0A]"
    "search_between (''dir-signing-key'' @ CHR 0x0A # ''-----BEGIN'') (''-----END RSA PUBLIC KEY-----'' @ [CHR 0x0A]) cert_text = Some body"
    using s by (auto simp: search_signing_key_def)
  from search_between_Some [OF b(2)] obtain pre post where
    "cert_text = pre @ ''dir-signing-key'' @ CHR 0x0A # signing_pem @ post" unfolding b(1) by auto
  then have t: "\<exists>pre post. cert_text = pre @ ''dir-signing-key'' @ CHR 0x0A # signing_pem @ post" by blast
  show ?thesis
    unfolding certified_def
    by (rule exI [of _ identity_pem], rule exI [of _ signing_pem], rule exI [of _ identity_key],
        rule exI [of _ signing_key], rule exI [of _ signature], rule exI [of _ ?region])
      (intro conjI k(1) v(1,2) e l t; simp only: v(3) key_certificate.simps)
qed

lemma collect_certs_certified:
  "collect_certs P R chunks certs = Inr out \<Longrightarrow>
    c \<in> set out \<Longrightarrow> c \<in> set certs \<or> (\<exists>chunk \<in> set chunks. certified P R (CERT_MARKER @ chunk) c)"
proof (induction chunks arbitrary: certs)
  case (Cons chunk chunks)
  consider e where "parse_one P R (CERT_MARKER @ chunk) = Inl e" | "parse_one P R (CERT_MARKER @ chunk) = Inr None"
    | c' where "parse_one P R (CERT_MARKER @ chunk) = Inr (Some c')"
    by (metis sum.exhaust option.exhaust)
  then show ?case
  proof cases
    case 1
    then show ?thesis using Cons by (auto split: if_split_asm)
  next
    case 2
    then show ?thesis using Cons by auto
  next
    case 3
    then have "collect_certs P R chunks (certs @ [c']) = Inr out" using Cons.prems(1) by simp
    from Cons.IH [OF this Cons.prems(2)] parse_one_certified [OF 3] show ?thesis by auto
  qed
qed simp

text \<open>With a key loader that raises nothing but \<open>ValueError\<close>, parsing the certificates never fails.\<close>

lemma parse_one_raises:
  assumes "\<And>pem e. load_pem R pem = Pem_raises e \<Longrightarrow> e = ValueError"
    and "\<And>key sig. raises_only {InvalidSignature, ValueError} (recover_payload R key sig)"
  shows "raises_only {ValueError, BinasciiError} (parse_one P R t)"
proof -
  have l: "raises_only {ValueError, BinasciiError} (load_rsa R pem)" for pem
    using assms(1) by (auto simp: load_rsa_def raises_only_def split: pem_outcome.split)
  have v: "raises_only {ValueError, BinasciiError} (verify_document_signature R key sig d)" for key sig d
    using assms(2) [of key sig] by (cases "recover_payload R key sig")
      (auto simp: verify_document_signature_def raises_only_def rcatch_def)
  have b: "raises_only {ValueError, BinasciiError} (b64_decode_lenient s)" for s by (rule b64_decode_lenient_raises)
  show ?thesis
    unfolding parse_one_def Let_def by (auto intro!: raises_intros l v b split: option.split prod.split)
qed

lemma collect_certs_total:
  "(\<And>t. raises_only {ValueError, BinasciiError} (parse_one P R t)) \<Longrightarrow> \<exists>out. collect_certs P R chunks certs = Inr out"
proof (induction chunks arbitrary: certs)
  case (Cons chunk chunks)
  have "catches [ValueError] e" if "parse_one P R (CERT_MARKER @ chunk) = Inl e" for e
    using raises_onlyD [OF Cons.prems that]
    by (auto simp: catches_def isa.simps [of BinasciiError])
  then show ?case using Cons by (auto split: sum.split option.split)
qed simp

text \<open>What the key loader and the signature check of the package may raise.\<close>

definition rsa_documented :: "'k rsa_ops \<Rightarrow> bool" where
  "rsa_documented R \<longleftrightarrow> (\<forall>pem e. load_pem R pem = Pem_raises e \<longrightarrow> e = ValueError)
     \<and> (\<forall>key sig. raises_only {InvalidSignature, ValueError} (recover_payload R key sig))"

text \<open>Parsing a document of key certificates always ends with a list, whatever fails a check or does not
parse being left out; and every certificate in the list is genuine: its identity is the digest of a key that
signed the certificate from its first byte through its certification line, and its signing key is an RSA key
printed in the certificate.\<close>

theorem key_certificates_are_certified:
  assumes "rsa_documented R"
  shows "\<exists>certs. parse_key_certificates P R doc = Inr certs
    \<and> (\<forall>c \<in> set certs. \<exists>chunk \<in> set (tl (split_sub CERT_MARKER doc)). certified P R (CERT_MARKER @ chunk) c)"
proof -
  have "raises_only {ValueError, BinasciiError} (parse_one P R t)" for t
    using assms by (intro parse_one_raises) (auto simp: rsa_documented_def)
  then obtain certs where c: "collect_certs P R (tl (split_sub CERT_MARKER doc)) [] = Inr certs"
    using collect_certs_total by blast
  then show ?thesis using collect_certs_certified [OF c] by (auto simp: parse_key_certificates_def)
qed

text \<open>A document with one certificate.\<close>

definition example_certificate :: string where
  "example_certificate = CERT_MARKER @ join_with (CHR 0x0A) [[],
    ''fingerprint 0000000000000000000000000000000000000000'', ''dir-identity-key'',
    ''-----BEGIN RSA PUBLIC KEY-----'', ''AA=='', ''-----END RSA PUBLIC KEY-----'', ''dir-signing-key'',
    ''-----BEGIN RSA PUBLIC KEY-----'', ''AA=='', ''-----END RSA PUBLIC KEY-----'', ''dir-key-certification'',
    ''-----BEGIN SIGNATURE-----'', ''AA=='', ''-----END SIGNATURE-----'', []]"

lemma key_certificates_are_certified_witness:
  "map_sum id (map kc_v3ident) (parse_key_certificates toy_prims (toy_rsa (replicate 20 12)) example_certificate)
      = Inr [replicate 20 0]
   \<and> (\<exists>certs. parse_key_certificates toy_prims (toy_rsa (replicate 20 12)) example_certificate = Inr certs
    \<and> (\<forall>c \<in> set certs. \<exists>chunk \<in> set (tl (split_sub CERT_MARKER example_certificate)).
          certified toy_prims (toy_rsa (replicate 20 12)) (CERT_MARKER @ chunk) c))"
proof
  show "map_sum id (map kc_v3ident) (parse_key_certificates toy_prims (toy_rsa (replicate 20 12)) example_certificate)
      = Inr [replicate 20 0]" by code_simp
  show "\<exists>certs. parse_key_certificates toy_prims (toy_rsa (replicate 20 12)) example_certificate = Inr certs
    \<and> (\<forall>c \<in> set certs. \<exists>chunk \<in> set (tl (split_sub CERT_MARKER example_certificate)).
          certified toy_prims (toy_rsa (replicate 20 12)) (CERT_MARKER @ chunk) c)"
    by (rule key_certificates_are_certified) (simp add: rsa_documented_def toy_rsa_def raises_only_def)
qed

end
