(* ===== verification/Descriptor.thy ===== *)
theory Descriptor
  imports Certs LinkSpec Utf8 Base64 DirModels
begin

text \<open>
  Decoding a fetched v3 onion-service descriptor (\<open>_onion/descriptor.py\<close>): the outer wrapper with its
  certificate and signature, the two encrypted layers, and the introduction points. \<open>clock\<close> is the current
  time where the code reads it. The generator of the items is one step at a time, as for the directory
  documents.
\<close>

definition SIG_PREFIX :: bytes where
  "SIG_PREFIX = utf8_encode ''Tor onion service descriptor sig v3''"

definition SUPERENCRYPTED_CONSTANT :: bytes where
  "SUPERENCRYPTED_CONSTANT = utf8_encode ''hsdir-superencrypted-data''"

definition ENCRYPTED_CONSTANT :: bytes where
  "ENCRYPTED_CONSTANT = utf8_encode ''hsdir-encrypted-data''"

definition DESCRIPTOR_COOKIE_LEN :: nat where
  "DESCRIPTOR_COOKIE_LEN = 16"

definition OUTER_FIELDS :: "string list" where
  "OUTER_FIELDS = [''hs-descriptor'', ''descriptor-lifetime'', ''descriptor-signing-key-cert'', ''revision-counter'',
    ''superencrypted'', ''signature'']"

record intro_point =
  ip_link_specifiers :: "link_spec list"
  ip_onion_key :: bytes
  ip_auth_key :: bytes
  ip_enc_key :: bytes

record hs_descriptor =
  hd_lifetime :: int
  hd_revision_counter :: int
  hd_intro_points :: "intro_point list"

record auth_client =
  ac_client_id :: bytes
  ac_iv :: bytes
  ac_encrypted_cookie :: bytes

record outer_descriptor =
  od_lifetime :: int
  od_revision_counter :: int
  od_desc_signing_key :: bytes
  od_superencrypted_blob :: bytes

section \<open>Parsing helpers\<close>

definition desc_b64decode :: "string \<Rightarrow> bytes res" where
  "desc_b64decode data =
    (let compact = concat (split_space data)
     in rcatch (b64_decode (compact @ replicate (pad_to 4 (length compact)) (CHR ''='')))
          (catches [BinasciiError, ValueError]) (\<lambda>e. Inl DescriptorError))"

fun desc_body :: "string list \<Rightarrow> (string list \<times> string list) option" where
  "desc_body [] = None"
| "desc_body (line # lines) =
    (if starts_with line ''-----END '' then Some ([], lines)
     else map_option (\<lambda>(body, rest). (line # body, rest)) (desc_body lines))"

text \<open>One step of \<open>_iter_items\<close>: the keyword, its arguments, its object, and the lines left.\<close>

type_synonym desc_item = "string \<times> string list \<times> bytes option"

definition desc_object :: "string list \<Rightarrow> (bytes option \<times> string list) res" where
  "desc_object lines =
    (case lines of
       [] \<Rightarrow> Inr (None, [])
     | begin_line # lines' \<Rightarrow>
        if starts_with begin_line ''-----BEGIN '' then
          (case desc_body lines' of
             None \<Rightarrow> Inl DescriptorError
           | Some (body, rest) \<Rightarrow> rbind (desc_b64decode (concat body)) (\<lambda>obj. Inr (Some obj, rest)))
        else Inr (None, lines))"

fun next_desc_item :: "string list \<Rightarrow> (desc_item \<times> string list) option res" where
  "next_desc_item [] = Inr None"
| "next_desc_item (line # lines) =
    (if line = [] then next_desc_item lines
     else
       let parts = split_char CHR '' '' line in
       rbind (desc_object lines) (\<lambda>(obj, rest). Inr (Some ((hd parts, tl parts, obj), rest))))"

definition decode_plaintext :: "bytes \<Rightarrow> string res" where
  "decode_plaintext data = rcatch (utf8_decode data) (catches [UnicodeDecodeError]) (\<lambda>e. Inl DescriptorError)"

definition parse_cert :: "bytes option \<Rightarrow> ed_cert res" where
  "parse_cert blob =
    (case blob of
       None \<Rightarrow> Inl DescriptorError
     | Some b \<Rightarrow> rcatch (cert_parse b) (catches [ValueError]) (\<lambda>e. Inl DescriptorError))"

section \<open>The encrypted layers\<close>

definition layer_keys :: "prims \<Rightarrow> bytes \<Rightarrow> bytes \<Rightarrow> bytes \<Rightarrow> bytes \<Rightarrow> bytes \<Rightarrow> bytes" where
  "layer_keys P secret_data subcredential revision salt string_constant =
    shake256 P (secret_data @ subcredential @ revision @ salt @ string_constant) 80"

definition layer_mac :: "prims \<Rightarrow> bytes \<Rightarrow> bytes \<Rightarrow> bytes \<Rightarrow> bytes" where
  "layer_mac P mac_key salt encrypted =
    sha3_256 P (be_enc 8 (int (length mac_key)) @ mac_key @ be_enc 8 (int (length salt)) @ salt @ encrypted)"

definition decrypt_layer ::
  "prims \<Rightarrow> bytes \<Rightarrow> bytes \<Rightarrow> bytes \<Rightarrow> bytes \<Rightarrow> int \<Rightarrow> bytes option res" where
  "decrypt_layer P blob secret_data string_constant subcredential revision_counter =
    (if length blob < 16 + 1 + 32 then Inr None
     else
       let salt = take 16 blob; mac = drop (length blob - 32) blob;
           encrypted = drop 16 (take (length blob - 32) blob) in
       rbind (pack_Q revision_counter) (\<lambda>revision.
         let keys = layer_keys P secret_data subcredential revision salt string_constant;
             s_key = take 32 keys; s_iv = py_slice 32 48 keys; mac_key = drop 48 keys in
         if \<not> const_time_eq (layer_mac P mac_key salt encrypted) mac then Inr None
         else rbind (aes_ctr P s_key s_iv encrypted) (\<lambda>plaintext. Inr (Some (takeWhile (\<lambda>b. b \<noteq> 0) plaintext)))))"

section \<open>The outer wrapper\<close>

definition resolve_now :: "real \<Rightarrow> py_datetime option \<Rightarrow> real res" where
  "resolve_now clock now =
    (case now of None \<Rightarrow> Inr clock | Some Naive \<Rightarrow> Inl ValueError | Some (Aware t) \<Rightarrow> Inr t)"

type_synonym desc_fields = "string \<rightharpoonup> string list \<times> bytes option"

lemma desc_body_rest: "desc_body lines = Some (b, rest) \<Longrightarrow> length rest < length lines"
  by (induction lines arbitrary: b rest) (auto split: if_split_asm)

lemma next_desc_item_rest: "next_desc_item lines = Inr (Some (it, rest)) \<Longrightarrow> length rest < length lines"
proof (induction lines)
  case (Cons line lines)
  show ?case
  proof (cases "line = []")
    case False
    then obtain obj where "desc_object lines = Inr (obj, rest)" using Cons.prems by (auto simp: Let_def)
    then have "length rest \<le> length lines"
      by (auto simp: desc_object_def split: list.split_asm if_split_asm option.split_asm dest!: desc_body_rest)
    then show ?thesis by simp
  qed (use Cons in auto)
qed simp

function outer_loop :: "string list \<Rightarrow> desc_fields \<Rightarrow> desc_fields res" where
  "outer_loop lines found =
    rbind (next_desc_item lines) (\<lambda>nxt.
      case nxt of
        None \<Rightarrow> Inr found
      | Some ((keyword, args, obj), rest) \<Rightarrow>
         outer_loop rest
           (if keyword \<in> set OUTER_FIELDS \<and> found keyword = None then found(keyword \<mapsto> (args, obj)) else found))"
  by pat_completeness auto
termination
  by (relation "measure (\<lambda>(lines, found). length lines)") (auto dest: next_desc_item_rest)

declare outer_loop.simps [simp del]

text \<open>\<open>int(fields[keyword][0][0])\<close> under \<open>except (IndexError, ValueError)\<close>.\<close>

definition int_arg :: "string list \<Rightarrow> int res" where
  "int_arg args =
    rcatch (case args of [] \<Rightarrow> Inl IndexError | a # _ \<Rightarrow> py_int a) (catches [IndexError, ValueError]) (\<lambda>e. Inl DescriptorError)"

definition SIGNATURE_MARKER :: bytes where
  "SIGNATURE_MARKER = utf8_encode (CHR 0x0A # ''signature '')"

definition check_signing_cert :: "prims \<Rightarrow> ed_cert \<Rightarrow> bytes \<Rightarrow> real \<Rightarrow> bytes res" where
  "check_signing_cert P cert blinded_pubkey now =
    (if cert_type cert \<noteq> cert_type_num HS_DESC_SIGNING then Inl DescriptorError
     else if cert_is_expired cert now then Inl DescriptorError
     else if cert_signing_key cert \<noteq> Some blinded_pubkey then Inl DescriptorError
     else if \<not> cert_verify P cert blinded_pubkey then Inl DescriptorError
     else Inr (certified_key cert))"

definition check_outer_signature :: "prims \<Rightarrow> string \<Rightarrow> bytes \<Rightarrow> string list \<Rightarrow> unit res" where
  "check_outer_signature P doc desc_signing_key signature_args =
    (case signature_args of
       [] \<Rightarrow> Inl DescriptorError
     | arg # _ \<Rightarrow>
        rbind (desc_b64decode arg) (\<lambda>signature.
          let raw = utf8_encode doc in
          case find_sub SIGNATURE_MARKER raw of
            None \<Rightarrow> Inl DescriptorError
          | Some marker \<Rightarrow>
             if \<not> ed25519_verify P desc_signing_key signature (SIG_PREFIX @ take (marker + 1) raw) then Inl DescriptorError
             else Inr ()))"

definition parse_and_verify_outer :: "prims \<Rightarrow> string \<Rightarrow> bytes \<Rightarrow> real \<Rightarrow> outer_descriptor res" where
  "parse_and_verify_outer P doc blinded_pubkey now =
    rbind (outer_loop (split_char (CHR 0x0A) doc) Map.empty) (\<lambda>found.
      if \<not> list_all (\<lambda>k. found k \<noteq> None) OUTER_FIELDS then Inl DescriptorError
      else
        let args = (\<lambda>k. fst (the (found k))); obj = (\<lambda>k. snd (the (found k))) in
        if take 1 (args ''hs-descriptor'') \<noteq> [''3''] then Inl DescriptorError
        else
          rbind (int_arg (args ''descriptor-lifetime'')) (\<lambda>lifetime.
          rbind (int_arg (args ''revision-counter'')) (\<lambda>revision_counter.
          rbind (parse_cert (obj ''descriptor-signing-key-cert'')) (\<lambda>cert.
          rbind (check_signing_cert P cert blinded_pubkey now) (\<lambda>desc_signing_key.
            case obj ''superencrypted'' of
              None \<Rightarrow> Inl DescriptorError
            | Some blob \<Rightarrow>
               rbind (check_outer_signature P doc desc_signing_key (args ''signature'')) (\<lambda>_.
                 Inr \<lparr>od_lifetime = lifetime, od_revision_counter = revision_counter,
                      od_desc_signing_key = desc_signing_key, od_superencrypted_blob = blob\<rparr>))))))"

section \<open>The first layer\<close>

record first_layer =
  fl_ephemeral_key :: "bytes option"
  fl_auth_clients :: "auth_client list"
  fl_encrypted_blob :: "bytes option"

definition first_layer_item :: "desc_item \<Rightarrow> first_layer \<Rightarrow> first_layer res" where
  "first_layer_item it st =
    (case it of (keyword, args, obj) \<Rightarrow>
       if keyword = ''desc-auth-ephemeral-key'' \<and> args \<noteq> [] then
         rbind (desc_b64decode (hd args)) (\<lambda>k. Inr (st\<lparr>fl_ephemeral_key := Some k\<rparr>))
       else if keyword = ''auth-client'' \<and> 3 \<le> length args then
         rbind (desc_b64decode (args ! 0)) (\<lambda>client_id.
         rbind (desc_b64decode (args ! 1)) (\<lambda>iv.
         rbind (desc_b64decode (args ! 2)) (\<lambda>cookie.
           Inr (st\<lparr>fl_auth_clients := fl_auth_clients st @
             [\<lparr>ac_client_id = client_id, ac_iv = iv, ac_encrypted_cookie = cookie\<rparr>]\<rparr>))))
       else if keyword = ''encrypted'' \<and> obj \<noteq> None then Inr (st\<lparr>fl_encrypted_blob := obj\<rparr>)
       else Inr st)"

function first_layer_loop :: "string list \<Rightarrow> first_layer \<Rightarrow> first_layer res" where
  "first_layer_loop lines st =
    rbind (next_desc_item lines) (\<lambda>nxt.
      case nxt of
        None \<Rightarrow> Inr st
      | Some (it, rest) \<Rightarrow> rbind (first_layer_item it st) (\<lambda>st'. first_layer_loop rest st'))"
  by pat_completeness auto
termination
  by (relation "measure (\<lambda>(lines, st). length lines)") (auto dest: next_desc_item_rest)

declare first_layer_loop.simps [simp del]

definition parse_first_layer :: "string \<Rightarrow> (bytes option \<times> auth_client list \<times> bytes) res" where
  "parse_first_layer doc =
    rbind (first_layer_loop (split_char (CHR 0x0A) doc)
        \<lparr>fl_ephemeral_key = None, fl_auth_clients = [], fl_encrypted_blob = None\<rparr>) (\<lambda>st.
      case fl_encrypted_blob st of
        None \<Rightarrow> Inl DescriptorError
      | Some blob \<Rightarrow> Inr (fl_ephemeral_key st, fl_auth_clients st, blob))"

section \<open>The introduction points\<close>

text \<open>The dict of one introduction point; a missing certificate and one without an object are the same.\<close>

record intro_fields =
  if_link_specifiers :: string
  if_onion_key :: "bytes option"
  if_enc_key :: "bytes option"
  if_auth_cert :: "bytes option"
  if_enc_cert :: "bytes option"

definition finalize_intro_point :: "prims \<Rightarrow> intro_fields \<Rightarrow> bytes \<Rightarrow> intro_point res" where
  "finalize_intro_point P found desc_signing_key =
    (case (if_onion_key found, if_enc_key found) of
       (Some onion_key, Some enc_key) \<Rightarrow>
         rbind (rcatch (rbind (desc_b64decode (if_link_specifiers found)) parse_block)
                  (catches [ValueError]) (\<lambda>e. Inl DescriptorError)) (\<lambda>link_specifiers.
         rbind (parse_cert (if_auth_cert found)) (\<lambda>auth_cert.
           if cert_type auth_cert \<noteq> cert_type_num HS_IP_AUTH then Inl DescriptorError
           else if \<not> cert_verify P auth_cert desc_signing_key then Inl DescriptorError
           else
             rbind (parse_cert (if_enc_cert found)) (\<lambda>enc_cert.
               if cert_type enc_cert \<noteq> cert_type_num HS_IP_ENC then Inl DescriptorError
               else if \<not> cert_verify P enc_cert desc_signing_key then Inl DescriptorError
               else Inr \<lparr>ip_link_specifiers = link_specifiers, ip_onion_key = onion_key,
                         ip_auth_key = certified_key auth_cert, ip_enc_key = enc_key\<rparr>)))
     | _ \<Rightarrow> Inl DescriptorError)"

record intro_state =
  is_create2_seen :: bool
  is_intro_points :: "intro_point list"
  is_current :: "intro_fields option"

definition flush_intro_point :: "prims \<Rightarrow> bytes \<Rightarrow> intro_state \<Rightarrow> intro_state res" where
  "flush_intro_point P desc_signing_key st =
    (case is_current st of
       None \<Rightarrow> Inr st
     | Some cur \<Rightarrow> rbind (finalize_intro_point P cur desc_signing_key) (\<lambda>ip.
         Inr (st\<lparr>is_intro_points := is_intro_points st @ [ip]\<rparr>)))"

definition intro_field :: "desc_item \<Rightarrow> intro_fields \<Rightarrow> intro_fields res" where
  "intro_field it cur =
    (case it of (keyword, args, obj) \<Rightarrow>
       if keyword = ''onion-key'' \<and> take 1 args = [''ntor''] \<and> if_onion_key cur = None then
         (if length args < 2 then Inl DescriptorError
          else rbind (desc_b64decode (args ! 1)) (\<lambda>k. Inr (cur\<lparr>if_onion_key := Some k\<rparr>)))
       else if keyword = ''auth-key'' then Inr (cur\<lparr>if_auth_cert := obj\<rparr>)
       else if keyword = ''enc-key'' \<and> take 1 args = [''ntor''] \<and> if_enc_key cur = None then
         (if length args < 2 then Inl DescriptorError
          else rbind (desc_b64decode (args ! 1)) (\<lambda>k. Inr (cur\<lparr>if_enc_key := Some k\<rparr>)))
       else if keyword = ''enc-key-cert'' then Inr (cur\<lparr>if_enc_cert := obj\<rparr>)
       else Inr cur)"

definition intro_item :: "prims \<Rightarrow> bytes \<Rightarrow> desc_item \<Rightarrow> intro_state \<Rightarrow> intro_state res" where
  "intro_item P desc_signing_key it st =
    (case it of (keyword, args, obj) \<Rightarrow>
       if keyword = ''create2-formats'' then
         (if ''2'' \<notin> set args then Inl DescriptorError else Inr (st\<lparr>is_create2_seen := True\<rparr>))
       else if keyword = ''introduction-point'' then
         rbind (flush_intro_point P desc_signing_key st) (\<lambda>st'.
           case args of
             [] \<Rightarrow> Inl DescriptorError
           | a # _ \<Rightarrow> Inr (st'\<lparr>is_current := Some \<lparr>if_link_specifiers = a, if_onion_key = None, if_enc_key = None,
                            if_auth_cert = None, if_enc_cert = None\<rparr>\<rparr>))
       else case is_current st of
         None \<Rightarrow> Inr st
       | Some cur \<Rightarrow> rbind (intro_field it cur) (\<lambda>cur'. Inr (st\<lparr>is_current := Some cur'\<rparr>)))"

function intro_loop :: "prims \<Rightarrow> bytes \<Rightarrow> string list \<Rightarrow> intro_state \<Rightarrow> intro_state res" where
  "intro_loop P desc_signing_key lines st =
    rbind (next_desc_item lines) (\<lambda>nxt.
      case nxt of
        None \<Rightarrow> Inr st
      | Some (it, rest) \<Rightarrow>
         rbind (intro_item P desc_signing_key it st) (\<lambda>st'. intro_loop P desc_signing_key rest st'))"
  by pat_completeness auto
termination
  by (relation "measure (\<lambda>(P, k, lines, st). length lines)") (auto dest: next_desc_item_rest)

declare intro_loop.simps [simp del]

definition parse_intro_points :: "prims \<Rightarrow> string \<Rightarrow> bytes \<Rightarrow> intro_point list res" where
  "parse_intro_points P doc desc_signing_key =
    rbind (intro_loop P desc_signing_key (split_char (CHR 0x0A) doc)
        \<lparr>is_create2_seen = False, is_intro_points = [], is_current = None\<rparr>) (\<lambda>st0.
    rbind (flush_intro_point P desc_signing_key st0) (\<lambda>st.
      if \<not> is_create2_seen st then Inl DescriptorError else Inr (is_intro_points st)))"

section \<open>The entry points\<close>

definition open_first_layer :: "prims \<Rightarrow> outer_descriptor \<Rightarrow> bytes \<Rightarrow> bytes \<Rightarrow> bytes res" where
  "open_first_layer P outer blinded_pubkey subcredential =
    rbind (decrypt_layer P (od_superencrypted_blob outer) blinded_pubkey SUPERENCRYPTED_CONSTANT subcredential
        (od_revision_counter outer)) (\<lambda>first.
      case first of None \<Rightarrow> Inl DescriptorError | Some plaintext \<Rightarrow> Inr plaintext)"

definition decrypt_first_layer ::
  "prims \<Rightarrow> real \<Rightarrow> string \<Rightarrow> bytes \<Rightarrow> bytes \<Rightarrow> py_datetime option \<Rightarrow> string res" where
  "decrypt_first_layer P clock doc blinded_pubkey subcredential now =
    rbind (resolve_now clock now) (\<lambda>t.
    rbind (parse_and_verify_outer P doc blinded_pubkey t) (\<lambda>outer.
    rbind (open_first_layer P outer blinded_pubkey subcredential) decode_plaintext))"

definition derive_descriptor_cookie :: "prims \<Rightarrow> string \<Rightarrow> bytes \<Rightarrow> bytes \<Rightarrow> bytes option res" where
  "derive_descriptor_cookie P first_layer_plaintext subcredential client_auth_privkey =
    rbind (parse_first_layer first_layer_plaintext) (\<lambda>(ephemeral_key, auth_clients, _).
      case ephemeral_key of
        None \<Rightarrow> Inr None
      | Some eph \<Rightarrow>
         (case x25519 P client_auth_privkey eph of
            Inl e \<Rightarrow> if catches [ValueError] e then Inr None else Inl e
          | Inr secret_seed \<Rightarrow>
             let keys = shake256 P (subcredential @ secret_seed) 40;
                 client_id = take 8 keys; cookie_key = py_slice 8 40 keys in
             case find (\<lambda>client. const_time_eq (ac_client_id client) client_id) auth_clients of
               None \<Rightarrow> Inr None
             | Some client \<Rightarrow>
                rbind (aes_ctr P cookie_key (ac_iv client) (ac_encrypted_cookie client)) (\<lambda>c. Inr (Some c))))"

definition parse_descriptor ::
  "prims \<Rightarrow> real \<Rightarrow> string \<Rightarrow> bytes \<Rightarrow> bytes \<Rightarrow> bytes option \<Rightarrow> py_datetime option \<Rightarrow> hs_descriptor res" where
  "parse_descriptor P clock doc blinded_pubkey subcredential descriptor_cookie now =
    (if (case descriptor_cookie of Some c \<Rightarrow> length c \<noteq> DESCRIPTOR_COOKIE_LEN | None \<Rightarrow> False) then Inl DescriptorError
     else
       rbind (resolve_now clock now) (\<lambda>t.
       rbind (parse_and_verify_outer P doc blinded_pubkey t) (\<lambda>outer.
       rbind (open_first_layer P outer blinded_pubkey subcredential) (\<lambda>first.
       rbind (decode_plaintext first) (\<lambda>first_text.
       rbind (parse_first_layer first_text) (\<lambda>(_, _, encrypted_blob).
       rbind (decrypt_layer P encrypted_blob
           (blinded_pubkey @ (case descriptor_cookie of Some c \<Rightarrow> c | None \<Rightarrow> [])) ENCRYPTED_CONSTANT
           subcredential (od_revision_counter outer)) (\<lambda>second.
         case second of
           None \<Rightarrow> if descriptor_cookie = None then Inl OnionClientAuthRequired else Inl DescriptorError
         | Some second_layer \<Rightarrow>
            rbind (decode_plaintext second_layer) (\<lambda>second_text.
            rbind (parse_intro_points P second_text (od_desc_signing_key outer)) (\<lambda>intro_points.
              Inr \<lparr>hd_lifetime = od_lifetime outer, hd_revision_counter = od_revision_counter outer,
                   hd_intro_points = intro_points\<rparr>)))))))))"

definition parse_descriptor_with_auth ::
  "prims \<Rightarrow> real \<Rightarrow> string \<Rightarrow> bytes \<Rightarrow> bytes \<Rightarrow> bytes option \<Rightarrow> py_datetime option \<Rightarrow> hs_descriptor res" where
  "parse_descriptor_with_auth P clock doc blinded_pubkey subcredential client_auth_privkey now =
    rbind (resolve_now clock now) (\<lambda>t.
    rbind (case client_auth_privkey of
             None \<Rightarrow> Inr None
           | Some key \<Rightarrow>
              rbind (decrypt_first_layer P clock doc blinded_pubkey subcredential (Some (Aware t))) (\<lambda>first_layer.
                derive_descriptor_cookie P first_layer subcredential key)) (\<lambda>cookie.
      parse_descriptor P clock doc blinded_pubkey subcredential cookie (Some (Aware t))))"

end
