(* ===== verification/DescriptorLaws.thy ===== *)
theory DescriptorLaws
  imports Descriptor "HOL-Library.Code_Target_Nat"
begin

text \<open>
  What decoding a descriptor promises: a layer opens exactly when it was sealed under its keys, a decoded
  descriptor is authenticated from the blinded key down to every introduction point, and an authorized client
  derives the cookie the service encrypted for it.
\<close>

section \<open>The encrypted layers\<close>

text \<open>The service's side: what the specification has it send for a padded plaintext.\<close>

definition seal_layer :: "prims \<Rightarrow> bytes \<Rightarrow> bytes \<Rightarrow> bytes \<Rightarrow> bytes \<Rightarrow> int \<Rightarrow> bytes \<Rightarrow> bytes" where
  "seal_layer P salt secret_data string_constant subcredential revision_counter padded =
    (let keys = layer_keys P secret_data subcredential (be_enc 8 revision_counter) salt string_constant;
         encrypted = xor_stream (aes_keystream P (take 32 keys) (py_slice 32 48 keys)) 0 padded
     in salt @ encrypted @ layer_mac P (drop 48 keys) salt encrypted)"

lemma length_layer_keys: "prims_ok P \<Longrightarrow> length (layer_keys P a b c d e) = 80"
  by (simp add: layer_keys_def prims_okD)

lemma length_layer_mac: "prims_ok P \<Longrightarrow> length (layer_mac P k s e) = 32"
  by (simp add: layer_mac_def sha3_256_def prims_okD)

lemma aes_ctr_layer:
  "length key = 32 \<Longrightarrow> length iv = 16 \<Longrightarrow> aes_ctr P key iv data = Inr (xor_stream (aes_keystream P key iv) 0 data)"
  by (simp add: aes_ctr_def ctr_cipher_def ctr_update_def)

lemma decrypt_layer_parts:
  assumes P: "prims_ok P" and l: "length salt = 16" "encrypted \<noteq> []" "length mac = 32"
    and r: "0 \<le> revision_counter" "revision_counter < 2 ^ 64"
  shows "decrypt_layer P (salt @ encrypted @ mac) secret_data string_constant subcredential revision_counter =
    (let keys = layer_keys P secret_data subcredential (be_enc 8 revision_counter) salt string_constant in
     if layer_mac P (drop 48 keys) salt encrypted = mac
     then Inr (Some (takeWhile (\<lambda>b. b \<noteq> 0) (xor_stream (aes_keystream P (take 32 keys) (py_slice 32 48 keys)) 0 encrypted)))
     else Inr None)"
proof -
  have "\<not> length (salt @ encrypted @ mac) < 16 + 1 + 32" using l by (cases encrypted) auto
  moreover have "pack_Q revision_counter = Inr (be_enc 8 revision_counter)" using r by simp
  ultimately show ?thesis
    using l length_layer_keys [OF P] by (simp add: decrypt_layer_def Let_def aes_ctr_layer)
qed

text \<open>C10: a layer of a descriptor decrypts exactly when it is what the service seals under the same secret, public
constant, subcredential and revision: the salt, the ciphertext and the MAC over both; the plaintext is the
sealed one up to its NUL padding. No other byte string opens.\<close>

theorem layer_opens_exactly_when_sealed:
  assumes P: "prims_ok P"
  shows "decrypt_layer P blob secret_data string_constant subcredential revision_counter = Inr (Some plaintext) \<longleftrightarrow>
    0 \<le> revision_counter \<and> revision_counter < 2 ^ 64
    \<and> (\<exists>salt padded. length salt = 16 \<and> padded \<noteq> []
        \<and> blob = seal_layer P salt secret_data string_constant subcredential revision_counter padded
        \<and> plaintext = takeWhile (\<lambda>b. b \<noteq> 0) padded)" (is "?l \<longleftrightarrow> ?r")
proof
  assume ?l
  then have len: "49 \<le> length blob" and rng: "0 \<le> revision_counter" "revision_counter < 2 ^ 64"
    by (auto simp: decrypt_layer_def Let_def split: if_split_asm)
  let ?salt = "take 16 blob" and ?enc = "drop 16 (take (length blob - 32) blob)" and ?mac = "drop (length blob - 32) blob"
  have split: "blob = ?salt @ ?enc @ ?mac"
  proof -
    have "take 16 blob = take 16 (take (length blob - 32) blob)" using len by (simp add: min_absorb1)
    then show ?thesis by (metis append.assoc append_take_drop_id)
  qed
  have ne: "?enc \<noteq> []" and l: "length ?salt = 16" "length ?mac = 32" using len by auto
  let ?keys = "layer_keys P secret_data subcredential (be_enc 8 revision_counter) ?salt string_constant"
  let ?ks = "aes_keystream P (take 32 ?keys) (py_slice 32 48 ?keys)"
  have "decrypt_layer P (?salt @ ?enc @ ?mac) secret_data string_constant subcredential revision_counter = Inr (Some plaintext)"
    using \<open>?l\<close> split by simp
  then have mac: "layer_mac P (drop 48 ?keys) ?salt ?enc = ?mac"
    and pt: "plaintext = takeWhile (\<lambda>b. b \<noteq> 0) (xor_stream ?ks 0 ?enc)"
    unfolding decrypt_layer_parts [OF P l(1) ne l(2) rng] by (simp_all add: Let_def split: if_split_asm)
  have "blob = seal_layer P ?salt secret_data string_constant subcredential revision_counter (xor_stream ?ks 0 ?enc)"
    unfolding seal_layer_def Let_def xor_stream_twice mac by (rule split)
  moreover have "xor_stream ?ks 0 ?enc \<noteq> []" using ne by (metis length_0_conv length_xor_stream)
  ultimately show ?r using rng l(1) pt by blast
next
  assume ?r
  then obtain salt padded where s: "length salt = 16" "padded \<noteq> []"
    "blob = seal_layer P salt secret_data string_constant subcredential revision_counter padded"
    "plaintext = takeWhile (\<lambda>b. b \<noteq> 0) padded"
    and r: "0 \<le> revision_counter" "revision_counter < 2 ^ 64" by blast
  let ?keys = "layer_keys P secret_data subcredential (be_enc 8 revision_counter) salt string_constant"
  let ?enc = "xor_stream (aes_keystream P (take 32 ?keys) (py_slice 32 48 ?keys)) 0 padded"
  have ne: "?enc \<noteq> []" using s(2) by (metis length_0_conv length_xor_stream)
  show ?l
    unfolding s(3) seal_layer_def Let_def
      decrypt_layer_parts [OF P s(1) ne length_layer_mac [OF P] r] if_True refl xor_stream_twice s(4) by simp
qed

lemma layer_opens_exactly_when_sealed_witness:
  "decrypt_layer toy_prims (seal_layer toy_prims (zeros 16) [1] [2] [3] 7 [65, 66, 0, 0]) [1] [2] [3] 7 = Inr (Some [65, 66])"
proof -
  have "takeWhile (\<lambda>b. b \<noteq> 0) [65, 66, 0, 0 :: byte] = [65, 66]" by simp
  then show ?thesis
    unfolding layer_opens_exactly_when_sealed [OF toy_prims_ok]
    by (intro conjI exI [of _ "zeros 16"] exI [of _ "[65, 66, 0, 0]"]) simp_all
qed

section \<open>Authentication\<close>

definition intro_point_certified :: "prims \<Rightarrow> bytes \<Rightarrow> intro_point \<Rightarrow> bool" where
  "intro_point_certified P key ip \<longleftrightarrow>
     (\<exists>auth_cert enc_cert. cert_type auth_cert = cert_type_num HS_IP_AUTH \<and> cert_verify P auth_cert key
        \<and> certified_key auth_cert = ip_auth_key ip
        \<and> cert_type enc_cert = cert_type_num HS_IP_ENC \<and> cert_verify P enc_cert key)"

definition outer_authentic :: "prims \<Rightarrow> string \<Rightarrow> bytes \<Rightarrow> real \<Rightarrow> bytes \<Rightarrow> bool" where
  "outer_authentic P doc blinded_pubkey t key \<longleftrightarrow>
     (\<exists>cert. cert_type cert = cert_type_num HS_DESC_SIGNING \<and> \<not> cert_is_expired cert t
        \<and> cert_signing_key cert = Some blinded_pubkey \<and> cert_verify P cert blinded_pubkey \<and> key = certified_key cert)
     \<and> (\<exists>marker signature. find_sub SIGNATURE_MARKER (utf8_encode doc) = Some marker
        \<and> ed25519_verify P key signature (SIG_PREFIX @ take (marker + 1) (utf8_encode doc)))"

lemma check_signing_cert_sound:
  "check_signing_cert P cert blinded_pubkey t = Inr key \<Longrightarrow>
    cert_type cert = cert_type_num HS_DESC_SIGNING \<and> \<not> cert_is_expired cert t
    \<and> cert_signing_key cert = Some blinded_pubkey \<and> cert_verify P cert blinded_pubkey \<and> key = certified_key cert"
  by (auto simp: check_signing_cert_def split: if_split_asm)

lemma check_outer_signature_sound:
  "check_outer_signature P doc key args = Inr u \<Longrightarrow>
    \<exists>marker signature. find_sub SIGNATURE_MARKER (utf8_encode doc) = Some marker
        \<and> ed25519_verify P key signature (SIG_PREFIX @ take (marker + 1) (utf8_encode doc))"
  by (cases args) (auto simp: check_outer_signature_def Let_def split: if_split_asm option.split_asm)

lemma parse_and_verify_outer_authentic:
  assumes "parse_and_verify_outer P doc blinded_pubkey t = Inr outer"
  shows "outer_authentic P doc blinded_pubkey t (od_desc_signing_key outer)"
proof -
  obtain cert key args u where c: "check_signing_cert P cert blinded_pubkey t = Inr key"
    and s: "check_outer_signature P doc key args = Inr u" and k: "od_desc_signing_key outer = key"
    using assms by (auto simp: parse_and_verify_outer_def Let_def split: if_split_asm option.split_asm)
  show ?thesis
    unfolding outer_authentic_def k using check_signing_cert_sound [OF c] check_outer_signature_sound [OF s] by blast
qed

lemma finalize_intro_point_certified:
  "finalize_intro_point P cur key = Inr ip \<Longrightarrow> intro_point_certified P key ip"
  by (auto simp: finalize_intro_point_def intro_point_certified_def split: if_split_asm option.split_asm)

lemma flush_intro_point_certified:
  "flush_intro_point P key st = Inr st' \<Longrightarrow> list_all (intro_point_certified P key) (is_intro_points st) \<Longrightarrow>
    list_all (intro_point_certified P key) (is_intro_points st')"
  by (auto simp: flush_intro_point_def split: option.split_asm dest: finalize_intro_point_certified)

lemma intro_item_certified:
  "intro_item P key it st = Inr st' \<Longrightarrow> list_all (intro_point_certified P key) (is_intro_points st) \<Longrightarrow>
    list_all (intro_point_certified P key) (is_intro_points st')"
  by (cases it; cases "fst (snd it)")
    (auto simp: intro_item_def split: if_split_asm option.split_asm dest: flush_intro_point_certified)

lemma intro_loop_certified:
  "intro_loop P key lines st = Inr st' \<Longrightarrow> list_all (intro_point_certified P key) (is_intro_points st) \<Longrightarrow>
    list_all (intro_point_certified P key) (is_intro_points st')"
proof (induction P key lines st rule: intro_loop.induct)
  case (1 P key lines st)
  obtain nxt where n: "next_desc_item lines = Inr nxt"
    using "1.prems"(1) unfolding intro_loop.simps [of P key lines] by auto
  show ?case
  proof (cases nxt)
    case None
    then show ?thesis using "1.prems" n unfolding intro_loop.simps [of P key lines] by simp
  next
    case (Some p)
    obtain it rest where p: "p = (it, rest)" by (cases p)
    obtain st1 where s: "intro_item P key it st = Inr st1" "intro_loop P key rest st1 = Inr st'"
      using "1.prems"(1) n Some p unfolding intro_loop.simps [of P key lines] by auto
    show ?thesis by (rule "1.IH" [OF n Some p [symmetric] s intro_item_certified [OF s(1) "1.prems"(2)]])
  qed
qed

lemma parse_intro_points_certified:
  "parse_intro_points P doc key = Inr ips \<Longrightarrow> list_all (intro_point_certified P key) ips"
  by (auto simp: parse_intro_points_def split: if_split_asm dest!: intro_loop_certified flush_intro_point_certified)

lemma parse_descriptor_sound:
  assumes "parse_descriptor P clock doc blinded_pubkey subcredential cookie now = Inr d"
  shows "\<exists>t outer first first_text eph clients blob second_layer. resolve_now clock now = Inr t
    \<and> parse_and_verify_outer P doc blinded_pubkey t = Inr outer
    \<and> outer_authentic P doc blinded_pubkey t (od_desc_signing_key outer)
    \<and> decrypt_layer P (od_superencrypted_blob outer) blinded_pubkey SUPERENCRYPTED_CONSTANT subcredential
        (od_revision_counter outer) = Inr (Some first)
    \<and> utf8_decode first = Inr first_text \<and> parse_first_layer first_text = Inr (eph, clients, blob)
    \<and> decrypt_layer P blob (blinded_pubkey @ (case cookie of Some c \<Rightarrow> c | None \<Rightarrow> [])) ENCRYPTED_CONSTANT
        subcredential (od_revision_counter outer) = Inr (Some second_layer)
    \<and> hd_revision_counter d = od_revision_counter outer
    \<and> list_all (intro_point_certified P (od_desc_signing_key outer)) (hd_intro_points d)"
proof -
  obtain t outer first first_text eph clients blob second_layer second_text ips where
    r: "resolve_now clock now = Inr t" and o: "parse_and_verify_outer P doc blinded_pubkey t = Inr outer"
    and f: "open_first_layer P outer blinded_pubkey subcredential = Inr first"
      "decode_plaintext first = Inr first_text" "parse_first_layer first_text = Inr (eph, clients, blob)"
    and s: "decrypt_layer P blob (blinded_pubkey @ (case cookie of Some c \<Rightarrow> c | None \<Rightarrow> [])) ENCRYPTED_CONSTANT
        subcredential (od_revision_counter outer) = Inr (Some second_layer)"
      "parse_intro_points P second_text (od_desc_signing_key outer) = Inr ips"
    and d: "d = \<lparr>hd_lifetime = od_lifetime outer, hd_revision_counter = od_revision_counter outer, hd_intro_points = ips\<rparr>"
    using assms unfolding parse_descriptor_def by (auto split: if_split_asm option.split_asm)
  have f1: "decrypt_layer P (od_superencrypted_blob outer) blinded_pubkey SUPERENCRYPTED_CONSTANT subcredential
      (od_revision_counter outer) = Inr (Some first)"
    using f(1) by (auto simp: open_first_layer_def split: option.split_asm)
  have f2: "utf8_decode first = Inr first_text"
    using f(2) by (auto simp: decode_plaintext_def rcatch_Inr_iff)
  have d1: "hd_revision_counter d = od_revision_counter outer" "hd_intro_points d = ips" by (simp_all add: d)
  show ?thesis
    unfolding d1 using r o parse_and_verify_outer_authentic [OF o] f1 f2 f(3) s(1) parse_intro_points_certified [OF s(2)]
    by blast
qed

section \<open>Errors\<close>

lemma converted_raises:
  "raises_only T m \<Longrightarrow> (\<And>e. e \<in> T \<Longrightarrow> catches cs e) \<Longrightarrow> d \<in> S \<Longrightarrow> raises_only S (rcatch m (catches cs) (\<lambda>e. Inl d))"
  by (rule raises_only_rcatch) (auto simp: raises_only_def)

lemma desc_b64decode_raises [raises_intros]: "DescriptorError \<in> S \<Longrightarrow> raises_only S (desc_b64decode x)"
  unfolding desc_b64decode_def Let_def
  by (rule converted_raises [OF b64_decode_raises]) auto

lemma next_desc_item_raises [raises_intros]: "DescriptorError \<in> S \<Longrightarrow> raises_only S (next_desc_item lines)"
proof (induction lines)
  case (Cons line lines)
  have "raises_only S (desc_object lines)"
    unfolding desc_object_def using Cons.prems by (intro raises_intros)
  then show ?case using Cons by (auto simp: Let_def intro!: raises_intros)
qed (simp add: raises_only_def)

lemma decode_plaintext_raises [raises_intros]: "DescriptorError \<in> S \<Longrightarrow> raises_only S (decode_plaintext x)"
  unfolding decode_plaintext_def
  by (rule converted_raises [OF utf8_decode_raises [of "{UnicodeDecodeError}"]]) auto

lemma parse_cert_raises [raises_intros]: "DescriptorError \<in> S \<Longrightarrow> raises_only S (parse_cert x)"
  unfolding parse_cert_def
  by (intro raises_only_option converted_raises [OF cert_parse_raises] raises_only_Inl) auto

lemma int_arg_raises [raises_intros]: "DescriptorError \<in> S \<Longrightarrow> raises_only S (int_arg args)"
  unfolding int_arg_def
  by (rule converted_raises [of "{IndexError, ValueError}"]) (auto intro!: raises_intros)

lemma outer_loop_raises [raises_intros]: "DescriptorError \<in> S \<Longrightarrow> raises_only S (outer_loop lines f)"
proof (induction lines f rule: outer_loop.induct)
  case (1 lines f)
  then show ?case unfolding outer_loop.simps [of lines] by (intro raises_intros) auto
qed

lemma first_layer_loop_raises [raises_intros]: "DescriptorError \<in> S \<Longrightarrow> raises_only S (first_layer_loop lines st)"
proof (induction lines st rule: first_layer_loop.induct)
  case (1 lines st)
  have "raises_only S (first_layer_item it st)" for it
    unfolding first_layer_item_def using "1.prems" by (intro raises_intros) auto
  with 1 show ?case unfolding first_layer_loop.simps [of lines] by (intro raises_intros) auto
qed

lemma finalize_intro_point_raises [raises_intros]:
  "DescriptorError \<in> S \<Longrightarrow> raises_only S (finalize_intro_point P cur key)"
proof -
  assume d: "DescriptorError \<in> S"
  have "raises_only S (rcatch (rbind (desc_b64decode x) parse_block) (catches [ValueError]) (\<lambda>e. Inl DescriptorError))" for x
  proof (intro raises_only_rcatch raises_only_Inl d)
    fix e
    assume "rbind (desc_b64decode x) parse_block = Inl e" "\<not> catches [ValueError] e"
    then show "e \<in> S"
      using d desc_b64decode_raises [of "{DescriptorError}" x] parse_block_raises
      by (auto simp: rbind_Inl_iff raises_only_def)
  qed
  then show ?thesis unfolding finalize_intro_point_def using d by (intro raises_intros) auto
qed

lemma intro_loop_raises [raises_intros]: "DescriptorError \<in> S \<Longrightarrow> raises_only S (intro_loop P key lines st)"
proof (induction P key lines st rule: intro_loop.induct)
  case (1 P key lines st)
  have "raises_only S (intro_item P key it st)" for it
    unfolding intro_item_def flush_intro_point_def intro_field_def using "1.prems" by (intro raises_intros) auto
  with 1 show ?case unfolding intro_loop.simps [of P key lines] by (intro raises_intros) auto
qed

lemma parse_and_verify_outer_raises [raises_intros]:
  "DescriptorError \<in> S \<Longrightarrow> raises_only S (parse_and_verify_outer P doc b t)"
  unfolding parse_and_verify_outer_def Let_def check_signing_cert_def check_outer_signature_def
  by (intro raises_intros) auto

lemma decrypt_layer_raises [raises_intros]:
  "prims_ok P \<Longrightarrow> StructError \<in> S \<Longrightarrow> raises_only S (decrypt_layer P blob a b c r)"
  unfolding decrypt_layer_def Let_def
  by (intro raises_intros) (auto simp: aes_ctr_layer length_layer_keys raises_only_def)

text \<open>The revision counter is any integer the signed document names; packing one outside 64 bits raises.\<close>

lemma decrypt_layer_bad_revision:
  "49 \<le> length blob \<Longrightarrow> r < 0 \<or> 2 ^ 64 \<le> r \<Longrightarrow> decrypt_layer P blob a b c r = Inl StructError"
  by (auto simp: decrypt_layer_def Let_def pack_Q_def pack_be_def)

lemma parse_descriptor_raises:
  assumes "prims_ok P"
  shows "raises_only ({DescriptorError, OnionClientAuthRequired, StructError} \<union> (if now = Some Naive then {ValueError} else {}))
    (parse_descriptor P clock doc blinded_pubkey subcredential cookie now)"
proof -
  have now: "raises_only S (resolve_now clock now)" if "now = Some Naive \<Longrightarrow> ValueError \<in> S" for S
    using that by (auto simp: resolve_now_def raises_only_def split: option.split py_datetime.split)
  show ?thesis
    unfolding parse_descriptor_def open_first_layer_def parse_first_layer_def parse_intro_points_def flush_intro_point_def
    using assms by (intro raises_intros now) auto
qed

section \<open>Decoding\<close>



section \<open>Client authorization\<close>

text \<open>The service's side: the entry for a client with a given public key.\<close>

definition service_auth_client ::
  "prims \<Rightarrow> bytes \<Rightarrow> bytes \<Rightarrow> bytes \<Rightarrow> bytes \<Rightarrow> bytes \<Rightarrow> auth_client option" where
  "service_auth_client P subcredential ephemeral_private client_public iv cookie =
    (case dh_exchange P ephemeral_private client_public of
       None \<Rightarrow> None
     | Some seed \<Rightarrow>
        let keys = shake256 P (subcredential @ seed) 40 in
        Some \<lparr>ac_client_id = take 8 keys, ac_iv = iv,
              ac_encrypted_cookie = xor_stream (aes_keystream P (drop 8 keys) iv) 0 cookie\<rparr>)"

text \<open>An authorized client derives exactly the cookie the service encrypted for it, wherever its entry stands
among those of other clients (none before it having the same identifier), and a client whose identifier is
not in the list derives nothing.\<close>

theorem authorized_client_derives_the_cookie:
  assumes P: "prims_ok P" "dh_commutes P" and keys: "length client_private = 32" "length ephemeral_private = 32" "length iv = 16"
    and layer: "parse_first_layer doc = Inr (Some (dh_public P ephemeral_private), before @ entry # after, blob)"
    and entry: "service_auth_client P subcredential ephemeral_private (dh_public P client_private) iv cookie = Some entry"
    and first: "\<forall>c \<in> set before. ac_client_id c \<noteq> ac_client_id entry"
  shows "derive_descriptor_cookie P doc subcredential client_private = Inr (Some cookie)"
proof -
  obtain seed where seed: "dh_exchange P ephemeral_private (dh_public P client_private) = Some seed"
    using entry by (auto simp: service_auth_client_def split: option.split_asm)
  then have x: "x25519 P client_private (dh_public P ephemeral_private) = Inr seed"
    using P(2) keys by (simp add: dh_commutes_def x25519_Inr_iff)
  let ?keys = "shake256 P (subcredential @ seed) 40"
  have k: "length ?keys = 40" using P(1) by (simp add: prims_okD)
  then have slice: "py_slice 8 40 ?keys = drop 8 ?keys" "length (drop 8 ?keys) = 32" by (simp_all add: py_slice_def)
  have e: "entry = \<lparr>ac_client_id = take 8 ?keys, ac_iv = iv,
      ac_encrypted_cookie = xor_stream (aes_keystream P (drop 8 ?keys) iv) 0 cookie\<rparr>"
    using entry seed by (simp add: service_auth_client_def Let_def)
  have f: "find (\<lambda>c. ac_client_id c = take 8 ?keys) (before @ entry # after) = Some entry"
    using first e by (induction before) auto
  show ?thesis
    using layer x f slice keys(3)
    by (simp add: derive_descriptor_cookie_def Let_def e aes_ctr_layer)
qed

definition example_first_layer :: string where
  "example_first_layer =
    join_with (CHR 0x0A) [''desc-auth-ephemeral-key AAAAAAAAAAAAAAAAAAAAAAAAAAAAAAAAAAAAAAAAAAA'',
      ''auth-client BQUFBQUFBQU AAAAAAAAAAAAAAAAAAAAAA AQIDBAUGBwgJCgsMDQ4PEA'',
      ''encrypted'',
      ''-----BEGIN M-----'',
      ''AAAA'',
      ''-----END M-----'']"

lemma authorized_client_derives_the_cookie_witness:
  "derive_descriptor_cookie toy_prims example_first_layer [] (zeros 32) = Inr (Some (zeros 16))"
proof -
  let ?entry = "\<lparr>ac_client_id = replicate 8 5, ac_iv = zeros 16, ac_encrypted_cookie = [1, 2, 3, 4, 5, 6, 7, 8, 9, 10, 11, 12, 13, 14, 15, 16]\<rparr>"
  have layer: "parse_first_layer example_first_layer = Inr (Some (dh_public toy_prims (zeros 32)), [] @ ?entry # [], [0, 0, 0])"
    by code_simp
  have entry: "service_auth_client toy_prims [] (zeros 32) (dh_public toy_prims (zeros 32)) (zeros 16) (zeros 16) = Some ?entry"
    by code_simp
  show ?thesis
    by (rule authorized_client_derives_the_cookie [OF toy_prims_ok toy_prims_commute _ _ _ layer entry]) simp_all
qed

end
