(* ===== verification/DirHttp.thy ===== *)
theory DirHttp
  imports PyText Constants "HOL-Library.Code_Target_Nat"
begin

text \<open>
  Directory fetches over a stream (\<open>_dir/dirhttp.py\<close>): one HTTP/1.0 request, one response. The stream is what
  its \<open>send\<close> answers and the results of its successive \<open>recv\<close> calls, after which it is at EOF; \<open>zlib\<close> and
  \<open>gzip\<close> are parameters. \<open>response_of\<close> reads a whole response held in memory; the fetch is proved to
  agree with it however the bytes arrive.
\<close>

record decompressors =
  zlib_decompress :: "bytes \<Rightarrow> bytes res"
  raw_inflate :: "bytes \<Rightarrow> bytes res"
  gzip_decompress :: "bytes \<Rightarrow> bytes res"

record dir_stream =
  ds_send :: "unit res"
  ds_sent :: "bytes list"
  ds_reads :: "bytes res list"

type_synonym reads = "bytes res list"

definition stream_read :: "(reads, exc, bytes) op" where
  "stream_read rs = (case rs of [] \<Rightarrow> ([], Inr []) | r # rs' \<Rightarrow> (rs', r))"

definition recv_or_fail :: "(reads, exc, bytes) op" where
  "recv_or_fail rs =
    (case stream_read rs of
       (rs', Inl e) \<Rightarrow> (rs', Inl e)
     | (rs', Inr chunk) \<Rightarrow> if chunk = [] then (rs', Inl DirectoryError) else (rs', Inr chunk))"

section \<open>The head of the response\<close>

definition latin1 :: "bytes \<Rightarrow> string" where
  "latin1 bs = map (\<lambda>b. char_at (unat b)) bs"

text \<open>\<open>s.split(c, n)\<close>\<close>

fun split_max :: "'a \<Rightarrow> nat \<Rightarrow> 'a list \<Rightarrow> 'a list list" where
  "split_max c 0 s = [s]"
| "split_max c (Suc n) s =
    (case partition_char c s of (a, found, b) \<Rightarrow> if found then a # split_max c n b else [s])"

definition parse_status_line :: "bytes \<Rightarrow> (int \<times> string) res" where
  "parse_status_line line =
    (let parts = split_max (CHR '' '') 2 (latin1 line) in
     if length parts < 2 \<or> \<not> starts_with (parts ! 0) ''HTTP/'' then Inl DirectoryError
     else rbind (rcatch (py_int (parts ! 1)) (catches [ValueError]) (\<lambda>_. Inl DirectoryError)) (\<lambda>status.
       Inr (status, if length parts = 3 then parts ! 2 else '''')))"

fun parse_headers :: "bytes list \<Rightarrow> (string \<rightharpoonup> string) \<Rightarrow> (string \<rightharpoonup> string) res" where
  "parse_headers [] headers = Inr headers"
| "parse_headers (raw # lines) headers =
    (case partition_char (CHR '':'') (latin1 raw) of (name, sep, val) \<Rightarrow>
       if \<not> sep then Inl DirectoryError
       else parse_headers lines (headers(py_lower (py_strip name) \<mapsto> py_strip val)))"

definition decode_body :: "decompressors \<Rightarrow> bytes \<Rightarrow> string \<Rightarrow> bytes res" where
  "decode_body Z body encoding =
    (if encoding \<in> {'''', ''identity''} then Inr body
     else if encoding = ''deflate'' then
       rcatch (zlib_decompress Z body) (catches [ZlibError])
         (\<lambda>_. rcatch (raw_inflate Z body) (catches [ZlibError]) (\<lambda>_. Inl DirectoryError))
     else if encoding \<in> {''gzip'', ''x-gzip''} then
       rcatch (gzip_decompress Z body) (catches [OSError, EOFError, ZlibError]) (\<lambda>_. Inl DirectoryError)
     else Inl DirectoryError)"

definition CRLF :: bytes where
  "CRLF = [13, 10]"

definition HEAD_END :: bytes where
  "HEAD_END = [13, 10, 13, 10]"

definition encode_ascii :: "string \<Rightarrow> bytes res" where
  "encode_ascii s = (if is_ascii s then Inr (ascii s) else Inl UnicodeEncodeError)"

definition crlf :: string where
  "crlf = [CHR 0x0D, CHR 0x0A]"

definition dir_request :: "string \<Rightarrow> string \<Rightarrow> string" where
  "dir_request path hst =
    ''GET '' @ path @ '' HTTP/1.0'' @ crlf @ ''Host: '' @ hst @ crlf
      @ ''Accept-Encoding: deflate, gzip, identity'' @ crlf @ crlf"

section \<open>Reading\<close>

lemma recv_or_fail_shorter: "recv_or_fail rs = (rs', Inr chunk) \<Longrightarrow> length rs' < length rs"
  by (auto simp: recv_or_fail_def stream_read_def split: list.split_asm sum.split_asm if_split_asm)

lemma stream_read_shorter: "stream_read rs = (rs', Inr chunk) \<Longrightarrow> chunk \<noteq> [] \<Longrightarrow> length rs' < length rs"
  by (auto simp: stream_read_def split: list.split_asm)

text \<open>\<open>while b"\<backslash>r\<backslash>n\<backslash>r\<backslash>n" not in raw\<close>\<close>

function read_head :: "int \<Rightarrow> bytes \<Rightarrow> (reads, exc, bytes) op" where
  "read_head max_size raw rs =
    (if find_sub HEAD_END raw \<noteq> None then (rs, Inr raw)
     else case recv_or_fail rs of
       (rs', Inl e) \<Rightarrow> (rs', Inl e)
     | (rs', Inr chunk) \<Rightarrow>
         if max_size < int (length (raw @ chunk)) then (rs', Inl DirectoryError)
         else read_head max_size (raw @ chunk) rs')"
  by pat_completeness auto
termination
  by (relation "measure (\<lambda>(m, raw, rs). length rs)") (auto dest!: recv_or_fail_shorter [OF sym])

declare read_head.simps [simp del]

text \<open>\<open>while len(body) < expected\<close>\<close>

function read_expected :: "int \<Rightarrow> bytes \<Rightarrow> (reads, exc, bytes) op" where
  "read_expected expected body rs =
    (if int (length body) < expected then
       case recv_or_fail rs of
         (rs', Inl e) \<Rightarrow> (rs', Inl e)
       | (rs', Inr chunk) \<Rightarrow> read_expected expected (body @ chunk) rs'
     else (rs, Inr body))"
  by pat_completeness auto
termination
  by (relation "measure (\<lambda>(m, body, rs). length rs)") (auto dest!: recv_or_fail_shorter [OF sym])

declare read_expected.simps [simp del]

text \<open>The \<open>while True\<close> loop to EOF.\<close>

function read_to_eof :: "int \<Rightarrow> bytes \<Rightarrow> (reads, exc, bytes) op" where
  "read_to_eof max_size body rs =
    (case stream_read rs of
       (rs', Inl e) \<Rightarrow> (rs', Inl e)
     | (rs', Inr chunk) \<Rightarrow>
         if chunk = [] then (rs', Inr body)
         else if max_size < int (length (body @ chunk)) then (rs', Inl DirectoryError)
         else read_to_eof max_size (body @ chunk) rs')"
  by pat_completeness auto
termination
  by (relation "measure (\<lambda>(m, body, rs). length rs)") (auto dest!: stream_read_shorter [OF sym])

declare read_to_eof.simps [simp del]

text \<open>\<open>xs[:n]\<close> for any integer \<open>n\<close>; a negative one counts from the end.\<close>

definition take_int :: "int \<Rightarrow> 'a list \<Rightarrow> 'a list" where
  "take_int n xs = (if 0 \<le> n then take (nat n) xs else take (nat (int (length xs) + n)) xs)"

text \<open>The status line and the headers of what came before the blank line.\<close>

definition parse_head :: "bytes \<Rightarrow> (string \<rightharpoonup> string) res" where
  "parse_head head =
    (let head_lines = split_sub CRLF head in
     rbind (parse_status_line (head_lines ! 0)) (\<lambda>(status, reason).
       if status \<noteq> 200 then Inl DirectoryError else parse_headers (tl head_lines) Map.empty))"

definition content_encoding :: "(string \<rightharpoonup> string) \<Rightarrow> string" where
  "content_encoding headers = py_lower (case headers ''content-encoding'' of None \<Rightarrow> '''' | Some v \<Rightarrow> v)"

definition expected_length :: "int \<Rightarrow> string \<Rightarrow> int res" where
  "expected_length max_size content_length =
    rbind (rcatch (py_int content_length) (catches [ValueError]) (\<lambda>_. Inl DirectoryError)) (\<lambda>expected.
      if max_size < expected then Inl DirectoryError else Inr expected)"

definition read_response_body :: "int \<Rightarrow> (string \<rightharpoonup> string) \<Rightarrow> bytes \<Rightarrow> (reads, exc, bytes) op" where
  "read_response_body max_size headers body =
    (case headers ''content-length'' of
       Some content_length \<Rightarrow>
         obind (olift (expected_length max_size content_length)) (\<lambda>expected.
         obind (read_expected expected body) (\<lambda>body. oreturn (take_int expected body)))
     | None \<Rightarrow> read_to_eof max_size body)"

text \<open>Everything \<open>dir_get\<close> does after the request is sent.\<close>

definition read_response :: "decompressors \<Rightarrow> int \<Rightarrow> (reads, exc, bytes) op" where
  "read_response Z max_size =
    obind (read_head max_size []) (\<lambda>raw.
      let i = the (find_sub HEAD_END raw); head = take i raw; rest = drop (i + 4) raw in
      obind (olift (parse_head head)) (\<lambda>headers.
      obind (read_response_body max_size headers rest) (\<lambda>body.
      olift (decode_body Z body (content_encoding headers)))))"

definition DEFAULT_MAX_SIZE :: int where
  "DEFAULT_MAX_SIZE = 64 * 1024 * 1024"

definition dir_get :: "decompressors \<Rightarrow> string \<Rightarrow> string \<Rightarrow> int \<Rightarrow> (dir_stream, exc, bytes) op" where
  "dir_get Z path hst max_size s =
    (case encode_ascii (dir_request path hst) of
       Inl e \<Rightarrow> (s, Inl e)
     | Inr request \<Rightarrow>
        (case ds_send s of
           Inl e \<Rightarrow> (s, Inl e)
         | Inr _ \<Rightarrow>
            let (rs, r) = read_response Z max_size (ds_reads s)
            in (s\<lparr>ds_sent := ds_sent s @ [request], ds_reads := rs\<rparr>, r)))"


section \<open>The response as one byte string\<close>

definition negative_length :: "(string \<rightharpoonup> string) \<Rightarrow> bool" where
  "negative_length headers =
    (case headers ''content-length'' of
       None \<Rightarrow> False
     | Some v \<Rightarrow> (case py_int v of Inl _ \<Rightarrow> False | Inr n \<Rightarrow> n < 0))"

definition body_of :: "int \<Rightarrow> (string \<rightharpoonup> string) \<Rightarrow> bytes \<Rightarrow> bytes res" where
  "body_of max_size headers body =
    (case headers ''content-length'' of
       None \<Rightarrow> Inr body
     | Some v \<Rightarrow> rbind (expected_length max_size v) (\<lambda>n.
         if int (length body) < n then Inl DirectoryError else Inr (take (nat n) body)))"

definition response_of :: "decompressors \<Rightarrow> int \<Rightarrow> bytes \<Rightarrow> bytes res" where
  "response_of Z max_size whole =
    (case find_sub HEAD_END whole of
       None \<Rightarrow> Inl DirectoryError
     | Some i \<Rightarrow>
        rbind (parse_head (take i whole)) (\<lambda>headers.
        rbind (body_of max_size headers (drop (i + 4) whole)) (\<lambda>body.
        decode_body Z body (content_encoding headers))))"

lemma find_sub_append: "find_sub sub a = Some i \<Longrightarrow> find_sub sub (a @ b) = Some i"
proof (induction a arbitrary: i)
  case Nil
  then show ?case by (cases b) (auto split: if_splits)
next
  case (Cons c a)
  show ?case
  proof (cases "starts_with (c # a) sub")
    case True
    then obtain t where "c # a = sub @ t" by (auto simp: starts_with_iff)
    then have "(c # a) @ b = sub @ (t @ b)" by simp
    then have "starts_with ((c # a) @ b) sub" unfolding starts_with_iff by blast
    then show ?thesis using True Cons.prems by simp
  next
    case False
    then obtain j where j: "find_sub sub a = Some j" "i = Suc j" using Cons.prems by auto
    have "\<not> starts_with ((c # a) @ b) sub"
    proof
      assume "starts_with ((c # a) @ b) sub"
      then obtain t where t: "(c # a) @ b = sub @ t" by (auto simp: starts_with_iff)
      have "length sub \<le> length (c # a)" using find_sub_Some [OF j(1)] by simp
      then have "take (length sub) (c # a) = sub" by (metis append_eq_conv_conj take_append diff_is_0_eq' take0 append_Nil2 t)
      then have "c # a = sub @ drop (length sub) (c # a)" by (metis append_take_drop_id)
      then have "starts_with (c # a) sub" unfolding starts_with_iff by blast
      then show False using False by simp
    qed
    then show ?thesis using Cons.IH [OF j(1)] j(2) by simp
  qed
qed

lemma recv_chunk: "c \<noteq> [] \<Longrightarrow> recv_or_fail (Inr c # rs) = (rs, Inr c)"
  by (simp add: recv_or_fail_def stream_read_def)

lemma recv_eof: "recv_or_fail [] = ([], Inl DirectoryError)"
  by (simp add: recv_or_fail_def stream_read_def)

lemma read_head_chunks:
  assumes "list_all (\<lambda>c. c \<noteq> []) chunks" "int (length (raw @ concat chunks)) \<le> m"
  shows "(case find_sub HEAD_END (raw @ concat chunks) of
      None \<Rightarrow> snd (read_head m raw (map Inr chunks)) = Inl DirectoryError
    | Some i \<Rightarrow> \<exists>pre post. chunks = pre @ post \<and> find_sub HEAD_END (raw @ concat pre) = Some i
        \<and> read_head m raw (map Inr chunks) = (map Inr post, Inr (raw @ concat pre)))"
  using assms
proof (induction chunks arbitrary: raw)
  case Nil
  then show ?case by (auto simp: read_head.simps [of m raw "[]"] recv_eof split: option.splits)
next
  case (Cons c cs)
  show ?case
  proof (cases "find_sub HEAD_END raw")
    case (Some i)
    then have "find_sub HEAD_END (raw @ concat (c # cs)) = Some i" by (rule find_sub_append)
    moreover have "read_head m raw (map Inr (c # cs)) = (map Inr (c # cs), Inr raw)"
      using Some by (simp add: read_head.simps [of m raw])
    ultimately show ?thesis
      using Some by (simp del: find_sub.simps) (intro exI [of _ "[]"] exI [of _ "c # cs"], simp)
  next
    case None
    then have r: "read_head m raw (map Inr (c # cs)) = read_head m (raw @ c) (map Inr cs)"
      using Cons.prems by (simp add: read_head.simps [of m raw] recv_chunk)
    have "list_all (\<lambda>c. c \<noteq> []) cs" "int (length ((raw @ c) @ concat cs)) \<le> m" using Cons.prems by simp_all
    from Cons.IH [OF this] show ?thesis
      unfolding r
    proof (simp only: append_assoc concat.simps split: option.splits, safe)
      fix i pre post
      assume "find_sub HEAD_END (raw @ c @ concat pre) = Some i"
        "read_head m (raw @ c) (map Inr (pre @ post)) = (map Inr post, Inr (raw @ c @ concat pre))"
      then show "\<exists>pre' post'. c # pre @ post = pre' @ post' \<and> find_sub HEAD_END (raw @ concat pre') = Some i
        \<and> read_head m (raw @ c) (map Inr (pre @ post)) = (map Inr post', Inr (raw @ concat pre'))"
        by (intro exI [of _ "c # pre"] exI [of _ post]) simp
    qed
  qed
qed

lemma read_expected_chunks:
  assumes "list_all (\<lambda>c. c \<noteq> []) chunks"
  shows "if int (length (body @ concat chunks)) < n then snd (read_expected n body (map Inr chunks)) = Inl DirectoryError
    else \<exists>rs pre post. chunks = pre @ post \<and> n \<le> int (length (body @ concat pre))
      \<and> read_expected n body (map Inr chunks) = (rs, Inr (body @ concat pre))"
  using assms
proof (induction chunks arbitrary: body)
  case Nil
  then show ?case by (simp add: read_expected.simps [of n body] recv_eof)
next
  case (Cons c cs)
  show ?case
  proof (cases "int (length body) < n")
    case True
    then have r: "read_expected n body (map Inr (c # cs)) = read_expected n (body @ c) (map Inr cs)"
      using Cons.prems by (simp add: read_expected.simps [of n body] recv_chunk)
    have p: "list_all (\<lambda>c. c \<noteq> []) cs" using Cons.prems by simp
    show ?thesis
      unfolding r using Cons.IH [OF p, of "body @ c"]
      by (auto simp: add.assoc split: if_splits) (metis append_Cons concat.simps(2) length_append of_nat_add)
  next
    case False
    then have "read_expected n body (map Inr (c # cs)) = (map Inr (c # cs), Inr (body @ concat []))"
      by (simp add: read_expected.simps [of n body])
    then show ?thesis using False by (simp del: list.map) (intro exI [of _ "[]"] exI [of _ "c # cs"], simp)
  qed
qed

lemma read_to_eof_chunks:
  "list_all (\<lambda>c. c \<noteq> []) chunks \<Longrightarrow> int (length (body @ concat chunks)) \<le> m \<Longrightarrow>
    snd (read_to_eof m body (map Inr chunks)) = Inr (body @ concat chunks)"
proof (induction chunks arbitrary: body)
  case Nil
  then show ?case by (simp add: read_to_eof.simps [of m body] stream_read_def)
next
  case (Cons c cs)
  then show ?case by (auto simp: read_to_eof.simps [of m body] stream_read_def)
qed


lemma response_body_pieces:
  assumes post: "list_all (\<lambda>c. c \<noteq> []) post" and small: "int (length (rest @ concat post)) \<le> max_size"
    and nonneg: "\<not> negative_length headers"
  shows "snd (read_response_body max_size headers rest (map Inr post)) = body_of max_size headers (rest @ concat post)"
proof (cases "headers ''content-length''")
  case None
  then show ?thesis using read_to_eof_chunks [OF post small] by (simp add: read_response_body_def body_of_def)
next
  case (Some v)
  have nn: "expected_length max_size v = Inr n \<Longrightarrow> 0 \<le> n" for n
    using nonneg Some by (auto simp: negative_length_def expected_length_def rcatch_Inr_iff split: sum.splits if_splits)
  show ?thesis
  proof (cases "expected_length max_size v")
    case (Inl e)
    then show ?thesis using Some by (simp add: read_response_body_def body_of_def)
  next
    case (Inr n)
    show ?thesis
    proof (cases "int (length (rest @ concat post)) < n")
      case True
      then have "snd (read_expected n rest (map Inr post)) = Inl DirectoryError"
        using read_expected_chunks [OF post, where body = rest and n = n] by simp
      then show ?thesis using Some Inr True
        by (cases "read_expected n rest (map Inr post)") (simp add: read_response_body_def body_of_def obind_def)
    next
      case False
      then obtain rs a where "read_expected n rest (map Inr post) = (rs, Inr (rest @ concat a))"
        "n \<le> int (length (rest @ concat a))" "\<exists>b. post = a @ b"
        using read_expected_chunks [OF post, where body = rest and n = n] by auto
      then show ?thesis using Some Inr False nn [OF Inr]
        by (auto simp: read_response_body_def body_of_def obind_def take_int_def)
    qed
  qed
qed

lemma response_pieces:
  assumes "list_all (\<lambda>c. c \<noteq> []) chunks" "int (length (concat chunks)) \<le> max_size"
    and "\<And>i headers. find_sub HEAD_END (concat chunks) = Some i \<Longrightarrow>
      parse_head (take i (concat chunks)) = Inr headers \<Longrightarrow> \<not> negative_length headers"
  shows "snd (read_response Z max_size (map Inr chunks)) = response_of Z max_size (concat chunks)"
proof (cases "find_sub HEAD_END (concat chunks)")
  case None
  then show ?thesis
    using read_head_chunks [OF assms(1), of "[]" max_size] assms(2)
    by (cases "read_head max_size [] (map Inr chunks)") (simp add: response_of_def read_response_def obind_def)
next
  case (Some i)
  then obtain pre post where pp: "chunks = pre @ post" "find_sub HEAD_END (concat pre) = Some i"
    and rh: "read_head max_size [] (map Inr chunks) = (map Inr post, Inr (concat pre))"
    using read_head_chunks [OF assms(1), of "[]" max_size] assms(2) by auto
  have le: "i + 4 \<le> length (concat pre)" using find_sub_Some [OF pp(2)] by (simp add: HEAD_END_def)
  then have cut: "take i (concat chunks) = take i (concat pre)"
    "drop (i + 4) (concat chunks) = drop (i + 4) (concat pre) @ concat post" by (simp_all add: pp(1))
  let ?rest = "drop (i + 4) (concat pre)"
  have post: "list_all (\<lambda>c. c \<noteq> []) post" using assms(1) pp(1) by simp
  have small: "int (length (?rest @ concat post)) \<le> max_size" using assms(2) pp(1) by simp
  show ?thesis
  proof (cases "parse_head (take i (concat chunks))")
    case (Inl e)
    then show ?thesis using Some by (simp add: read_response_def obind_def rh pp(2) response_of_def flip: cut(1))
  next
    case (Inr headers)
    have body: "snd (read_response_body max_size headers ?rest (map Inr post)) = body_of max_size headers (?rest @ concat post)"
      by (rule response_body_pieces [OF post small assms(3) [OF Some Inr]])
    obtain rs b where rb: "read_response_body max_size headers ?rest (map Inr post) = (rs, b)" by force
    have "snd (read_response Z max_size (map Inr chunks)) =
        rbind b (\<lambda>body. decode_body Z body (content_encoding headers))"
      unfolding read_response_def obind_def rh using Inr
      by (cases b) (simp_all add: pp(2) rb obind_def flip: cut(1))
    moreover have "response_of Z max_size (concat chunks) =
        rbind b (\<lambda>body. decode_body Z body (content_encoding headers))"
      using body unfolding response_of_def Some rb by (simp add: Inr cut(2))
    ultimately show ?thesis by simp
  qed
qed

lemma read_in_one_piece:
  assumes "whole \<noteq> []" "int (length whole) \<le> max_size" "find_sub HEAD_END whole = Some i"
    "case parse_head (take i whole) of Inr hs \<Rightarrow> \<not> negative_length hs | _ \<Rightarrow> False"
  shows "snd (read_response Z max_size (map Inr [whole])) = response_of Z max_size whole"
  by (subst response_pieces) (use assms in auto)

definition identity_decompressors :: decompressors where
  "identity_decompressors = \<lparr>zlib_decompress = Inr, raw_inflate = Inr, gzip_decompress = Inr\<rparr>"


definition example_response :: bytes where
  "example_response = ascii (''HTTP/1.0 200 OK'' @ crlf @ ''Content-Length: 5'' @ crlf @ crlf @ ''hello, and more'')"

lemma example_bytes:
  "example_response =
    [72, 84, 84, 80, 47, 49, 46, 48, 32, 50, 48, 48, 32, 79, 75, 13, 10, 67, 111, 110, 116, 101, 110,
     116, 45, 76, 101, 110, 103, 116, 104, 58, 32, 53, 13, 10, 13, 10, 104, 101, 108, 108, 111, 44, 32,
     97, 110, 100, 32, 109, 111, 114, 101]"
  by code_simp



text \<open>With a negative length the value depends on how the bytes arrived.\<close>

definition negative_response :: bytes where
  "negative_response = ascii (''HTTP/1.0 200 OK'' @ crlf @ ''Content-Length: -1'' @ crlf @ crlf @ ''ab'')"

lemma negative_bytes:
  "negative_response =
    [72, 84, 84, 80, 47, 49, 46, 48, 32, 50, 48, 48, 32, 79, 75, 13, 10, 67, 111, 110, 116, 101, 110,
     116, 45, 76, 101, 110, 103, 116, 104, 58, 32, 45, 49, 13, 10, 13, 10, 97, 98]"
  by code_simp

lemma negative_head:
  "find_sub HEAD_END negative_response = Some 35"
  "find_sub HEAD_END (take 39 negative_response) = Some 35"
  "read_head 64 [] [Inr negative_response] = ([], Inr negative_response)"
  "read_head 64 [] [Inr (take 39 negative_response), Inr (drop 39 negative_response)]
    = ([Inr (drop 39 negative_response)], Inr (take 39 negative_response))"
  unfolding negative_bytes by code_simp+

lemma negative_headers:
  obtains h where "parse_head (take 35 negative_response) = Inr h" "content_encoding h = ''''"
    "h ''content-length'' = Some ''-1''"
proof -
  have "(case parse_head (take 35 negative_response) of
      Inr h \<Rightarrow> content_encoding h = '''' \<and> h ''content-length'' = Some ''-1'' | _ \<Rightarrow> False)"
    unfolding negative_bytes by code_simp
  then show ?thesis using that by (cases "parse_head (take 35 negative_response)") auto
qed

lemma negative_length_is_cut_by_arrival:
  "snd (read_response identity_decompressors 64 [Inr negative_response]) = Inr (drop 39 (take 40 negative_response))"
  "snd (read_response identity_decompressors 64 [Inr (take 39 negative_response), Inr (drop 39 negative_response)])
    = Inr []"
proof -
  obtain h where h: "parse_head (take 35 negative_response) = Inr h" "content_encoding h = ''''"
    "h ''content-length'' = Some ''-1''" by (rule negative_headers)
  have l: "length negative_response = 41" by (simp add: negative_bytes)
  have n: "expected_length 64 ''-1'' = Inr (- 1)" by code_simp
  note * = read_response_def Let_def obind_def negative_head h n read_response_body_def read_expected.simps [of "- 1"]
    take_int_def decode_body_def l
  show "snd (read_response identity_decompressors 64 [Inr negative_response]) = Inr (drop 39 (take 40 negative_response))"
    by (simp add: * take_drop)
  show "snd (read_response identity_decompressors 64 [Inr (take 39 negative_response), Inr (drop 39 negative_response)])
    = Inr []"
    by (simp add: * min_def)
qed

section \<open>Errors and bounds\<close>

definition script_errors :: "reads \<Rightarrow> exc set" where
  "script_errors rs = {e. Inl e \<in> set rs}"

lemma recv_or_fail_raises: "raises_only (insert DirectoryError (script_errors rs)) (snd (recv_or_fail rs))"
  by (auto simp: recv_or_fail_def stream_read_def script_errors_def raises_only_def split: list.splits sum.splits)

lemma stream_read_script: "stream_read rs = (rs', r) \<Longrightarrow> script_errors rs' \<subseteq> script_errors rs"
  by (auto simp: stream_read_def script_errors_def split: list.splits)

lemma recv_or_fail_script: "recv_or_fail rs = (rs', r) \<Longrightarrow> script_errors rs' \<subseteq> script_errors rs"
  by (auto simp: recv_or_fail_def split: prod.splits sum.splits if_splits dest!: stream_read_script)

definition reads_raise :: "exc set \<Rightarrow> (reads, exc, 'a) op \<Rightarrow> reads \<Rightarrow> bool" where
  "reads_raise S p rs \<longleftrightarrow> raises_only S (snd (p rs)) \<and> script_errors (fst (p rs)) \<subseteq> S"

lemma reads_raiseI:
  "DirectoryError \<in> S \<Longrightarrow> script_errors rs \<subseteq> S \<Longrightarrow> reads_raise S recv_or_fail rs"
  "script_errors rs \<subseteq> S \<Longrightarrow> reads_raise S stream_read rs"
  using recv_or_fail_raises [of rs] recv_or_fail_script [of rs] stream_read_script [of rs]
  by (auto simp: reads_raise_def raises_only_def stream_read_def script_errors_def prod_eq_iff split: list.splits
      intro!: exI)

lemma read_head_raises:
  "DirectoryError \<in> S \<Longrightarrow> script_errors rs \<subseteq> S \<Longrightarrow> reads_raise S (read_head m raw) rs"
proof (induction m raw rs rule: read_head.induct)
  case (1 m raw rs)
  show ?case
    using reads_raiseI(1) [OF "1.prems"] 1
    by (auto simp: reads_raise_def read_head.simps [of m raw rs] raises_only_def split: prod.split sum.split) blast
qed

lemma read_expected_raises:
  "DirectoryError \<in> S \<Longrightarrow> script_errors rs \<subseteq> S \<Longrightarrow> reads_raise S (read_expected n body) rs"
proof (induction n body rs rule: read_expected.induct)
  case (1 n body rs)
  show ?case
    using reads_raiseI(1) [OF "1.prems"] 1
    by (auto simp: reads_raise_def read_expected.simps [of n body rs] raises_only_def split: prod.split sum.split) blast
qed

lemma read_to_eof_raises:
  "DirectoryError \<in> S \<Longrightarrow> script_errors rs \<subseteq> S \<Longrightarrow> reads_raise S (read_to_eof m body) rs"
proof (induction m body rs rule: read_to_eof.induct)
  case (1 m body rs)
  show ?case
    using reads_raiseI(2) [OF "1.prems"(2)] 1
    by (auto simp: reads_raise_def read_to_eof.simps [of m body rs] raises_only_def split: prod.split sum.split) blast
qed

lemma obind_reads_raise:
  assumes "reads_raise S p rs" "\<And>a rs'. script_errors rs' \<subseteq> S \<Longrightarrow> reads_raise S (f a) rs'"
  shows "reads_raise S (obind p f) rs"
  using assms by (auto simp: reads_raise_def obind_def raises_only_def split: prod.splits sum.splits) blast

lemma olift_reads_raise: "raises_only S r \<Longrightarrow> script_errors rs \<subseteq> S \<Longrightarrow> reads_raise S (olift r) rs"
  by (simp add: reads_raise_def)

lemma py_int_converted: "DirectoryError \<in> S \<Longrightarrow> raises_only S (rcatch (py_int s) (catches [ValueError]) (\<lambda>_. Inl DirectoryError))"
  using py_int_raises [of "{ValueError}" s] by (auto simp: raises_only_def rcatch_def split: sum.splits)

lemma parse_headers_raises: "DirectoryError \<in> S \<Longrightarrow> raises_only S (parse_headers lines headers)"
  by (induction lines arbitrary: headers) (auto intro: raises_intros split: prod.split)

lemma parse_head_raises: "DirectoryError \<in> S \<Longrightarrow> raises_only S (parse_head head)"
  unfolding parse_head_def parse_status_line_def Let_def
  by (intro raises_intros py_int_converted) (auto intro!: raises_intros parse_headers_raises)

text \<open>What the standard library documents of a failed decompression.\<close>

definition decompressors_ok :: "decompressors \<Rightarrow> bool" where
  "decompressors_ok Z \<longleftrightarrow> (\<forall>body. raises_only {ZlibError} (zlib_decompress Z body)
     \<and> raises_only {ZlibError} (raw_inflate Z body) \<and> raises_only {OSError, EOFError, ZlibError} (gzip_decompress Z body))"

lemma decode_body_raises:
  assumes "decompressors_ok Z" "DirectoryError \<in> S"
  shows "raises_only S (decode_body Z body encoding)"
  using assms unfolding decode_body_def decompressors_ok_def
  by (auto simp: raises_only_def rcatch_def split: sum.splits)

lemma response_body_raises:
  assumes "DirectoryError \<in> S" "script_errors rs \<subseteq> S"
  shows "reads_raise S (read_response_body m headers body) rs"
proof (cases "headers ''content-length''")
  case None
  then show ?thesis using read_to_eof_raises [OF assms] by (simp add: read_response_body_def reads_raise_def)
next
  case (Some v)
  have "reads_raise S (obind (read_expected n body) (\<lambda>b. oreturn (take_int n b))) rs'" if "script_errors rs' \<subseteq> S" for n rs'
    using that assms(1) by (intro obind_reads_raise read_expected_raises) (auto simp: reads_raise_def raises_only_Inr)
  moreover have "raises_only S (expected_length m v)"
    unfolding expected_length_def using assms(1) by (intro raises_intros py_int_converted) auto
  ultimately have "reads_raise S (obind (olift (expected_length m v))
      (\<lambda>n. obind (read_expected n body) (\<lambda>b. oreturn (take_int n b)))) rs"
    using assms(2) by (intro obind_reads_raise [OF olift_reads_raise])
  then show ?thesis using Some by (simp add: read_response_body_def reads_raise_def)
qed

lemma read_response_raises:
  assumes "decompressors_ok Z" "DirectoryError \<in> S" "script_errors rs \<subseteq> S"
  shows "reads_raise S (read_response Z m) rs"
  unfolding read_response_def Let_def using assms
  by (intro obind_reads_raise read_head_raises response_body_raises olift_reads_raise parse_head_raises decode_body_raises)

lemma read_head_bound:
  "read_head m raw rs = (rs', Inr raw') \<Longrightarrow> int (length raw) \<le> m \<Longrightarrow>
    int (length raw') \<le> m \<and> find_sub HEAD_END raw' \<noteq> None"
proof (induction m raw rs rule: read_head.induct)
  case (1 m raw rs)
  show ?case
  proof (cases "find_sub HEAD_END raw")
    case (Some i)
    then show ?thesis using "1.prems" by (simp add: read_head.simps [of m raw])
  next
    case None
    then obtain rs1 c where c: "recv_or_fail rs = (rs1, Inr c)" "\<not> m < int (length (raw @ c))"
      "read_head m (raw @ c) rs1 = (rs', Inr raw')"
      using "1.prems" by (auto simp: read_head.simps [of m raw rs] split: prod.split_asm sum.split_asm if_split_asm)
    show ?thesis using "1.IH" [OF _ sym [OF c(1)] refl c(2,3)] None c(2) by simp
  qed
qed

lemma read_to_eof_bound:
  "read_to_eof m body rs = (rs', Inr body') \<Longrightarrow> int (length body) \<le> m \<Longrightarrow> int (length body') \<le> m"
proof (induction m body rs rule: read_to_eof.induct)
  case (1 m body rs)
  show ?case
  proof (cases "\<exists>rs1 c. stream_read rs = (rs1, Inr c) \<and> c \<noteq> []")
    case True
    then obtain rs1 c where c: "stream_read rs = (rs1, Inr c)" "c \<noteq> []" by blast
    then have "\<not> m < int (length (body @ c))" "read_to_eof m (body @ c) rs1 = (rs', Inr body')"
      using "1.prems" by (simp_all add: read_to_eof.simps [of m body rs] split: if_split_asm)
    then show ?thesis using "1.IH" [OF sym [OF c(1)] refl c(2)] by simp
  next
    case False
    then show ?thesis
      using "1.prems" by (auto simp: read_to_eof.simps [of m body rs] split: prod.split_asm sum.split_asm if_split_asm)
  qed
qed

lemma response_body_bound:
  assumes "read_response_body m headers body rs = (rs', Inr b)" "int (length body) \<le> m"
  shows "int (length b) \<le> m"
proof (cases "headers ''content-length''")
  case None
  then show ?thesis using assms by (auto simp: read_response_body_def intro: read_to_eof_bound)
next
  case (Some v)
  then obtain n b' where n: "expected_length m v = Inr n" and b: "b = take_int n b'"
    and e: "\<exists>rs1. read_expected n body rs = (rs1, Inr b')"
    using assms(1) by (auto simp: read_response_body_def obind_Inr_iff)
  have m: "n \<le> m" using n by (auto simp: expected_length_def split: if_split_asm)
  show ?thesis
  proof (cases "0 \<le> n")
    case True
    then show ?thesis using m by (simp add: b take_int_def)
  next
    case False
    then have "b' = body" using e by (auto simp: read_expected.simps [of n])
    then show ?thesis using False assms(2) by (simp add: b take_int_def)
  qed
qed



end
