(* ===== verification/ConsensusStore.thy ===== *)
theory ConsensusStore
  imports ConsensusLaws
begin

text \<open>
  The consensus cache on disk (\<open>_dir/consensus_store.py\<close>). The state is the cache file's bytes and the temporary
  files beside it; what the operating system answers is an argument. A save is the list of the states the
  directory goes through, so that what a concurrent reader, or a process that dies half way, can find is
  stated on every one of them.
\<close>

record cache_fs =
  cf_file :: "bytes option"
  cf_temps :: "bytes list"

definition read_bytes :: "exc option \<Rightarrow> cache_fs \<Rightarrow> bytes res" where
  "read_bytes fault fs =
    (case fault of
       Some e \<Rightarrow> Inl e
     | None \<Rightarrow> (case cf_file fs of None \<Rightarrow> Inl OSError | Some raw \<Rightarrow> Inr raw))"

definition store_load ::
  "prims \<Rightarrow> 'k rsa_ops \<Rightarrow> real \<Rightarrow> directory_authority list \<Rightarrow> py_datetime option \<Rightarrow> exc option \<Rightarrow> cache_fs \<Rightarrow>
    consensus option res" where
  "store_load P R clock authorities now fault fs =
    (case read_bytes fault fs of
       Inl e \<Rightarrow> if catches [OSError] e then Inr None else Inl e
     | Inr raw \<Rightarrow>
        (case utf8_decode raw of
           Inl e \<Rightarrow> if catches [UnicodeDecodeError] e then Inr None else Inl e
         | Inr consensus_text \<Rightarrow>
            (case verify_consensus P R clock consensus_text authorities now of
               Inl e \<Rightarrow> if catches [ConsensusError] e then Inr None else Inl e
             | Inr consensus \<Rightarrow> Inr (Some consensus))))"

section \<open>Saving\<close>

text \<open>What each system call of a save raises, if it does; a failed write (or a failed close) leaves a prefix.\<close>

record save_env =
  se_mkdir :: "exc option"
  se_mkstemp :: "exc option"
  se_write :: "(nat \<times> exc) option"
  se_replace :: "exc option"
  se_unlink :: "exc option"

text \<open>The \<open>except\<close> block: the temporary file is removed, errors of that are suppressed, the first error is raised again.\<close>

definition clean_up :: "save_env \<Rightarrow> cache_fs \<Rightarrow> exc \<Rightarrow> cache_fs \<times> unit res" where
  "clean_up env fs e =
    (case se_unlink env of
       None \<Rightarrow> (fs\<lparr>cf_temps := tl (cf_temps fs)\<rparr>, Inl e)
     | Some e' \<Rightarrow> (fs, Inl (if catches [OSError] e' then e else e')))"

definition atomic_write_bytes :: "save_env \<Rightarrow> bytes \<Rightarrow> cache_fs \<Rightarrow> cache_fs list \<times> unit res" where
  "atomic_write_bytes env data fs =
    (case se_mkstemp env of
       Some e \<Rightarrow> ([], Inl e)
     | None \<Rightarrow>
        let created = fs\<lparr>cf_temps := [] # cf_temps fs\<rparr> in
        (case se_write env of
           Some (n, e) \<Rightarrow>
             let partial = fs\<lparr>cf_temps := take n data # cf_temps fs\<rparr>; cleaned = clean_up env partial e
             in ([created, partial, fst cleaned], snd cleaned)
         | None \<Rightarrow>
             let complete = fs\<lparr>cf_temps := data # cf_temps fs\<rparr> in
             (case se_replace env of
                Some e \<Rightarrow> let cleaned = clean_up env complete e in ([created, complete, fst cleaned], snd cleaned)
              | None \<Rightarrow> ([created, complete, fs\<lparr>cf_file := Some data\<rparr>], Inr ()))))"

definition save_steps :: "save_env \<Rightarrow> string \<Rightarrow> cache_fs \<Rightarrow> cache_fs list \<times> unit res" where
  "save_steps env consensus_text fs =
    (case se_mkdir env of
       Some e \<Rightarrow> ([], Inl e)
     | None \<Rightarrow> atomic_write_bytes env (utf8_encode consensus_text) fs)"

definition store_save :: "save_env \<Rightarrow> string \<Rightarrow> (cache_fs, exc, unit) op" where
  "store_save env consensus_text fs =
    (let (steps, r) = save_steps env consensus_text fs in (last (fs # steps), r))"

section \<open>What a reader can find\<close>

lemma clean_up_file [simp]: "cf_file (fst (clean_up env fs e)) = cf_file fs"
  by (simp add: clean_up_def split: option.splits)

lemma clean_up_raises: "\<exists>e'. snd (clean_up env fs e) = Inl e'"
  by (simp add: clean_up_def split: option.splits)

lemma save_steps_file:
  "fs' \<in> set (fst (save_steps env d fs)) \<Longrightarrow> cf_file fs' = cf_file fs \<or> cf_file fs' = Some (utf8_encode d)"
  by (auto simp: save_steps_def atomic_write_bytes_def Let_def split: option.splits)

lemma store_save_outcome:
  "store_save env d fs = (fs', Inr ()) \<Longrightarrow> fs' = fs\<lparr>cf_file := Some (utf8_encode d)\<rparr>"
  "store_save env d fs = (fs', Inl e) \<Longrightarrow> cf_file fs' = cf_file fs \<and> (se_unlink env = None \<longrightarrow> fs' = fs)"
  by (auto simp: store_save_def save_steps_def atomic_write_bytes_def clean_up_def Let_def split: option.splits prod.splits)

text \<open>C31: the cache file is replaced whole or not at all: whatever fails during a save and wherever the process dies or
another reads, the file holds the previous consensus or the complete new one; a save that ends normally
leaves the new one and no temporary file, a failed one leaves the previous file, and the temporary file
only if it could not be removed.\<close>

theorem cache_is_replaced_whole:
  "(\<forall>fs' \<in> set (fst (save_steps env d fs)). cf_file fs' = cf_file fs \<or> cf_file fs' = Some (utf8_encode d))
   \<and> (case store_save env d fs of
        (fs', Inr _) \<Rightarrow> fs' = fs\<lparr>cf_file := Some (utf8_encode d)\<rparr>
      | (fs', Inl _) \<Rightarrow> cf_file fs' = cf_file fs \<and> (fs' \<noteq> fs \<longrightarrow> se_unlink env \<noteq> None))"
proof (intro conjI ballI)
  fix fs'
  assume "fs' \<in> set (fst (save_steps env d fs))"
  then show "cf_file fs' = cf_file fs \<or> cf_file fs' = Some (utf8_encode d)" by (rule save_steps_file)
next
  obtain fs' r where r: "store_save env d fs = (fs', r)" by force
  then show "case store_save env d fs of
        (fs', Inr _) \<Rightarrow> fs' = fs\<lparr>cf_file := Some (utf8_encode d)\<rparr>
      | (fs', Inl _) \<Rightarrow> cf_file fs' = cf_file fs \<and> (fs' \<noteq> fs \<longrightarrow> se_unlink env \<noteq> None)"
    using store_save_outcome(1) [of env d fs fs'] store_save_outcome(2) [of env d fs fs']
    by (cases r) auto
qed

definition disk_full :: save_env where
  "disk_full = \<lparr>se_mkdir = None, se_mkstemp = None, se_write = Some (1, OSError), se_replace = None,
     se_unlink = Some OSError\<rparr>"

theorem cache_is_replaced_whole_witness:
  "list_all (\<lambda>fs'. cf_file fs' \<in> {Some [7], Some [97, 98]})
      (fst (save_steps disk_full ''ab'' \<lparr>cf_file = Some [7], cf_temps = []\<rparr>))
   \<and> store_save disk_full ''ab'' \<lparr>cf_file = Some [7], cf_temps = []\<rparr> = (\<lparr>cf_file = Some [7], cf_temps = [[97]]\<rparr>, Inl OSError)"
proof
  have u: "utf8_encode ''ab'' = [97, 98]" by code_simp
  show "list_all (\<lambda>fs'. cf_file fs' \<in> {Some [7], Some [97, 98]})
      (fst (save_steps disk_full ''ab'' \<lparr>cf_file = Some [7], cf_temps = []\<rparr>))"
    using conjunct1 [OF cache_is_replaced_whole [of disk_full "''ab''" "\<lparr>cf_file = Some [7], cf_temps = []\<rparr>"]]
    unfolding u cache_fs.select_convs list_all_iff by blast
  show "store_save disk_full ''ab'' \<lparr>cf_file = Some [7], cf_temps = []\<rparr> = (\<lparr>cf_file = Some [7], cf_temps = [[97]]\<rparr>, Inl OSError)"
    by code_simp
qed

section \<open>Loading\<close>

lemma store_load_Some_iff:
  "store_load P R clock authorities now fault fs = Inr (Some c) \<longleftrightarrow>
    fault = None \<and> (\<exists>raw d. cf_file fs = Some raw \<and> utf8_decode raw = Inr d
      \<and> verify_consensus P R clock d authorities now = Inr c)"
  by (auto simp: store_load_def read_bytes_def split: option.splits sum.splits if_splits)

text \<open>A cached consensus is trusted no more than a fetched one: after a save, a load at any time gives exactly
the consensus that more than half of the authorities signed and that is live at that time, and what
does not verify is a cache miss.\<close>

theorem cached_consensus_is_verified_again:
  assumes "keys_usable R authorities" "authorities \<noteq> []" "store_save env d fs = (fs', Inr ())"
  shows "store_load P R clock authorities (Some (Aware t)) None fs' = Inr (Some c) \<longleftrightarrow>
    parse_consensus d = Inr c \<and> is_live c t
    \<and> (\<exists>region. signed_region d = Inr region
         \<and> length authorities < 2 * card (cs_identity ` {s \<in> set (con_signatures c). counts P R authorities region s}))"
  using store_save_outcome(1) [OF assms(3)]
  by (simp add: store_load_Some_iff consensus_verifies_iff [OF assms(1,2)])

theorem cached_consensus_is_verified_again_witness:
  "\<exists>fs' c. store_save \<lparr>se_mkdir = None, se_mkstemp = None, se_write = None, se_replace = None, se_unlink = None\<rparr>
       signed_example \<lparr>cf_file = None, cf_temps = []\<rparr> = (fs', Inr ())
     \<and> store_load toy_prims (toy_rsa (replicate 32 151)) 0 [toy_authority] (Some (Aware 1767229200)) None fs' = Inr (Some c)"
proof -
  let ?env = "\<lparr>se_mkdir = None, se_mkstemp = None, se_write = None, se_replace = None, se_unlink = None\<rparr>"
  let ?fs = "\<lparr>cf_file = Some (utf8_encode signed_example), cf_temps = []\<rparr>"
  have s: "store_save ?env signed_example \<lparr>cf_file = None, cf_temps = []\<rparr> = (?fs, Inr ())"
    by (simp add: store_save_def save_steps_def atomic_write_bytes_def Let_def)
  obtain c where "verify_consensus toy_prims (toy_rsa (replicate 32 151)) 0 signed_example [toy_authority]
      (Some (Aware 1767229200)) = Inr c" by (rule signed_example_verifies)
  then have "store_load toy_prims (toy_rsa (replicate 32 151)) 0 [toy_authority] (Some (Aware 1767229200)) None ?fs = Inr (Some c)"
    using consensus_verifies_iff [OF toy_keys_usable]
      cached_consensus_is_verified_again [OF toy_keys_usable _ s] by blast
  then show ?thesis using s by blast
qed

text \<open>A bare \<open>ValueError\<close> of the parser is not a cache miss: it escapes \<open>load\<close>.\<close>

lemma load_lets_ValueError_escape:
  "cf_file fs = Some raw \<Longrightarrow> utf8_decode raw = Inr d \<Longrightarrow> verify_consensus P R clock d authorities now = Inl ValueError \<Longrightarrow>
    store_load P R clock authorities now None fs = Inl ValueError"
proof -
  have "\<not> catches [ConsensusError] ValueError" by code_simp
  then show "cf_file fs = Some raw \<Longrightarrow> utf8_decode raw = Inr d \<Longrightarrow> verify_consensus P R clock d authorities now = Inl ValueError \<Longrightarrow>
    store_load P R clock authorities now None fs = Inl ValueError" by (simp add: store_load_def read_bytes_def)
qed

end
