(* ===== verification/Rendezvous.thy ===== *)
theory Rendezvous
  imports CircuitBuild Descriptor
begin

text \<open>
  The client's introduction and rendezvous (\<open>_onion/rendezvous.py\<close>) over the model of circuits. The state is the
  rendezvous circuit and the introduction circuits built so far, each as the code leaves it. Building an
  introduction circuit is the caller's function; like the freshly drawn keys and what the relays answer
  while the code waits, it is an argument, one \<open>intro_env\<close> for each introduction point.
\<close>

definition VIRTUAL_SERVICE :: relay_info where
  "VIRTUAL_SERVICE = \<lparr>ri_host = HostName ''onion-service'', ri_port = 0, ri_ntor_onion_key = zeros 32,
     ri_identity_digest = zeros 20, ri_ed_identity = zeros 32\<rparr>"

definition NTOR_ONION_KEY_TYPE :: int where "NTOR_ONION_KEY_TYPE = 1"
definition AUTH_KEY_TYPE_ED25519 :: int where "AUTH_KEY_TYPE_ED25519 = 2"

section \<open>The introduction point as a relay\<close>

record intro_specs =
  is_address :: "(host \<times> int) option"
  is_legacy_id :: "bytes option"
  is_ed_identity :: "bytes option"

definition intro_spec :: "link_spec \<Rightarrow> intro_specs \<Rightarrow> intro_specs res" where
  "intro_spec spec s =
    (if ls_type spec = link_spec_num LinkSpec_IPV4 then
       rbind (rcatch (LinkSpecifier_endpoint spec) (catches [ValueError]) (\<lambda>_. Inl IntroductionError)) (\<lambda>address.
         Inr (s\<lparr>is_address := Some address\<rparr>))
     else if ls_type spec = link_spec_num LinkSpec_LEGACY_ID then Inr (s\<lparr>is_legacy_id := Some (ls_data spec)\<rparr>)
     else if ls_type spec = link_spec_num LinkSpec_ED25519_ID then Inr (s\<lparr>is_ed_identity := Some (ls_data spec)\<rparr>)
     else Inr s)"

fun intro_specs_loop :: "link_spec list \<Rightarrow> intro_specs \<Rightarrow> intro_specs res" where
  "intro_specs_loop [] s = Inr s"
| "intro_specs_loop (spec # specs) s = rbind (intro_spec spec s) (intro_specs_loop specs)"

definition intro_point_relay_info :: "intro_point \<Rightarrow> relay_info res" where
  "intro_point_relay_info intro =
    rbind (intro_specs_loop (ip_link_specifiers intro) \<lparr>is_address = None, is_legacy_id = None, is_ed_identity = None\<rparr>)
      (\<lambda>s. case (is_address s, is_legacy_id s, is_ed_identity s) of
             (Some (hst, port), Some legacy_id, Some ed_identity) \<Rightarrow>
               Inr \<lparr>ri_host = hst, ri_port = port, ri_ntor_onion_key = ip_onion_key intro,
                    ri_identity_digest = legacy_id, ri_ed_identity = ed_identity\<rparr>
           | _ \<Rightarrow> Inl IntroductionError)"

section \<open>The INTRODUCE1 cell\<close>

definition introduce1_header :: "bytes \<Rightarrow> bytes res" where
  "introduce1_header auth_key =
    rbind (byte1 AUTH_KEY_TYPE_ED25519) (\<lambda>t. rbind (pack_H (int (length auth_key))) (\<lambda>l.
      Inr (zeros 20 @ t @ l @ auth_key @ [0])))"

definition introduce1_plaintext :: "bytes \<Rightarrow> relay_info \<Rightarrow> bytes res" where
  "introduce1_plaintext cookie rendezvous_point =
    rbind (byte1 NTOR_ONION_KEY_TYPE) (\<lambda>t.
    rbind (pack_H (int (length (ri_ntor_onion_key rendezvous_point)))) (\<lambda>l.
    rbind (rbind (RelayInfo_link_specifiers rendezvous_point) pack_block) (\<lambda>specs.
      Inr (cookie @ [0] @ t @ l @ ri_ntor_onion_key rendezvous_point @ specs))))"

section \<open>One introduction point\<close>

record rend_world =
  rw_rend :: circ
  rw_intros :: "circ list"

record intro_env =
  ie_generated :: bytes                 \<comment> \<open>the fresh x25519 key of the handshake\<close>
  ie_build :: "relay_info \<Rightarrow> circ res"    \<comment> \<open>\<open>build_intro_circuit\<close>\<close>
  ie_ack :: "circ \<Rightarrow> circ"               \<comment> \<open>what happens to the introduction circuit until the wait ends\<close>
  ie_reply :: "circ \<Rightarrow> circ"             \<comment> \<open>the same for the rendezvous circuit\<close>

definition on_rend :: "(circ, exc, 'a) op \<Rightarrow> (rend_world, exc, 'a) op" where
  "on_rend p w = (case p (rw_rend w) of (c, r) \<Rightarrow> (w\<lparr>rw_rend := c\<rparr>, r))"

text \<open>The \<open>try\<close> block on the introduction circuit.\<close>

definition intro_exchange :: "prims \<Rightarrow> (nat \<Rightarrow> bytes) \<Rightarrow> (circ \<Rightarrow> circ) \<Rightarrow> bytes \<Rightarrow> (circ, exc, unit) op" where
  "intro_exchange P urandom env body =
    obind (arm_relay (relay_num Relay_INTRODUCE_ACK)) (\<lambda>ack.
    obind (send_relay P (RelayCell urandom (relay_num Relay_INTRODUCE1) 0 body) False id) (\<lambda>_.
    obind (RelayFuture_result ack env) (\<lambda>cell.
      if length (r_data cell) < 2 then oraise IntroductionError
      else obind (olift (unpack_H (take 2 (r_data cell)))) (\<lambda>status.
        if status \<noteq> 0 then oraise IntroductionError else oreturn ()))))"

text \<open>\<open>try: m; finally: circuit.close()\<close>\<close>

definition closing :: "(circ, exc, unit) op \<Rightarrow> (circ, exc, unit) op" where
  "closing m c =
    (case m c of (c1, r) \<Rightarrow> (case circuit_close c1 of (c2, Inl e) \<Rightarrow> (c2, Inl e) | (c2, Inr _) \<Rightarrow> (c2, r)))"

definition on_intro_circuit :: "intro_env \<Rightarrow> relay_info \<Rightarrow> (circ, exc, unit) op \<Rightarrow> (rend_world, exc, unit) op" where
  "on_intro_circuit E info m w =
    (case ie_build E info of
       Inl e \<Rightarrow> (w, Inl e)
     | Inr c \<Rightarrow> (case closing m c of (c', r) \<Rightarrow> (w\<lparr>rw_intros := rw_intros w @ [c']\<rparr>, r)))"

definition introduce ::
  "prims \<Rightarrow> (nat \<Rightarrow> bytes) \<Rightarrow> bytes \<Rightarrow> bytes \<Rightarrow> relay_info \<Rightarrow> intro_point \<Rightarrow> intro_env \<Rightarrow>
    (rend_world, exc, relay_crypto) op" where
  "introduce P urandom subcred cookie rendezvous_point intro E =
    obind (olift (HsNtorHandshake P (ip_auth_key intro) (ip_enc_key intro) subcred None (ie_generated E))) (\<lambda>h.
    obind (olift (introduce1_header (ip_auth_key intro))) (\<lambda>header.
    obind (olift (rbind (introduce1_plaintext cookie rendezvous_point) (encrypt_introduce P h header))) (\<lambda>sealed.
    obind (on_rend (arm_relay (relay_num Relay_RENDEZVOUS2))) (\<lambda>rendezvous_reply.
    obind (olift (intro_point_relay_info intro)) (\<lambda>info.
    obind (on_intro_circuit E info (intro_exchange P urandom (ie_ack E) (header @ sealed))) (\<lambda>_.
    obind (on_rend (RelayFuture_result rendezvous_reply (ie_reply E))) (\<lambda>cell.
      if length (r_data cell) < 64 then oraise RendezvousError
      else obind (olift (complete_rendezvous P h (take 32 (r_data cell)) (py_slice 32 64 (r_data cell)))) (\<lambda>keys.
        olift (hs_v3 (key_material keys))))))))))"

section \<open>Connecting\<close>

definition RETRY_ERRORS :: "exc list" where
  "RETRY_ERRORS = [IntroductionError, RendezvousError, CircuitError, ChannelError]"

fun try_intros ::
  "prims \<Rightarrow> (nat \<Rightarrow> bytes) \<Rightarrow> bytes \<Rightarrow> bytes \<Rightarrow> relay_info \<Rightarrow> (intro_point \<times> intro_env) list \<Rightarrow>
    (rend_world, exc, unit) op" where
  "try_intros P urandom subcred cookie rendezvous_point [] w = (w, Inl IntroductionError)"
| "try_intros P urandom subcred cookie rendezvous_point ((intro, E) # rest) w =
    (case introduce P urandom subcred cookie rendezvous_point intro E w of
       (w1, Inl e) \<Rightarrow>
         if catches RETRY_ERRORS e then try_intros P urandom subcred cookie rendezvous_point rest w1 else (w1, Inl e)
     | (w1, Inr service_crypto) \<Rightarrow>
         (w1\<lparr>rw_rend := add_virtual_hop service_crypto VIRTUAL_SERVICE (rw_rend w1)\<rparr>, Inr ()))"

text \<open>\<open>envs i\<close> is the environment of the \<open>i\<close>-th point; \<open>env0\<close> is what happens while the rendezvous point answers.\<close>

definition intro_attempts :: "hs_descriptor \<Rightarrow> (nat \<Rightarrow> intro_env) \<Rightarrow> (intro_point \<times> intro_env) list" where
  "intro_attempts descriptor envs =
    zip (hd_intro_points descriptor) (map envs [0..<length (hd_intro_points descriptor)])"

definition connect_to_service ::
  "prims \<Rightarrow> (nat \<Rightarrow> bytes) \<Rightarrow> hs_descriptor \<Rightarrow> bytes \<Rightarrow> bytes \<Rightarrow> relay_info \<Rightarrow> (circ \<Rightarrow> circ) \<Rightarrow>
    (nat \<Rightarrow> intro_env) \<Rightarrow> (rend_world, exc, unit) op" where
  "connect_to_service P urandom descriptor subcred cookie rendezvous_point env0 envs =
    obind (on_rend (arm_relay (relay_num Relay_RENDEZVOUS_ESTABLISHED))) (\<lambda>established.
    obind (on_rend (send_relay P (RelayCell urandom (relay_num Relay_ESTABLISH_RENDEZVOUS) 0 cookie) False id)) (\<lambda>_.
    obind (on_rend (RelayFuture_result established env0)) (\<lambda>_.
      if hd_intro_points descriptor = [] then oraise IntroductionError
      else try_intros P urandom subcred cookie rendezvous_point (intro_attempts descriptor envs))))"

section \<open>Introduction circuits are closed\<close>

definition env_ok :: "intro_env \<Rightarrow> bool" where
  "env_ok E \<longleftrightarrow> (\<forall>info c. ie_build E info = Inr c \<longrightarrow> chan_ok c) \<and> (\<forall>v. chan_ok v \<longrightarrow> chan_ok (ie_ack E v))"

definition shut :: "circ \<Rightarrow> bool" where
  "shut c \<longleftrightarrow> c_destroyed c \<and> deregistered c"

lemma chan_ok_arm: "chan_ok c \<Longrightarrow> chan_ok (fst (arm_relay cmd c))"
  by (simp add: arm_relay_def new_waiter_def Let_def)

lemma chan_ok_result: "(\<And>v. chan_ok v \<Longrightarrow> chan_ok (env v)) \<Longrightarrow> chan_ok c \<Longrightarrow> chan_ok (fst (RelayFuture_result r env c))"
  by (auto simp: RelayFuture_result_def waiter_wait_def Let_def obind_def split: option.splits reply.splits)

lemma chan_ok_exchange:
  assumes "\<And>v. chan_ok v \<Longrightarrow> chan_ok (env v)" "chan_ok c"
  shows "chan_ok (fst (intro_exchange P urandom env body c))"
  unfolding intro_exchange_def
  by (intro obind_keeps [where I = chan_ok] chan_ok_arm chan_ok_send_relay chan_ok_result assms)
    (auto intro!: obind_keeps [where I = chan_ok])

lemma closing_shuts:
  assumes "chan_ok (fst (m c))"
  shows "\<exists>c'. closing m c = (c', snd (m c)) \<and> shut c'"
  using close_succeeds [OF assms] by (auto simp: closing_def shut_def split: prod.splits)

text \<open>What a step adds to the introduction circuits.\<close>

definition adds_shut :: "rend_world \<Rightarrow> rend_world \<Rightarrow> nat \<Rightarrow> bool" where
  "adds_shut w w' n \<longleftrightarrow> (\<exists>new. rw_intros w' = rw_intros w @ new \<and> list_all shut new \<and> length new \<le> n)"

lemma adds_shut_same: "rw_intros w' = rw_intros w \<Longrightarrow> adds_shut w w' n"
  by (simp add: adds_shut_def)

lemma adds_shut_refl [simp]: "adds_shut w w n"
  by (simp add: adds_shut_same)

lemma adds_shut_trans: "adds_shut w w1 m \<Longrightarrow> adds_shut w1 w2 n \<Longrightarrow> adds_shut w w2 (m + n)"
  by (fastforce simp: adds_shut_def)

lemma obind_adds:
  assumes "adds_shut w (fst (p w)) m" "\<And>a w1. p w = (w1, Inr a) \<Longrightarrow> adds_shut w1 (fst (f a w1)) n"
  shows "adds_shut w (fst (obind p f w)) (m + n)"
proof -
  obtain w1 r where p: "p w = (w1, r)" by force
  show ?thesis
  proof (cases r)
    case (Inl e)
    then show ?thesis using assms(1) p by (auto simp: adds_shut_def obind_def)
  next
    case (Inr a)
    then show ?thesis using adds_shut_trans [OF assms(1) [unfolded p fst_conv] assms(2)] p by (simp add: obind_def)
  qed
qed

lemma olift_adds: "adds_shut w (fst (olift r w)) 0" "adds_shut w (fst (oraise e w)) 0" "adds_shut w (fst (oreturn a w)) 0"
  by (simp_all add: adds_shut_same)

lemma on_rend_adds: "adds_shut w (fst (on_rend p w)) 0"
  by (auto simp: on_rend_def adds_shut_def split: prod.splits)

lemma on_intro_circuit_adds:
  assumes "env_ok E"
  shows "adds_shut w (fst (on_intro_circuit E info (intro_exchange P urandom (ie_ack E) body) w)) 1"
proof (cases "ie_build E info")
  case (Inl e)
  then show ?thesis by (simp add: on_intro_circuit_def adds_shut_same)
next
  case (Inr c)
  then have "chan_ok (fst (intro_exchange P urandom (ie_ack E) body c))"
    using assms by (intro chan_ok_exchange) (auto simp: env_ok_def)
  from closing_shuts [of "intro_exchange P urandom (ie_ack E) body", OF this]
  obtain c' r where "closing (intro_exchange P urandom (ie_ack E) body) c = (c', r)" "shut c'" by blast
  then show ?thesis using Inr by (auto simp: on_intro_circuit_def adds_shut_def)
qed

lemma introduce_adds:
  assumes "env_ok E"
  shows "adds_shut w (fst (introduce P urandom subcred cookie rp intro E w)) 1"
proof -
  have "adds_shut w (fst (introduce P urandom subcred cookie rp intro E w)) (0 + (0 + (0 + (0 + (0 + (1 + (0 + 0)))))))"
    unfolding introduce_def
    by (intro obind_adds olift_adds on_rend_adds on_intro_circuit_adds assms)
      (auto simp: olift_adds intro: obind_adds [where m = 0 and n = 0, simplified] olift_adds)
  then show ?thesis by simp
qed

lemma try_intros_adds:
  "list_all (\<lambda>(intro, E). env_ok E) points \<Longrightarrow>
    adds_shut w (fst (try_intros P urandom subcred cookie rp points w)) (length points)"
proof (induction points arbitrary: w)
  case Nil
  then show ?case by (simp add: adds_shut_same)
next
  case (Cons p points)
  obtain intro E where p: "p = (intro, E)" by force
  obtain w1 r where i: "introduce P urandom subcred cookie rp intro E w = (w1, r)" by force
  have 1: "adds_shut w w1 1" using introduce_adds [of E w P urandom subcred cookie rp intro] Cons.prems p i by simp
  show ?case
  proof (cases r)
    case (Inl e)
    have "adds_shut w1 (fst (try_intros P urandom subcred cookie rp points w1)) (length points)"
      using Cons.prems by (intro Cons.IH) simp
    from adds_shut_trans [OF 1 this] 1 show ?thesis
      using Inl i p by (auto simp: adds_shut_def)
  next
    case (Inr rc)
    then show ?thesis using 1 i p by (auto simp: adds_shut_def)
  qed
qed

text \<open>C13: no introduction circuit is left behind: whatever the introduction points, the rendezvous point and the service
do, and however connecting ends, every introduction circuit that was built is torn down and off its
channel, and at most one was built for each introduction point.\<close>

theorem introduction_circuits_are_closed:
  assumes "\<And>i. env_ok (envs i)"
    and "connect_to_service P urandom descriptor subcred cookie rp env0 envs w = (w', r)"
  shows "\<exists>new. rw_intros w' = rw_intros w @ new \<and> list_all (\<lambda>c. c_destroyed c \<and> deregistered c) new
    \<and> length new \<le> length (hd_intro_points descriptor)"
proof -
  let ?n = "length (hd_intro_points descriptor)"
  have ok: "list_all (\<lambda>(intro, E). env_ok E) (intro_attempts descriptor envs)"
    using assms(1) by (auto simp: intro_attempts_def list_all_iff set_zip)
  have "length (intro_attempts descriptor envs) = ?n" by (simp add: intro_attempts_def)
  then have "adds_shut v (fst ((if hd_intro_points descriptor = [] then oraise IntroductionError
      else try_intros P urandom subcred cookie rp (intro_attempts descriptor envs)) v)) ?n" for v
    using try_intros_adds [OF ok, of v P urandom subcred cookie rp] by (auto simp: adds_shut_same)
  then have "adds_shut w (fst (connect_to_service P urandom descriptor subcred cookie rp env0 envs w)) (0 + (0 + (0 + ?n)))"
    unfolding connect_to_service_def by (intro obind_adds on_rend_adds)
  then show ?thesis using assms(2) by (auto simp: adds_shut_def shut_def [abs_def])
qed


section \<open>Waiting for a control cell\<close>

definition fresh_waiter :: waiter where
  "fresh_waiter = \<lparr>w_event = False, w_result = None, w_error = None\<rparr>"

lemma arm_relay_live:
  "\<not> c_destroyed c \<Longrightarrow> arm_relay cmd c =
    (c\<lparr>waiter_heap := waiter_heap c @ [fresh_waiter], c_relay_waiters := AList.update cmd (length (waiter_heap c)) (c_relay_waiters c)\<rparr>,
     Inr (length (waiter_heap c)))"
  by (simp add: arm_relay_def new_waiter_def fresh_waiter_def)

lemma armed_result:
  assumes "map_of (c_relay_waiters c) (r_command cell) = Some r" "r < length (waiter_heap c)"
    "w_error (waiter_heap c ! r) = None"
    "r_command cell \<noteq> relay_num Relay_EXTENDED2" "r_command cell \<noteq> relay_num Relay_SENDME"
  shows "RelayFuture_result r (\<lambda>v. fst (route_relay P u cell i v)) c =
    (waiter_set_result r (Control cell) (c\<lparr>c_relay_waiters := AList.delete (r_command cell) (c_relay_waiters c)\<rparr>), Inr cell)"
  using assms
  by (simp add: RelayFuture_result_def route_relay_def waiter_wait_def waiter_set_result_def obind_def Let_def)

lemma introduction_acknowledged:
  assumes c: "sendable P u c" and len: "length body \<le> RELAY_PAYLOAD_LEN"
    and ack: "r_command ack = relay_num Relay_INTRODUCE_ACK" "r_data ack = 0 # 0 # ext"
    and env: "\<And>v. env v = fst (route_relay P u ack i v)"
  shows "\<exists>c1 cell. intro_exchange P u env body c = (c1, Inr ()) \<and> chan_ok c1
    \<and> send_relay P (RelayCell u (relay_num Relay_INTRODUCE1) 0 body) False id (fst (arm_relay (relay_num Relay_INTRODUCE_ACK) c))
        = (cell, Inr ())"
proof -
  let ?r = "length (waiter_heap c)" and ?cell = "RelayCell u (relay_num Relay_INTRODUCE1) 0 body"
  let ?c1 = "c\<lparr>waiter_heap := waiter_heap c @ [fresh_waiter],
    c_relay_waiters := AList.update (relay_num Relay_INTRODUCE_ACK) ?r (c_relay_waiters c)\<rparr>"
  have arm: "arm_relay (relay_num Relay_INTRODUCE_ACK) c = (?c1, Inr ?r)"
    using c by (intro arm_relay_live) (simp add: sendable_def)
  have s1: "sendable P u ?c1" using c by (simp add: sendable_def)
  have "sealable ?cell"
    by (rule sealable_RelayCell) (use c len in \<open>simp_all add: sendable_def\<close>)
  from send_adds_one [OF s1 this, of False False] obtain c2 where
    send: "send_relay_cell P ?cell False False ?c1 = (c2, Inr ())" by blast
  then have same: "same_registry ?c1 c2" using send_relay_cell_same(1) by (metis fst_conv)
  have c2: "chan_ok c2" using sendable_same [OF s1 same] by (simp add: sendable_def chan_ok_def)
  let ?c3 = "waiter_set_result ?r (Control ack)
    (c2\<lparr>c_relay_waiters := AList.delete (r_command ack) (c_relay_waiters c2)\<rparr>)"
  have "RelayFuture_result ?r (\<lambda>v. fst (route_relay P u ack i v)) c2 = (?c3, Inr ack)"
    using same by (intro armed_result) (simp_all add: same_registry_def update_conv' ack(1) fresh_waiter_def)
  moreover have "env = (\<lambda>v. fst (route_relay P u ack i v))" using env by (rule ext)
  moreover have "unpack_H (take 2 (r_data ack)) = Inr 0" by (simp add: ack(2) unpack_H_def unpack_be_def be_int_def)
  moreover have "chan_ok ?c3" using c2 by (simp add: waiter_set_result_def)
  ultimately show ?thesis
    using send arm by (simp add: intro_exchange_def obind_def send_relay_def ack(2))
qed

section \<open>The service becomes a hop\<close>

text \<open>An introduction point whose circuit cannot be built.\<close>

definition dead_point :: "prims \<Rightarrow> intro_point \<times> intro_env \<Rightarrow> bool" where
  "dead_point P p \<longleftrightarrow> (case p of (intro, E) \<Rightarrow>
     length (ip_auth_key intro) = 32 \<and> length (ie_generated E) = 32
     \<and> dh_exchange P (ie_generated E) (ip_enc_key intro) \<noteq> None
     \<and> (\<forall>info. \<exists>e. ie_build E info = Inl e \<and> catches RETRY_ERRORS e))"

lemma introduce1_header_ok:
  "length auth_key = 32 \<Longrightarrow> introduce1_header auth_key = Inr (zeros 20 @ be_enc 1 2 @ be_enc 2 32 @ auth_key @ [0])"
  by (simp add: introduce1_header_def AUTH_KEY_TYPE_ED25519_def)

lemma sealed_introduction:
  assumes ok: "prims_ok P" and "length auth_key = 32" "length subcred = 32" "length x = 32"
    and dh: "dh_exchange P x enc_key = Some xb"
  obtains h sealed where "HsNtorHandshake P auth_key enc_key subcred None x = Inr h" "hs_x h = x"
    "hs_pub_x h = dh_public P x" "encrypt_introduce P h header plaintext = Inr sealed"
    "length sealed = 64 + length plaintext"
proof -
  have e: "length enc_key = 32" using dh_lengths [OF ok dh] by simp
  let ?h = "\<lparr>hs_auth_key = auth_key, hs_enc_key = enc_key, hs_subcredential = subcred, hs_x = x, hs_pub_x = dh_public P x\<rparr>"
  have "HsNtorHandshake P auth_key enc_key subcred None x = Inr ?h"
    using assms(2-4) e by (simp add: HsNtorHandshake_def ephemeral_or_def x25519_public_from_private_def Let_def)
  moreover obtain sealed where "encrypt_introduce P ?h header plaintext = Inr sealed" "length sealed = 64 + length plaintext"
    using assms(4) e dh prims_okD [OF ok]
    by (simp add: encrypt_introduce_def x25519_def aes_ctr_def ctr_cipher_def ctr_update_def hs_mac_def Let_def sha3_256_def)
  ultimately show ?thesis using that by fastforce
qed

lemma intro_point_relay_info_raises: "raises_only {IntroductionError} (intro_point_relay_info intro)"
proof -
  have 1: "raises_only {IntroductionError} (intro_spec spec s)" for spec s
    unfolding intro_spec_def
    by (intro raises_intros raises_only_rcatch) (auto simp: LinkSpecifier_endpoint_def py_slice_def split: if_splits)
  have "raises_only {IntroductionError} (intro_specs_loop specs s)" for specs s
    by (induction specs arbitrary: s) (auto intro!: raises_intros 1)
  then show ?thesis
    unfolding intro_point_relay_info_def
    by (intro raises_only_rbind) (auto simp: raises_only_def split: option.splits prod.splits)
qed

text \<open>A dead point costs nothing but a fresh waiter on the rendezvous circuit.\<close>

lemma dead_introduction:
  assumes "prims_ok P" "dead_point P (intro, E)" "length subcred = 32"
    and "introduce1_plaintext cookie rp = Inr plaintext" "\<not> c_destroyed (rw_rend w)"
  obtains w1 e where "introduce P u subcred cookie rp intro E w = (w1, Inl e)" "catches RETRY_ERRORS e"
    "\<not> c_destroyed (rw_rend w1)" "c_hops (rw_rend w1) = c_hops (rw_rend w)"
proof -
  obtain xb where d: "length (ip_auth_key intro) = 32" "length (ie_generated E) = 32"
    "dh_exchange P (ie_generated E) (ip_enc_key intro) = Some xb"
    "\<And>info. \<exists>e. ie_build E info = Inl e \<and> catches RETRY_ERRORS e"
    using assms(2) by (auto simp: dead_point_def)
  let ?header = "zeros 20 @ be_enc 1 2 @ be_enc 2 32 @ ip_auth_key intro @ [0]"
  obtain h sealed where h: "HsNtorHandshake P (ip_auth_key intro) (ip_enc_key intro) subcred None (ie_generated E) = Inr h"
    "encrypt_introduce P h ?header plaintext = Inr sealed"
    by (rule sealed_introduction [OF assms(1) d(1) assms(3) d(2,3)])
  let ?w1 = "fst (on_rend (arm_relay (relay_num Relay_RENDEZVOUS2)) w)"
  have "\<exists>e. introduce P u subcred cookie rp intro E w = (?w1, Inl e) \<and> catches RETRY_ERRORS e"
  proof (cases "intro_point_relay_info intro")
    case (Inl e)
    moreover from this have "catches RETRY_ERRORS e"
      using raises_onlyD [OF intro_point_relay_info_raises] by (auto simp: RETRY_ERRORS_def)
    ultimately show ?thesis
      using h assms(4,5) by (simp add: introduce_def introduce1_header_ok [OF d(1)] on_rend_def arm_relay_live obind_def)
  next
    case (Inr info)
    obtain e where "ie_build E info = Inl e" "catches RETRY_ERRORS e" using d(4) by blast
    then show ?thesis
      using Inr h assms(4,5)
      by (simp add: introduce_def introduce1_header_ok [OF d(1)] on_rend_def arm_relay_live obind_def on_intro_circuit_def)
  qed
  then show ?thesis using that assms(5) by (auto simp: on_rend_def arm_relay_live)
qed

lemma dead_points_skipped:
  assumes "prims_ok P" "length subcred = 32" "introduce1_plaintext cookie rp = Inr plaintext"
  shows "list_all (dead_point P) dead \<Longrightarrow> \<not> c_destroyed (rw_rend w) \<Longrightarrow>
    \<exists>w1. try_intros P u subcred cookie rp (dead @ rest) w = try_intros P u subcred cookie rp rest w1
      \<and> \<not> c_destroyed (rw_rend w1) \<and> c_hops (rw_rend w1) = c_hops (rw_rend w)"
proof (induction dead arbitrary: w)
  case (Cons p dead)
  obtain intro E where p: "p = (intro, E)" by force
  obtain w1 e where "introduce P u subcred cookie rp intro E w = (w1, Inl e)" "catches RETRY_ERRORS e"
    "\<not> c_destroyed (rw_rend w1)" "c_hops (rw_rend w1) = c_hops (rw_rend w)"
    by (rule dead_introduction [OF assms(1) _ assms(2,3) Cons.prems(2)]) (use Cons.prems p in auto)
  then show ?case using Cons.IH [of w1] Cons.prems p by auto
qed auto

text \<open>The ends agree on the secret that seals the introduction, and the client computes it from valid inputs.\<close>

lemma introduction_secret:
  assumes ok: "dh_commutes P" "length b = 32"
    and h: "HsNtorHandshake P auth_key (dh_public P b) subcred None generated = Inr h"
    and service: "hs_service_reply P auth_key b y (hs_pub_x h) = Some answer"
  obtains xb where "length auth_key = 32" "length generated = 32" "dh_exchange P generated (dh_public P b) = Some xb"
proof -
  have hh: "length auth_key = 32" "hs_handshake_wf P h" "hs_enc_key h = dh_public P b" "length generated = 32" "hs_x h = generated"
    using h by (auto simp: HsNtorHandshake_Inr_iff hs_handshake_wf_def ephemeral_or_def split: if_splits)
  have "dh_exchange P b (hs_pub_x h) = dh_exchange P (hs_x h) (dh_public P b)"
    using ok hh(2) by (simp add: dh_commutes_def hs_handshake_wf_def)
  moreover have "dh_exchange P b (hs_pub_x h) \<noteq> None"
    using service by (auto simp: hs_service_reply_def Let_def split: option.splits)
  ultimately show ?thesis using that hh by fastforce
qed

text \<open>What the introduction circuit and the wait for RENDEZVOUS2 do at a point that answers.\<close>

lemma introduction_answered:
  assumes "sendable P u c" "\<And>v. ie_ack E v = fst (route_relay P u ack i v)"
    "r_command ack = relay_num Relay_INTRODUCE_ACK" "r_data ack = 0 # 0 # ext" "length body \<le> RELAY_PAYLOAD_LEN"
  shows "\<exists>c'. closing (intro_exchange P u (ie_ack E) body) c = (c', Inr ())"
proof -
  obtain c' where "intro_exchange P u (ie_ack E) body c = (c', Inr ())" "chan_ok c'"
    using introduction_acknowledged [OF assms(1) assms(5) assms(3,4), of "ie_ack E" i] assms(2) by auto
  then show ?thesis using closing_shuts [of "intro_exchange P u (ie_ack E) body" c] by auto
qed

lemma rendezvous_answered:
  assumes "\<not> c_destroyed w" "\<And>v. env v = fst (route_relay P u reply j v)" "r_command reply = relay_num Relay_RENDEZVOUS2"
  defines "arm \<equiv> fst (arm_relay (relay_num Relay_RENDEZVOUS2) w)"
  shows "\<exists>w'. RelayFuture_result (length (waiter_heap w)) env arm = (w', Inr reply) \<and> c_hops w' = c_hops w"
proof -
  have rel: "env = (\<lambda>v. fst (route_relay P u reply j v))" using assms(2) by (rule ext)
  let ?fin = "waiter_set_result (length (waiter_heap w)) (Control reply)
    (arm\<lparr>c_relay_waiters := AList.delete (r_command reply) (c_relay_waiters arm)\<rparr>)"
  have "RelayFuture_result (length (waiter_heap w)) env arm = (?fin, Inr reply)"
    unfolding rel arm_def
    by (intro armed_result) (simp_all add: arm_relay_live [OF assms(1)] assms(3) update_conv' fresh_waiter_def)
  moreover have "c_hops ?fin = c_hops w" by (simp add: waiter_set_result_def arm_def arm_relay_live [OF assms(1)])
  ultimately show ?thesis by blast
qed

lemma live_introduction:
  assumes ok: "prims_ok P" "dh_commutes P" "length b = 32" "length y = 32"
    and live: "length subcred = 32" "\<not> c_destroyed (rw_rend w)"
    and plain: "introduce1_plaintext cookie rp = Inr plaintext" "length plaintext \<le> 378"
    and point: "ip_enc_key intro = dh_public P b" "intro_point_relay_info intro = Inr info"
      "ie_build E info = Inr c" "sendable P u c"
    and h: "HsNtorHandshake P (ip_auth_key intro) (dh_public P b) subcred None (ie_generated E) = Inr h"
    and ack: "\<And>v. ie_ack E v = fst (route_relay P u ack i v)" "r_command ack = relay_num Relay_INTRODUCE_ACK"
      "r_data ack = 0 # 0 # ext"
    and service: "hs_service_reply P (ip_auth_key intro) b y (hs_pub_x h) = Some (Y, auth, keys)"
    and reply: "\<And>v. ie_reply E v = fst (route_relay P u reply j v)" "r_command reply = relay_num Relay_RENDEZVOUS2"
      "r_data reply = Y @ auth @ ext'"
  shows "\<exists>w' rc header sealed. introduce P u subcred cookie rp intro E w = (w', Inr rc) \<and> hs_v3 keys = Inr rc
    \<and> c_hops (rw_rend w') = c_hops (rw_rend w) \<and> introduce1_header (ip_auth_key intro) = Inr header
    \<and> encrypt_introduce P h header plaintext = Inr sealed"
proof -
  let ?header = "zeros 20 @ be_enc 1 2 @ be_enc 2 32 @ ip_auth_key intro @ [0]"
  obtain xb where gen: "length (ip_auth_key intro) = 32" "length (ie_generated E) = 32"
    "dh_exchange P (ie_generated E) (dh_public P b) = Some xb"
    by (rule introduction_secret [OF ok(2,3) h service])
  obtain sealed where sealed: "encrypt_introduce P h ?header plaintext = Inr sealed"
    "length sealed = 64 + length plaintext"
    by (rule sealed_introduction [OF ok(1) gen(1) live(1) gen(2,3)]) (use h in auto)
  obtain c' where x: "closing (intro_exchange P u (ie_ack E) (?header @ sealed)) c = (c', Inr ())"
    using introduction_answered [OF point(4) ack, of "?header @ sealed"] sealed(2) plain(2) gen(1)
    by (auto simp: RELAY_PAYLOAD_LEN_def)
  obtain fin where fin: "RelayFuture_result (length (waiter_heap (rw_rend w))) (ie_reply E)
      (fst (arm_relay (relay_num Relay_RENDEZVOUS2) (rw_rend w))) = (fin, Inr reply)" "c_hops fin = c_hops (rw_rend w)"
    using rendezvous_answered [OF live(2) reply(1,2)] by blast
  obtain seed where agreed: "complete_rendezvous P h Y auth = Inr \<lparr>ntor_key_seed = seed, key_material = keys\<rparr>" "length keys = 128"
    using hs_ntor_agreement [OF ok h service] by blast
  obtain rc where rc: "hs_v3 keys = Inr rc"
    using agreed(2) by (auto simp: hs_v3_def RelayCrypto_init_ok)
  have "length Y = 32" "length auth = 32"
    using service by (auto simp: hs_service_reply_def Let_def prims_okD [OF ok(1)] hs_mac_length [OF ok(1)]
        split: option.splits sum.splits)
  then have "introduce P u subcred cookie rp intro E w = (w\<lparr>rw_rend := fin, rw_intros := rw_intros w @ [c']\<rparr>, Inr rc)"
    using h sealed(1) plain(1) point(1-3) x fin(1) agreed(1) rc
    by (simp add: introduce_def introduce1_header_ok [OF gen(1)] on_rend_def arm_relay_live [OF live(2)] obind_def
        on_intro_circuit_def reply(3) py_slice_def)
  then show ?thesis using rc sealed(1) fin(2) by (simp add: introduce1_header_ok [OF gen(1)])
qed

text \<open>C12: the introduction makes the service a hop: however many introduction points cannot be reached, at the
first one that answers the service can open the INTRODUCE1 payload and reads the client's key and
plaintext, and its RENDEZVOUS2 answer installs exactly one hop, keyed with the service's own keys.\<close>

theorem service_becomes_a_hop:
  assumes ok: "prims_ok P" "dh_commutes P" "length b = 32" "length y = 32"
    and skipped: "list_all (dead_point P) dead" "length subcred = 32" "\<not> c_destroyed (rw_rend w)"
    and plain: "introduce1_plaintext cookie rp = Inr plaintext" "length plaintext \<le> 378"
    and point: "ip_enc_key intro = dh_public P b" "intro_point_relay_info intro = Inr info"
      "ie_build E info = Inr c" "sendable P u c"
    and h: "HsNtorHandshake P (ip_auth_key intro) (dh_public P b) subcred None (ie_generated E) = Inr h"
    and ack: "\<And>v. ie_ack E v = fst (route_relay P u ack i v)" "r_command ack = relay_num Relay_INTRODUCE_ACK"
      "r_data ack = 0 # 0 # ext"
    and service: "hs_service_reply P (ip_auth_key intro) b y (hs_pub_x h) = Some (Y, auth, keys)"
    and reply: "\<And>v. ie_reply E v = fst (route_relay P u reply j v)" "r_command reply = relay_num Relay_RENDEZVOUS2"
      "r_data reply = Y @ auth @ ext'"
  shows "\<exists>w' rc header sealed. try_intros P u subcred cookie rp (dead @ (intro, E) # rest) w = (w', Inr ())
    \<and> hs_v3 keys = Inr rc
    \<and> c_hops (rw_rend w') = c_hops (rw_rend w) @ [\<lparr>hop_relay = VIRTUAL_SERVICE, hop_crypto = rc\<rparr>]
    \<and> introduce1_header (ip_auth_key intro) = Inr header \<and> encrypt_introduce P h header plaintext = Inr sealed
    \<and> hs_service_open P (ip_auth_key intro) b subcred header sealed = Some (hs_pub_x h, plaintext)"
proof -
  obtain w1 where w1: "try_intros P u subcred cookie rp (dead @ (intro, E) # rest) w
      = try_intros P u subcred cookie rp ((intro, E) # rest) w1"
    "\<not> c_destroyed (rw_rend w1)" "c_hops (rw_rend w1) = c_hops (rw_rend w)"
    using dead_points_skipped [OF ok(1) skipped(2) plain(1) skipped(1,3)] by metis
  obtain w2 rc header sealed where w2: "introduce P u subcred cookie rp intro E w1 = (w2, Inr rc)" "hs_v3 keys = Inr rc"
    "c_hops (rw_rend w2) = c_hops (rw_rend w1)" "introduce1_header (ip_auth_key intro) = Inr header"
    "encrypt_introduce P h header plaintext = Inr sealed"
    using live_introduction [OF ok skipped(2) w1(2) plain point h ack service reply] by blast
  have "hs_service_open P (ip_auth_key intro) b subcred header sealed = Some (hs_pub_x h, plaintext)"
    by (rule hs_introduce_opened [OF ok(1,2,3) h w2(5)])
  then show ?thesis using w1 w2 by (simp add: add_virtual_hop_def)
qed

text \<open>
  A point whose encryption key has the wrong length, or is a low-order point, raises \<open>ValueError\<close>, which is
  not among the errors the next point is tried after: the whole connection fails on it.
\<close>

lemma not_retried: "\<not> catches RETRY_ERRORS ValueError"
  by code_simp

lemma malformed_point_aborts:
  assumes "length (ip_enc_key intro) \<noteq> 32 \<or> length (ie_generated E) = 32 \<and> dh_exchange P (ie_generated E) (ip_enc_key intro) = None"
    "length (ip_auth_key intro) = 32" "introduce1_plaintext cookie rp = Inr plaintext"
  shows "try_intros P u subcred cookie rp ((intro, E) # rest) w = (w, Inl ValueError)"
proof -
  let ?h = "HsNtorHandshake P (ip_auth_key intro) (ip_enc_key intro) subcred None (ie_generated E)"
  show ?thesis
  proof (cases ?h)
    case (Inl e)
    then have "e = ValueError" by (auto simp: HsNtorHandshake_def x25519_public_from_private_def Let_def split: if_splits)
    then show ?thesis using Inl by (simp add: introduce_def obind_def not_retried)
  next
    case (Inr h)
    then have "x25519 P (hs_x h) (hs_enc_key h) = Inl ValueError"
      using assms by (auto simp: HsNtorHandshake_Inr_iff hs_handshake_wf_def x25519_def ephemeral_or_def split: if_splits)
    then show ?thesis
      using Inr assms(2,3)
      by (simp add: introduce_def obind_def not_retried introduce1_header_ok encrypt_introduce_def)
  qed
qed

section \<open>A concrete service\<close>

definition toy_intro :: intro_point where
  "toy_intro = \<lparr>ip_link_specifiers = [mk_link_spec LinkSpec_IPV4 [127, 0, 0, 1, 35, 41],
       mk_link_spec LinkSpec_LEGACY_ID (zeros 20), mk_link_spec LinkSpec_ED25519_ID (zeros 32)],
     ip_onion_key = zeros 32, ip_auth_key = zeros 32, ip_enc_key = zeros 32\<rparr>"

definition toy_dead_env :: intro_env where
  "toy_dead_env = \<lparr>ie_generated = replicate 32 1, ie_build = (\<lambda>_. Inl CircuitBuildTimeout), ie_ack = id, ie_reply = id\<rparr>"

definition toy_live_env :: "bytes \<Rightarrow> intro_env" where
  "toy_live_env answer = \<lparr>ie_generated = replicate 32 1, ie_build = (\<lambda>_. Inr toy_two_hops),
     ie_ack = (\<lambda>v. fst (route_relay toy_prims zeros (RelayCell zeros (relay_num Relay_INTRODUCE_ACK) 0 [0, 0]) 1 v)),
     ie_reply = (\<lambda>v. fst (route_relay toy_prims zeros (RelayCell zeros (relay_num Relay_RENDEZVOUS2) 0 answer) 1 v))\<rparr>"

definition toy_rend_world :: rend_world where
  "toy_rend_world = \<lparr>rw_rend = toy_two_hops, rw_intros = []\<rparr>"

lemma toy_intro_info: "intro_point_relay_info toy_intro = Inr toy_relay_info"
  by (simp add: intro_point_relay_info_def toy_intro_def intro_spec_def mk_link_spec_def LinkSpecifier_endpoint_def
      py_slice_def unpack_H_def unpack_be_def be_int_def toy_relay_info_def)

lemma toy_intro_keys: "ip_enc_key toy_intro = zeros 32" "ip_auth_key toy_intro = zeros 32"
  by (simp_all add: toy_intro_def)

lemma toy_introduce1_plaintext:
  "\<exists>plaintext. introduce1_plaintext (zeros 20) toy_relay_info = Inr plaintext \<and> length plaintext \<le> 378"
  by (simp add: introduce1_plaintext_def NTOR_ONION_KEY_TYPE_def toy_relay_info_def RelayInfo_link_specifiers_def
      LinkSpecifier_legacy_id_def LinkSpecifier_ed25519_id_def mk_link_spec_def pack_block_def LinkSpecifier_pack_def)

theorem service_becomes_a_hop_witness:
  "\<exists>Y auth keys w' rc. hs_service_reply toy_prims (zeros 32) (zeros 32) (replicate 32 7) (replicate 32 1) = Some (Y, auth, keys)
    \<and> try_intros toy_prims zeros (zeros 32) (zeros 20) toy_relay_info
        [(toy_intro, toy_dead_env), (toy_intro, toy_live_env (Y @ auth))] toy_rend_world = (w', Inr ())
    \<and> hs_v3 keys = Inr rc
    \<and> c_hops (rw_rend w') = c_hops toy_two_hops @ [\<lparr>hop_relay = VIRTUAL_SERVICE, hop_crypto = rc\<rparr>]"
proof -
  obtain Y auth keys where r: "hs_service_reply toy_prims (zeros 32) (zeros 32) (replicate 32 7) (replicate 32 1)
      = Some (Y, auth, keys)"
    by (simp add: hs_service_reply_def toy_dh hs_mac_def Let_def xor_zip_def
        length_HS_PROTOID sha3_256_def prims_okD [OF toy_prims_ok])
  obtain plaintext where pt: "introduce1_plaintext (zeros 20) toy_relay_info = Inr plaintext" "length plaintext \<le> 378"
    using toy_introduce1_plaintext by blast
  let ?h = "\<lparr>hs_auth_key = zeros 32, hs_enc_key = zeros 32, hs_subcredential = zeros 32,
     hs_x = replicate 32 1, hs_pub_x = replicate 32 1\<rparr>"
  have h: "HsNtorHandshake toy_prims (zeros 32) (zeros 32) (zeros 32) None (replicate 32 1) = Inr ?h"
    by (simp add: HsNtorHandshake_def ephemeral_or_def toy_dh x25519_public_from_private_def Let_def)
  have dead: "dead_point toy_prims (toy_intro, toy_dead_env)"
    by (simp add: dead_point_def toy_intro_keys toy_dead_env_def toy_dh) (code_simp)
  show ?thesis
    using service_becomes_a_hop [OF toy_prims_ok toy_prims_commute, of "zeros 32" "replicate 32 7"
        "[(toy_intro, toy_dead_env)]" "zeros 32" toy_rend_world "zeros 20" toy_relay_info plaintext toy_intro
        toy_relay_info "toy_live_env (Y @ auth)" toy_two_hops zeros ?h
        "RelayCell zeros (relay_num Relay_INTRODUCE_ACK) 0 [0, 0]" 1 "[]" Y auth keys
        "RelayCell zeros (relay_num Relay_RENDEZVOUS2) 0 (Y @ auth)" 1 "[]" "[]"]
      r pt h dead toy_two_hops_sendable
    by (auto simp: toy_intro_keys toy_intro_info toy_live_env_def toy_dh RelayCell_def RelayCell_full_def
        toy_rend_world_def toy_two_hops_sel)
qed

theorem introduction_circuits_are_closed_witness:
  "\<exists>w' r. connect_to_service toy_prims zeros \<lparr>hd_lifetime = 180, hd_revision_counter = 1, hd_intro_points = [toy_intro]\<rparr>
      (zeros 32) (zeros 20) toy_relay_info id (\<lambda>_. toy_live_env []) toy_rend_world = (w', r)
    \<and> list_all (\<lambda>c. c_destroyed c \<and> deregistered c) (rw_intros w') \<and> length (rw_intros w') \<le> 1"
proof -
  have "chan_ok toy_two_hops" using toy_two_hops_sendable by (simp add: sendable_def chan_ok_def)
  moreover have "chan_ok (fst (route_relay toy_prims zeros cell i v))" if "chan_ok v" for cell i v
    using that by (rule chan_ok_route)
  ultimately have "env_ok (toy_live_env [])" by (simp add: env_ok_def toy_live_env_def)
  then show ?thesis
    using introduction_circuits_are_closed [of "\<lambda>_. toy_live_env []" toy_prims zeros
        "\<lparr>hd_lifetime = 180, hd_revision_counter = 1, hd_intro_points = [toy_intro]\<rparr>" "zeros 32" "zeros 20" toy_relay_info id toy_rend_world]
    by (cases "connect_to_service toy_prims zeros \<lparr>hd_lifetime = 180, hd_revision_counter = 1, hd_intro_points = [toy_intro]\<rparr>
      (zeros 32) (zeros 20) toy_relay_info id (\<lambda>_. toy_live_env []) toy_rend_world") (auto simp: toy_rend_world_def)
qed

end
