(* ===== verification/LiveDir.thy ===== *)
theory LiveDir
  imports Guards HsDir Blinding LinkSpec Base64 DirParsers
begin

text \<open>
  The live directory (\<open>LiveDirectory\<close> and the fetching below it, \<open>_client/bootstrap.py\<close>): a verified consensus with
  microdescriptors fetched on demand. The outside world is the record \<open>dir_env\<close>: what the \<open>n\<close>-th use of
  the network or of the generator answers. The state counts the uses and logs each request by the way it
  went out, in cleartext or through a tunnel, since that difference is what the tunnel is for. A tunnel is a
  callable compared by identity, so it is a number here. The fetches of a thread pool are made in the order
  of their batches; when one fails the pool may cancel the ones after it, which the log still holds.
\<close>

record dir_env =
  de_http :: "nat \<Rightarrow> string \<times> int \<Rightarrow> string \<Rightarrow> bytes res"   \<comment> \<open>\<open>_http_get\<close>\<close>
  de_tunnel :: "nat \<Rightarrow> nat \<Rightarrow> string \<Rightarrow> string res"
  de_shuffle :: "nat \<Rightarrow> (string \<times> int) list \<Rightarrow> (string \<times> int) list"
  de_draws :: "nat \<Rightarrow> nat \<Rightarrow> rng_draw"

record net =
  nt_tick :: nat
  nt_clear :: "((string \<times> int) \<times> string) list"
  nt_tunneled :: "(nat \<times> string) list"

section \<open>Fetching from the mirrors\<close>

text \<open>\<open>.decode("ascii", "replace")\<close>; the last modelled character stands for \<open>U+FFFD\<close>, which is beyond them.\<close>

definition ascii_replace :: "bytes \<Rightarrow> string" where
  "ascii_replace bs = map (\<lambda>b. if b < 128 then char_at (unat b) else char_at 255) bs"

fun fetch_loop :: "dir_env \<Rightarrow> string \<Rightarrow> (string \<times> int) list \<Rightarrow> (net, exc, string) op" where
  "fetch_loop E path [] w = (w, Inl DirectoryError)"
| "fetch_loop E path (mirror # order) w =
    (let w' = w\<lparr>nt_tick := Suc (nt_tick w), nt_clear := nt_clear w @ [(mirror, path)]\<rparr> in
     case de_http E (nt_tick w) mirror path of
       Inr body \<Rightarrow> (w', Inr (ascii_replace body))
     | Inl e \<Rightarrow> if catches [Exception] e then fetch_loop E path order w' else (w', Inl e))"

definition fetch :: "dir_env \<Rightarrow> string \<Rightarrow> (string \<times> int) list \<Rightarrow> (net, exc, string) op" where
  "fetch E path mirrors w =
    fetch_loop E path (de_shuffle E (nt_tick w) mirrors) (w\<lparr>nt_tick := Suc (nt_tick w)\<rparr>)"

definition batched :: "'a list \<Rightarrow> nat \<Rightarrow> 'a list list" where
  "batched items n = groups n items"

definition MD_BATCH :: nat where "MD_BATCH = 50"

definition b64_digit :: "nat \<Rightarrow> char" where
  "b64_digit n = char_at (if n < 26 then n + 65 else if n < 52 then n + 71 else if n < 62 then n - 4 else if n = 62 then 43 else 47)"

definition b64_encode :: "bytes \<Rightarrow> string" where
  "b64_encode bs =
    concat (map (\<lambda>g. map b64_digit (take (length g + 1) (digits 64 4 (bytes_nat (g @ replicate (3 - length g) 0))))
                     @ replicate (3 - length g) CHR ''='') (groups 3 bs))"

definition rstrip_char :: "char \<Rightarrow> string \<Rightarrow> string" where
  "rstrip_char c s = rev (dropWhile ((=) c) (rev s))"

definition microdesc_path :: "bytes list \<Rightarrow> string" where
  "microdesc_path digests =
    ''/tor/micro/d/'' @ join_with CHR ''-'' (map (\<lambda>d. rstrip_char CHR ''='' (b64_encode d)) digests)"

section \<open>The directory\<close>

record live_dir =
  ld_consensus :: consensus
  ld_routers :: "router_status list"
  ld_mirrors :: "(string \<times> int) list"
  ld_weights :: "bandwidth_weights option"
  ld_guards :: guard_manager
  ld_mds :: "bytes \<rightharpoonup> microdescriptor"
  ld_tunnel :: "nat option"
  ld_tunnels :: "nat list"
  ld_net :: net

definition ld_selector :: "live_dir \<Rightarrow> path_selector" where
  "ld_selector d = \<lparr>ps_routers = ld_routers d, ps_weights = ld_weights d\<rparr>"

definition LiveDirectory_init :: "dir_env \<Rightarrow> consensus \<Rightarrow> (string \<times> int) list \<Rightarrow> net \<Rightarrow> live_dir res" where
  "LiveDirectory_init E consensus mirrors w =
    (let routers = filter (\<lambda>r. ''NoEdConsensus'' \<notin> rs_flags r) (con_routers consensus);
         scale = (case map_of (con_params consensus) ''bwweightscale'' of None \<Rightarrow> DEFAULT_BWWEIGHTSCALE | Some s \<Rightarrow> s);
         weights = (if con_bandwidth_weights consensus \<noteq> []
                    then Some \<lparr>bw_weights = con_bandwidth_weights consensus, bw_scale = scale\<rparr> else None)
     in rbind (GuardManager_init 3) (\<lambda>guards.
        case guard_update (de_draws E (nt_tick w)) routers weights guards of
          (guards', Inl e) \<Rightarrow> Inl e
        | (guards', Inr _) \<Rightarrow>
            Inr \<lparr>ld_consensus = consensus, ld_routers = routers, ld_mirrors = mirrors, ld_weights = weights,
                 ld_guards = guards', ld_mds = Map.empty, ld_tunnel = None, ld_tunnels = [],
                 ld_net = w\<lparr>nt_tick := Suc (nt_tick w)\<rparr>\<rparr>))"

section \<open>The tunnel registry\<close>

definition set_dir_tunnel :: "nat option \<Rightarrow> live_dir \<Rightarrow> live_dir" where
  "set_dir_tunnel t d = d\<lparr>ld_tunnel := t\<rparr>"

definition install_dir_tunnel :: "nat \<Rightarrow> live_dir \<Rightarrow> live_dir" where
  "install_dir_tunnel t d =
    (let ts = ld_tunnels d @ [t] in d\<lparr>ld_tunnels := ts, ld_tunnel := Some (last ts)\<rparr>)"

definition restore_dir_tunnel :: "nat \<Rightarrow> live_dir \<Rightarrow> live_dir" where
  "restore_dir_tunnel t d =
    (let ts = remove1 t (ld_tunnels d)
     in d\<lparr>ld_tunnels := ts, ld_tunnel := (if ts = [] then None else Some (last ts))\<rparr>)"

section \<open>Fetching through the directory\<close>

definition TUNNEL_ERRORS :: "exc list" where
  "TUNNEL_ERRORS = [TorBootstrapError, ChannelError, CircuitError, StreamError, TorReadTimeout]"

definition on_net :: "(net, exc, 'a) op \<Rightarrow> (live_dir, exc, 'a) op" where
  "on_net p d = (case p (ld_net d) of (w, r) \<Rightarrow> (d\<lparr>ld_net := w\<rparr>, r))"

definition tunnel_request :: "dir_env \<Rightarrow> nat \<Rightarrow> string \<Rightarrow> (net, exc, string) op" where
  "tunnel_request E t path w =
    (w\<lparr>nt_tick := Suc (nt_tick w), nt_tunneled := nt_tunneled w @ [(t, path)]\<rparr>, de_tunnel E (nt_tick w) t path)"

definition fetch_dir :: "dir_env \<Rightarrow> bool \<Rightarrow> string \<Rightarrow> (live_dir, exc, string) op" where
  "fetch_dir E allow_tunnel path d =
    (case (ld_tunnel d, allow_tunnel) of
       (Some t, True) \<Rightarrow>
         (case on_net (tunnel_request E t path) d of
            (d', Inr doc) \<Rightarrow> (d', Inr doc)
          | (d', Inl e) \<Rightarrow>
              if catches TUNNEL_ERRORS e then on_net (fetch E path (ld_mirrors d')) d' else (d', Inl e))
     | _ \<Rightarrow> on_net (fetch E path (ld_mirrors d)) d)"

definition md_key :: "router_status \<Rightarrow> bytes" where
  "md_key r = (case rs_md_digest r of None \<Rightarrow> [] | Some digest \<Rightarrow> digest)"

definition cached_md :: "live_dir \<Rightarrow> router_status \<Rightarrow> microdescriptor option" where
  "cached_md d r = ld_mds d (md_key r)"

definition missing_digests :: "live_dir \<Rightarrow> router_status list \<Rightarrow> bytes list" where
  "missing_digests d routers =
    map md_key (filter (\<lambda>r. md_key r \<noteq> [] \<and> ld_mds d (md_key r) = None) routers)"

definition store_microdescriptors :: "prims \<Rightarrow> string \<Rightarrow> (live_dir, exc, unit) op" where
  "store_microdescriptors P doc d =
    (case parse_microdescriptors P doc of
       Inl e \<Rightarrow> (d, Inl e)
     | Inr mds \<Rightarrow> (fold (\<lambda>md d. d\<lparr>ld_mds := (ld_mds d)(md_digest md \<mapsto> md)\<rparr>) mds d, Inr ()))"

fun fetch_chunks :: "dir_env \<Rightarrow> prims \<Rightarrow> bool \<Rightarrow> bytes list list \<Rightarrow> (live_dir, exc, unit) op" where
  "fetch_chunks E P allow_tunnel [] d = (d, Inr ())"
| "fetch_chunks E P allow_tunnel (chunk # chunks) d =
    obind (fetch_dir E allow_tunnel (microdesc_path chunk)) (\<lambda>doc.
    obind (store_microdescriptors P doc) (\<lambda>_. fetch_chunks E P allow_tunnel chunks)) d"

definition fetch_microdescriptors :: "dir_env \<Rightarrow> prims \<Rightarrow> bool \<Rightarrow> router_status list \<Rightarrow> (live_dir, exc, unit) op" where
  "fetch_microdescriptors E P allow_tunnel routers d =
    fetch_chunks E P allow_tunnel (batched (missing_digests d routers) MD_BATCH) d"

text \<open>The pool: every batch is fetched, then the texts are stored in order up to the first one that failed.\<close>

fun pool_fetch :: "dir_env \<Rightarrow> bool \<Rightarrow> bytes list list \<Rightarrow> live_dir \<Rightarrow> live_dir \<times> string res list" where
  "pool_fetch E allow_tunnel [] d = (d, [])"
| "pool_fetch E allow_tunnel (chunk # chunks) d =
    (case fetch_dir E allow_tunnel (microdesc_path chunk) d of (d1, r) \<Rightarrow>
     (case pool_fetch E allow_tunnel chunks d1 of (d2, rs) \<Rightarrow> (d2, r # rs)))"

fun store_results :: "prims \<Rightarrow> string res list \<Rightarrow> (live_dir, exc, unit) op" where
  "store_results P [] d = (d, Inr ())"
| "store_results P (r # rs) d = obind (olift r) (\<lambda>doc. obind (store_microdescriptors P doc) (\<lambda>_. store_results P rs)) d"

definition fetch_microdescriptors_parallel ::
  "dir_env \<Rightarrow> prims \<Rightarrow> bool \<Rightarrow> router_status list \<Rightarrow> (live_dir, exc, unit) op" where
  "fetch_microdescriptors_parallel E P allow_tunnel routers d =
    (let batches = batched (missing_digests d routers) MD_BATCH in
     if batches = [] then (d, Inr ())
     else case pool_fetch E allow_tunnel batches d of (d', rs) \<Rightarrow> store_results P rs d')"

section \<open>Relays\<close>

text \<open>The address of a consensus entry as \<open>ipaddress.IPv4Address\<close> reads it.\<close>

definition octet :: "string \<Rightarrow> byte option" where
  "octet s =
    (if s = [] \<or> 3 < length s \<or> \<not> list_all (\<lambda>c. 48 \<le> code_of c \<and> code_of c \<le> 57) s then None
     else if 1 < length s \<and> hd s = CHR ''0'' then None
     else let n = undigits 10 (map (\<lambda>c. code_of c - 48) s) in if 255 < n then None else Some (of_nat n))"

definition relay_host :: "string \<Rightarrow> host" where
  "relay_host s =
    (case opt_map octet (split_char CHR ''.'' s) of
       Some packed \<Rightarrow> if length packed = 4 then HostIP (IPv4 packed) else HostName s
     | None \<Rightarrow> HostName s)"

definition router_relay_info :: "live_dir \<Rightarrow> router_status \<Rightarrow> relay_info res" where
  "router_relay_info d router =
    (case cached_md d router of
       None \<Rightarrow> Inl DirectoryError
     | Some md \<Rightarrow>
        (case usable_ed_identity (rs_flags router) md of
           None \<Rightarrow> Inl DirectoryError
         | Some ed_identity \<Rightarrow>
            Inr \<lparr>ri_host = relay_host (rs_address router), ri_port = rs_or_port router,
                 ri_ntor_onion_key = md_ntor_onion_key md, ri_identity_digest = rs_fingerprint router,
                 ri_ed_identity = ed_identity\<rparr>))"

text \<open>\<open>return [self._relay_info(...), ...]\<close>\<close>

definition relay_infos :: "router_status list \<Rightarrow> (live_dir, exc, relay_info list) op" where
  "relay_infos relays d = (d, rmap (router_relay_info d) relays)"

definition draw :: "dir_env \<Rightarrow> (rng_draw \<Rightarrow> 'a res) \<Rightarrow> (live_dir, exc, 'a) op" where
  "draw E chooser d =
    (let n = nt_tick (ld_net d) in (d\<lparr>ld_net := (ld_net d)\<lparr>nt_tick := Suc n\<rparr>\<rparr>, chooser (de_draws E n 0)))"

definition dir_primary_guards :: "live_dir \<Rightarrow> router_status list" where
  "dir_primary_guards d = primary_guards (ld_guards d) (ld_routers d)"

definition dir_guard :: "dir_env \<Rightarrow> router_status list \<Rightarrow> (live_dir, exc, router_status) op" where
  "dir_guard E exclude d = draw E (\<lambda>r. select_guard (ld_selector d) r exclude (dir_primary_guards d)) d"

definition dir_middle :: "dir_env \<Rightarrow> router_status list \<Rightarrow> (live_dir, exc, router_status) op" where
  "dir_middle E exclude d = draw E (\<lambda>r. select_middle (ld_selector d) r exclude) d"

definition exit_allows :: "live_dir \<Rightarrow> int \<Rightarrow> router_status \<Rightarrow> bool" where
  "exit_allows d port router \<longleftrightarrow>
    (case cached_md d router of
       None \<Rightarrow> False
     | Some md \<Rightarrow> (case md_exit_policy md of None \<Rightarrow> False | Some policy \<Rightarrow> policy_allows policy port))"

definition select_exit :: "dir_env \<Rightarrow> prims \<Rightarrow> int \<Rightarrow> (live_dir, exc, router_status) op" where
  "select_exit E P port d =
    (let candidates = filter is_exit (ld_routers d) in
     obind (fetch_microdescriptors_parallel E P True candidates) (\<lambda>_ d.
       let allowed = filter (exit_allows d port) candidates in
       if allowed = [] then (d, Inl DirectoryError)
       else draw E (\<lambda>r. bandwidth_weighted_choice r allowed ''exit'' (ld_weights d)) d) d)"

section \<open>Families\<close>

definition family_of :: "live_dir \<Rightarrow> router_status \<Rightarrow> string set" where
  "family_of d router = (case cached_md d router of None \<Rightarrow> {} | Some md \<Rightarrow> normalize_family (md_family md))"

fun family_pairs :: "(bytes \<times> string set) list \<Rightarrow> bool" where
  "family_pairs [] = False"
| "family_pairs ((fp_a, family_a) # rest) =
    (list_ex (\<lambda>(fp_b, family_b). family_conflict fp_a family_a fp_b family_b) rest \<or> family_pairs rest)"

definition has_family_conflict :: "live_dir \<Rightarrow> router_status list \<Rightarrow> bool" where
  "has_family_conflict d relays = family_pairs (map (\<lambda>r. (rs_fingerprint r, family_of d r)) relays)"

definition FAMILY_SELECT_ATTEMPTS :: nat where "FAMILY_SELECT_ATTEMPTS = 8"

fun family_attempts ::
  "dir_env \<Rightarrow> prims \<Rightarrow> (live_dir, exc, router_status list) op \<Rightarrow> bool \<Rightarrow> nat \<Rightarrow> router_status list \<Rightarrow>
    (live_dir, exc, router_status list) op" where
  "family_attempts E P select allow_tunnel 0 relays =
    obind (fetch_microdescriptors E P allow_tunnel relays) (\<lambda>_. oreturn relays)"
| "family_attempts E P select allow_tunnel (Suc n) relays =
    obind (fetch_microdescriptors E P allow_tunnel relays) (\<lambda>_ d.
      if \<not> has_family_conflict d relays then (d, Inr relays)
      else obind select (family_attempts E P select allow_tunnel n) d)"

definition select_family_disjoint ::
  "dir_env \<Rightarrow> prims \<Rightarrow> (live_dir, exc, router_status list) op \<Rightarrow> bool \<Rightarrow> (live_dir, exc, router_status list) op" where
  "select_family_disjoint E P select allow_tunnel =
    obind select (family_attempts E P select allow_tunnel (FAMILY_SELECT_ATTEMPTS - 1))"

section \<open>Paths\<close>

text \<open>Guard and middle around relays that were chosen before.\<close>

definition guard_and_middle :: "dir_env \<Rightarrow> router_status list \<Rightarrow> (live_dir, exc, router_status list) op" where
  "guard_and_middle E chosen =
    obind (dir_guard E chosen) (\<lambda>guard. obind (dir_middle E (guard # chosen)) (\<lambda>middle.
      oreturn ([guard, middle] @ chosen)))"

definition select_for_port :: "dir_env \<Rightarrow> prims \<Rightarrow> int \<Rightarrow> (live_dir, exc, router_status list) op" where
  "select_for_port E P port = obind (select_exit E P port) (\<lambda>exit_relay. guard_and_middle E [exit_relay])"

definition path_provider :: "dir_env \<Rightarrow> prims \<Rightarrow> int \<Rightarrow> (live_dir, exc, relay_info list) op" where
  "path_provider E P port = obind (select_family_disjoint E P (select_for_port E P port) True) relay_infos"

definition path_to :: "dir_env \<Rightarrow> prims \<Rightarrow> router_status \<Rightarrow> (live_dir, exc, relay_info list) op" where
  "path_to E P target = obind (select_family_disjoint E P (guard_and_middle E [target]) True) relay_infos"

definition select_rendezvous :: "dir_env \<Rightarrow> (live_dir, exc, router_status list) op" where
  "select_rendezvous E =
    obind (guard_and_middle E []) (\<lambda>gm. obind (dir_middle E gm) (\<lambda>rp. oreturn (gm @ [rp])))"

definition rendezvous_path :: "dir_env \<Rightarrow> prims \<Rightarrow> (live_dir, exc, relay_info list) op" where
  "rendezvous_path E P = obind (select_family_disjoint E P (select_rendezvous E) True) relay_infos"

definition path_ending_at :: "dir_env \<Rightarrow> prims \<Rightarrow> relay_info \<Rightarrow> (live_dir, exc, relay_info list) op" where
  "path_ending_at E P target =
    obind (select_family_disjoint E P (guard_and_middle E []) True) (\<lambda>relays.
    obind (relay_infos relays) (\<lambda>infos. oreturn (infos @ [target])))"

definition select_cache :: "dir_env \<Rightarrow> router_status list \<Rightarrow> (live_dir, exc, router_status list) op" where
  "select_cache E caches d =
    obind (draw E (\<lambda>r. bandwidth_weighted_choice r caches ''middle'' (ld_weights d))) (\<lambda>cache. guard_and_middle E [cache]) d"

definition dir_circuit_path :: "dir_env \<Rightarrow> prims \<Rightarrow> (live_dir, exc, relay_info list) op" where
  "dir_circuit_path E P d =
    (let caches = filter is_v2dir (ld_routers d) in
     if caches = [] then (d, Inl DirectoryError)
     else obind (select_family_disjoint E P (select_cache E caches) False) relay_infos d)"

section \<open>Onion-service directories\<close>

definition hsdir_nodes :: "dir_env \<Rightarrow> prims \<Rightarrow> (live_dir, exc, (bytes \<times> router_status) list) op" where
  "hsdir_nodes E P d =
    (let hsdirs = filter is_hsdir (ld_routers d) in
     obind (fetch_microdescriptors_parallel E P True hsdirs) (\<lambda>_ d.
       (d, Inr (List.map_filter (\<lambda>router.
          case cached_md d router of
            None \<Rightarrow> None
          | Some md \<Rightarrow> map_option (\<lambda>ed. (ed, router)) (usable_ed_identity (rs_flags router) md)) hsdirs))) d)"

definition period_length :: "live_dir \<Rightarrow> int" where
  "period_length d =
    (case map_of (con_params (ld_consensus d)) ''hsdir_interval'' of None \<Rightarrow> DEFAULT_PERIOD_LENGTH_MINUTES | Some n \<Rightarrow> n)"

definition py_trunc :: "real \<Rightarrow> int" where
  "py_trunc x = (if 0 \<le> x then \<lfloor>x\<rfloor> else \<lceil>x\<rceil>)"

definition dir_time_period :: "live_dir \<Rightarrow> int res" where
  "dir_time_period d =
    time_period (py_trunc (con_valid_after (ld_consensus d))) (period_length d) DEFAULT_ROTATION_OFFSET_MINUTES"

text \<open>\<open>None\<close> of the outer option is a walk around the ring that does not end.\<close>

definition dir_responsible_hsdirs ::
  "dir_env \<Rightarrow> prims \<Rightarrow> bytes \<Rightarrow> bool \<Rightarrow> live_dir \<Rightarrow> live_dir \<times> router_status list res option" where
  "dir_responsible_hsdirs E P blinded_pubkey use_previous_srv d =
    (case dir_time_period d of
       Inl e \<Rightarrow> (d, Some (Inl e))
     | Inr period \<Rightarrow>
        let len = period_length d; con = ld_consensus d;
            srv = (if use_previous_srv then con_srv_previous con else con_srv_current con) in
        (case (case srv of None \<Rightarrow> disaster_srv P len period | Some s \<Rightarrow> Inr s) of
           Inl e \<Rightarrow> (d, Some (Inl e))
         | Inr srv \<Rightarrow>
            (case hsdir_nodes E P d of
               (d', Inl e) \<Rightarrow> (d', Some (Inl e))
             | (d', Inr nodes) \<Rightarrow>
                (d', map_option (\<lambda>r. rbind r (\<lambda>chosen. Inr (map snd chosen)))
                   (responsible_hsdirs P fst blinded_pubkey nodes srv period len DEFAULT_N_REPLICAS DEFAULT_SPREAD_FETCH)))))"

end
