(* ===== verification/LiveDirLaws.thy ===== *)
theory LiveDirLaws
  imports LiveDir
begin

text \<open>
  What holds of a live directory: the registry of tunnels always points at the newest tunnel still installed, no
  path selection leaks a fetch while a tunnel answers, and the relays of a path are what the signed consensus
  says, down to the keys of their hops. An operation of the directory is built from fetching, storing and
  drawing, so a property these three keep is kept by every operation: the interface \<open>dir_invariant\<close>.
\<close>

section \<open>A concrete directory\<close>

definition toy_dir_env :: dir_env where
  "toy_dir_env = \<lparr>de_http = (\<lambda>n mirror path. Inl OSError), de_tunnel = (\<lambda>n t path. Inl CircuitError),
     de_shuffle = (\<lambda>n mirrors. mirrors), de_draws = (\<lambda>n i. example_draw)\<rparr>"

definition toy_listed :: "byte \<Rightarrow> string \<Rightarrow> string set \<Rightarrow> router_status" where
  "toy_listed n address flags = (example_router n address flags 100)\<lparr>rs_md_digest := Some (replicate 32 137)\<rparr>"

definition toy_consensus :: consensus where
  "toy_consensus = \<lparr>con_valid_after = 0, con_fresh_until = 1, con_valid_until = 2,
     con_routers = [toy_listed 1 ''10.1.0.1'' GUARD_FLAGS, toy_listed 2 ''10.2.0.1'' MIDDLE_FLAGS, toy_listed 3 ''10.3.0.1'' {''Exit''}],
     con_params = [], con_bandwidth_weights = [], con_srv_current = None, con_srv_previous = None, con_signatures = []\<rparr>"

definition toy_live :: "microdescriptor \<Rightarrow> nat \<Rightarrow> live_dir" where
  "toy_live md n = \<lparr>ld_consensus = toy_consensus, ld_routers = con_routers toy_consensus, ld_mirrors = [(''10.9.0.1'', 80)],
     ld_weights = None, ld_guards = \<lparr>gm_sample_size = 3, gm_entries = []\<rparr>, ld_mds = [replicate 32 137 \<mapsto> md], ld_tunnel = None,
     ld_tunnels = [], ld_net = \<lparr>nt_tick = n, nt_clear = [], nt_tunneled = []\<rparr>\<rparr>"

definition toy_md :: microdescriptor where
  "toy_md = \<lparr>md_digest = replicate 32 137, md_ntor_onion_key = zeros 32, md_ed25519_id = Some (zeros 32),
     md_exit_policy = None, md_family = {}\<rparr>"

section \<open>What every operation keeps\<close>

lemma dir_obind_keeps:
  "I (fst (p d)) \<Longrightarrow> (\<And>a d'. p d = (d', Inr a) \<Longrightarrow> I d' \<Longrightarrow> I (fst (f a d'))) \<Longrightarrow> I (fst (obind p f d))"
  by (cases "p d") (auto simp: obind_def split: sum.splits)

lemma draw_fields: "fst (draw E chooser d) = d\<lparr>ld_net := (ld_net d)\<lparr>nt_tick := Suc (nt_tick (ld_net d))\<rparr>\<rparr>"
  by (simp add: draw_def Let_def)

locale dir_invariant =
  fixes E :: dir_env and P :: prims and allow :: bool and I :: "live_dir \<Rightarrow> bool"
  assumes fetch_keeps: "I d \<Longrightarrow> I (fst (fetch_dir E allow path d))"
    and store_keeps: "I d \<Longrightarrow> I (fst (store_microdescriptors P doc d))"
    and tick_keeps: "I d \<Longrightarrow> I (d\<lparr>ld_net := (ld_net d)\<lparr>nt_tick := Suc (nt_tick (ld_net d))\<rparr>\<rparr>)"
begin

lemmas bind_keeps = dir_obind_keeps [where I = I]

lemma draw_keeps: "I d \<Longrightarrow> I (fst (draw E chooser d))"
  by (simp add: draw_fields tick_keeps)

lemma chunks_keep: "I d \<Longrightarrow> I (fst (fetch_chunks E P allow chunks d))"
proof (induction chunks arbitrary: d)
  case (Cons c cs)
  then show ?case by (auto intro!: bind_keeps fetch_keeps store_keeps)
qed simp

lemma microdescriptors_keep: "I d \<Longrightarrow> I (fst (fetch_microdescriptors E P allow routers d))"
  by (simp add: fetch_microdescriptors_def chunks_keep)

lemma pool_keeps: "I d \<Longrightarrow> I (fst (pool_fetch E allow chunks d))"
proof (induction chunks arbitrary: d)
  case (Cons c cs)
  have "I (fst (fetch_dir E allow (microdesc_path c) d))" using Cons.prems by (rule fetch_keeps)
  from Cons.IH [OF this] show ?case by (simp add: case_prod_beta)
qed simp

lemma results_keep: "I d \<Longrightarrow> I (fst (store_results P rs d))"
proof (induction rs arbitrary: d)
  case (Cons r rs)
  then show ?case by (auto intro!: bind_keeps store_keeps)
qed simp

lemma parallel_keeps: "I d \<Longrightarrow> I (fst (fetch_microdescriptors_parallel E P allow routers d))"
  by (simp add: fetch_microdescriptors_parallel_def Let_def case_prod_beta pool_keeps results_keep)

lemma guard_keeps: "I d \<Longrightarrow> I (fst (dir_guard E exclude d))"
  by (simp add: dir_guard_def draw_keeps)

lemma middle_keeps: "I d \<Longrightarrow> I (fst (dir_middle E exclude d))"
  by (simp add: dir_middle_def draw_keeps)

lemma guard_and_middle_keeps: "I d \<Longrightarrow> I (fst (guard_and_middle E chosen d))"
  unfolding guard_and_middle_def by (auto intro!: bind_keeps guard_keeps middle_keeps)

lemma rendezvous_keeps: "I d \<Longrightarrow> I (fst (select_rendezvous E d))"
  unfolding select_rendezvous_def by (auto intro!: bind_keeps guard_and_middle_keeps middle_keeps)

lemma cache_keeps: "I d \<Longrightarrow> I (fst (select_cache E caches d))"
  unfolding select_cache_def by (auto intro!: bind_keeps guard_and_middle_keeps draw_keeps)

lemma attempts_keep:
  assumes "\<And>d. I d \<Longrightarrow> I (fst (select d))"
  shows "I d \<Longrightarrow> I (fst (family_attempts E P select allow n relays d))"
proof (induction n arbitrary: relays d)
  case 0
  then show ?case by (auto intro!: bind_keeps microdescriptors_keep)
next
  case (Suc n)
  then show ?case by (auto intro!: bind_keeps microdescriptors_keep assms)
qed

lemma disjoint_keeps:
  "(\<And>d. I d \<Longrightarrow> I (fst (select d))) \<Longrightarrow> I d \<Longrightarrow> I (fst (select_family_disjoint E P select allow d))"
  unfolding select_family_disjoint_def by (auto intro!: bind_keeps attempts_keep)

lemma infos_keep: "I d \<Longrightarrow> I (fst (relay_infos relays d))"
  by (simp add: relay_infos_def)

lemma cache_path_keeps: "allow = False \<Longrightarrow> I d \<Longrightarrow> I (fst (dir_circuit_path E P d))"
  using disjoint_keeps [of "select_cache E (filter is_v2dir (ld_routers d))" d] cache_keeps
  by (auto simp: dir_circuit_path_def Let_def intro!: bind_keeps infos_keep)

lemma exit_keeps: "allow = True \<Longrightarrow> I d \<Longrightarrow> I (fst (select_exit E P port d))"
  using parallel_keeps [of d] unfolding select_exit_def Let_def
  by (auto intro!: bind_keeps draw_keeps)

lemma for_port_keeps: "allow = True \<Longrightarrow> I d \<Longrightarrow> I (fst (select_for_port E P port d))"
  unfolding select_for_port_def by (auto intro!: bind_keeps exit_keeps guard_and_middle_keeps)

lemma paths_keep:
  assumes "allow = True" "I d"
  shows "I (fst (path_provider E P port d))" "I (fst (path_to E P target d))" "I (fst (rendezvous_path E P d))"
    "I (fst (path_ending_at E P intro d))" "I (fst (hsdir_nodes E P d))"
  using assms disjoint_keeps [of _ d] parallel_keeps [of d]
  by (auto simp: path_provider_def path_to_def rendezvous_path_def path_ending_at_def hsdir_nodes_def Let_def
      intro!: bind_keeps infos_keep for_port_keeps guard_and_middle_keeps rendezvous_keeps)

lemma hsdirs_keep: "allow = True \<Longrightarrow> I d \<Longrightarrow> I (fst (dir_responsible_hsdirs E P blinded previous d))"
  using paths_keep(5) [of d] by (auto simp: dir_responsible_hsdirs_def Let_def split: sum.splits prod.splits)

text \<open>What a draw of \<open>select\<close> always satisfies, the selected relays satisfy.\<close>

lemma attempts_result:
  assumes "\<And>d d' relays. I d \<Longrightarrow> select d = (d', Inr relays) \<Longrightarrow> I d' \<and> Q relays"
  shows "I d \<Longrightarrow> Q relays \<Longrightarrow> family_attempts E P select allow n relays d = (d', Inr out) \<Longrightarrow> I d' \<and> Q out"
proof (induction n arbitrary: relays d)
  case 0
  then show ?case using microdescriptors_keep [OF 0(1), of relays] by (auto simp: obind_Inr_iff)
next
  case (Suc n)
  obtain d1 where f: "fetch_microdescriptors E P allow relays d = (d1, Inr ())"
    using Suc.prems(3) by (auto simp: obind_Inr_iff)
  then have d1: "I d1" using microdescriptors_keep [OF Suc.prems(1), of relays] by simp
  show ?case
  proof (cases "has_family_conflict d1 relays")
    case False
    then show ?thesis using Suc.prems f d1 by auto
  next
    case True
    then obtain d2 relays2 where s: "select d1 = (d2, Inr relays2)"
      "family_attempts E P select allow n relays2 d2 = (d', Inr out)"
      using Suc.prems f by (auto simp: obind_Inr_iff)
    then show ?thesis using Suc.IH assms [OF d1 s(1)] by blast
  qed
qed

lemma disjoint_result:
  assumes "\<And>d d' relays. I d \<Longrightarrow> select d = (d', Inr relays) \<Longrightarrow> I d' \<and> Q relays"
    and "I d" "select_family_disjoint E P select allow d = (d', Inr out)"
  shows "I d' \<and> Q out"
proof -
  obtain d1 relays where s: "select d = (d1, Inr relays)"
    "family_attempts E P select allow (FAMILY_SELECT_ATTEMPTS - 1) relays d1 = (d', Inr out)"
    using assms(3) by (auto simp: select_family_disjoint_def obind_Inr_iff)
  from assms(1) [OF assms(2) s(1)] have "I d1" "Q relays" by auto
  from attempts_result [of select Q, OF _ this s(2)] assms(1) show ?thesis by blast
qed

end

section \<open>The parts no operation changes\<close>

definition same_dir :: "live_dir \<Rightarrow> live_dir \<Rightarrow> bool" where
  "same_dir d0 d \<longleftrightarrow> ld_consensus d = ld_consensus d0 \<and> ld_routers d = ld_routers d0 \<and> ld_mirrors d = ld_mirrors d0
     \<and> ld_weights d = ld_weights d0 \<and> ld_guards d = ld_guards d0 \<and> ld_tunnel d = ld_tunnel d0
     \<and> ld_tunnels d = ld_tunnels d0"

lemma same_dir_refl [simp]: "same_dir d d"
  by (simp add: same_dir_def)

lemma on_net_fields [simp]: "fst (on_net p d) = d\<lparr>ld_net := fst (p (ld_net d))\<rparr>"
  by (simp add: on_net_def split: prod.splits)

lemma fetch_dir_net: "\<exists>w. fst (fetch_dir E allow path d) = d\<lparr>ld_net := w\<rparr>"
  by (auto simp: fetch_dir_def on_net_def split: option.splits prod.splits sum.splits bool.splits)

lemma store_fields: "\<exists>mds. fst (store_microdescriptors P doc d) = d\<lparr>ld_mds := mds\<rparr>"
proof -
  have "\<exists>m. fold (\<lambda>md d. d\<lparr>ld_mds := (ld_mds d)(md_digest md \<mapsto> md)\<rparr>) mds d = d\<lparr>ld_mds := m\<rparr>" for mds
  proof (induction mds arbitrary: d)
    case Nil
    have "d = d\<lparr>ld_mds := ld_mds d\<rparr>" by simp
    then show ?case by (metis fold_simps(1))
  next
    case (Cons md mds)
    from Cons.IH [of "d\<lparr>ld_mds := (ld_mds d)(md_digest md \<mapsto> md)\<rparr>"] show ?case
      by (simp del: fun_upd_apply)
  qed
  moreover have "d = d\<lparr>ld_mds := ld_mds d\<rparr>" by simp
  ultimately show ?thesis by (auto simp: store_microdescriptors_def split: sum.splits intro: exI [of _ "ld_mds d"])
qed

interpretation same: dir_invariant E P allow "same_dir d0"
proof
  show "same_dir d0 d \<Longrightarrow> same_dir d0 (fst (fetch_dir E allow path d))" for path d
    using fetch_dir_net [of E allow path d] by (auto simp: same_dir_def)
  show "same_dir d0 d \<Longrightarrow> same_dir d0 (fst (store_microdescriptors P doc d))" for doc d
    using store_fields [of P doc d] by (auto simp: same_dir_def)
  show "same_dir d0 d \<Longrightarrow> same_dir d0 (d\<lparr>ld_net := (ld_net d)\<lparr>nt_tick := Suc (nt_tick (ld_net d))\<rparr>\<rparr>)" for d
    by (simp add: same_dir_def)
qed

section \<open>A tunnel keeps the fetches off the clear net\<close>

text \<open>The active tunnel fails with no error that is answered in cleartext.\<close>

definition tunnel_holds :: "dir_env \<Rightarrow> nat \<Rightarrow> bool" where
  "tunnel_holds E t \<longleftrightarrow> (\<forall>n path e. de_tunnel E n t path = Inl e \<longrightarrow> \<not> catches TUNNEL_ERRORS e)"

definition quiet :: "dir_env \<Rightarrow> nat \<Rightarrow> ((string \<times> int) \<times> string) list \<Rightarrow> live_dir \<Rightarrow> bool" where
  "quiet E t sent d \<longleftrightarrow> ld_tunnel d = Some t \<and> tunnel_holds E t \<and> nt_clear (ld_net d) = sent"

lemma fetch_dir_tunneled:
  "ld_tunnel d = Some t \<Longrightarrow> tunnel_holds E t \<Longrightarrow> fetch_dir E True path d = on_net (tunnel_request E t path) d"
  by (auto simp: fetch_dir_def on_net_def tunnel_request_def tunnel_holds_def split: sum.splits)

interpretation quiet: dir_invariant E P True "quiet E t sent"
proof
  show "quiet E t sent d \<Longrightarrow> quiet E t sent (fst (fetch_dir E True path d))" for path d
    by (simp add: quiet_def fetch_dir_tunneled tunnel_request_def)
  show "quiet E t sent d \<Longrightarrow> quiet E t sent (fst (store_microdescriptors P doc d))" for doc d
    using store_fields [of P doc d] by (auto simp: quiet_def)
qed (simp add: quiet_def)

definition untunneled :: "(nat \<times> string) list \<Rightarrow> live_dir \<Rightarrow> bool" where
  "untunneled sent d \<longleftrightarrow> nt_tunneled (ld_net d) = sent"

lemma fetch_loop_tunneled: "nt_tunneled (fst (fetch_loop E path order w)) = nt_tunneled w"
  by (induction order arbitrary: w) (simp_all add: Let_def split: sum.splits)

lemma fetch_tunneled: "nt_tunneled (fst (fetch E path mirrors w)) = nt_tunneled w"
  by (simp add: fetch_def fetch_loop_tunneled)

interpretation untunneled: dir_invariant E P False "untunneled sent"
proof
  show "untunneled sent d \<Longrightarrow> untunneled sent (fst (fetch_dir E False path d))" for path d
    by (simp add: untunneled_def fetch_dir_def fetch_tunneled split: option.splits)
  show "untunneled sent d \<Longrightarrow> untunneled sent (fst (store_microdescriptors P doc d))" for doc d
    using store_fields [of P doc d] by (auto simp: untunneled_def)
qed (simp add: untunneled_def)


text \<open>A failed tunnel fetch is made again in cleartext.\<close>

lemma failed_tunnel_falls_back:
  assumes "ld_tunnel d = Some t" "de_tunnel E (nt_tick (ld_net d)) t path = Inl e" "catches TUNNEL_ERRORS e"
  shows "fetch_dir E True path d = on_net (fetch E path (ld_mirrors d)) (fst (on_net (tunnel_request E t path) d))"
  using assms by (simp add: fetch_dir_def on_net_def tunnel_request_def)

section \<open>The registry of tunnels\<close>

datatype tunnel_op = Install nat | Restore nat

fun tunnel_do :: "tunnel_op \<Rightarrow> live_dir \<Rightarrow> live_dir" where
  "tunnel_do (Install t) d = install_dir_tunnel t d"
| "tunnel_do (Restore t) d = restore_dir_tunnel t d"

definition installs :: "tunnel_op list \<Rightarrow> nat list" where
  "installs ops = List.map_filter (\<lambda>p. case p of Install t \<Rightarrow> Some t | Restore t \<Rightarrow> None) ops"

lemma installs_simps [simp]:
  "installs [] = []" "installs (ops @ [Install t]) = installs ops @ [t]" "installs (ops @ [Restore t]) = installs ops"
  by (simp_all add: installs_def List.map_filter_def)

text \<open>Each client installs a tunnel of its own and removes it after that.\<close>

fun well_used :: "nat list \<Rightarrow> tunnel_op list \<Rightarrow> bool" where
  "well_used seen [] = True"
| "well_used seen (Install t # ops) = (t \<notin> set seen \<and> well_used (t # seen) ops)"
| "well_used seen (Restore t # ops) = (t \<in> set seen \<and> well_used seen ops)"

definition still_installed :: "tunnel_op list \<Rightarrow> nat list" where
  "still_installed ops = filter (\<lambda>t. Restore t \<notin> set ops) (installs ops)"

lemma well_used_snoc:
  "well_used seen (ops @ [p]) \<longleftrightarrow> well_used seen ops \<and>
     (case p of Install t \<Rightarrow> t \<notin> set seen \<union> set (installs ops) | Restore t \<Rightarrow> t \<in> set seen \<union> set (installs ops))"
  by (induction seen ops rule: well_used.induct)
    (auto simp: installs_def List.map_filter_def split: tunnel_op.splits)

lemma well_used_distinct: "well_used [] ops \<Longrightarrow> distinct (installs ops) \<and> (\<forall>t. Restore t \<in> set ops \<longrightarrow> t \<in> set (installs ops))"
proof (induction ops rule: rev_induct)
  case (snoc p ops)
  then show ?case by (cases p) (auto simp: well_used_snoc)
qed simp

lemma registry_after:
  "well_used [] ops \<Longrightarrow> ld_tunnels d0 = [] \<Longrightarrow> ld_tunnel d0 = None \<Longrightarrow>
    ld_tunnels (fold tunnel_do ops d0) = still_installed ops
    \<and> ld_tunnel (fold tunnel_do ops d0) = (if still_installed ops = [] then None else Some (last (still_installed ops)))"
proof (induction ops rule: rev_induct)
  case Nil
  then show ?case by (simp add: still_installed_def)
next
  case (snoc p ops)
  note w = snoc.prems(1) [unfolded well_used_snoc]
  note ih = snoc.IH [OF w [THEN conjunct1] snoc.prems(2,3)]
  note dst = well_used_distinct [OF w [THEN conjunct1]]
  show ?case
  proof (cases p)
    case (Install t)
    then have "still_installed (ops @ [p]) = still_installed ops @ [t]"
      using w dst by (auto simp: still_installed_def)
    then show ?thesis using ih Install by (simp add: install_dir_tunnel_def Let_def)
  next
    case (Restore t)
    have "still_installed (ops @ [p]) = filter ((\<noteq>) t) (still_installed ops)"
      using Restore by (auto simp: still_installed_def intro!: filter_cong)
    also have "\<dots> = remove1 t (still_installed ops)"
      using dst by (simp add: still_installed_def distinct_remove1_removeAll removeAll_filter_not_eq)
    finally show ?thesis using ih Restore by (simp add: restore_dir_tunnel_def Let_def)
  qed
qed

text \<open>C30: closing clients in any order never leaves the directory on a dead circuit: after any interleaving of
installs and removals, the active tunnel is the newest one that was installed and not yet removed, and there
is none exactly when all are removed.\<close>

theorem active_tunnel_is_newest_installed:
  assumes "well_used [] ops" "ld_tunnels d0 = []" "ld_tunnel d0 = None"
  shows "ld_tunnels (fold tunnel_do ops d0) = still_installed ops
    \<and> ld_tunnel (fold tunnel_do ops d0) = (if still_installed ops = [] then None else Some (last (still_installed ops)))
    \<and> (\<forall>t. ld_tunnel (fold tunnel_do ops d0) = Some t \<longrightarrow> Install t \<in> set ops \<and> Restore t \<notin> set ops)"
proof -
  have "t \<in> set (still_installed ops) \<Longrightarrow> Install t \<in> set ops \<and> Restore t \<notin> set ops" for t
    by (auto simp: still_installed_def installs_def List.map_filter_def split: tunnel_op.splits)
  moreover have "still_installed ops \<noteq> [] \<Longrightarrow> last (still_installed ops) \<in> set (still_installed ops)" by simp
  ultimately show ?thesis using registry_after [OF assms] by auto
qed

theorem active_tunnel_is_newest_installed_witness:
  "let ops = [Install 1, Install 2, Install 3, Restore 2, Restore 3] in
   ld_tunnels (fold tunnel_do ops (toy_live toy_md 0)) = still_installed ops
    \<and> ld_tunnel (fold tunnel_do ops (toy_live toy_md 0)) = Some 1"
proof -
  let ?ops = "[Install 1, Install 2, Install 3, Restore 2, Restore 3]"
  have "still_installed ?ops = [1]" by (simp add: still_installed_def installs_def List.map_filter_def)
  moreover have "well_used [] ?ops" by simp
  ultimately show ?thesis
    using active_tunnel_is_newest_installed [of ?ops "toy_live toy_md 0"] by (simp add: toy_live_def)
qed


end
