(* ===== verification/LivePaths.thy ===== *)
theory LivePaths
  imports LiveDirLaws "HOL-Library.Code_Target_Nat"
begin

text \<open>
  What a path selected from a live directory is made of. A microdescriptor is cached under the digest of the text
  it was parsed from, whoever served that text, so the keys of every hop are those of a text whose digest is
  in the signed consensus.
\<close>

section \<open>The cache holds what its digests say\<close>

definition text_of_digest :: "prims \<Rightarrow> bytes \<Rightarrow> microdescriptor \<Rightarrow> bool" where
  "text_of_digest P digest md \<longleftrightarrow>
    (\<exists>chunk. hash P SHA256 (utf8_encode chunk) = digest \<and> parse_microdescriptor P chunk = Inr md)"

definition authentic :: "prims \<Rightarrow> live_dir \<Rightarrow> bool" where
  "authentic P d \<longleftrightarrow> (\<forall>digest md. ld_mds d digest = Some md \<longrightarrow> text_of_digest P digest md)"

lemma parse_microdescriptor_digest:
  "parse_microdescriptor P chunk = Inr md \<Longrightarrow> text_of_digest P (md_digest md) md"
proof -
  assume p: "parse_microdescriptor P chunk = Inr md"
  then have "md_digest md = hash P SHA256 (utf8_encode chunk)"
    by (auto simp: parse_microdescriptor_def split: option.splits)
  with p show ?thesis by (auto simp: text_of_digest_def)
qed

lemma parse_microdescriptors_digests:
  assumes "parse_microdescriptors P doc = Inr mds" "md \<in> set mds"
  shows "text_of_digest P (md_digest md) md"
proof -
  obtain chunks where "rmap (parse_microdescriptor P) chunks = Inr mds \<or> mds = []"
    using assms(1) by (auto simp: parse_microdescriptors_def Let_def split: if_splits list.splits)
  then have "rmap (parse_microdescriptor P) chunks = Inr mds" using assms(2) by auto
  then have "\<exists>chunk. parse_microdescriptor P chunk = Inr md"
    using assms(2) by (auto simp: rmap_Inr_iff list_all2_conv_all_nth in_set_conv_nth)
  then show ?thesis using parse_microdescriptor_digest by blast
qed

lemma store_authentic: "authentic P d \<Longrightarrow> authentic P (fst (store_microdescriptors P doc d))"
proof (cases "parse_microdescriptors P doc")
  case (Inr mds)
  have step: "authentic P (d\<lparr>ld_mds := (ld_mds d)(md_digest md \<mapsto> md)\<rparr>)" if "authentic P d" "md \<in> set mds" for md d
    using that parse_microdescriptors_digests [OF Inr] by (auto simp: authentic_def)
  have "authentic P d \<Longrightarrow> set xs \<subseteq> set mds \<Longrightarrow>
      authentic P (fold (\<lambda>md d. d\<lparr>ld_mds := (ld_mds d)(md_digest md \<mapsto> md)\<rparr>) xs d)" for xs
  proof (induction xs arbitrary: d)
    case (Cons md xs)
    then show ?case using Cons.IH [OF step [of d md]] by (simp del: fun_upd_apply)
  qed simp
  then show "authentic P d \<Longrightarrow> ?thesis" by (simp add: store_microdescriptors_def Inr)
qed (simp add: store_microdescriptors_def)

text \<open>Together with what no operation changes.\<close>

definition from_dir :: "prims \<Rightarrow> live_dir \<Rightarrow> live_dir \<Rightarrow> bool" where
  "from_dir P d0 d \<longleftrightarrow> same_dir d0 d \<and> authentic P d"

interpretation from_dir: dir_invariant E P allow "from_dir P d0"
proof
  show "from_dir P d0 d \<Longrightarrow> from_dir P d0 (fst (fetch_dir E allow path d))" for path d
    using fetch_dir_net [of E allow path d] same.fetch_keeps [of d0 d E allow path]
    by (auto simp: from_dir_def authentic_def)
  show "from_dir P d0 d \<Longrightarrow> from_dir P d0 (fst (store_microdescriptors P doc d))" for doc d
    using same.store_keeps [of d0 d P doc] store_authentic by (auto simp: from_dir_def)
  show "from_dir P d0 d \<Longrightarrow> from_dir P d0 (d\<lparr>ld_net := (ld_net d)\<lparr>nt_tick := Suc (nt_tick (ld_net d))\<rparr>\<rparr>)" for d
    using same.tick_keeps [of d0 d] by (simp add: from_dir_def authentic_def)
qed

section \<open>One hop\<close>

definition hop_of :: "prims \<Rightarrow> router_status \<Rightarrow> relay_info \<Rightarrow> bool" where
  "hop_of P router info \<longleftrightarrow>
    (\<exists>md. text_of_digest P (md_key router) md \<and> ri_ntor_onion_key info = md_ntor_onion_key md
       \<and> md_ed25519_id md = Some (ri_ed_identity info))
    \<and> ri_host info = relay_host (rs_address router) \<and> ri_port info = rs_or_port router
    \<and> ri_identity_digest info = rs_fingerprint router \<and> ''NoEdConsensus'' \<notin> rs_flags router"

lemma router_relay_info_hop: "authentic P d \<Longrightarrow> router_relay_info d router = Inr info \<Longrightarrow> hop_of P router info"
  by (fastforce simp: router_relay_info_def hop_of_def cached_md_def authentic_def usable_ed_identity_def
      split: option.splits if_splits)

lemma relay_infos_hops:
  "authentic P d \<Longrightarrow> relay_infos relays d = (d', Inr infos) \<Longrightarrow> list_all2 (hop_of P) relays infos"
  by (auto simp: relay_infos_def rmap_Inr_iff elim!: list_all2_mono dest: router_relay_info_hop)

section \<open>Draws\<close>

definition draws_ok :: "dir_env \<Rightarrow> bool" where
  "draws_ok E \<longleftrightarrow> (\<forall>n i. draw_ok (de_draws E n i))"

lemma draw_Inr:
  "draw E chooser d = (d', Inr r) \<longleftrightarrow> chooser (de_draws E (nt_tick (ld_net d)) 0) = Inr r
     \<and> d' = d\<lparr>ld_net := (ld_net d)\<lparr>nt_tick := Suc (nt_tick (ld_net d))\<rparr>\<rparr>"
  by (auto simp: draw_def Let_def)

lemma primary_loop_known: "set (primary_loop n known entries acc) \<subseteq> set acc \<union> snd ` set known"
proof (induction entries arbitrary: acc)
  case (Cons e es)
  have "set (case map_of known (ge_fingerprint e) of None \<Rightarrow> acc | Some router \<Rightarrow> acc @ [router])
      \<subseteq> set acc \<union> snd ` set known"
    by (auto split: option.splits dest!: map_of_SomeD) (metis image_eqI snd_conv)
  moreover note Cons.IH [of "case map_of known (ge_fingerprint e) of None \<Rightarrow> acc | Some router \<Rightarrow> acc @ [router]"]
    Cons.IH [of acc]
  ultimately show ?case by (auto simp: Let_def)
qed simp

lemma dir_primary_guards_routers: "set (dir_primary_guards d) \<subseteq> set (ld_routers d)"
  using primary_loop_known [of "gm_sample_size (ld_guards d)" "by_fingerprint (ld_routers d)" "gm_entries (ld_guards d)" "[]"]
    by_fingerprint_values [of "ld_routers d"]
  unfolding dir_primary_guards_def primary_guards_def by fastforce

text \<open>The first primary guard that may be used next to the relays \<open>chosen\<close>.\<close>

definition first_usable :: "live_dir \<Rightarrow> router_status list \<Rightarrow> router_status option" where
  "first_usable d chosen = find (\<lambda>g. is_usable_guard g chosen) (dir_primary_guards d)"

definition entry_ok :: "live_dir \<Rightarrow> router_status list \<Rightarrow> router_status \<Rightarrow> router_status \<Rightarrow> bool" where
  "entry_ok d chosen guard middle \<longleftrightarrow> {guard, middle} \<subseteq> set (ld_routers d)
    \<and> GUARD_FLAGS \<subseteq> rs_flags guard \<and> MIDDLE_FLAGS \<subseteq> rs_flags middle
    \<and> (\<forall>g. first_usable d chosen = Some g \<longrightarrow> guard = g)
    \<and> (disjoint_path chosen \<longrightarrow> disjoint_path (guard # middle # chosen))"

lemma guard_and_middle_entry:
  assumes "draws_ok E" and "guard_and_middle E chosen d = (d', Inr relays)"
  shows "\<exists>guard middle. relays = [guard, middle] @ chosen \<and> entry_ok d chosen guard middle"
proof -
  obtain d1 guard middle where g: "dir_guard E chosen d = (d1, Inr guard)"
    and m: "dir_middle E (guard # chosen) d1 = (d', Inr middle)" and r: "relays = [guard, middle] @ chosen"
    using assms(2) by (auto simp: guard_and_middle_def obind_Inr_iff)
  let ?dr = "de_draws E (nt_tick (ld_net d)) 0" and ?dr' = "de_draws E (nt_tick (ld_net d1)) 0"
  have ok: "draw_ok ?dr" "draw_ok ?dr'" using assms(1) by (simp_all add: draws_ok_def)
  have g': "select_guard (ld_selector d) ?dr chosen (dir_primary_guards d) = Inr guard" and
    d1: "d1 = d\<lparr>ld_net := (ld_net d)\<lparr>nt_tick := Suc (nt_tick (ld_net d))\<rparr>\<rparr>"
    using g by (simp_all add: dir_guard_def draw_Inr)
  have m': "pick (ld_selector d) ?dr' MIDDLE_FLAGS (guard # chosen) ''middle'' = Inr middle"
    using m d1 by (simp add: dir_middle_def draw_Inr select_middle_def ld_selector_def)
  note middle = pick_sound [OF ok(2) m']
  have guard: "guard \<in> set (ld_routers d) \<and> GUARD_FLAGS \<subseteq> rs_flags guard \<and> (\<forall>x \<in> set chosen. \<not> conflicts guard x)
      \<and> (\<forall>g. first_usable d chosen = Some g \<longrightarrow> guard = g)"
  proof (cases "first_usable d chosen")
    case None
    then have "pick (ld_selector d) ?dr GUARD_FLAGS chosen ''guard'' = Inr guard"
      using g' by (simp add: first_usable_def select_guard_def)
    from pick_sound [OF ok(1) this] None show ?thesis by (simp add: ld_selector_def)
  next
    case (Some g)
    then have "is_usable_guard g chosen" "g \<in> set (dir_primary_guards d)"
      by (auto simp: first_usable_def find_Some_iff)
    moreover have "guard = g" using g' Some by (simp add: first_usable_def select_guard_def)
    ultimately have "is_usable_guard g chosen" "g \<in> set (dir_primary_guards d)" "guard = g" by blast+
    then show ?thesis using Some dir_primary_guards_routers [of d] by (auto simp: is_usable_guard_def list_ex_iff)
  qed
  have "disjoint_path chosen \<longrightarrow> disjoint_path (guard # middle # chosen)"
    using guard middle conflicts_sym [of guard middle] by (auto simp: disjoint_path_def)
  then have "entry_ok d chosen guard middle"
    using guard middle by (simp add: entry_ok_def ld_selector_def)
  then show ?thesis using r by blast
qed

lemma same_dir_entry: "same_dir d0 d \<Longrightarrow> entry_ok d chosen guard middle = entry_ok d0 chosen guard middle"
  by (simp add: same_dir_def entry_ok_def first_usable_def dir_primary_guards_def)

section \<open>The exit\<close>

definition exit_ok :: "prims \<Rightarrow> live_dir \<Rightarrow> int \<Rightarrow> router_status \<Rightarrow> bool" where
  "exit_ok P d port router \<longleftrightarrow> router \<in> set (ld_routers d) \<and> is_exit router
    \<and> (\<exists>md policy. text_of_digest P (md_key router) md \<and> md_exit_policy md = Some policy \<and> policy_allows policy port)"

lemma select_exit_ok:
  assumes "draws_ok E" "from_dir P d0 d" "select_exit E P port d = (d', Inr router)"
  shows "from_dir P d0 d' \<and> exit_ok P d0 port router"
proof -
  let ?candidates = "filter is_exit (ld_routers d)"
  obtain d1 where f: "fetch_microdescriptors_parallel E P True ?candidates d = (d1, Inr ())"
    and c: "draw E (\<lambda>r. bandwidth_weighted_choice r (filter (exit_allows d1 port) ?candidates) ''exit'' (ld_weights d1)) d1
      = (d', Inr router)"
    using assms(3) by (auto simp: select_exit_def obind_Inr_iff Let_def split: if_splits)
  have d1: "from_dir P d0 d1"
    using from_dir.parallel_keeps [OF assms(2), of E True ?candidates] f by simp
  have "router \<in> set (filter (exit_allows d1 port) ?candidates)"
    using c assms(1) by (intro choice_mem) (auto simp: draw_Inr draws_ok_def)
  then have "router \<in> set (ld_routers d)" "is_exit router" "exit_allows d1 port router" by auto
  moreover have "from_dir P d0 d'"
    using from_dir.exit_keeps [OF refl assms(2), of E port] assms(3) by simp
  moreover from \<open>exit_allows d1 port router\<close> obtain md policy where
    "ld_mds d1 (md_key router) = Some md" "md_exit_policy md = Some policy" "policy_allows policy port"
    by (auto simp: exit_allows_def cached_md_def split: option.splits)
  moreover from this(1) have "text_of_digest P (md_key router) md"
    using d1 by (simp add: from_dir_def authentic_def)
  moreover have "ld_routers d = ld_routers d0" using assms(2) by (simp add: from_dir_def same_dir_def)
  ultimately show ?thesis by (auto simp: exit_ok_def)
qed


section \<open>A concrete directory\<close>

definition toy_md_text :: string where
  "toy_md_text = ''onion-key'' @ [CHR 0x0A] @ ''ntor-onion-key AAAAAAAAAAAAAAAAAAAAAAAAAAAAAAAAAAAAAAAAAAA'' @ [CHR 0x0A]
    @ ''p accept 443'' @ [CHR 0x0A] @ ''id ed25519 AAAAAAAAAAAAAAAAAAAAAAAAAAAAAAAAAAAAAAAAAAA'' @ [CHR 0x0A]"

definition toy_md_ok :: "microdescriptor \<Rightarrow> bool" where
  "toy_md_ok md \<longleftrightarrow> md_digest md = replicate 32 137 \<and> md_family md = {} \<and> md_ed25519_id md \<noteq> None
     \<and> (case md_exit_policy md of None \<Rightarrow> False | Some policy \<Rightarrow> policy_allows policy 443)"

lemma toy_md_parses: "case parse_microdescriptor toy_prims toy_md_text of Inl e \<Rightarrow> False | Inr md \<Rightarrow> toy_md_ok md"
  by code_simp

lemma nothing_missing:
  "missing_digests d routers = [] \<Longrightarrow> fetch_microdescriptors E P allow routers d = (d, Inr ())"
  "missing_digests d routers = [] \<Longrightarrow> fetch_microdescriptors_parallel E P allow routers d = (d, Inr ())"
  by (simp_all add: fetch_microdescriptors_def fetch_microdescriptors_parallel_def batched_def)

abbreviation "toy_guard \<equiv> toy_listed 1 ''10.1.0.1'' GUARD_FLAGS"
abbreviation "toy_middle \<equiv> toy_listed 2 ''10.2.0.1'' MIDDLE_FLAGS"
abbreviation "toy_exit \<equiv> toy_listed 3 ''10.3.0.1'' {''Exit''}"

lemma toy_listed_sel [simp]:
  "rs_md_digest (toy_listed n a f) = Some (replicate 32 137)" "rs_flags (toy_listed n a f) = f"
  "rs_fingerprint (toy_listed n a f) = replicate 20 n" "rs_address (toy_listed n a f) = a"
  "rs_bandwidth (toy_listed n a f) = 100" "md_key (toy_listed n a f) = replicate 32 137"
  "rs_microdescriptor (toy_listed n a f) = None" "rs_or_port (toy_listed n a f) = 9001"
  by (simp_all add: toy_listed_def example_router_def md_key_def)

lemma toy_live_sel [simp]:
  "ld_routers (toy_live md n) = [toy_guard, toy_middle, toy_exit]" "ld_mds (toy_live md n) (replicate 32 137) = Some md"
  "ld_weights (toy_live md n) = None" "ld_guards (toy_live md n) = \<lparr>gm_sample_size = 3, gm_entries = []\<rparr>"
  "ld_net (toy_live md n) = \<lparr>nt_tick = n, nt_clear = [], nt_tunneled = []\<rparr>"
  "(toy_live md n)\<lparr>ld_net := \<lparr>nt_tick = m, nt_clear = [], nt_tunneled = []\<rparr>\<rparr> = toy_live md m"
  by (simp_all add: toy_live_def toy_consensus_def)

lemma toy_one: "rs_bandwidth r = 100 \<Longrightarrow> bandwidth_weighted_choice example_draw [r] position None = Inr r"
  by (simp add: bandwidth_weighted_choice_def effective_weights_def example_draw_def)

lemma toy_draw: "draw toy_dir_env chooser (toy_live md n) = (toy_live md (Suc n), chooser example_draw)"
  by (simp add: draw_def toy_dir_env_def)

lemma toy_missing: "set routers \<subseteq> {toy_guard, toy_middle, toy_exit} \<Longrightarrow> missing_digests (toy_live md n) routers = []"
  by (auto simp: missing_digests_def filter_empty_conv)

lemma toy_conflicts:
  "conflicts (toy_listed n a f) (toy_listed m b g) \<longleftrightarrow>
     n = m \<or> take 2 (split_char CHR ''.'' a) = take 2 (split_char CHR ''.'' b)"
  by (auto simp: conflicts_def same_subnet_def same_family_def family_conflict_def family_ids_def)

lemma toy_select_exit: "toy_md_ok md \<Longrightarrow> select_exit toy_dir_env toy_prims 443 (toy_live md n) = (toy_live md (Suc n), Inr toy_exit)"
  by (simp add: select_exit_def Let_def nothing_missing toy_missing is_exit_def GUARD_FLAGS_def MIDDLE_FLAGS_def toy_draw toy_one
      exit_allows_def cached_md_def toy_md_ok_def split: option.splits)

lemma toy_guard_and_middle: "guard_and_middle toy_dir_env [toy_exit] (toy_live md n) = (toy_live md (n + 2), Inr [toy_guard, toy_middle, toy_exit])"
proof -
  have "dir_guard toy_dir_env [toy_exit] (toy_live md n) = (toy_live md (Suc n), Inr toy_guard)"
    by (simp add: dir_guard_def toy_draw dir_primary_guards_def primary_guards_def select_guard_def pick_def Let_def
        ld_selector_def toy_conflicts GUARD_FLAGS_def MIDDLE_FLAGS_def toy_one)
  moreover have "dir_middle toy_dir_env [toy_guard, toy_exit] (toy_live md (Suc n)) = (toy_live md (Suc (Suc n)), Inr toy_middle)"
    by (simp add: dir_middle_def toy_draw select_middle_def pick_def Let_def
        ld_selector_def toy_conflicts GUARD_FLAGS_def MIDDLE_FLAGS_def toy_one)
  ultimately show ?thesis by (simp add: guard_and_middle_def)
qed

lemma toy_path:
  assumes "toy_md_ok md"
  shows "\<exists>d' infos. path_provider toy_dir_env toy_prims 443 (toy_live md 0) = (d', Inr infos)"
proof -
  let ?relays = "[toy_guard, toy_middle, toy_exit]"
  have "select_for_port toy_dir_env toy_prims 443 (toy_live md 0) = (toy_live md 3, Inr ?relays)"
    using toy_select_exit [OF assms, of 0] toy_guard_and_middle [of md 1] by (simp add: select_for_port_def numeral_3_eq_3)
  moreover have "\<not> has_family_conflict (toy_live md 3) ?relays"
    using assms by (simp add: has_family_conflict_def family_of_def cached_md_def toy_md_ok_def normalize_family_def family_conflict_def)
  moreover have "fetch_microdescriptors toy_dir_env toy_prims True ?relays (toy_live md 3) = (toy_live md 3, Inr ())"
    by (intro nothing_missing toy_missing) simp
  ultimately have "select_family_disjoint toy_dir_env toy_prims (select_for_port toy_dir_env toy_prims 443) True (toy_live md 0)
      = (toy_live md 3, Inr ?relays)"
    by (simp add: select_family_disjoint_def FAMILY_SELECT_ATTEMPTS_def numeral_eq_Suc)
  moreover have "\<exists>infos. rmap (router_relay_info (toy_live md 3)) ?relays = Inr infos"
    using assms by (auto simp: router_relay_info_def cached_md_def usable_ed_identity_def toy_md_ok_def GUARD_FLAGS_def MIDDLE_FLAGS_def)
  ultimately show ?thesis by (auto simp: path_provider_def relay_infos_def)
qed


end
