(* ===== verification/Bootstrap.thy ===== *)
theory Bootstrap
  imports LivePaths ConsensusStore "HOL-Library.Code_Target_Nat"
begin

text \<open>
  Bootstrapping (\<open>bootstrap\<close> and \<open>get_directory\<close>, \<open>_client/bootstrap.py\<close>). The state is the network, the cache
  directory and the process-wide directory. The clock readings and what the file system answers are
  arguments.
\<close>

section \<open>The authorities' keys\<close>

text \<open>\<open>{c.v3ident: c for c in ...}\<close>: the last certificate of an identity wins.\<close>

definition certs_by_ident :: "key_certificate list \<Rightarrow> bytes \<Rightarrow> key_certificate option" where
  "certs_by_ident certs = fold (\<lambda>c m. m(kc_v3ident c \<mapsto> c)) certs Map.empty"

definition authorities_with_keys ::
  "directory_authority list \<Rightarrow> (bytes \<Rightarrow> key_certificate option) \<Rightarrow> directory_authority list" where
  "authorities_with_keys authority_set certs =
    map (\<lambda>a. case certs (da_v3ident a) of
               Some cert \<Rightarrow> with_signing_key a (kc_signing_key_pem cert) | None \<Rightarrow> a) authority_set"

section \<open>Bootstrapping\<close>

record boot_world =
  bw_net :: net
  bw_cache :: cache_fs

record boot_env =
  be_now :: real                \<comment> \<open>\<open>datetime.now\<close>\<close>
  be_read :: "exc option"
  be_save :: save_env

definition on_bw_net :: "(net, exc, 'a) op \<Rightarrow> (boot_world, exc, 'a) op" where
  "on_bw_net p w = (case p (bw_net w) of (n, r) \<Rightarrow> (w\<lparr>bw_net := n\<rparr>, r))"

definition CONSENSUS_PATH :: string where
  "CONSENSUS_PATH = ''/tor/status-vote/current/consensus-microdesc''"

definition load_cached ::
  "prims \<Rightarrow> 'k rsa_ops \<Rightarrow> boot_env \<Rightarrow> bool \<Rightarrow> directory_authority list \<Rightarrow> (boot_world, exc, consensus option) op" where
  "load_cached P R B cached authorities w =
    (w, if cached then store_load P R (be_now B) authorities (Some (Aware (be_now B))) (be_read B) (bw_cache w)
        else Inr None)"

text \<open>\<open>try: store.save(...); except OSError: ...\<close>\<close>

definition save_cached :: "boot_env \<Rightarrow> bool \<Rightarrow> string \<Rightarrow> (boot_world, exc, unit) op" where
  "save_cached B cached doc w =
    (if cached then
       (case store_save (be_save B) doc (bw_cache w) of
          (fs, Inr _) \<Rightarrow> (w\<lparr>bw_cache := fs\<rparr>, Inr ())
        | (fs, Inl e) \<Rightarrow> (w\<lparr>bw_cache := fs\<rparr>, if catches [OSError] e then Inr () else Inl e))
     else (w, Inr ()))"

definition fresh_consensus ::
  "dir_env \<Rightarrow> prims \<Rightarrow> 'k rsa_ops \<Rightarrow> boot_env \<Rightarrow> bool \<Rightarrow> (string \<times> int) list \<Rightarrow> directory_authority list \<Rightarrow>
    (boot_world, exc, consensus) op" where
  "fresh_consensus E P R B cached mirrors authorities =
    obind (on_bw_net (fetch E CONSENSUS_PATH mirrors)) (\<lambda>doc.
    obind (olift (verify_consensus P R (be_now B) doc authorities (Some (Aware (be_now B))))) (\<lambda>consensus.
    obind (save_cached B cached doc) (\<lambda>_. oreturn consensus)))"

definition current_consensus ::
  "dir_env \<Rightarrow> prims \<Rightarrow> 'k rsa_ops \<Rightarrow> boot_env \<Rightarrow> bool \<Rightarrow> (string \<times> int) list \<Rightarrow> directory_authority list \<Rightarrow>
    (boot_world, exc, consensus) op" where
  "current_consensus E P R B cached mirrors authorities =
    obind (load_cached P R B cached authorities) (\<lambda>found.
      case found of
        Some consensus \<Rightarrow> oreturn consensus
      | None \<Rightarrow> fresh_consensus E P R B cached mirrors authorities)"

text \<open>\<open>cached\<close>: whether a cache directory was given.\<close>

definition bootstrap ::
  "dir_env \<Rightarrow> prims \<Rightarrow> 'k rsa_ops \<Rightarrow> boot_env \<Rightarrow> bool \<Rightarrow> directory_authority list option \<Rightarrow>
    (boot_world, exc, live_dir) op" where
  "bootstrap E P R B cached authorities =
    obind (olift (case authorities of None \<Rightarrow> DEFAULT_AUTHORITIES | Some as \<Rightarrow> Inr as)) (\<lambda>authority_set.
    let mirrors = map da_dir_address authority_set in
    obind (on_bw_net (fetch E ''/tor/keys/all'' mirrors)) (\<lambda>cert_text.
    obind (olift (parse_key_certificates P R cert_text)) (\<lambda>parsed.
    let certs = certs_by_ident parsed;
        fetched = length (filter (\<lambda>a. certs (da_v3ident a) \<noteq> None) authority_set) in
    if fetched * 2 \<le> length authority_set then oraise TorBootstrapError
    else
      obind (current_consensus E P R B cached mirrors (authorities_with_keys authority_set certs))
        (\<lambda>consensus w. (w, LiveDirectory_init E consensus mirrors (bw_net w))))))"

section \<open>The process-wide directory\<close>

record boot_state =
  bs_world :: boot_world
  bs_cached :: "live_dir option"

text \<open>\<open>now\<close> is the clock at the staleness check, before the one bootstrapping reads.\<close>

definition get_directory ::
  "dir_env \<Rightarrow> prims \<Rightarrow> 'k rsa_ops \<Rightarrow> boot_env \<Rightarrow> real \<Rightarrow> bool \<Rightarrow> bool \<Rightarrow> (boot_state, exc, live_dir) op" where
  "get_directory E P R B now refresh cached s =
    (let reuse = (case bs_cached s of Some d \<Rightarrow> if \<not> refresh \<and> is_live (ld_consensus d) now then Some d else None
                                    | None \<Rightarrow> None) in
     case reuse of
       Some d \<Rightarrow> (s, Inr d)
     | None \<Rightarrow>
        (case bootstrap E P R B cached None (bs_world s) of
           (w, Inl e) \<Rightarrow> (s\<lparr>bs_world := w\<rparr>, Inl e)
         | (w, Inr d) \<Rightarrow> (\<lparr>bs_world = w, bs_cached = Some d\<rparr>, Inr d)))"

section \<open>Withheld certificates\<close>

lemma certs_by_ident_Some: "certs_by_ident certs i = Some c \<Longrightarrow> c \<in> set certs \<and> kc_v3ident c = i"
proof -
  have "fold (\<lambda>c m. m(kc_v3ident c \<mapsto> c)) certs m0 i = Some c \<Longrightarrow> m0 i = Some c \<or> c \<in> set certs \<and> kc_v3ident c = i" for m0
    by (induction certs arbitrary: m0) (fastforce split: if_splits)+
  then show "certs_by_ident certs i = Some c \<Longrightarrow> ?thesis" by (auto simp: certs_by_ident_def)
qed

text \<open>The authorities a consensus is checked against: the given ones in the given order, each either as it was or
with the key of a certificate of its own identity.\<close>

definition keyed_from :: "prims \<Rightarrow> 'k rsa_ops \<Rightarrow> directory_authority \<Rightarrow> directory_authority \<Rightarrow> bool" where
  "keyed_from P R a a' \<longleftrightarrow> a' = a \<or>
    (\<exists>doc certs cert. parse_key_certificates P R doc = Inr certs \<and> cert \<in> set certs
       \<and> kc_v3ident cert = da_v3ident a \<and> a' = with_signing_key a (kc_signing_key_pem cert))"

lemma authorities_keyed_from:
  "parse_key_certificates P R doc = Inr certs \<Longrightarrow>
    list_all2 (keyed_from P R) as (authorities_with_keys as (certs_by_ident certs))"
  by (auto simp: authorities_with_keys_def list_all2_map2 list_all2_same keyed_from_def split: option.splits
      dest!: certs_by_ident_Some)

lemma certified_key_loads:
  assumes "parse_key_certificates P R doc = Inr certs" "cert \<in> set certs"
  shows "\<exists>key. load_pem R (kc_signing_key_pem cert) = Pem_rsa key"
proof -
  obtain t where "certified P R t cert"
    using collect_certs_certified [OF assms(1) [unfolded parse_key_certificates_def] assms(2)] by auto
  then obtain signing_pem signing_key where "load_rsa R signing_pem = Inr signing_key"
    "kc_signing_key_pem cert = utf8_encode signing_pem"
    by (auto simp: certified_def)
  then show ?thesis by (auto simp: load_rsa_def split: pem_outcome.splits)
qed

lemma keyed_usable:
  assumes "rsa_documented R" "list_all (\<lambda>a. da_signing_key_pem a = None) as" "list_all2 (keyed_from P R) as keyed"
  shows "keys_usable R keyed"
proof -
  have "\<exists>key. load_pem R pem = Pem_rsa key" if k: "a' \<in> set keyed" "da_signing_key_pem a' = Some pem" for a' pem
  proof -
    obtain a where a: "a \<in> set as" "keyed_from P R a a'"
      using assms(3) k(1) by (auto simp: list_all2_conv_all_nth in_set_conv_nth) (metis nth_mem)
    then have "da_signing_key_pem a = None" using assms(2) by (simp add: list_all_iff)
    then show ?thesis using a(2) k(2) certified_key_loads by (fastforce simp: keyed_from_def with_signing_key_def)
  qed
  then show ?thesis using assms(1) by (simp add: keys_usable_def rsa_documented_def)
qed

lemma store_load_verified:
  "store_load P R clock as now fault fs = Inr (Some c) \<Longrightarrow> \<exists>doc. verify_consensus P R clock doc as now = Inr c"
  by (auto simp: store_load_def split: sum.splits if_splits)

lemma current_consensus_verified:
  "current_consensus E P R B cached mirrors as w = (w', Inr c) \<Longrightarrow>
    \<exists>doc. verify_consensus P R (be_now B) doc as (Some (Aware (be_now B))) = Inr c"
  by (auto simp: current_consensus_def fresh_consensus_def load_cached_def obind_Inr_iff
      split: option.splits if_splits dest!: store_load_verified)

lemma LiveDirectory_init_fields:
  assumes "LiveDirectory_init E c mirrors w = Inr d"
  shows "ld_consensus d = c \<and> ld_mds d = Map.empty \<and> ld_tunnel d = None
    \<and> ld_tunnels d = [] \<and> ld_routers d = filter (\<lambda>r. ''NoEdConsensus'' \<notin> rs_flags r) (con_routers c)"
proof -
  let ?routers = "filter (\<lambda>r. ''NoEdConsensus'' \<notin> rs_flags r) (con_routers c)"
  obtain guards weights where "GuardManager_init 3 = Inr guards"
    "(case guard_update (de_draws E (nt_tick w)) ?routers weights guards of
          (guards', Inl e) \<Rightarrow> Inl e
        | (guards', Inr _) \<Rightarrow>
            Inr \<lparr>ld_consensus = c, ld_routers = ?routers, ld_mirrors = mirrors, ld_weights = weights,
                 ld_guards = guards', ld_mds = Map.empty, ld_tunnel = None, ld_tunnels = [],
                 ld_net = w\<lparr>nt_tick := Suc (nt_tick w)\<rparr>\<rparr>) = Inr d"
    using assms unfolding LiveDirectory_init_def Let_def by (cases "GuardManager_init 3") auto
  then show ?thesis
    by (cases "guard_update (de_draws E (nt_tick w)) ?routers weights guards") (auto split: sum.splits)
qed

lemma bootstrap_verified:
  assumes "bootstrap E P R B cached (Some as) w = (w', Inr d)"
  shows "\<exists>keyed doc mirrors n. list_all2 (keyed_from P R) as keyed \<and> as \<noteq> []
    \<and> verify_consensus P R (be_now B) doc keyed (Some (Aware (be_now B))) = Inr (ld_consensus d)
    \<and> LiveDirectory_init E (ld_consensus d) mirrors n = Inr d"
proof -
  let ?mirrors = "map da_dir_address as"
  obtain w0 cert_text where f: "on_bw_net (fetch E ''/tor/keys/all'' ?mirrors) w = (w0, Inr cert_text)"
    using assms by (auto simp: bootstrap_def Let_def obind_Inr_iff)
  then obtain parsed where p: "parse_key_certificates P R cert_text = Inr parsed"
    using assms by (auto simp: bootstrap_def Let_def obind_Inr_iff)
  let ?keyed = "authorities_with_keys as (certs_by_ident parsed)"
  have q: "as \<noteq> []" using assms f p by (auto simp: bootstrap_def Let_def)
  obtain c where c: "current_consensus E P R B cached ?mirrors ?keyed w0 = (w', Inr c)"
    and i: "LiveDirectory_init E c ?mirrors (bw_net w') = Inr d"
    using assms f p by (auto simp: bootstrap_def Let_def obind_Inr_iff split: if_splits)
  have "ld_consensus d = c" using LiveDirectory_init_fields [OF i] by simp
  then show ?thesis using current_consensus_verified [OF c] i authorities_keyed_from [OF p, of as] q by blast
qed

text \<open>C6: withholding certificates cannot lower the quorum: whatever the mirrors serve and whatever the cache holds, a
directory is bootstrapped only from a consensus that is live and signed by more than half of all the
trusted authorities, each under a key that a certificate of its own identity carries; and it starts with an
empty cache of microdescriptors, no tunnel, and no relay of disputed identity.\<close>

theorem bootstrap_needs_majority_of_all:
  assumes "rsa_documented R" "list_all (\<lambda>a. da_signing_key_pem a = None) as"
    and "bootstrap E P R B cached (Some as) w = (w', Inr d)"
  shows "\<exists>keyed doc region. list_all2 (keyed_from P R) as keyed
    \<and> parse_consensus doc = Inr (ld_consensus d) \<and> is_live (ld_consensus d) (be_now B)
    \<and> signed_region doc = Inr region
    \<and> length as < 2 * card (cs_identity ` {s \<in> set (con_signatures (ld_consensus d)). counts P R keyed region s})
    \<and> authentic P d \<and> ld_tunnel d = None
    \<and> set (ld_routers d) = {r \<in> set (con_routers (ld_consensus d)). ''NoEdConsensus'' \<notin> rs_flags r}"
proof -
  obtain keyed doc mirrors n where b: "list_all2 (keyed_from P R) as keyed" "as \<noteq> []"
    "verify_consensus P R (be_now B) doc keyed (Some (Aware (be_now B))) = Inr (ld_consensus d)"
    "LiveDirectory_init E (ld_consensus d) mirrors n = Inr d"
    using bootstrap_verified [OF assms(3)] by auto
  have k: "keys_usable R keyed" "keyed \<noteq> []" "length keyed = length as"
    using keyed_usable [OF assms(1,2) b(1)] b(1,2) by (auto dest: list_all2_lengthD)
  have "authentic P d" using LiveDirectory_init_fields [OF b(4)] by (simp add: authentic_def)
  then show ?thesis
    using b(1,3) LiveDirectory_init_fields [OF b(4)] k(3)
    unfolding consensus_verifies_iff [OF k(1,2)] by auto
qed

text \<open>The process-wide directory is reused exactly while its consensus is live and no refresh is asked, without
any fetch; otherwise a new one is bootstrapped, live at that instant, and kept; a failed bootstrap leaves
the old one in place.\<close>

theorem directory_is_live_when_given:
  assumes "get_directory E P R B now refresh cached s = (s', r)"
  shows "case r of
      Inr d \<Rightarrow> bs_cached s' = Some d \<and>
        (if \<not> refresh \<and> (\<exists>d0. bs_cached s = Some d0 \<and> is_live (ld_consensus d0) now)
         then s' = s \<and> is_live (ld_consensus d) now
         else is_live (ld_consensus d) (be_now B) \<and> bootstrap E P R B cached None (bs_world s) = (bs_world s', Inr d))
    | Inl e \<Rightarrow> bs_cached s' = bs_cached s \<and> bootstrap E P R B cached None (bs_world s) = (bs_world s', Inl e)"
proof (cases "\<not> refresh \<and> (\<exists>d0. bs_cached s = Some d0 \<and> is_live (ld_consensus d0) now)")
  case True
  then show ?thesis using assms by (auto simp: get_directory_def)
next
  case False
  then have g: "get_directory E P R B now refresh cached s =
      (case bootstrap E P R B cached None (bs_world s) of
         (w, Inl e) \<Rightarrow> (s\<lparr>bs_world := w\<rparr>, Inl e) | (w, Inr d) \<Rightarrow> (\<lparr>bs_world = w, bs_cached = Some d\<rparr>, Inr d))"
    by (auto simp: get_directory_def split: option.splits)
  obtain w b where b: "bootstrap E P R B cached None (bs_world s) = (w, b)" by force
  show ?thesis
  proof (cases b)
    case (Inl e)
    then show ?thesis using False assms g b by auto
  next
    case (Inr d)
    obtain as where "DEFAULT_AUTHORITIES = Inr as"
      using b Inr by (auto simp: bootstrap_def obind_Inr_iff)
    then have "bootstrap E P R B cached (Some as) (bs_world s) = (w, Inr d)"
      using b Inr by (simp add: bootstrap_def)
    from bootstrap_verified [OF this] have "is_live (ld_consensus d) (be_now B)"
      by (auto simp: verify_consensus_def is_live_def not_less split: if_splits)
    then show ?thesis using False assms g b Inr by auto
  qed
qed

section \<open>A concrete bootstrap\<close>

definition toy_boot_rsa :: "unit rsa_ops" where
  "toy_boot_rsa = \<lparr>load_pem = (\<lambda>pem. Pem_rsa ()), key_pkcs1 = (\<lambda>k. []),
     recover_payload = (\<lambda>k s. Inr (if length s = 1 then replicate 20 12 else replicate 32 151))\<rparr>"

definition toy_bare :: directory_authority where
  "toy_bare = toy_authority\<lparr>da_signing_key_pem := None\<rparr>"

definition toy_boot_env :: dir_env where
  "toy_boot_env = toy_dir_env\<lparr>de_http := (\<lambda>n mirror path.
     Inr (ascii (if path = ''/tor/keys/all'' then example_certificate else signed_example)))\<rparr>"

definition toy_save_env :: save_env where
  "toy_save_env = \<lparr>se_mkdir = None, se_mkstemp = None, se_write = None, se_replace = None, se_unlink = None\<rparr>"

definition toy_clock :: boot_env where
  "toy_clock = \<lparr>be_now = 1767229200, be_read = None, be_save = toy_save_env\<rparr>"

definition toy_boot_world :: boot_world where
  "toy_boot_world = \<lparr>bw_net = \<lparr>nt_tick = 0, nt_clear = [], nt_tunneled = []\<rparr>, bw_cache = \<lparr>cf_file = None, cf_temps = []\<rparr>\<rparr>"

lemma unat_of_char: "unat (of_char c :: byte) = code_of c"
proof -
  have "(of_char c :: byte) = of_nat (of_char c)" by (simp add: of_nat_of_char)
  then show ?thesis using code_of_bound [of c] by (simp only: unat_of_nat code_of_def) simp
qed

lemma ascii_replace_ascii: "list_all (\<lambda>c. code_of c < 128) s \<Longrightarrow> ascii_replace (ascii s) = s"
  by (induction s) (simp_all add: ascii_replace_def ascii_def word_less_nat_alt unat_of_char)

lemma toy_boot_certs:
  "case parse_key_certificates toy_prims toy_boot_rsa example_certificate of
     Inl e \<Rightarrow> False | Inr certs \<Rightarrow> map kc_v3ident certs = [replicate 20 0]"
  by code_simp

lemma toy_verified:
  "case verify_consensus toy_prims toy_boot_rsa 1767229200 signed_example [toy_authority] (Some (Aware 1767229200)) of
     Inl e \<Rightarrow> False | Inr c \<Rightarrow> con_routers c = [] \<and> con_bandwidth_weights c = []"
  by code_simp

lemma toy_ascii: "list_all (\<lambda>c. code_of c < 128) example_certificate" "list_all (\<lambda>c. code_of c < 128) signed_example"
  by code_simp+

lemma toy_verified_keyed:
  "verify_consensus toy_prims toy_boot_rsa 1767229200 signed_example [with_signing_key toy_bare pem] (Some (Aware 1767229200)) =
   verify_consensus toy_prims toy_boot_rsa 1767229200 signed_example [toy_authority] (Some (Aware 1767229200))"
proof -
  have "check_signature toy_prims toy_boot_rsa [with_signing_key toy_bare pem] region s
      = check_signature toy_prims toy_boot_rsa [toy_authority] region s" for region s
    by (auto simp: check_signature_def by_identity_def toy_bare_def toy_authority_def with_signing_key_def load_signing_key_def
        toy_boot_rsa_def split: option.splits)
  then have eq: "verified_identities toy_prims toy_boot_rsa [with_signing_key toy_bare pem] region ss V
      = verified_identities toy_prims toy_boot_rsa [toy_authority] region ss V" for region ss V
    by (induction ss arbitrary: V) simp_all
  show ?thesis unfolding verify_consensus_def eq list.size by simp
qed

lemma toy_bootstrap:
  "\<exists>w' d. bootstrap toy_boot_env toy_prims toy_boot_rsa toy_clock False (Some [toy_bare]) toy_boot_world = (w', Inr d)"
proof -
  obtain cert where c: "parse_key_certificates toy_prims toy_boot_rsa example_certificate = Inr [cert]"
    "kc_v3ident cert = replicate 20 0"
    using toy_boot_certs by (auto split: sum.splits)
  obtain con where v: "verify_consensus toy_prims toy_boot_rsa 1767229200 signed_example [toy_authority] (Some (Aware 1767229200)) = Inr con"
    "con_routers con = []" "con_bandwidth_weights con = []"
    using toy_verified by (auto split: sum.splits)
  have f: "fetch toy_boot_env path [m] w = (w\<lparr>nt_tick := Suc (Suc (nt_tick w)), nt_clear := nt_clear w @ [(m, path)]\<rparr>,
      Inr (if path = ''/tor/keys/all'' then example_certificate else signed_example))" for path m w
    using toy_ascii by (simp add: fetch_def toy_boot_env_def toy_dir_env_def ascii_replace_ascii)
  have i: "\<exists>d. LiveDirectory_init E con mirrors n = Inr d" for E mirrors n
    using v(2,3) by (simp add: LiveDirectory_init_def Let_def GuardManager_init_def guard_update_def by_fingerprint_def
        top_up.simps split: option.split)
  have a: "da_v3ident toy_bare = replicate 20 0" by (simp add: toy_bare_def toy_authority_def)
  have k: "certs_by_ident [cert] (da_v3ident toy_bare) = Some cert" using a c(2) by (simp add: certs_by_ident_def)
  show ?thesis
    using c v i k
    by (simp add: bootstrap_def Let_def on_bw_net_def f obind_def authorities_with_keys_def current_consensus_def load_cached_def
        fresh_consensus_def CONSENSUS_PATH_def toy_clock_def toy_verified_keyed save_cached_def)
qed

theorem bootstrap_needs_majority_of_all_witness:
  "\<exists>w' d. bootstrap toy_boot_env toy_prims toy_boot_rsa toy_clock False (Some [toy_bare]) toy_boot_world = (w', Inr d)
    \<and> is_live (ld_consensus d) 1767229200 \<and> authentic toy_prims d"
proof -
  obtain w' d where b: "bootstrap toy_boot_env toy_prims toy_boot_rsa toy_clock False (Some [toy_bare]) toy_boot_world = (w', Inr d)"
    using toy_bootstrap by blast
  have "rsa_documented toy_boot_rsa" by (simp add: rsa_documented_def toy_boot_rsa_def raises_only_def)
  moreover have "list_all (\<lambda>a. da_signing_key_pem a = None) [toy_bare]" by (simp add: toy_bare_def)
  ultimately show ?thesis
    using bootstrap_needs_majority_of_all [OF _ _ b] b by (auto simp: toy_clock_def)
qed

theorem directory_is_live_when_given_witness:
  "get_directory toy_boot_env toy_prims toy_boot_rsa toy_clock 1 False False
      \<lparr>bs_world = toy_boot_world, bs_cached = Some (toy_live toy_md 0)\<rparr>
    = (\<lparr>bs_world = toy_boot_world, bs_cached = Some (toy_live toy_md 0)\<rparr>, Inr (toy_live toy_md 0))
   \<and> is_live (ld_consensus (toy_live toy_md 0)) 1"
proof -
  let ?s = "\<lparr>bs_world = toy_boot_world, bs_cached = Some (toy_live toy_md 0)\<rparr>"
  have live: "is_live (ld_consensus (toy_live toy_md 0)) 1" by (simp add: is_live_def toy_live_def toy_consensus_def)
  then have g: "get_directory toy_boot_env toy_prims toy_boot_rsa toy_clock 1 False False ?s = (?s, Inr (toy_live toy_md 0))"
    by (simp add: get_directory_def)
  from directory_is_live_when_given [OF g] g live show ?thesis by simp
qed

end
