(* ===== verification/TorClient.thy ===== *)
theory TorClient
  imports StreamOps DirHttp OnionAddress Rendezvous Bootstrap
begin

text \<open>
  The Tor client (\<open>_client/torclient.py\<close>). Circuits and channels are shared by reference: they are numbered in the
  order they are made, \<open>tc_heap\<close> and \<open>tc_chans\<close> hold what they are now. A block under the client's lock is
  one function; between two of them other threads run, which \<open>ce_others\<close> gives for each wait. Opening a
  channel and building a circuit are modelled on their own, so here their outcomes are arguments, as are the
  path provider (the code takes any) and what the directory streams deliver. Timeouts are left out.
  Closing a channel only marks it; what its circuits are then told is in \<open>Receiver\<close>.
\<close>

section \<open>Client authorization\<close>

definition CLIENT_AUTH_KEY_LEN :: nat where "CLIENT_AUTH_KEY_LEN = 32"

fun auth_loop :: "(string \<times> bytes) list \<Rightarrow> (string \<times> bytes) list \<Rightarrow> (string \<times> bytes) list res" where
  "auth_loop [] normalized = Inr normalized"
| "auth_loop ((hst, key) # rest) normalized =
    (if length key \<noteq> CLIENT_AUTH_KEY_LEN then Inl ValueError
     else auth_loop rest (AList.update (normalize_onion_host hst) key normalized))"

definition validate_onion_auth :: "(string \<times> bytes) list option \<Rightarrow> (string \<times> bytes) list res" where
  "validate_onion_auth onion_auth = auth_loop (case onion_auth of None \<Rightarrow> [] | Some m \<Rightarrow> m) []"

section \<open>State\<close>

text \<open>An isolation key is the session's token, the token with a host, or (from the SOCKS proxy) a host.\<close>

datatype iso_key = Token nat | TokenHost nat string | HostOnly string

record tor_client =
  tc_onion_auth :: "(string \<times> bytes) list"
  tc_channels :: "(bytes \<times> nat) list"
  tc_circuits :: "(iso_key \<times> nat) list"
  tc_closed :: bool
  tc_tunnel :: bool                    \<comment> \<open>\<open>_dir_tunnel is not None\<close>\<close>
  tc_tunnel_circuit :: "nat option"    \<comment> \<open>the circuit of the tunnel object\<close>
  tc_tunnel_fetch :: "nat option"
  tc_directory :: "live_dir option"
  tc_heap :: "circ list"
  tc_chans :: "bool list"              \<comment> \<open>whether each channel is closed\<close>
  tc_selected :: "relay_info list"     \<comment> \<open>the path the last rendezvous circuit was drawn along\<close>
  tc_tick :: nat

record client_env =
  ce_attempts :: int
  ce_hook :: nat
  ce_path :: "nat \<Rightarrow> string \<Rightarrow> int \<Rightarrow> relay_info list res"
  ce_open :: "nat \<Rightarrow> relay_info \<Rightarrow> unit res"
  ce_build :: "nat \<Rightarrow> relay_info list \<Rightarrow> bool \<Rightarrow> circ res"
  ce_others :: "nat \<Rightarrow> tor_client \<Rightarrow> tor_client"
  ce_wait :: "nat \<Rightarrow> circ \<Rightarrow> circ"
  ce_stream :: "nat \<Rightarrow> dir_stream"
  ce_intros :: "nat \<Rightarrow> nat \<Rightarrow> intro_env"
  ce_clock :: "nat \<Rightarrow> real"

definition TorClient_init :: "live_dir option \<Rightarrow> (string \<times> bytes) list option \<Rightarrow> tor_client res" where
  "TorClient_init directory onion_auth =
    rbind (validate_onion_auth onion_auth) (\<lambda>auth.
      Inr \<lparr>tc_onion_auth = auth, tc_channels = [], tc_circuits = [], tc_closed = False, tc_tunnel = False,
           tc_tunnel_circuit = None, tc_tunnel_fetch = None, tc_directory = directory, tc_heap = [], tc_chans = [],
           tc_selected = [], tc_tick = 0\<rparr>)"

definition client_auth_key :: "string \<Rightarrow> tor_client \<Rightarrow> bytes option" where
  "client_auth_key hst st = map_of (tc_onion_auth st) (normalize_onion_host hst)"

definition others :: "client_env \<Rightarrow> tor_client \<Rightarrow> tor_client" where
  "others CE st = (ce_others CE (tc_tick st) st)\<lparr>tc_tick := Suc (tc_tick st)\<rparr>"

definition destroyed :: "tor_client \<Rightarrow> nat \<Rightarrow> bool" where
  "destroyed st i \<longleftrightarrow> c_destroyed (tc_heap st ! i)"

definition chan_closed :: "tor_client \<Rightarrow> nat \<Rightarrow> bool" where
  "chan_closed st i \<longleftrightarrow> tc_chans st ! i"

definition on_circ :: "nat \<Rightarrow> (circ, exc, 'a) op \<Rightarrow> (tor_client, exc, 'a) op" where
  "on_circ i p st = (case p (tc_heap st ! i) of (c, r) \<Rightarrow> (st\<lparr>tc_heap := (tc_heap st)[i := c]\<rparr>, r))"

definition close_circuit :: "nat \<Rightarrow> (tor_client, exc, unit) op" where
  "close_circuit i = on_circ i circuit_close"

definition close_channel :: "nat \<Rightarrow> tor_client \<Rightarrow> tor_client" where
  "close_channel i st = st\<lparr>tc_chans := (tc_chans st)[i := True]\<rparr>"

fun close_circuits :: "nat list \<Rightarrow> (tor_client, exc, unit) op" where
  "close_circuits [] st = (st, Inr ())"
| "close_circuits (i # is) st = obind (close_circuit i) (\<lambda>_. close_circuits is) st"

section \<open>Channels\<close>

text \<open>The second block under the lock, of \<open>_ensure_channel\<close> as of \<open>_acquire_circuit\<close>: the object to use, if any.\<close>

definition pool_commit ::
  "bool \<Rightarrow> (nat \<Rightarrow> bool) \<Rightarrow> 'k \<Rightarrow> nat \<Rightarrow> ('k \<times> nat) list \<Rightarrow> ('k \<times> nat) list \<times> nat option" where
  "pool_commit ended dead key built pool =
    (if ended then (pool, None)
     else case map_of pool key of
       Some i \<Rightarrow> if \<not> dead i then (pool, Some i) else (AList.update key built pool, Some built)
     | None \<Rightarrow> (AList.update key built pool, Some built))"

definition channel_commit :: "bytes \<Rightarrow> nat \<Rightarrow> tor_client \<Rightarrow> tor_client \<times> nat option" where
  "channel_commit key built st =
    (case pool_commit (tc_closed st) (chan_closed st) key built (tc_channels st) of
       (pool, winner) \<Rightarrow> (st\<lparr>tc_channels := pool\<rparr>, winner))"

definition ensure_channel :: "client_env \<Rightarrow> relay_info \<Rightarrow> (tor_client, exc, nat) op" where
  "ensure_channel CE guard st =
    (let key = ri_ed_identity guard;
         found = (case map_of (tc_channels st) key of
                    Some i \<Rightarrow> if \<not> chan_closed st i then Some i else None | None \<Rightarrow> None)
     in case found of
          Some i \<Rightarrow> (st, Inr i)
        | None \<Rightarrow>
           let outcome = ce_open CE (tc_tick st) guard; st1 = others CE st in
           (case outcome of
              Inl e \<Rightarrow> (st1, Inl e)
            | Inr _ \<Rightarrow>
               let built = length (tc_chans st1); st2 = st1\<lparr>tc_chans := tc_chans st1 @ [False]\<rparr>;
                   (st3, winner) = channel_commit key built st2;
                   st4 = (if winner \<noteq> Some built then close_channel built st3 else st3)
               in case winner of None \<Rightarrow> (st4, Inl TorBootstrapError) | Some i \<Rightarrow> (st4, Inr i)))"

section \<open>Building circuits\<close>

definition build_circuit_along :: "client_env \<Rightarrow> bool \<Rightarrow> relay_info list \<Rightarrow> (tor_client, exc, nat) op" where
  "build_circuit_along CE close_when_idle path =
    (case path of
       [] \<Rightarrow> oraise IndexError
     | guard # _ \<Rightarrow>
        obind (ensure_channel CE guard) (\<lambda>channel st.
          let outcome = ce_build CE (tc_tick st) path close_when_idle; st1 = others CE st in
          case outcome of
            Inl e \<Rightarrow> (st1, Inl e)
          | Inr c \<Rightarrow> (st1\<lparr>tc_heap := tc_heap st1 @ [c]\<rparr>, Inr (length (tc_heap st1)))))"

text \<open>The attempts left, and the error of the last one.\<close>

fun retry_loop ::
  "client_env \<Rightarrow> (tor_client, exc, relay_info list) op \<Rightarrow> bool \<Rightarrow> nat \<Rightarrow> exc \<Rightarrow> (tor_client, exc, nat) op" where
  "retry_loop CE make_path close_when_idle 0 last_exc st = (st, Inl last_exc)"
| "retry_loop CE make_path close_when_idle (Suc n) last_exc st =
    obind make_path (\<lambda>path st.
      if path = [] then (st, Inl TorBootstrapError)
      else case build_circuit_along CE close_when_idle path st of
             (st', Inr i) \<Rightarrow> (st', Inr i)
           | (st', Inl e) \<Rightarrow>
               if catches [CircuitError, ChannelError] e then retry_loop CE make_path close_when_idle n e st'
               else (st', Inl e)) st"

definition build_with_retry ::
  "client_env \<Rightarrow> (tor_client, exc, relay_info list) op \<Rightarrow> bool \<Rightarrow> (tor_client, exc, nat) op" where
  "build_with_retry CE make_path close_when_idle =
    retry_loop CE make_path close_when_idle (nat (max 1 (ce_attempts CE))) Exception"

definition provided_path :: "client_env \<Rightarrow> string \<Rightarrow> int \<Rightarrow> (tor_client, exc, relay_info list) op" where
  "provided_path CE hst port st = (let r = ce_path CE (tc_tick st) hst port in (others CE st, r))"

section \<open>The pool of circuits\<close>

definition live_pool :: "tor_client \<Rightarrow> (iso_key \<times> nat) list" where
  "live_pool st = filter (\<lambda>(k, i). \<not> destroyed st i) (tc_circuits st)"

text \<open>The first block under the lock: the circuit of the key, if one is pooled.\<close>

definition acquire_check :: "iso_key \<Rightarrow> (tor_client, exc, nat option) op" where
  "acquire_check key st =
    (if tc_closed st then (st, Inl TorBootstrapError)
     else let st' = st\<lparr>tc_circuits := live_pool st\<rparr> in (st', Inr (map_of (tc_circuits st') key)))"

definition acquire_commit :: "iso_key \<Rightarrow> nat \<Rightarrow> tor_client \<Rightarrow> tor_client \<times> nat option" where
  "acquire_commit key built st =
    (case pool_commit (tc_closed st) (destroyed st) key built (tc_circuits st) of
       (pool, winner) \<Rightarrow> (st\<lparr>tc_circuits := pool\<rparr>, winner))"

definition acquire_circuit :: "client_env \<Rightarrow> string \<Rightarrow> int \<Rightarrow> iso_key option \<Rightarrow> (tor_client, exc, nat) op" where
  "acquire_circuit CE hst port isolation_key st =
    (case isolation_key of
       None \<Rightarrow>
         if tc_closed st then (st, Inl TorBootstrapError)
         else build_with_retry CE (provided_path CE hst port) True st
     | Some key \<Rightarrow>
         obind (acquire_check key) (\<lambda>existing.
           case existing of
             Some i \<Rightarrow> oreturn i
           | None \<Rightarrow>
              obind (build_with_retry CE (provided_path CE hst port) False) (\<lambda>circuit st.
                let (st1, winner) = acquire_commit key circuit st in
                obind (if winner \<noteq> Some circuit then close_circuit circuit else oreturn ()) (\<lambda>_.
                  case winner of None \<Rightarrow> oraise TorBootstrapError | Some i \<Rightarrow> oreturn i) st1)) st)"

section \<open>Streams\<close>

text \<open>\<open>Stream(circuit, circuit.next_stream_id())\<close>, under a number no stream of the circuit has had.\<close>

definition new_stream :: "client_env \<Rightarrow> nat \<Rightarrow> (tor_client, exc, nat) op" where
  "new_stream CE i st =
    (let r = tc_tick st; (c, sid) = next_stream_id (tc_heap st ! i) in
     (st\<lparr>tc_heap := (tc_heap st)[i := c\<lparr>stream_heap := (stream_heap c)(r := Stream_init sid)\<rparr>], tc_tick := Suc r\<rparr>, Inr r))"

definition connect_clearnet ::
  "prims \<Rightarrow> (nat \<Rightarrow> bytes) \<Rightarrow> client_env \<Rightarrow> string \<Rightarrow> int \<Rightarrow> iso_key option \<Rightarrow> (tor_client, exc, nat \<times> nat) op" where
  "connect_clearnet P urandom CE hst port isolation_key =
    obind (acquire_circuit CE hst port isolation_key) (\<lambda>i st.
      case obind (new_stream CE i) (\<lambda>r st.
             obind (on_circ i (stream_connect P urandom hst port r (ce_wait CE (tc_tick st)))) (\<lambda>_. oreturn (i, r)) st) st of
        (st', Inr s) \<Rightarrow> (st', Inr s)
      | (st', Inl e) \<Rightarrow> obind (if isolation_key = None then close_circuit i else oreturn ()) (\<lambda>_. oraise e) st')"

section \<open>The directory tunnel\<close>

definition on_directory :: "(live_dir, exc, 'a) op \<Rightarrow> (tor_client, exc, 'a) op" where
  "on_directory p st =
    (case tc_directory st of
       None \<Rightarrow> (st, Inl OnionServiceError)
     | Some d \<Rightarrow> (case p d of (d', r) \<Rightarrow> (st\<lparr>tc_directory := Some d'\<rparr>, r)))"

definition tunnel_ensure_circuit :: "prims \<Rightarrow> client_env \<Rightarrow> dir_env \<Rightarrow> (tor_client, exc, nat) op" where
  "tunnel_ensure_circuit P CE E st =
    (case tc_tunnel_circuit st of
       Some i \<Rightarrow> if \<not> destroyed st i then (st, Inr i)
                else obind (build_with_retry CE (on_directory (dir_circuit_path E P)) False)
                       (\<lambda>i st. (st\<lparr>tc_tunnel_circuit := Some i\<rparr>, Inr i)) st
     | None \<Rightarrow> obind (build_with_retry CE (on_directory (dir_circuit_path E P)) False)
                 (\<lambda>i st. (st\<lparr>tc_tunnel_circuit := Some i\<rparr>, Inr i)) st)"

text \<open>A directory request on a circuit; what the stream delivers after it is open is \<open>ce_stream\<close>.\<close>

definition dir_request_on ::
  "prims \<Rightarrow> (nat \<Rightarrow> bytes) \<Rightarrow> client_env \<Rightarrow> decompressors \<Rightarrow> nat \<Rightarrow> nat \<Rightarrow> string \<Rightarrow> (tor_client, exc, bytes) op" where
  "dir_request_on P urandom CE Z i r path st =
    obind (on_circ i (stream_connect_dir P urandom r (ce_wait CE (tc_tick st)))) (\<lambda>_ st.
      (others CE st, snd (dir_get Z path ''127.0.0.1'' DEFAULT_MAX_SIZE (ce_stream CE (tc_tick st))))) st"

definition tunnel_fetch ::
  "prims \<Rightarrow> (nat \<Rightarrow> bytes) \<Rightarrow> client_env \<Rightarrow> dir_env \<Rightarrow> decompressors \<Rightarrow> string \<Rightarrow> (tor_client, exc, string) op" where
  "tunnel_fetch P urandom CE E Z path =
    obind (tunnel_ensure_circuit P CE E) (\<lambda>i.
    obind (new_stream CE i) (\<lambda>r st.
      case dir_request_on P urandom CE Z i r path st of
        (st1, result) \<Rightarrow>
          obind (on_circ i (stream_close P urandom r)) (\<lambda>_.
            case result of Inl e \<Rightarrow> oraise e | Inr body \<Rightarrow> oreturn (ascii_replace body)) st1))"

definition tunnel_close :: "(tor_client, exc, unit) op" where
  "tunnel_close st =
    (case tc_tunnel_circuit st of
       None \<Rightarrow> (st, Inr ())
     | Some i \<Rightarrow> close_circuit i (st\<lparr>tc_tunnel_circuit := None\<rparr>))"

definition install_tunnel :: "prims \<Rightarrow> client_env \<Rightarrow> dir_env \<Rightarrow> (tor_client, exc, unit) op" where
  "install_tunnel P CE E st =
    (case tunnel_ensure_circuit P CE E st of
       (st1, Inl e) \<Rightarrow> (st1, if catches [CircuitError, ChannelError, TorBootstrapError] e then Inr () else Inl e)
     | (st1, Inr _) \<Rightarrow>
         if tc_closed st1 then tunnel_close st1
         else (st1\<lparr>tc_tunnel := True, tc_tunnel_fetch := Some (ce_hook CE),
                  tc_directory := map_option (install_dir_tunnel (ce_hook CE)) (tc_directory st1)\<rparr>, Inr ()))"

section \<open>Onion services\<close>

text \<open>The walk around the hash ring ends, so its option is always \<open>Some\<close>.\<close>

lemma ring_walk_ends: "start < length ordered \<Longrightarrow> ring_walk ed spread ordered start start added chosen selected \<noteq> None"
  using ring_walk_list [OF _ refl, of start ordered 0 ed spread added chosen selected] by (cases "ordered = []") simp_all

lemma replica_loop_ends:
  assumes "sorted indices" "length indices = length ordered" "ordered \<noteq> []"
  shows "replica_loop P ed blinded num len spread ordered indices rs chosen selected \<noteq> None"
proof (induction rs arbitrary: chosen selected)
  case (Cons r rs)
  show ?case
  proof (cases "hs_index P blinded (int r) len num")
    case (Inr target)
    let ?s = "if bisect_left indices target = length ordered then 0 else bisect_left indices target"
    have "?s < length ordered"
      using bisect_left_split(1) [of id indices target] assms by (cases "bisect_left indices target = length ordered") auto
    then obtain chosen' selected' where "ring_walk ed spread ordered ?s ?s 0 chosen selected = Some (chosen', selected')"
      using ring_walk_ends [of ?s ordered ed spread 0 chosen selected] by auto
    then show ?thesis
      unfolding replica_loop.simps Inr sum.case Let_def by (simp only: option.case prod.case Cons not_False_eq_True)
  qed simp
qed simp

lemma responsible_hsdirs_ends: "responsible_hsdirs P ed blinded nodes srv num len n spread \<noteq> None"
proof (cases "nodes = [] \<or> (\<exists>e. rmap (\<lambda>node. hsdir_index P (ed node) srv num len) nodes = Inl e)")
  case True
  then show ?thesis by (auto simp: responsible_hsdirs_def)
next
  case False
  then obtain keys where k: "rmap (\<lambda>node. hsdir_index P (ed node) srv num len) nodes = Inr keys"
    by (cases "rmap (\<lambda>node. hsdir_index P (ed node) srv num len) nodes") auto
  then have "length keys = length nodes" by (auto simp: rmap_Inr_iff dest: list_all2_lengthD)
  then have "length (sort_key snd (zip nodes keys)) \<noteq> 0" using False by simp
  then have "sort_key snd (zip nodes keys) \<noteq> []" by (metis list.size(3))
  moreover have "sorted (map snd (sort_key snd (zip nodes keys)))" by simp
  ultimately show ?thesis
    using False replica_loop_ends [of "map snd (sort_key snd (zip nodes keys))" "map fst (sort_key snd (zip nodes keys))"]
    unfolding responsible_hsdirs_def k Let_def sum.case by simp
qed

definition hsdirs_for :: "dir_env \<Rightarrow> prims \<Rightarrow> bytes \<Rightarrow> bool \<Rightarrow> (live_dir, exc, router_status list) op" where
  "hsdirs_for E P blinded use_previous d =
    (case dir_responsible_hsdirs E P blinded use_previous d of (d', r) \<Rightarrow> (d', the r))"

definition HSDIR_ERRORS :: "exc list" where
  "HSDIR_ERRORS = [CircuitError, ChannelError, StreamError, DirectoryError, DescriptorError, ValueError]"

text \<open>The \<open>try\<close> block on one directory.\<close>

definition hsdir_attempt ::
  "prims \<Rightarrow> (nat \<Rightarrow> bytes) \<Rightarrow> client_env \<Rightarrow> dir_env \<Rightarrow> decompressors \<Rightarrow> bytes \<Rightarrow> bytes \<Rightarrow> bytes option \<Rightarrow>
    router_status \<Rightarrow> (tor_client, exc, hs_descriptor) op" where
  "hsdir_attempt P urandom CE E Z blinded subcred auth hsdir =
    obind (on_directory (path_to E P hsdir)) (\<lambda>path.
    obind (build_circuit_along CE False path) (\<lambda>i.
    obind (new_stream CE i) (\<lambda>r.
    obind (dir_request_on P urandom CE Z i r (''/tor/hs/3/'' @ rstrip_char CHR ''='' (b64_encode blinded))) (\<lambda>body st.
      (st, parse_descriptor_with_auth P (ce_clock CE (tc_tick st)) (ascii_replace body) blinded subcred auth None)))))"

fun try_hsdirs ::
  "(router_status \<Rightarrow> (tor_client, exc, hs_descriptor) op) \<Rightarrow> router_status list \<Rightarrow> (tor_client, exc, hs_descriptor option) op" where
  "try_hsdirs attempt [] st = (st, Inr None)"
| "try_hsdirs attempt (hsdir # hsdirs) st =
    (case attempt hsdir st of
       (st', Inr descriptor) \<Rightarrow> (st', Inr (Some descriptor))
     | (st', Inl e) \<Rightarrow> if catches HSDIR_ERRORS e then try_hsdirs attempt hsdirs st' else (st', Inl e))"

fun find_descriptor ::
  "(router_status \<Rightarrow> (tor_client, exc, hs_descriptor) op) \<Rightarrow> (bool \<Rightarrow> (tor_client, exc, router_status list) op) \<Rightarrow>
    bool list \<Rightarrow> (tor_client, exc, hs_descriptor option) op" where
  "find_descriptor attempt hsdirs [] st = (st, Inr None)"
| "find_descriptor attempt hsdirs (use_previous # rest) st =
    obind (hsdirs use_previous) (\<lambda>rs. obind (try_hsdirs attempt rs) (\<lambda>found.
      case found of Some d \<Rightarrow> oreturn (Some d) | None \<Rightarrow> find_descriptor attempt hsdirs rest)) st"

definition selecting_path :: "dir_env \<Rightarrow> prims \<Rightarrow> (tor_client, exc, relay_info list) op" where
  "selecting_path E P =
    obind (on_directory (rendezvous_path E P)) (\<lambda>path st. (st\<lparr>tc_selected := path\<rparr>, Inr path))"

definition build_intro_circuit :: "prims \<Rightarrow> client_env \<Rightarrow> dir_env \<Rightarrow> relay_info \<Rightarrow> (tor_client, exc, nat) op" where
  "build_intro_circuit P CE E intro_info =
    build_with_retry CE (on_directory (path_ending_at E P intro_info)) False"

text \<open>\<open>connect_to_service\<close> on the rendezvous circuit; the introduction circuits it built join the others.\<close>

definition join_service ::
  "prims \<Rightarrow> (nat \<Rightarrow> bytes) \<Rightarrow> client_env \<Rightarrow> hs_descriptor \<Rightarrow> bytes \<Rightarrow> nat \<Rightarrow> (tor_client, exc, unit) op" where
  "join_service P urandom CE descriptor subcred i st =
    (let n = tc_tick st in
     case connect_to_service P urandom descriptor subcred (urandom 20) (last (tc_selected st)) (ce_wait CE n)
            (ce_intros CE n) \<lparr>rw_rend = tc_heap st ! i, rw_intros = []\<rparr> of
       (w, r) \<Rightarrow> (st\<lparr>tc_heap := (tc_heap st)[i := rw_rend w] @ rw_intros w, tc_tick := Suc n\<rparr>, r))"

definition connect_onion ::
  "prims \<Rightarrow> (nat \<Rightarrow> bytes) \<Rightarrow> client_env \<Rightarrow> dir_env \<Rightarrow> decompressors \<Rightarrow> string \<Rightarrow> int \<Rightarrow> (tor_client, exc, nat \<times> nat) op" where
  "connect_onion P urandom CE E Z hst port st =
    (case tc_directory st of
       None \<Rightarrow> (st, Inl OnionServiceError)
     | Some d \<Rightarrow>
        obind (olift (parse_address P hst)) (\<lambda>identity.
        obind (olift (dir_time_period d)) (\<lambda>period.
        obind (olift (blind_public_key P identity period (period_length d))) (\<lambda>blinded.
        let subcred = subcredential P identity blinded; auth = client_auth_key hst st in
        obind (find_descriptor (hsdir_attempt P urandom CE E Z blinded subcred auth)
                 (\<lambda>previous. on_directory (hsdirs_for E P blinded previous)) [False, True]) (\<lambda>found.
        case found of
          None \<Rightarrow> oraise DescriptorNotFound
        | Some descriptor \<Rightarrow>
            obind (build_with_retry CE (selecting_path E P) False) (\<lambda>i.
            obind (join_service P urandom CE descriptor subcred i) (\<lambda>_.
            obind (new_stream CE i) (\<lambda>r st.
            obind (on_circ i (stream_connect P urandom '''' port r (ce_wait CE (tc_tick st)))) (\<lambda>_. oreturn (i, r)) st))))))) st)"

definition connect_stream ::
  "prims \<Rightarrow> (nat \<Rightarrow> bytes) \<Rightarrow> client_env \<Rightarrow> dir_env \<Rightarrow> decompressors \<Rightarrow> string \<Rightarrow> int \<Rightarrow> iso_key option \<Rightarrow>
    (tor_client, exc, nat \<times> nat) op" where
  "connect_stream P urandom CE E Z hst port isolation_key =
    (if is_onion_host hst then connect_onion P urandom CE E Z hst port
     else connect_clearnet P urandom CE hst port isolation_key)"

text \<open>\<open>TorClient.bootstrap\<close>\<close>

definition client_bootstrap ::
  "prims \<Rightarrow> 'k rsa_ops \<Rightarrow> client_env \<Rightarrow> dir_env \<Rightarrow> boot_env \<Rightarrow> real \<Rightarrow> bool \<Rightarrow> (string \<times> bytes) list option \<Rightarrow>
    (boot_state, exc, tor_client) op" where
  "client_bootstrap P R CE E B now cached onion_auth =
    obind (get_directory E P R B now False cached) (\<lambda>directory.
    obind (olift (TorClient_init (Some directory) onion_auth)) (\<lambda>client s.
      case install_tunnel P CE E client of
        (client', Inl e) \<Rightarrow> (s, Inl e)
      | (client', Inr _) \<Rightarrow> (s\<lparr>bs_cached := tc_directory client'\<rparr>, Inr client')))"

section \<open>Lifecycle\<close>

text \<open>The block under the lock of \<open>new_identity\<close>, then the closes.\<close>

definition take_circuits :: "tor_client \<Rightarrow> tor_client \<times> nat list" where
  "take_circuits st = (st\<lparr>tc_circuits := []\<rparr>, map snd (tc_circuits st))"

definition new_identity :: "(tor_client, exc, unit) op" where
  "new_identity st = (case take_circuits st of (st1, circuits) \<Rightarrow> close_circuits circuits st1)"

definition begin_close :: "tor_client \<Rightarrow> tor_client \<times> nat list \<times> nat list \<times> bool \<times> nat option" where
  "begin_close st =
    (st\<lparr>tc_closed := True, tc_tunnel := False, tc_tunnel_fetch := None, tc_circuits := [], tc_channels := []\<rparr>,
     map snd (tc_circuits st), map snd (tc_channels st), tc_tunnel st, tc_tunnel_fetch st)"

definition client_close :: "(tor_client, exc, unit) op" where
  "client_close st =
    (if tc_closed st then (st, Inr ())
     else case begin_close st of (st1, circuits, channels, tunnel, hook) \<Rightarrow>
       let st2 = (case hook of
                    None \<Rightarrow> st1
                  | Some t \<Rightarrow> st1\<lparr>tc_directory := map_option (restore_dir_tunnel t) (tc_directory st1)\<rparr>);
           st3 = fold close_channel channels st2
       in obind (close_circuits circuits) (\<lambda>_. if tunnel then tunnel_close else oreturn ()) st3)"

end
