(* ===== verification/ClientPool.thy ===== *)
theory ClientPool
  imports TorClient "HOL-Library.Code_Target_Nat"
begin

text \<open>
  The circuit pool of the client under any number of threads. A thread is the place it has reached in
  \<open>_acquire_circuit\<close>, \<open>new_identity\<close> or \<open>close\<close>; a step is one block under the lock, one close, or the end of a
  build, each by the functions that make up those methods, so a run is any interleaving of them with
  circuits dying in between. The machine also records for which key each circuit was built and which
  circuits were handed out for which key.
\<close>

datatype task = Idle | Building iso_key | Built iso_key nat | Closing "nat list"

record pool_machine =
  pm_client :: tor_client
  pm_tasks :: "nat \<Rightarrow> task"
  pm_built_for :: "iso_key list"
  pm_given :: "(iso_key \<times> nat) list"

inductive pool_step :: "pool_machine \<Rightarrow> pool_machine \<Rightarrow> bool" where
  reuse: "pm_tasks m t = Idle \<Longrightarrow> acquire_check k (pm_client m) = (c, Inr (Some i)) \<Longrightarrow>
    pool_step m (m\<lparr>pm_client := c, pm_given := (k, i) # pm_given m\<rparr>)"
| start: "pm_tasks m t = Idle \<Longrightarrow> acquire_check k (pm_client m) = (c, Inr None) \<Longrightarrow>
    pool_step m (m\<lparr>pm_client := c, pm_tasks := (pm_tasks m)(t := Building k)\<rparr>)"
| built: "pm_tasks m t = Building k \<Longrightarrow> chan_ok circuit \<Longrightarrow>
    pool_step m (m\<lparr>pm_client := (pm_client m)\<lparr>tc_heap := tc_heap (pm_client m) @ [circuit]\<rparr>,
      pm_tasks := (pm_tasks m)(t := Built k (length (tc_heap (pm_client m)))), pm_built_for := pm_built_for m @ [k]\<rparr>)"
| failed: "pm_tasks m t = Building k \<Longrightarrow> pool_step m (m\<lparr>pm_tasks := (pm_tasks m)(t := Idle)\<rparr>)"
| won: "pm_tasks m t = Built k i \<Longrightarrow> acquire_commit k i (pm_client m) = (c, Some i) \<Longrightarrow>
    pool_step m (m\<lparr>pm_client := c, pm_tasks := (pm_tasks m)(t := Idle), pm_given := (k, i) # pm_given m\<rparr>)"
| lost: "pm_tasks m t = Built k i \<Longrightarrow> acquire_commit k i (pm_client m) = (c, Some j) \<Longrightarrow> j \<noteq> i \<Longrightarrow>
    pool_step m (m\<lparr>pm_client := c, pm_tasks := (pm_tasks m)(t := Closing [i]), pm_given := (k, j) # pm_given m\<rparr>)"
| refused: "pm_tasks m t = Built k i \<Longrightarrow> acquire_commit k i (pm_client m) = (c, None) \<Longrightarrow>
    pool_step m (m\<lparr>pm_client := c, pm_tasks := (pm_tasks m)(t := Closing [i])\<rparr>)"
| renew: "pm_tasks m t = Idle \<Longrightarrow> take_circuits (pm_client m) = (c, cs) \<Longrightarrow>
    pool_step m (m\<lparr>pm_client := c, pm_tasks := (pm_tasks m)(t := Closing cs)\<rparr>)"
| shut_down: "pm_tasks m t = Idle \<Longrightarrow> \<not> tc_closed (pm_client m) \<Longrightarrow> begin_close (pm_client m) = (c, cs, channels, tunnel, hook) \<Longrightarrow>
    pool_step m (m\<lparr>pm_client := c, pm_tasks := (pm_tasks m)(t := Closing cs)\<rparr>)"
| close_one: "pm_tasks m t = Closing (i # cs) \<Longrightarrow> close_circuit i (pm_client m) = (c, Inr ()) \<Longrightarrow>
    pool_step m (m\<lparr>pm_client := c, pm_tasks := (pm_tasks m)(t := Closing cs)\<rparr>)"
| close_done: "pm_tasks m t = Closing [] \<Longrightarrow> pool_step m (m\<lparr>pm_tasks := (pm_tasks m)(t := Idle)\<rparr>)"
| dies: "i < length (tc_heap (pm_client m)) \<Longrightarrow>
    pool_step m (m\<lparr>pm_client := (pm_client m)\<lparr>tc_heap := (tc_heap (pm_client m))[i := teardown e (tc_heap (pm_client m) ! i)]\<rparr>\<rparr>)"

inductive_cases pool_stepE: "pool_step m m'"

inductive pool_run :: "tor_client \<Rightarrow> pool_machine \<Rightarrow> bool" for c0 where
  begin_run: "pool_run c0 \<lparr>pm_client = c0, pm_tasks = (\<lambda>t. Idle), pm_built_for = [], pm_given = []\<rparr>"
| step_run: "pool_run c0 m \<Longrightarrow> pool_step m m' \<Longrightarrow> pool_run c0 m'"

section \<open>The invariant\<close>

text \<open>A circuit is accounted for: in the pool, just built by a thread, or about to be closed by one.\<close>

fun task_refs :: "task \<Rightarrow> nat set" where
  "task_refs (Built k i) = {i}"
| "task_refs (Closing cs) = set cs"
| "task_refs _ = {}"

definition held_by_tasks :: "(nat \<Rightarrow> task) \<Rightarrow> nat set" where
  "held_by_tasks tasks = (\<Union>t. task_refs (tasks t))"

definition held :: "pool_machine \<Rightarrow> nat \<Rightarrow> bool" where
  "held m i \<longleftrightarrow> i \<in> snd ` set (tc_circuits (pm_client m)) \<union> held_by_tasks (pm_tasks m)"

definition refs_ok :: "pool_machine \<Rightarrow> bool" where
  "refs_ok m \<longleftrightarrow> length (pm_built_for m) = length (tc_heap (pm_client m))
     \<and> list_all chan_ok (tc_heap (pm_client m))
     \<and> (\<forall>(k, i) \<in> set (tc_circuits (pm_client m)). i < length (pm_built_for m) \<and> pm_built_for m ! i = k)
     \<and> (\<forall>(k, i) \<in> set (pm_given m). i < length (pm_built_for m) \<and> pm_built_for m ! i = k)
     \<and> (\<forall>t k i. pm_tasks m t = Built k i \<longrightarrow> i < length (pm_built_for m) \<and> pm_built_for m ! i = k)
     \<and> (\<forall>t cs. pm_tasks m t = Closing cs \<longrightarrow> (\<forall>i \<in> set cs. i < length (pm_built_for m)))"

definition no_leak :: "pool_machine \<Rightarrow> bool" where
  "no_leak m \<longleftrightarrow> (\<forall>i < length (tc_heap (pm_client m)). \<not> destroyed (pm_client m) i \<longrightarrow> held m i)
     \<and> distinct (map fst (tc_circuits (pm_client m)))
     \<and> (tc_closed (pm_client m) \<longrightarrow> tc_circuits (pm_client m) = [])"

lemma acquire_check_iff:
  "acquire_check k c = (c', Inr r) \<longleftrightarrow> \<not> tc_closed c \<and> c' = c\<lparr>tc_circuits := live_pool c\<rparr> \<and> map_of (live_pool c) k = r"
  by (auto simp: acquire_check_def Let_def)

lemma live_pool_set: "set (live_pool c) = {(k, i) \<in> set (tc_circuits c). \<not> destroyed c i}"
  by (auto simp: live_pool_def)

lemma live_pool_snd: "snd ` set (live_pool c) = {i \<in> snd ` set (tc_circuits c). \<not> destroyed c i}"
  by (force simp: live_pool_set)

lemma live_pool_distinct: "distinct (map fst (tc_circuits c)) \<Longrightarrow> distinct (map fst (live_pool c))"
  by (simp add: live_pool_def distinct_map_filter)

lemma commit_Some:
  assumes "acquire_commit k i c = (c', Some j)"
  shows "(j = i \<and> (\<forall>i'. map_of (tc_circuits c) k = Some i' \<longrightarrow> i' = i \<or> destroyed c i')
       \<and> (c' = c\<lparr>tc_circuits := AList.update k i (tc_circuits c)\<rparr> \<or> c' = c \<and> map_of (tc_circuits c) k = Some i)
     \<or> c' = c \<and> map_of (tc_circuits c) k = Some j) \<and> \<not> tc_closed c"
  using assms by (auto simp: acquire_commit_def pool_commit_def split: if_splits option.splits)

lemma commit_None: "acquire_commit k i c = (c', None) \<Longrightarrow> c' = c \<and> tc_closed c"
  by (auto simp: acquire_commit_def pool_commit_def split: if_splits option.splits)

lemma update_set: "distinct (map fst xs) \<Longrightarrow> set (AList.update k v xs) = insert (k, v) {(k', v') \<in> set xs. k' \<noteq> k}"
proof -
  assume d: "distinct (map fst xs)"
  then have d': "distinct (map fst (AList.update k v xs))" by (simp add: distinct_update)
  have "(k', v') \<in> set (AList.update k v xs) \<longleftrightarrow> (k', v') \<in> insert (k, v) {(k', v') \<in> set xs. k' \<noteq> k}" for k' v'
    unfolding map_of_eq_Some_iff [OF d', symmetric] by (auto simp: update_conv' d)
  then show ?thesis by auto
qed

lemma close_circuit_iff:
  assumes "chan_ok (tc_heap c ! i)"
  obtains c' where "close_circuit i c = (c', Inr ())"
    and "\<exists>w. c' = c\<lparr>tc_heap := (tc_heap c)[i := w]\<rparr> \<and> c_destroyed w \<and> chan_ok w"
proof -
  obtain w where "circuit_close (tc_heap c ! i) = (w, Inr ())" "c_destroyed w"
    using close_succeeds [OF assms] by blast
  moreover have "chan_ok (fst (circuit_close (tc_heap c ! i)))" using assms by (rule chan_ok_close)
  ultimately show ?thesis by (intro that [of "c\<lparr>tc_heap := (tc_heap c)[i := w]\<rparr>"]) (auto simp: close_circuit_def on_circ_def)
qed

lemma chan_ok_teardown: "chan_ok w \<Longrightarrow> chan_ok (teardown e w)"
  by (simp add: chan_ok_def)

text \<open>What a step does to the pool, the circuits and the tasks, told apart by what becomes of the circuits.\<close>

lemma refs_step:
  assumes "refs_ok m" "distinct (map fst (tc_circuits (pm_client m)))" "pool_step m m'"
  shows "refs_ok m'"
  using assms(3)
proof cases
  case (reuse t k c i)
  then have c: "c = (pm_client m)\<lparr>tc_circuits := live_pool (pm_client m)\<rparr>" "(k, i) \<in> set (tc_circuits (pm_client m))"
    by (auto simp: acquire_check_iff live_pool_set dest!: map_of_SomeD)
  then show ?thesis using assms(1) reuse by (auto simp: refs_ok_def live_pool_set)
next
  case (start t k c)
  then show ?thesis using assms(1) by (auto simp: refs_ok_def live_pool_set acquire_check_iff split: if_splits)
next
  case (built t k circuit)
  then show ?thesis using assms(1) by (auto simp: refs_ok_def nth_append less_Suc_eq split: if_splits)
next
  case (failed t k)
  then show ?thesis using assms(1) by (auto simp: refs_ok_def split: if_splits)
next
  case (won t k i c)
  then show ?thesis
    using assms(1) commit_Some [OF won(3)]
    by (auto simp: refs_ok_def update_set [OF assms(2)] split: if_splits)
next
  case (lost t k i c j)
  then show ?thesis using assms(1) commit_Some [OF lost(3)]
    by (auto simp: refs_ok_def split: if_splits dest!: map_of_SomeD)
next
  case (refused t k i c)
  then show ?thesis using assms(1) commit_None [OF refused(3)] by (auto simp: refs_ok_def split: if_splits)
next
  case (renew t c cs)
  then show ?thesis using assms(1) by (fastforce simp: refs_ok_def take_circuits_def split: if_splits)
next
  case (shut_down t c cs channels tunnel hook)
  then show ?thesis using assms(1) by (fastforce simp: refs_ok_def begin_close_def split: if_splits)
next
  case (close_one t i cs c)
  then have "i < length (tc_heap (pm_client m))" using assms(1) by (auto simp: refs_ok_def)
  then have "chan_ok (tc_heap (pm_client m) ! i)" using assms(1) by (auto simp: refs_ok_def list_all_length)
  from close_circuit_iff [OF this] obtain w where "c = (pm_client m)\<lparr>tc_heap := (tc_heap (pm_client m))[i := w]\<rparr>" "chan_ok w"
    using close_one(3) by (metis prod.inject)
  then show ?thesis using assms(1) close_one
    by (auto simp: refs_ok_def list_all_length nth_list_update split: if_splits)
next
  case (close_done t)
  then show ?thesis using assms(1) by (auto simp: refs_ok_def split: if_splits)
next
  case (dies i e)
  then show ?thesis using assms(1)
    by (auto simp: refs_ok_def list_all_length nth_list_update chan_ok_teardown)
qed

text \<open>Every circuit that is alive afterwards was alive before or is new.\<close>

lemma held_new: "i \<in> task_refs x \<Longrightarrow> i \<in> held_by_tasks (tasks(t := x))"
  by (auto simp: held_by_tasks_def intro!: exI [of _ t])

lemma held_kept: "i \<in> held_by_tasks tasks \<Longrightarrow> (i \<in> task_refs (tasks t) \<Longrightarrow> i \<in> task_refs x) \<Longrightarrow> i \<in> held_by_tasks (tasks(t := x))"
proof -
  assume i: "i \<in> held_by_tasks tasks" "i \<in> task_refs (tasks t) \<Longrightarrow> i \<in> task_refs x"
  then obtain t' where t': "i \<in> task_refs (tasks t')" by (auto simp: held_by_tasks_def)
  then have "i \<in> task_refs ((tasks(t := x)) t')" using i(2) by (cases "t' = t") auto
  then show ?thesis unfolding held_by_tasks_def by blast
qed

lemma held_taken:
  assumes "tasks t = Idle"
  shows "snd ` set pool \<union> held_by_tasks tasks \<subseteq> held_by_tasks (tasks(t := Closing (map snd pool)))"
proof
  fix i
  assume "i \<in> snd ` set pool \<union> held_by_tasks tasks"
  then show "i \<in> held_by_tasks (tasks(t := Closing (map snd pool)))"
    using held_new [of i "Closing (map snd pool)"] held_kept [of i tasks t "Closing (map snd pool)"] assms by auto
qed

lemma no_leakI:
  assumes "\<And>i. i < length (tc_heap (pm_client m)) \<Longrightarrow> \<not> destroyed (pm_client m) i \<Longrightarrow> held m i"
    and "distinct (map fst (tc_circuits (pm_client m)))"
    and "tc_closed (pm_client m) \<Longrightarrow> tc_circuits (pm_client m) = []"
  shows "no_leak m"
  using assms by (simp add: no_leak_def)

lemma winner_pooled:
  assumes "no_leak m" "pm_tasks m t = Built k i" "acquire_commit k i (pm_client m) = (c, Some i)"
  shows "no_leak (m\<lparr>pm_client := c, pm_tasks := (pm_tasks m)(t := Idle), pm_given := (k, i) # pm_given m\<rparr>)"
    (is "no_leak ?m")
proof (rule no_leakI)
  note c = commit_Some [OF assms(3)]
  have d: "distinct (map fst (tc_circuits (pm_client m)))" using assms(1) by (simp add: no_leak_def)
  have sub: "snd ` set (tc_circuits (pm_client m)) \<subseteq> snd ` set (tc_circuits c) \<union> {j. destroyed c j} \<and> i \<in> snd ` set (tc_circuits c)"
    using c by (auto simp: update_set [OF d] destroyed_def image_iff d map_of_eq_Some_iff dest!: map_of_SomeD) (force+)
  show "held ?m j" if j: "j < length (tc_heap (pm_client ?m))" "\<not> destroyed (pm_client ?m) j" for j
  proof -
    have "held m j" using assms(1) j c by (auto simp: no_leak_def destroyed_def)
    moreover have "\<not> destroyed c j" using j by simp
    ultimately show ?thesis
      using assms(2) sub held_kept [of j "pm_tasks m" t Idle] by (cases "j = i") (auto simp: held_def)
  qed
  show "distinct (map fst (tc_circuits (pm_client ?m)))" using c d by (auto simp: distinct_update)
  show "tc_circuits (pm_client ?m) = []" if "tc_closed (pm_client ?m)" using that c assms(1) by (auto simp: no_leak_def)
qed

lemma all_taken:
  assumes "no_leak m" "pm_tasks m t = Idle" "tc_circuits c = []" "tc_heap c = tc_heap (pm_client m)"
  shows "no_leak (m\<lparr>pm_client := c, pm_tasks := (pm_tasks m)(t := Closing (map snd (tc_circuits (pm_client m))))\<rparr>)"
    (is "no_leak ?m")
proof (rule no_leakI)
  show "held ?m j" if "j < length (tc_heap (pm_client ?m))" "\<not> destroyed (pm_client ?m) j" for j
  proof -
    have "held m j" using that assms by (simp add: no_leak_def destroyed_def)
    then show ?thesis using held_taken [of "pm_tasks m" t "tc_circuits (pm_client m)"] assms by (auto simp: held_def)
  qed
qed (use assms in simp_all)

lemma one_closed:
  assumes "refs_ok m" "no_leak m" "pm_tasks m t = Closing (i # cs)" "close_circuit i (pm_client m) = (c, Inr ())"
  shows "no_leak (m\<lparr>pm_client := c, pm_tasks := (pm_tasks m)(t := Closing cs)\<rparr>)" (is "no_leak ?m")
proof (rule no_leakI)
  have i: "i < length (tc_heap (pm_client m))" using assms(1,3) by (auto simp: refs_ok_def)
  then have "chan_ok (tc_heap (pm_client m) ! i)" using assms(1) by (auto simp: refs_ok_def list_all_length)
  from close_circuit_iff [OF this] obtain w where
    w: "c = (pm_client m)\<lparr>tc_heap := (tc_heap (pm_client m))[i := w]\<rparr>" "c_destroyed w"
    using assms(4) by (metis prod.inject)
  show "held ?m j" if j: "j < length (tc_heap (pm_client ?m))" "\<not> destroyed (pm_client ?m) j" for j
  proof -
    have ne: "j \<noteq> i" using j w i by (auto simp: destroyed_def)
    then have "held m j" using assms(2) w j by (auto simp: no_leak_def destroyed_def)
    then show ?thesis using assms(3) w ne by (auto simp: held_def intro: held_kept)
  qed
  show "distinct (map fst (tc_circuits (pm_client ?m)))" using w assms(2) by (auto simp: no_leak_def)
  show "tc_circuits (pm_client ?m) = []" if "tc_closed (pm_client ?m)" using that w assms(2) by (auto simp: no_leak_def)
qed

lemma live_step:
  assumes "refs_ok m" "no_leak m" "pool_step m m'"
  shows "no_leak m'"
  using assms(3)
proof cases
  case (reuse t k c i)
  then show ?thesis using assms(2) live_pool_distinct [of "pm_client m"]
    by (auto simp: no_leak_def held_def acquire_check_iff live_pool_snd destroyed_def)
next
  case (start t k c)
  then show ?thesis using assms(2) live_pool_distinct [of "pm_client m"]
    by (auto simp: no_leak_def held_def acquire_check_iff live_pool_snd destroyed_def intro: held_kept)
next
  case (built t k circuit)
  then show ?thesis using assms(2)
    by (auto simp: no_leak_def held_def destroyed_def nth_append less_Suc_eq intro: held_kept held_new)
next
  case (failed t k)
  then show ?thesis using assms(2) by (auto simp: no_leak_def held_def destroyed_def intro: held_kept)
next
  case (won t k i c)
  then show ?thesis using winner_pooled [OF assms(2) won(2,3)] by simp
next
  case (lost t k i c j)
  note c = commit_Some [OF lost(3)]
  then show ?thesis using assms(2) lost by (auto simp: no_leak_def held_def destroyed_def intro: held_kept)
next
  case (refused t k i c)
  then show ?thesis using assms(2) commit_None [OF refused(3)]
    by (auto simp: no_leak_def held_def destroyed_def intro: held_kept)
next
  case (renew t c cs)
  then show ?thesis using all_taken [OF assms(2) renew(2), of c] by (auto simp: take_circuits_def)
next
  case (shut_down t c cs channels tunnel hook)
  then show ?thesis using all_taken [OF assms(2) shut_down(2), of c] by (auto simp: begin_close_def)
next
  case (close_one t i cs c)
  then show ?thesis using one_closed [OF assms(1,2) close_one(2,3)] by simp
next
  case (close_done t)
  then show ?thesis using assms(2) by (auto simp: no_leak_def held_def destroyed_def intro: held_kept)
next
  case (dies i e)
  then show ?thesis using assms(2) by (auto simp: no_leak_def held_def destroyed_def nth_list_update split: if_splits)
qed

lemma run_invariant:
  assumes "pool_run c0 m" "tc_circuits c0 = []" "tc_heap c0 = []"
  shows "refs_ok m \<and> no_leak m"
  using assms(1)
proof induction
  case begin_run
  then show ?case using assms(2,3) by (simp add: refs_ok_def no_leak_def)
next
  case (step_run m m')
  then have "distinct (map fst (tc_circuits (pm_client m)))" by (simp add: no_leak_def)
  with step_run refs_step live_step show ?case by blast
qed

lemma init_fields:
  assumes "TorClient_init directory onion_auth = Inr c0"
  shows "tc_circuits c0 = []" "tc_heap c0 = []" "\<not> tc_closed c0"
  using assms by (auto simp: TorClient_init_def rbind_def split: sum.splits)


definition toy_key :: iso_key where "toy_key = TokenHost 0 ''a''"

definition toy_client :: tor_client where
  "toy_client = \<lparr>tc_onion_auth = [], tc_channels = [], tc_circuits = [], tc_closed = False, tc_tunnel = False,
     tc_tunnel_circuit = None, tc_tunnel_fetch = None, tc_directory = None, tc_heap = [], tc_chans = [],
     tc_selected = [], tc_tick = 0\<rparr>"

definition toy_used :: tor_client where
  "toy_used = toy_client\<lparr>tc_heap := [toy_circ], tc_circuits := [(toy_key, 0)]\<rparr>"

lemma toy_client_init: "TorClient_init None None = Inr toy_client"
  by (simp add: TorClient_init_def validate_onion_auth_def toy_client_def rbind_def)

lemma toy_circ_chan_ok: "chan_ok toy_circ"
  by (simp add: chan_ok_def toy_circ_def Circuit_init_def)

lemma toy_run:
  "pool_run toy_client \<lparr>pm_client = toy_used, pm_tasks = (\<lambda>t. Idle), pm_built_for = [toy_key], pm_given = [(toy_key, 0)]\<rparr>"
proof -
  let ?m0 = "\<lparr>pm_client = toy_client, pm_tasks = (\<lambda>t. Idle), pm_built_for = [], pm_given = []\<rparr>"
  let ?m1 = "?m0\<lparr>pm_client := toy_client, pm_tasks := (pm_tasks ?m0)(0 := Building toy_key)\<rparr>"
  have "pool_run toy_client ?m0" by (rule begin_run)
  moreover have "pool_step ?m0 ?m1"
    by (rule start) (simp_all add: acquire_check_iff live_pool_def toy_client_def)
  ultimately have r1: "pool_run toy_client ?m1" by (rule step_run)
  note r2 = step_run [OF r1 built [of ?m1 0 toy_key toy_circ]]
  have c: "acquire_commit toy_key 0 (toy_client\<lparr>tc_heap := [toy_circ]\<rparr>) = (toy_used, Some 0)"
    by (simp add: acquire_commit_def pool_commit_def toy_client_def toy_used_def)
  have e: "(\<lambda>t::nat. Idle)(0 := Idle) = (\<lambda>t. Idle)" by auto
  show ?thesis
    using step_run [OF r2 won [where t = 0 and k = toy_key and i = 0 and c = toy_used]] toy_circ_chan_ok c
    by (simp add: toy_client_def toy_used_def e)
qed


section \<open>Closing\<close>

definition client_refs_ok :: "tor_client \<Rightarrow> bool" where
  "client_refs_ok st \<longleftrightarrow> list_all chan_ok (tc_heap st)
     \<and> (\<forall>i \<in> snd ` set (tc_circuits st). i < length (tc_heap st))
     \<and> (\<forall>i \<in> snd ` set (tc_channels st). i < length (tc_chans st))
     \<and> (\<forall>i. tc_tunnel_circuit st = Some i \<longrightarrow> i < length (tc_heap st))"

text \<open>Closing some circuits.\<close>

definition closes_to :: "nat set \<Rightarrow> tor_client \<Rightarrow> tor_client \<Rightarrow> bool" where
  "closes_to cs st st' \<longleftrightarrow> (\<exists>heap. st' = st\<lparr>tc_heap := heap\<rparr> \<and> length heap = length (tc_heap st) \<and> list_all chan_ok heap
     \<and> (\<forall>i < length heap. if i \<in> cs then c_destroyed (heap ! i) else heap ! i = tc_heap st ! i))"

lemma close_circuit_closes:
  assumes "list_all chan_ok (tc_heap st)" "i < length (tc_heap st)"
  shows "\<exists>st'. close_circuit i st = (st', Inr ()) \<and> closes_to {i} st st'"
proof -
  have "chan_ok (tc_heap st ! i)" using assms by (simp add: list_all_length)
  then obtain st' w where "close_circuit i st = (st', Inr ())" "st' = st\<lparr>tc_heap := (tc_heap st)[i := w]\<rparr>"
    "c_destroyed w" "chan_ok w" by (metis close_circuit_iff)
  then show ?thesis using assms by (auto simp: closes_to_def list_all_length nth_list_update)
qed

lemma closes_to_trans:
  assumes "closes_to A st st1" "closes_to B st1 st2"
    and "\<And>i. i \<in> A \<Longrightarrow> i \<in> B \<or> True"
  shows "\<exists>heap. st2 = st\<lparr>tc_heap := heap\<rparr> \<and> length heap = length (tc_heap st) \<and> list_all chan_ok heap
     \<and> (\<forall>i < length heap. (i \<in> A \<union> B \<longrightarrow> c_destroyed (heap ! i)) \<and> (i \<notin> A \<union> B \<longrightarrow> heap ! i = tc_heap st ! i))"
proof -
  obtain h1 h2 where h: "st1 = st\<lparr>tc_heap := h1\<rparr>" "length h1 = length (tc_heap st)"
    "\<forall>i < length h1. if i \<in> A then c_destroyed (h1 ! i) else h1 ! i = tc_heap st ! i"
    "st2 = st1\<lparr>tc_heap := h2\<rparr>" "length h2 = length h1" "list_all chan_ok h2"
    "\<forall>i < length h2. if i \<in> B then c_destroyed (h2 ! i) else h2 ! i = h1 ! i"
    using assms(1,2) by (auto simp: closes_to_def)
  then show ?thesis by (intro exI [of _ h2]) (auto split: if_splits)
qed

lemma closes_to_Un: "closes_to A st st1 \<Longrightarrow> closes_to B st1 st2 \<Longrightarrow> closes_to (A \<union> B) st st2"
  using closes_to_trans [of A st st1 B st2] by (auto simp: closes_to_def)

lemma close_circuits_close:
  "list_all chan_ok (tc_heap st) \<Longrightarrow> \<forall>i \<in> set cs. i < length (tc_heap st) \<Longrightarrow>
    \<exists>st'. close_circuits cs st = (st', Inr ()) \<and> closes_to (set cs) st st'"
proof (induction cs arbitrary: st)
  case Nil
  then show ?case by (auto simp: closes_to_def intro!: exI [of _ "tc_heap st"])
next
  case (Cons i cs)
  obtain st1 where s1: "close_circuit i st = (st1, Inr ())" "closes_to {i} st st1"
    using close_circuit_closes Cons.prems by (metis list.set_intros(1))
  then have "list_all chan_ok (tc_heap st1)" "length (tc_heap st1) = length (tc_heap st)" by (auto simp: closes_to_def)
  with Cons obtain st2 where "close_circuits cs st1 = (st2, Inr ())" "closes_to (set cs) st1 st2" by force
  then show ?case using s1 closes_to_Un [OF s1(2)] by auto
qed

lemma close_channels_fields: "fold close_channel cs st = st\<lparr>tc_chans := tc_chans (fold close_channel cs st)\<rparr>
  \<and> length (tc_chans (fold close_channel cs st)) = length (tc_chans st)
  \<and> (\<forall>i < length (tc_chans st). tc_chans (fold close_channel cs st) ! i \<longleftrightarrow> i \<in> set cs \<or> tc_chans st ! i)"
proof (induction cs arbitrary: st)
  case (Cons c cs)
  have "(tc_chans st)[c := True] ! i \<longleftrightarrow> i = c \<or> tc_chans st ! i" if "i < length (tc_chans st)" for i
    using that by (cases "i = c") simp_all
  with Cons.IH [of "close_channel c st"] show ?case
    by (auto simp: close_channel_def)
qed simp

lemma closes_to_fields:
  assumes "closes_to A st st'"
  shows "length (tc_heap st') = length (tc_heap st)" "list_all chan_ok (tc_heap st')"
    "i \<in> A \<Longrightarrow> i < length (tc_heap st) \<Longrightarrow> destroyed st' i" "st' = st\<lparr>tc_heap := tc_heap st'\<rparr>"
  using assms by (auto simp: closes_to_def destroyed_def)

lemma tunnel_close_closes:
  assumes "list_all chan_ok (tc_heap st)" "\<forall>i. tc_tunnel_circuit st = Some i \<longrightarrow> i < length (tc_heap st)"
  shows "\<exists>st'. tunnel_close st = (st', Inr ()) \<and> closes_to (set_option (tc_tunnel_circuit st)) (st\<lparr>tc_tunnel_circuit := None\<rparr>) st'"
proof (cases "tc_tunnel_circuit st")
  case None
  then show ?thesis by (auto simp: tunnel_close_def closes_to_def intro!: exI [of _ "tc_heap st"] assms(1))
next
  case (Some i)
  then have "list_all chan_ok (tc_heap (st\<lparr>tc_tunnel_circuit := None\<rparr>))" "i < length (tc_heap (st\<lparr>tc_tunnel_circuit := None\<rparr>))"
    using assms by simp_all
  from close_circuit_closes [OF this] Some show ?thesis by (simp add: tunnel_close_def)
qed

definition directory_restored :: "nat option \<Rightarrow> live_dir option \<Rightarrow> live_dir option" where
  "directory_restored hook d = (case hook of None \<Rightarrow> d | Some t \<Rightarrow> map_option (restore_dir_tunnel t) d)"

text \<open>Everything \<open>close\<close> does before it turns to the tunnel's circuit.\<close>

lemma close_pools:
  assumes "client_refs_ok st" "\<not> tc_closed st"
  shows "\<exists>st'. client_close st = (if tc_tunnel st then tunnel_close else oreturn ()) st'
    \<and> tc_closed st' \<and> tc_circuits st' = [] \<and> tc_channels st' = []
    \<and> (\<forall>i \<in> snd ` set (tc_circuits st). destroyed st' i)
    \<and> (\<forall>i \<in> snd ` set (tc_channels st). chan_closed st' i)
    \<and> tc_tunnel_circuit st' = tc_tunnel_circuit st
    \<and> tc_directory st' = directory_restored (tc_tunnel_fetch st) (tc_directory st)
    \<and> list_all chan_ok (tc_heap st') \<and> length (tc_heap st') = length (tc_heap st)"
proof -
  obtain st1 circuits channels tunnel hook where b: "begin_close st = (st1, circuits, channels, tunnel, hook)"
    by (metis prod_cases5)
  define st2 where "st2 = st1\<lparr>tc_directory := directory_restored hook (tc_directory st1)\<rparr>"
  define st3 where "st3 = fold close_channel channels st2"
  have f: "tc_closed st1" "tc_circuits st1 = []" "tc_channels st1 = []" "tc_heap st1 = tc_heap st" "tc_chans st1 = tc_chans st"
    "circuits = map snd (tc_circuits st)" "channels = map snd (tc_channels st)" "tunnel = tc_tunnel st"
    "hook = tc_tunnel_fetch st" "tc_tunnel_circuit st1 = tc_tunnel_circuit st" "tc_directory st1 = tc_directory st"
    using b by (auto simp: begin_close_def)
  have f3: "st3 = st2\<lparr>tc_chans := tc_chans st3\<rparr>" "length (tc_chans st3) = length (tc_chans st)"
    "\<forall>i < length (tc_chans st). tc_chans st3 ! i \<longleftrightarrow> i \<in> set channels \<or> tc_chans st ! i"
    using close_channels_fields [of channels st2] f(5) by (simp_all add: st3_def st2_def)
  have h3: "list_all chan_ok (tc_heap st3)" "tc_heap st3 = tc_heap st" "\<forall>i \<in> set circuits. i < length (tc_heap st3)"
    using f3(1) f assms(1) by (auto simp: st2_def client_refs_ok_def dest!: arg_cong [where f = tc_heap and x = st3])
  from close_circuits_close [OF h3(1,3)] obtain st4
    where s4: "close_circuits circuits st3 = (st4, Inr ())" "closes_to (set circuits) st3 st4" by blast
  note c4 = closes_to_fields [OF s4(2)]
  have same: "tc_closed st4" "tc_circuits st4 = []" "tc_channels st4 = []" "tc_chans st4 = tc_chans st3"
    "tc_tunnel_circuit st4 = tc_tunnel_circuit st" "tc_directory st4 = directory_restored hook (tc_directory st)"
    by (subst c4(4), subst f3(1), simp add: st2_def f)+
  have "client_close st = (if tunnel then tunnel_close else oreturn ()) st4"
    using assms(2) b s4(1)
    by (cases hook) (simp_all add: client_close_def st3_def st2_def directory_restored_def obind_def)
  moreover have "destroyed st4 i" if "i \<in> snd ` set (tc_circuits st)" for i
    using c4(3) [of i] that h3(2) f(6) assms(1) by (auto simp: client_refs_ok_def)
  moreover have "chan_closed st4 i" if "i \<in> snd ` set (tc_channels st)" for i
    using that f3(3) f(7) same(4) assms(1) by (auto simp: client_refs_ok_def chan_closed_def)
  ultimately show ?thesis using same c4(1,2) h3(2) f(8,9) by (intro exI [of _ st4]) simp
qed

text \<open>The tunnel's circuit, if there is one.\<close>

lemma close_tunnel:
  assumes "list_all chan_ok (tc_heap st)" "\<forall>i. tc_tunnel_circuit st = Some i \<longrightarrow> i < length (tc_heap st)"
  shows "\<exists>st'. (if b then tunnel_close else oreturn ()) st = (st', Inr ())
    \<and> st' = st\<lparr>tc_tunnel_circuit := tc_tunnel_circuit st', tc_heap := tc_heap st'\<rparr>
    \<and> (\<forall>i < length (tc_heap st). destroyed st i \<longrightarrow> destroyed st' i)
    \<and> (\<forall>i. b \<and> tc_tunnel_circuit st = Some i \<longrightarrow> destroyed st' i)"
proof (cases b)
  case True
  from tunnel_close_closes [OF assms] obtain st' where s: "tunnel_close st = (st', Inr ())"
    "closes_to (set_option (tc_tunnel_circuit st)) (st\<lparr>tc_tunnel_circuit := None\<rparr>) st'" by blast
  note c = closes_to_fields [OF s(2)]
  have "st' = st\<lparr>tc_tunnel_circuit := tc_tunnel_circuit st', tc_heap := tc_heap st'\<rparr>" by (subst c(4), subst (2) c(4)) simp
  moreover have "destroyed st' i" if "i < length (tc_heap st)" "destroyed st i" for i
    using s(2) that by (auto simp: closes_to_def destroyed_def split: if_splits)
  moreover have "destroyed st' i" if "tc_tunnel_circuit st = Some i" for i
    using c(3) [of i] that assms(2) by simp
  ultimately show ?thesis using s(1) True by auto
qed simp



section \<open>Onion services\<close>

text \<open>A directory that stops answering ends the search for the descriptor: its timeout is none of the errors after which the
next directory is tried.\<close>

lemma stalled_directory_ends_the_search:
  "attempt hsdir st = (st', Inl TorReadTimeout) \<Longrightarrow> try_hsdirs attempt (hsdir # hsdirs) st = (st', Inl TorReadTimeout)"
proof -
  have "\<not> catches HSDIR_ERRORS TorReadTimeout" by code_simp
  then show "attempt hsdir st = (st', Inl TorReadTimeout) \<Longrightarrow> ?thesis" by simp
qed

text \<open>A host below an onion address leads to the same service, but its authorization key is looked up under another name.\<close>

lemma subdomain_misses_the_key:
  "address_label ''www.abc.onion'' = address_label ''abc.onion''
    \<and> normalize_onion_host ''abc.onion'' = ''abc'' \<and> normalize_onion_host ''www.abc.onion'' = ''www.abc''"
  by (intro conjI; code_simp)

end
