(* ===== verification/Socks.thy ===== *)
theory Socks
  imports Transport Relay PyText "HOL-Library.Sublist" "HOL-Library.Code_Target_Nat"
begin

text \<open>
  The SOCKS5 proxy (\<open>socks.py\<close>). A connection is the client's socket: what it will deliver, what was sent to
  it, and what its next \<open>sendall\<close> calls answer. The textual forms of IPv6 addresses and of
  internationalized names (\<open>socket.inet_ntop\<close>, the \<open>idna\<close> codec) are parameters, and so is what the Tor
  client answers.
\<close>

record socks_conn =
  sk_in :: "sock_event list"
  sk_out :: bytes
  sk_sends :: "unit res list"  \<comment> \<open>the results of the next sends; then they succeed\<close>
  sk_to_tor :: bytes       \<comment> \<open>what was passed on to the Tor stream\<close>
  sk_open_streams :: int   \<comment> \<open>Tor streams this connection opened and did not close\<close>
  sk_shut :: bool

record name_ops =
  ntop6 :: "bytes \<Rightarrow> string"
  idna_decode :: "bytes \<Rightarrow> string res"

definition SOCKS_VERSION :: byte where "SOCKS_VERSION = 5"
definition NO_AUTH :: byte where "NO_AUTH = 0"
definition CMD_CONNECT :: byte where "CMD_CONNECT = 1"
definition ATYP_IPV4 :: byte where "ATYP_IPV4 = 1"
definition ATYP_DOMAIN :: byte where "ATYP_DOMAIN = 3"
definition ATYP_IPV6 :: byte where "ATYP_IPV6 = 4"

datatype socks_rep = Rep_success | Rep_general_failure | Rep_host_unreachable | Rep_cmd_not_supported | Rep_atyp_not_supported

fun reply_code :: "socks_rep \<Rightarrow> byte" where
  "reply_code Rep_success = 0"
| "reply_code Rep_general_failure = 1"
| "reply_code Rep_host_unreachable = 4"
| "reply_code Rep_cmd_not_supported = 7"
| "reply_code Rep_atyp_not_supported = 8"

section \<open>Reading and answering\<close>

text \<open>The loop of \<open>_recv_exact\<close>; \<open>None\<close> when the peer closes early. An error of the socket is raised as it is.\<close>

function recv_exact_loop :: "nat \<Rightarrow> bytes \<Rightarrow> (sock_event list, exc, bytes option) op" where
  "recv_exact_loop n buf es =
    (if length buf < n then
       case sock_recv (n - length buf) es of
         (es', Inl e) \<Rightarrow> (es', Inl e)
       | (es', Inr chunk) \<Rightarrow> if chunk = [] then (es', Inr None) else recv_exact_loop n (buf @ chunk) es'
     else (es, Inr (Some buf)))"
  by pat_completeness auto
termination
  by (relation "measure (\<lambda>(n, buf, es). n - length buf)") (auto simp flip: length_greater_0_conv)

declare recv_exact_loop.simps [simp del]

definition socks_recv :: "nat \<Rightarrow> (socks_conn, exc, bytes option) op" where
  "socks_recv n c = (let (es, r) = recv_exact_loop n [] (sk_in c) in (c\<lparr>sk_in := es\<rparr>, r))"

definition socks_send :: "bytes \<Rightarrow> (socks_conn, exc, unit) op" where
  "socks_send data c =
    (case sk_sends c of
       Inl e # rest \<Rightarrow> (c\<lparr>sk_sends := rest\<rparr>, Inl e)
     | _ \<Rightarrow> (c\<lparr>sk_sends := tl (sk_sends c), sk_out := sk_out c @ data\<rparr>, Inr ()))"

definition reply_bytes :: "socks_rep \<Rightarrow> bytes" where
  "reply_bytes rep = [SOCKS_VERSION, reply_code rep, 0, ATYP_IPV4, 0, 0, 0, 0, 0, 0]"

definition socks_reply :: "socks_rep \<Rightarrow> (socks_conn, exc, unit) op" where
  "socks_reply rep = socks_send (reply_bytes rep)"

definition ntoa :: "bytes \<Rightarrow> string" where
  "ntoa raw = join_with (CHR ''.'') (map (\<lambda>b. dec_digits (unat b)) raw)"

section \<open>The negotiation\<close>

text \<open>\<open>raw\<close> is \<open>None\<close> or empty: no host.\<close>

definition host_of :: "(bytes \<Rightarrow> string res) \<Rightarrow> bytes option \<Rightarrow> string option res" where
  "host_of f raw =
    (case raw of None \<Rightarrow> Inr None | Some bs \<Rightarrow> if bs = [] then Inr None else rbind (f bs) (\<lambda>h. Inr (Some h)))"

text \<open>The host by address type; \<open>Inr None\<close> of the outer option is an unknown type.\<close>

definition read_host :: "name_ops \<Rightarrow> byte \<Rightarrow> (socks_conn, exc, string option option) op" where
  "read_host N atyp =
    (if atyp = ATYP_IPV4 then
       obind (socks_recv 4) (\<lambda>raw. obind (olift (host_of (\<lambda>bs. Inr (ntoa bs)) raw)) (\<lambda>h. oreturn (Some h)))
     else if atyp = ATYP_IPV6 then
       obind (socks_recv 16) (\<lambda>raw. obind (olift (host_of (\<lambda>bs. Inr (ntop6 N bs)) raw)) (\<lambda>h. oreturn (Some h)))
     else if atyp = ATYP_DOMAIN then
       obind (socks_recv 1) (\<lambda>len.
       obind (case len of None \<Rightarrow> oreturn None | Some l \<Rightarrow> socks_recv (unat (l ! 0))) (\<lambda>raw.
       obind (olift (host_of (idna_decode N) raw)) (\<lambda>h. oreturn (Some h))))
     else oreturn None)"

definition read_target :: "name_ops \<Rightarrow> bytes \<Rightarrow> (socks_conn, exc, (string \<times> int) option) op" where
  "read_target N request =
    obind (read_host N (request ! 3)) (\<lambda>read.
      case read of
        None \<Rightarrow> obind (socks_reply Rep_atyp_not_supported) (\<lambda>_. oreturn None)
      | Some hst \<Rightarrow>
          obind (socks_recv 2) (\<lambda>port_bytes.
            case (hst, port_bytes) of
              (Some h, Some p) \<Rightarrow> oreturn (Some (h, be_int p))
            | _ \<Rightarrow> obind (socks_reply Rep_general_failure) (\<lambda>_. oreturn None)))"

definition negotiate :: "name_ops \<Rightarrow> (socks_conn, exc, (string \<times> int) option) op" where
  "negotiate N =
    obind (socks_recv 2) (\<lambda>greeting.
      case greeting of
        None \<Rightarrow> oreturn None
      | Some g \<Rightarrow>
          if g ! 0 \<noteq> SOCKS_VERSION then oreturn None
          else obind (socks_recv (unat (g ! 1))) (\<lambda>methods.
            if methods = None then oreturn None
            else obind (socks_send [SOCKS_VERSION, NO_AUTH]) (\<lambda>_.
                 obind (socks_recv 4) (\<lambda>request.
                   case request of
                     None \<Rightarrow> oreturn None
                   | Some r \<Rightarrow>
                       if r ! 0 \<noteq> SOCKS_VERSION then oreturn None
                       else if r ! 1 \<noteq> CMD_CONNECT
                       then obind (socks_reply Rep_cmd_not_supported) (\<lambda>_. oreturn None)
                       else read_target N r))))"

section \<open>A connection\<close>

text \<open>
  One direction of the relay: the results of the successive \<open>recv\<close> calls, then EOF, and of the successive
  sends, then success. What was passed on, and how the loop ended.
\<close>

fun pump :: "bytes res list \<Rightarrow> unit res list \<Rightarrow> bytes list \<times> unit res" where
  "pump [] sends = ([], Inr ())"
| "pump (Inl e # reads) sends = ([], Inl e)"
| "pump (Inr data # reads) sends =
    (if data = [] then ([], Inr ())
     else case sends of
       Inl e # _ \<Rightarrow> ([], Inl e)
     | _ \<Rightarrow> map_prod ((#) data) id (pump reads (tl sends)))"

definition RELAY_CHUNK :: nat where
  "RELAY_CHUNK = 65536"

fun event_size :: "sock_event \<Rightarrow> nat" where
  "event_size (Chunk c) = Suc (length c)"
| "event_size SockErr = 1"

lemma sock_recv_smaller:
  "sock_recv n es = (es', Inr d) \<Longrightarrow> d \<noteq> [] \<Longrightarrow> sum_list (map event_size es') < sum_list (map event_size es)"
  by (cases "(n, es)" rule: sock_recv.cases) (auto split: if_split_asm)

text \<open>The results of \<open>client.recv(65536)\<close> until EOF or an error.\<close>

function client_reads :: "sock_event list \<Rightarrow> bytes res list" where
  "client_reads es =
    (case sock_recv RELAY_CHUNK es of
       (es', Inl e) \<Rightarrow> [Inl e]
     | (es', Inr data) \<Rightarrow> if data = [] then [] else Inr data # client_reads es')"
  by pat_completeness auto
termination
  by (relation "measure (\<lambda>es. sum_list (map event_size es))") (auto dest!: sock_recv_smaller [OF sym])

declare client_reads.simps [simp del]

text \<open>
  \<open>_relay\<close>. The thread that reads the client suppresses every error; by the time the other direction ends it
  passed on some number \<open>k\<close> of chunks. The direction to the client ends at EOF or an \<open>OSError\<close>; then
  both ends are closed, whatever happened, errors of that being suppressed.
\<close>

record relay_env =
  rl_progress :: nat
  rl_tor_sends :: "unit res list"
  rl_tor_reads :: "bytes res list"

definition socks_relay :: "relay_env \<Rightarrow> (socks_conn, exc, unit) op" where
  "socks_relay E c =
    (let up = fst (pump (take (rl_progress E) (client_reads (sk_in c))) (rl_tor_sends E));
         (down, r) = pump (rl_tor_reads E) (sk_sends c)
     in (c\<lparr>sk_to_tor := sk_to_tor c @ concat up, sk_out := sk_out c @ concat down,
           sk_open_streams := sk_open_streams c - 1, sk_shut := True\<rparr>,
         rcatch r (catches [OSError]) (\<lambda>_. Inr ())))"

text \<open>\<open>handle\<close>; \<open>connect host port key\<close> is what the connector's \<open>connect_stream\<close> does, the isolation key being the host.\<close>

definition socks_handle ::
  "name_ops \<Rightarrow> (string \<Rightarrow> int \<Rightarrow> string \<times> string \<Rightarrow> unit res) \<Rightarrow> relay_env \<Rightarrow> (socks_conn, exc, unit) op" where
  "socks_handle N connect E =
    obind (negotiate N) (\<lambda>target.
      case target of
        None \<Rightarrow> oreturn ()
      | Some (hst, port) \<Rightarrow>
         (case connect hst port (''socks'', hst) of
            Inl e \<Rightarrow> if catches [Exception] e then socks_reply Rep_host_unreachable else oraise e
          | Inr _ \<Rightarrow>
             (\<lambda>c. obind (socks_reply Rep_success) (\<lambda>_. socks_relay E)
                    (c\<lparr>sk_open_streams := sk_open_streams c + 1\<rparr>))))"

section \<open>The server\<close>

record socks_server =
  sv_listening :: bool
  sv_reuse_address :: bool
  sv_exclusive :: bool
  sv_owns_tor :: bool
  sv_tor_closed :: bool

definition server_bind :: "bool \<Rightarrow> socks_server \<Rightarrow> socks_server" where
  "server_bind windows sv =
    (if windows then sv\<lparr>sv_reuse_address := False, sv_exclusive := True, sv_listening := True\<rparr>
     else sv\<lparr>sv_listening := True\<rparr>)"

definition server_close :: "socks_server \<Rightarrow> socks_server" where
  "server_close sv =
    (let sv1 = sv\<lparr>sv_listening := False\<rparr> in
     if sv_owns_tor sv1 then sv1\<lparr>sv_tor_closed := True\<rparr> else sv1)"

text \<open>\<open>Socks5Server(...)\<close> and \<open>serve\<close>: what binding the address and the serving loop answer are arguments.\<close>

definition new_server :: "bool \<Rightarrow> bool \<Rightarrow> unit res \<Rightarrow> socks_server res" where
  "new_server windows owns bound =
    rbind bound (\<lambda>_. Inr (server_bind windows
      \<lparr>sv_listening = False, sv_reuse_address = True, sv_exclusive = False, sv_owns_tor = owns, sv_tor_closed = False\<rparr>))"

definition serve :: "bool \<Rightarrow> unit option \<Rightarrow> unit res \<Rightarrow> unit res \<Rightarrow> unit res \<Rightarrow> socks_server option \<times> unit res" where
  "serve windows tor bootstrapped bound served =
    (case (case tor of Some t \<Rightarrow> Inr t | None \<Rightarrow> bootstrapped) of
       Inl e \<Rightarrow> (None, Inl e)
     | Inr _ \<Rightarrow>
        (case new_server windows (tor = None) bound of
           Inl e \<Rightarrow> (None, Inl e)
         | Inr sv \<Rightarrow> (Some (server_close sv), served)))"

section \<open>Reading is exact\<close>

lemma recv_exact_loop_ok:
  "n \<le> length (buf @ sock_avail es) \<Longrightarrow> length buf \<le> n \<Longrightarrow>
    \<exists>es'. recv_exact_loop n buf es = (es', Inr (Some (take n (buf @ sock_avail es))))
      \<and> sock_avail es' = drop (n - length buf) (sock_avail es)"
proof (induction n buf es rule: recv_exact_loop.induct)
  case (1 n buf es)
  show ?case
  proof (cases "length buf < n")
    case False
    then show ?thesis using "1.prems" by (simp add: recv_exact_loop.simps [of n buf])
  next
    case True
    with "1.prems" obtain c es1 where es: "es = Chunk c # es1" "c \<noteq> []"
      by (cases es rule: sock_avail.cases) (auto split: if_splits)
    show ?thesis
    proof (cases "length c \<le> n - length buf")
      case c: True
      then have r: "sock_recv (n - length buf) es = (es1, Inr c)" by (simp add: es)
      have "n \<le> length ((buf @ c) @ sock_avail es1)" "length (buf @ c) \<le> n" using "1.prems" es c True by auto
      from "1.IH" [OF True r [symmetric] refl es(2) this] r True es c show ?thesis
        by (simp add: recv_exact_loop.simps [of n buf])
    next
      case False
      then have r: "sock_recv (n - length buf) es = (Chunk (drop (n - length buf) c) # es1, Inr (take (n - length buf) c))"
        by (simp add: es)
      then show ?thesis using False True es
        by (simp add: recv_exact_loop.simps [of n buf] recv_exact_loop.simps [of n "buf @ take (n - length buf) c"] min_def)
    qed
  qed
qed

lemma recv_exact_loop_short:
  "length (buf @ sock_avail es) < n \<Longrightarrow> snd (recv_exact_loop n buf es) \<in> {Inr None, Inl OSError}"
proof (induction n buf es rule: recv_exact_loop.induct)
  case (1 n buf es)
  then have n: "length buf < n" by simp
  show ?case
  proof (cases es rule: sock_avail.cases)
    case (3 c es1)
    show ?thesis
    proof (cases "c = []")
      case True
      with 3 n show ?thesis by (simp add: recv_exact_loop.simps [of n])
    next
      case False
      with "1.prems" 3 have len: "length c \<le> n - length buf" by simp
      then have r: "sock_recv (n - length buf) es = (es1, Inr c)" by (simp add: 3)
      have "length ((buf @ c) @ sock_avail es1) < n" using "1.prems" 3 False by simp
      from "1.IH" [OF n r [symmetric] refl False this] r n False show ?thesis
        by (simp add: recv_exact_loop.simps [of n buf])
    qed
  qed (use n in \<open>simp_all add: recv_exact_loop.simps [of n]\<close>)
qed

definition client_avail :: "socks_conn \<Rightarrow> bytes" where
  "client_avail c = sock_avail (sk_in c)"

text \<open>The connection after it only read.\<close>

definition only_reads :: "socks_conn \<Rightarrow> socks_conn \<Rightarrow> bool" where
  "only_reads c c' \<longleftrightarrow> c' = c\<lparr>sk_in := sk_in c'\<rparr>"

lemma only_reads_trans: "only_reads c c1 \<Longrightarrow> only_reads c1 c2 \<Longrightarrow> only_reads c c2"
  by (cases c; cases c1; cases c2) (simp add: only_reads_def)

lemma only_reads_upd [simp]: "only_reads c (c\<lparr>sk_in := es\<rparr>)"
  by (simp add: only_reads_def)

lemma only_readsD:
  "only_reads c c' \<Longrightarrow> sk_out c' = sk_out c \<and> sk_sends c' = sk_sends c \<and> sk_open_streams c' = sk_open_streams c
    \<and> sk_to_tor c' = sk_to_tor c \<and> sk_shut c' = sk_shut c"
  by (cases c; cases c') (simp add: only_reads_def)

lemma only_reads_cases: "only_reads c c' \<Longrightarrow> \<exists>es. c' = c\<lparr>sk_in := es\<rparr>"
  by (auto simp: only_reads_def)

lemma socks_recv_ok:
  assumes "n \<le> length (client_avail c)"
  shows "\<exists>es. socks_recv n c = (c\<lparr>sk_in := es\<rparr>, Inr (Some (take n (client_avail c)))) \<and> sock_avail es = drop n (client_avail c)"
  using recv_exact_loop_ok [of n "[]" "sk_in c"] assms by (auto simp: socks_recv_def client_avail_def)

lemma socks_recv_short: "length (client_avail c) < n \<Longrightarrow> snd (socks_recv n c) \<in> {Inr None, Inl OSError}"
  using recv_exact_loop_short [of "[]" "sk_in c" n] by (cases "recv_exact_loop n [] (sk_in c)") (auto simp: socks_recv_def client_avail_def)

lemma socks_recv_Some:
  assumes "socks_recv n c = (c', Inr (Some d))"
  shows "length d = n \<and> client_avail c = d @ client_avail c' \<and> only_reads c c'"
proof (cases "n \<le> length (client_avail c)")
  case True
  then show ?thesis using socks_recv_ok [OF True] assms by (auto simp: client_avail_def)
next
  case False
  then show ?thesis using socks_recv_short [of c n] assms by auto
qed

lemma socks_recv_prefix:
  assumes "client_avail c = d @ rest" "length d = n"
  shows "\<exists>c'. socks_recv n c = (c', Inr (Some d)) \<and> client_avail c' = rest \<and> only_reads c c'"
  using socks_recv_ok [of n c] assms by (auto simp: client_avail_def)

lemma socks_recv_same:
  "socks_recv n c = (c', r) \<Longrightarrow> only_reads c c'"
  by (auto simp: socks_recv_def split: prod.splits)

section \<open>The requests that are understood\<close>

datatype socks_addr = V4 bytes | V6 bytes | Domain bytes

fun addr_ok :: "socks_addr \<Rightarrow> bool" where
  "addr_ok (V4 a) = (length a = 4)"
| "addr_ok (V6 a) = (length a = 16)"
| "addr_ok (Domain d) = (d \<noteq> [] \<and> length d < 256)"

fun wire_addr :: "socks_addr \<Rightarrow> bytes" where
  "wire_addr (V4 a) = ATYP_IPV4 # a"
| "wire_addr (V6 a) = ATYP_IPV6 # a"
| "wire_addr (Domain d) = ATYP_DOMAIN # of_nat (length d) # d"

fun addr_host :: "name_ops \<Rightarrow> socks_addr \<Rightarrow> string res" where
  "addr_host N (V4 a) = Inr (ntoa a)"
| "addr_host N (V6 a) = Inr (ntop6 N a)"
| "addr_host N (Domain d) = idna_decode N d"

lemmas atyp_defs = ATYP_IPV4_def ATYP_IPV6_def ATYP_DOMAIN_def

lemma read_host_parses:
  assumes "addr_ok a" "addr_host N a = Inr h" "client_avail c = tl (wire_addr a) @ rest"
  shows "\<exists>c'. read_host N (hd (wire_addr a)) c = (c', Inr (Some (Some h))) \<and> client_avail c' = rest
    \<and> only_reads c c'"
proof (cases a)
  case (V4 x)
  then obtain c1 where "socks_recv 4 c = (c1, Inr (Some x))" "client_avail c1 = rest" "only_reads c c1"
    using socks_recv_prefix [of c x rest 4] assms by auto
  then show ?thesis using V4 assms by (auto simp: read_host_def host_of_def obind_def atyp_defs)
next
  case (V6 x)
  then obtain c1 where "socks_recv 16 c = (c1, Inr (Some x))" "client_avail c1 = rest" "only_reads c c1"
    using socks_recv_prefix [of c x rest 16] assms by auto
  then show ?thesis using V6 assms by (auto simp: read_host_def host_of_def obind_def atyp_defs)
next
  case (Domain x)
  then obtain c1 where 1: "socks_recv 1 c = (c1, Inr (Some [of_nat (length x)]))" "client_avail c1 = x @ rest"
    "only_reads c c1"
    using socks_recv_prefix [of c "[of_nat (length x)]" "x @ rest" 1] assms by auto
  then obtain c2 where 2: "socks_recv (length x) c1 = (c2, Inr (Some x))" "client_avail c2 = rest"
    "only_reads c1 c2"
    using socks_recv_prefix [of c1 x rest "length x"] by auto
  have "only_reads c c2" by (rule only_reads_trans [OF 1(3) 2(3)])
  then show ?thesis using 1 2 Domain assms by (auto simp: read_host_def host_of_def obind_def atyp_defs)
qed

lemma host_of_Some: "host_of f raw = Inr (Some h) \<longleftrightarrow> (\<exists>bs. raw = Some bs \<and> bs \<noteq> [] \<and> f bs = Inr h)"
  by (cases raw) (auto simp: host_of_def)

lemma read_host_cases:
  assumes "read_host N t c = (c', Inr (Some (Some h)))"
  obtains (V4) x where "t = ATYP_IPV4" "socks_recv 4 c = (c', Inr (Some x))" "h = ntoa x"
    | (V6) x where "t = ATYP_IPV6" "socks_recv 16 c = (c', Inr (Some x))" "h = ntop6 N x"
    | (Domain) c1 l x where "t = ATYP_DOMAIN" "socks_recv 1 c = (c1, Inr (Some l))"
        "socks_recv (unat (l ! 0)) c1 = (c', Inr (Some x))" "x \<noteq> []" "idna_decode N x = Inr h"
proof -
  consider "t = ATYP_IPV4" | "t = ATYP_IPV6" "t \<noteq> ATYP_IPV4" | "t = ATYP_DOMAIN" "t \<noteq> ATYP_IPV4" "t \<noteq> ATYP_IPV6"
    using assms by (auto simp: read_host_def split: if_splits)
  then show thesis
  proof cases
    case 1
    then show thesis using assms V4 by (simp add: read_host_def obind_Inr_iff host_of_Some) blast
  next
    case 2
    then show thesis using assms V6 by (simp add: read_host_def obind_Inr_iff host_of_Some) blast
  next
    case 3
    then show thesis using assms Domain
      by (simp add: read_host_def obind_Inr_iff host_of_Some)
        (metis (no_types, lifting) option.case_eq_if option.collapse oreturn_def prod.inject sum.inject(2) option.distinct(1))
  qed
qed

lemma read_host_sound:
  assumes "read_host N t c = (c', Inr (Some (Some h)))"
  shows "\<exists>a. addr_ok a \<and> addr_host N a = Inr h \<and> t = hd (wire_addr a)
    \<and> client_avail c = tl (wire_addr a) @ client_avail c' \<and> only_reads c c'"
  using assms
proof (cases rule: read_host_cases)
  case (V4 x)
  then show ?thesis using socks_recv_Some [OF V4(2)] by (intro exI [of _ "V4 x"]) auto
next
  case (V6 x)
  then show ?thesis using socks_recv_Some [OF V6(2)] by (intro exI [of _ "V6 x"]) auto
next
  case (Domain c1 l x)
  note 1 = socks_recv_Some [OF Domain(2)] and 2 = socks_recv_Some [OF Domain(3)]
  obtain b where l: "l = [b]" using 1 by (auto simp: length_Suc_conv)
  have lx: "length x = unat b" using 2 l by simp
  have "only_reads c c'" using 1 2 by (intro only_reads_trans [of c c1 c']) simp_all
  moreover have "client_avail c = b # x @ client_avail c'" using 1 2 l by simp
  moreover have "length x < 256" using lx unat_byte_bound [of b] by simp
  moreover have "of_nat (length x) = b" using lx by simp
  ultimately show ?thesis using Domain by (intro exI [of _ "Domain x"]) auto
qed

definition request_bytes :: "bytes \<Rightarrow> byte \<Rightarrow> socks_addr \<Rightarrow> bytes \<Rightarrow> bytes" where
  "request_bytes methods rsv a port =
    [SOCKS_VERSION, of_nat (length methods)] @ methods @ [SOCKS_VERSION, CMD_CONNECT, rsv] @ wire_addr a @ port"

lemma wire_addr_hd: "wire_addr a = hd (wire_addr a) # tl (wire_addr a)"
  by (cases a) simp_all

definition send_ok :: "socks_conn \<Rightarrow> bool" where
  "send_ok c \<longleftrightarrow> (case sk_sends c of Inl e # rest \<Rightarrow> False | _ \<Rightarrow> True)"

lemma socks_send_ok:
  "send_ok c \<Longrightarrow> socks_send d c = (c\<lparr>sk_sends := tl (sk_sends c), sk_out := sk_out c @ d\<rparr>, Inr ())"
  by (auto simp: socks_send_def send_ok_def split: list.splits sum.splits)

lemma socks_send_Inr:
  "socks_send d c = (c', Inr u) \<longleftrightarrow> send_ok c \<and> c' = c\<lparr>sk_sends := tl (sk_sends c), sk_out := sk_out c @ d\<rparr>"
  by (auto simp: socks_send_def send_ok_def split: list.splits sum.splits)

lemma negotiate_parses:
  assumes "length methods < 256" "addr_ok a" "addr_host N a = Inr h" "length port = 2" "send_ok c"
    and av: "client_avail c = request_bytes methods rsv a port @ rest"
  shows "\<exists>c'. negotiate N c = (c', Inr (Some (h, be_int port))) \<and> client_avail c' = rest
    \<and> c' = c\<lparr>sk_in := sk_in c', sk_sends := tl (sk_sends c), sk_out := sk_out c @ [SOCKS_VERSION, NO_AUTH]\<rparr>"
proof -
  let ?r = "[SOCKS_VERSION, CMD_CONNECT, rsv, hd (wire_addr a)]"
  obtain c1 where 1: "socks_recv 2 c = (c1, Inr (Some [SOCKS_VERSION, of_nat (length methods)]))"
    "client_avail c1 = methods @ ?r @ tl (wire_addr a) @ port @ rest" "only_reads c c1"
    using socks_recv_prefix [of c "[SOCKS_VERSION, of_nat (length methods)]" _ 2] av wire_addr_hd [of a]
    by (auto simp: request_bytes_def)
  obtain c2 where 2: "socks_recv (length methods) c1 = (c2, Inr (Some methods))"
    "client_avail c2 = ?r @ tl (wire_addr a) @ port @ rest" "only_reads c1 c2"
    using socks_recv_prefix [OF 1(2) refl] by auto
  obtain c3 where c3: "c3 = c2\<lparr>sk_sends := tl (sk_sends c2), sk_out := sk_out c2 @ [SOCKS_VERSION, NO_AUTH]\<rparr>" by blast
  have s2: "send_ok c2"
    using assms(5) only_readsD [OF 1(3)] only_readsD [OF 2(3)] by (simp add: send_ok_def)
  obtain c4 where 4: "socks_recv 4 c3 = (c4, Inr (Some ?r))"
    "client_avail c4 = tl (wire_addr a) @ port @ rest" "only_reads c3 c4"
    using socks_recv_prefix [of c3 ?r "tl (wire_addr a) @ port @ rest" 4] 2(2) by (auto simp: c3 client_avail_def)
  obtain c5 where 5: "read_host N (hd (wire_addr a)) c4 = (c5, Inr (Some (Some h)))" "client_avail c5 = port @ rest"
    "only_reads c4 c5"
    using read_host_parses [OF assms(2,3) 4(2)] by auto
  obtain c6 where 6: "socks_recv 2 c5 = (c6, Inr (Some port))" "client_avail c6 = rest" "only_reads c5 c6"
    using socks_recv_prefix [OF 5(2) assms(4)] by auto
  have "c6 = c\<lparr>sk_in := sk_in c6, sk_sends := tl (sk_sends c), sk_out := sk_out c @ [SOCKS_VERSION, NO_AUTH]\<rparr>"
  proof -
    obtain i1 i2 i4 i5 i6 where "c1 = c\<lparr>sk_in := i1\<rparr>" "c2 = c1\<lparr>sk_in := i2\<rparr>" "c4 = c3\<lparr>sk_in := i4\<rparr>"
      "c5 = c4\<lparr>sk_in := i5\<rparr>" "c6 = c5\<lparr>sk_in := i6\<rparr>" using only_reads_cases 1(3) 2(3) 4(3) 5(3) 6(3) by metis
    then show ?thesis by (simp add: c3)
  qed
  moreover have "unat (of_nat (length methods) :: byte) = length methods" using assms(1) by simp
  ultimately show ?thesis
    using 1(1) 2(1) 4(1) 5(1) 6 socks_send_ok [OF s2]
    by (simp add: negotiate_def read_target_def obind_def flip: c3)
qed


lemma read_target_sound:
  assumes "read_target N r c = (c', Inr (Some (h, p)))"
  shows "\<exists>a port. addr_ok a \<and> addr_host N a = Inr h \<and> r ! 3 = hd (wire_addr a) \<and> length port = 2 \<and> p = be_int port
    \<and> client_avail c = tl (wire_addr a) @ port @ client_avail c' \<and> only_reads c c'"
proof -
  obtain c1 port where 1: "read_host N (r ! 3) c = (c1, Inr (Some (Some h)))"
    and 2: "socks_recv 2 c1 = (c', Inr (Some port))" and p: "p = be_int port"
    using assms by (auto simp: read_target_def obind_Inr_iff split: option.split_asm)
  show ?thesis using read_host_sound [OF 1] socks_recv_Some [OF 2] p only_reads_trans by fastforce
qed

lemma obind_Some_iff:
  "obind p (\<lambda>x. case x of None \<Rightarrow> oreturn None | Some a \<Rightarrow> f a) s = (s', Inr (Some b))
    \<longleftrightarrow> (\<exists>t a. p s = (t, Inr (Some a)) \<and> f a t = (s', Inr (Some b)))"
  "obind p (\<lambda>x. if x = None then oreturn None else g) s = (s', Inr (Some b))
    \<longleftrightarrow> (\<exists>t a. p s = (t, Inr (Some a)) \<and> g t = (s', Inr (Some b)))"
  "(if c then oreturn None else g) s = (s', Inr (Some b)) \<longleftrightarrow> \<not> c \<and> g s = (s', Inr (Some b))"
  "(if c then obind q (\<lambda>_. oreturn None) else g) s = (s', Inr (Some b)) \<longleftrightarrow> \<not> c \<and> g s = (s', Inr (Some b))"
  by (auto simp: obind_Inr_iff split: option.splits; blast)+

lemma negotiate_sound:
  assumes "negotiate N c = (c', Inr (Some (h, p)))"
  shows "send_ok c \<and> (\<exists>methods rsv a port. length methods < 256 \<and> addr_ok a \<and> addr_host N a = Inr h \<and> length port = 2
    \<and> p = be_int port \<and> client_avail c = request_bytes methods rsv a port @ client_avail c')"
proof -
  obtain c1 g c2 m c3 c4 r where
    1: "socks_recv 2 c = (c1, Inr (Some g))" "g ! 0 = SOCKS_VERSION" and
    2: "socks_recv (unat (g ! 1)) c1 = (c2, Inr (Some m))" and
    3: "socks_send [SOCKS_VERSION, NO_AUTH] c2 = (c3, Inr ())" and
    4: "socks_recv 4 c3 = (c4, Inr (Some r))" "r ! 0 = SOCKS_VERSION" "r ! 1 = CMD_CONNECT" and
    5: "read_target N r c4 = (c', Inr (Some (h, p)))"
    using assms unfolding negotiate_def by (simp only: obind_Some_iff obind_Inr_iff [of "socks_send _"]) auto
  obtain g1 where g: "g = [SOCKS_VERSION, g1]"
    using socks_recv_Some [OF 1(1)] 1(2) by (auto simp: length_Suc_conv numeral_eq_Suc)
  have m: "length m = unat g1" using socks_recv_Some [OF 2] g by simp
  obtain rsv t where r: "r = [SOCKS_VERSION, CMD_CONNECT, rsv, t]"
    using socks_recv_Some [OF 4(1)] 4(2,3) by (auto simp: length_Suc_conv numeral_eq_Suc)
  obtain a port where a: "addr_ok a" "addr_host N a = Inr h" "t = hd (wire_addr a)" "length port = 2" "p = be_int port"
    "client_avail c4 = tl (wire_addr a) @ port @ client_avail c'"
    using read_target_sound [OF 5] r by auto
  have "client_avail c3 = client_avail c2" "send_ok c2" using 3 by (auto simp: socks_send_Inr client_avail_def)
  moreover have "send_ok c = send_ok c2"
    using socks_recv_Some [OF 1(1)] socks_recv_Some [OF 2] by (auto simp: send_ok_def dest!: only_readsD)
  moreover have "client_avail c2 = r @ client_avail c4"
    using socks_recv_Some [OF 4(1)] \<open>client_avail c3 = client_avail c2\<close> by simp
  ultimately have "send_ok c" "client_avail c = g @ m @ r @ client_avail c4"
    using socks_recv_Some [OF 1(1)] socks_recv_Some [OF 2] by simp_all
  moreover have "r @ client_avail c4 = [SOCKS_VERSION, CMD_CONNECT, rsv] @ wire_addr a @ port @ client_avail c'"
    by (subst wire_addr_hd) (simp add: r a(3,6))
  moreover have "length m < 256" "of_nat (length m) = g1" using m unat_byte_bound [of g1] by simp_all
  ultimately show ?thesis
    using a g by (intro conjI exI [of _ m] exI [of _ rsv] exI [of _ a] exI [of _ port]) (auto simp: request_bytes_def)
qed

text \<open>C32: the proxy understands exactly the CONNECT requests of RFC 1928, however the client's bytes are cut: a target
comes out of the negotiation exactly when what the client sends starts with a greeting of version 5 with
its methods and a CONNECT request for an IPv4, IPv6 or named host, and it is that host and port; the bytes
after the request stay for the tunnel.\<close>

theorem negotiation_is_exact:
  "(\<exists>c'. negotiate N c = (c', Inr (Some (h, p))) \<and> client_avail c' = rest) \<longleftrightarrow>
    send_ok c \<and> (\<exists>methods rsv a port. length methods < 256 \<and> addr_ok a \<and> addr_host N a = Inr h \<and> length port = 2
      \<and> p = be_int port \<and> client_avail c = request_bytes methods rsv a port @ rest)"
  using negotiate_sound [of N c _ h p] negotiate_parses [of _ _ N h _ c _ rest] by blast


definition toy_names :: name_ops where
  "toy_names = \<lparr>ntop6 = (\<lambda>bs. ''::''), idna_decode = (\<lambda>bs. Inr (map (\<lambda>b. char_of (unat b)) bs))\<rparr>"

definition example_conn :: socks_conn where
  "example_conn = \<lparr>sk_in = [Chunk [5], Chunk [2, 0, 2, 5, 1], Chunk [0, 3, 4, 97, 46], Chunk [105, 111, 0], Chunk [80, 71, 69],
     Chunk [84]], sk_out = [], sk_sends = [], sk_to_tor = [], sk_open_streams = 0, sk_shut = False\<rparr>"

lemma example_request:
  "client_avail example_conn = request_bytes [0, 2] 0 (Domain [97, 46, 105, 111]) [0, 80] @ [71, 69, 84]"
  by (simp add: client_avail_def example_conn_def request_bytes_def SOCKS_VERSION_def CMD_CONNECT_def ATYP_DOMAIN_def)

theorem negotiation_is_exact_witness:
  "\<exists>c'. negotiate toy_names example_conn = (c', Inr (Some (''a.io'', 80))) \<and> client_avail c' = [71, 69, 84]"
proof (rule iffD2 [OF negotiation_is_exact], intro conjI exI)
  show "send_ok example_conn" by (simp add: send_ok_def example_conn_def)
  show "client_avail example_conn = request_bytes [0, 2] 0 (Domain [97, 46, 105, 111]) [0, 80] @ [71, 69, 84]"
    by (rule example_request)
  show "addr_host toy_names (Domain [97, 46, 105, 111]) = Inr ''a.io''" by code_simp
qed (simp_all add: be_int_def)

section \<open>What a connection does\<close>

text \<open>The bytes a reader delivers before EOF or an error.\<close>

definition delivered :: "bytes res list \<Rightarrow> bytes" where
  "delivered rs = concat (fst (pump rs []))"

lemma delivered_simps [simp]:
  "delivered [] = []"
  "delivered (Inl e # rs) = []"
  "delivered (Inr d # rs) = (if d = [] then [] else d @ delivered rs)"
  by (simp_all add: delivered_def split: prod.splits)

lemma pump_prefix: "prefix (concat (fst (pump (take k rs) sends))) (delivered rs)"
proof (induction rs sends arbitrary: k rule: pump.induct)
  case (3 d rs sends)
  show ?case
  proof (cases "k = 0 \<or> d = [] \<or> (\<exists>e rest. sends = Inl e # rest)")
    case True
    then show ?thesis by (cases k) auto
  next
    case False
    then obtain n where "k = Suc n" by (cases k) auto
    then show ?thesis
      using False 3 by (cases sends) (auto split: sum.splits)
  qed
qed (simp_all add: take_Cons' )

lemma delivered_client_reads: "delivered (client_reads es) = sock_avail es"
proof (induction es rule: client_reads.induct)
  case (1 es)
  show ?case
  proof (cases es rule: sock_avail.cases)
    case (3 c es1)
    show ?thesis
    proof (cases "length c \<le> RELAY_CHUNK")
      case True
      then show ?thesis using 3 1 by (auto simp: client_reads.simps [of "Chunk c # es1"])
    next
      case False
      then have "take RELAY_CHUNK c \<noteq> []" "c \<noteq> []" by (auto simp: RELAY_CHUNK_def)
      then show ?thesis
        using 3 1 False by (simp add: client_reads.simps [of "Chunk c # es1"] del: take_eq_Nil)
    qed
  qed (simp_all add: client_reads.simps [of "[]"] client_reads.simps [of "SockErr # _"])
qed



text \<open>Two ways a connection is left without its reply or with its stream: a name the codec refuses raises out of the
negotiation unanswered, and a client gone before the success reply leaves the Tor stream open.\<close>

definition no_names :: name_ops where
  "no_names = \<lparr>ntop6 = (\<lambda>bs. []), idna_decode = (\<lambda>bs. Inl UnicodeError)\<rparr>"

lemma bad_name_is_not_answered:
  "socks_handle no_names (\<lambda>h p k. Inr ()) E example_conn = (c', r) \<Longrightarrow> r = Inl UnicodeError \<and> sk_out c' = [5, 0]"
proof -
  have "map_prod sk_out id (negotiate no_names example_conn) = ([5, 0], Inl UnicodeError)" by code_simp
  then show "socks_handle no_names (\<lambda>h p k. Inr ()) E example_conn = (c', r) \<Longrightarrow> r = Inl UnicodeError \<and> sk_out c' = [5, 0]"
    by (cases "negotiate no_names example_conn") (auto simp: socks_handle_def)
qed

lemma stream_is_left_when_the_client_is_gone:
  "map_prod sk_open_streams id (socks_handle toy_names (\<lambda>h p k. Inr ())
     \<lparr>rl_progress = 0, rl_tor_sends = [], rl_tor_reads = []\<rparr> (example_conn\<lparr>sk_sends := [Inr (), Inl OSError]\<rparr>))
   = (1, Inl OSError)"
  by code_simp

end
