(* ===== verification/TlsSocket.thy ===== *)
theory TlsSocket
  imports StreamOps
begin

text \<open>
  TLS over a Tor stream (\<open>_http/tlssocket.py\<close>) and the socket facade it runs on (\<open>_http/streamsocket.py\<close>). The
  TLS engine behind \<open>ssl.SSLObject\<close> is an argument: what one call of it does with the bytes waiting in the
  incoming BIO, and what it leaves in the outgoing one. The socket below is an argument too, since the code
  takes any. The three loops need not end, so they are partial functions; \<open>tls_calls_return\<close> shows when they do.
\<close>

section \<open>Sockets\<close>

record 's sock_ops =
  so_recv :: "nat \<Rightarrow> ('s, exc, bytes) op"
  so_sendall :: "bytes \<Rightarrow> ('s, exc, unit) op"
  so_close :: "('s, exc, unit) op"

text \<open>\<open>TorStreamSocket\<close>: the stream number \<open>r\<close> of a circuit, its waits filled by \<open>env\<close>. Timeouts are left out.\<close>

definition TorStreamSocket :: "prims \<Rightarrow> (nat \<Rightarrow> bytes) \<Rightarrow> nat \<Rightarrow> (circ \<Rightarrow> circ) \<Rightarrow> circ sock_ops" where
  "TorStreamSocket P urandom r env =
    \<lparr>so_recv = (\<lambda>bufsize. stream_recv P urandom r bufsize env),
     so_sendall = stream_send P urandom r env,
     so_close = stream_close P urandom r\<rparr>"

text \<open>\<open>StreamReader.readinto\<close>: the buffer afterwards and the count.\<close>

definition readinto :: "'s sock_ops \<Rightarrow> bytes \<Rightarrow> ('s, exc, bytes \<times> nat) op" where
  "readinto S buffer =
    obind (so_recv S (length buffer)) (\<lambda>data.
      if data = [] then oreturn (buffer, 0)
      else oreturn (data @ drop (length data) buffer, length data))"

text \<open>\<open>makefile\<close> of both sockets: whether the reader it returns is a text one.\<close>

definition makefile :: "string \<Rightarrow> bool res" where
  "makefile mode =
    (if CHR ''w'' \<in> set mode \<or> CHR ''a'' \<in> set mode then Inl ValueError else Inr (CHR ''b'' \<notin> set mode))"

section \<open>The TLS engine and its buffers\<close>

text \<open>What \<open>ssl\<close> reports of a call: a result, \<open>SSLWantReadError\<close>, \<open>SSLZeroReturnError\<close>, \<open>SSLEOFError\<close>, another \<open>SSLError\<close>.\<close>

datatype 'a tls_outcome = Finished 'a | WantRead | ZeroReturn | EndOfFile | Failed

text \<open>A call gets the engine's state, the incoming bytes and whether they have ended, and leaves a state, the bytes it
did not take and the bytes it puts out.\<close>

type_synonym ('t, 'a) engine_call = "'t \<Rightarrow> bytes \<Rightarrow> bool \<Rightarrow> ('t \<times> bytes \<times> bytes) \<times> 'a tls_outcome"

record 't tls_engine =
  eng_handshake :: "('t, unit) engine_call"
  eng_write :: "bytes \<Rightarrow> ('t, nat) engine_call"
  eng_read :: "nat \<Rightarrow> ('t, bytes) engine_call"

record ('t, 's) tls_sock =
  ts_tls :: 't
  ts_incoming :: bytes
  ts_incoming_eof :: bool
  ts_outgoing :: bytes
  ts_sock :: 's

definition CHUNK :: nat where "CHUNK = 65536"

definition run_engine :: "('t, 'a) engine_call \<Rightarrow> ('t, 's) tls_sock \<Rightarrow> ('t, 's) tls_sock \<times> 'a tls_outcome" where
  "run_engine f st =
    (case f (ts_tls st) (ts_incoming st) (ts_incoming_eof st) of
       ((t, rest, out), r) \<Rightarrow>
         (st\<lparr>ts_tls := t, ts_incoming := rest, ts_outgoing := ts_outgoing st @ out\<rparr>, r))"

definition on_sock :: "('s, exc, 'a) op \<Rightarrow> (('t, 's) tls_sock, exc, 'a) op" where
  "on_sock p st = (case p (ts_sock st) of (s, r) \<Rightarrow> (st\<lparr>ts_sock := s\<rparr>, r))"

text \<open>\<open>MemoryBIO.write\<close> raises once the end has been written.\<close>

definition bio_write :: "bytes \<Rightarrow> (('t, 's) tls_sock, exc, unit) op" where
  "bio_write data st =
    (if ts_incoming_eof st then (st, Inl SSLError) else (st\<lparr>ts_incoming := ts_incoming st @ data\<rparr>, Inr ()))"

definition tls_flush :: "'s sock_ops \<Rightarrow> (('t, 's) tls_sock, exc, unit) op" where
  "tls_flush S st =
    (let data = ts_outgoing st; st1 = st\<lparr>ts_outgoing := []\<rparr> in
     if data \<noteq> [] then on_sock (so_sendall S data) st1 else (st1, Inr ()))"

definition tls_feed :: "'s sock_ops \<Rightarrow> (('t, 's) tls_sock, exc, unit) op" where
  "tls_feed S =
    obind (on_sock (so_recv S CHUNK)) (\<lambda>data.
      if data \<noteq> [] then bio_write data else (\<lambda>st. (st\<lparr>ts_incoming_eof := True\<rparr>, Inr ())))"

text \<open>The handler of \<open>SSLWantReadError\<close>.\<close>

definition exchange :: "'s sock_ops \<Rightarrow> (('t, 's) tls_sock, exc, unit) op" where
  "exchange S = obind (tls_flush S) (\<lambda>_. tls_feed S)"

text \<open>An \<open>ssl.SSLError\<close> becomes a \<open>TorTLSError\<close>.\<close>

definition typed :: "exc \<Rightarrow> exc" where
  "typed e = (if catches [SSLError] e then TorTLSError else e)"

section \<open>The loops\<close>

partial_function (option) tls_handshake ::
  "'t tls_engine \<Rightarrow> 's sock_ops \<Rightarrow> ('t, 's) tls_sock \<Rightarrow> (('t, 's) tls_sock \<times> unit res) option" where
  "tls_handshake E S st =
    (case run_engine (eng_handshake E) st of (st1, r) \<Rightarrow>
     (case r of
        Finished _ \<Rightarrow> (case tls_flush S st1 of (st2, Inr _) \<Rightarrow> Some (st2, Inr ()) | (st2, Inl e) \<Rightarrow> Some (st2, Inl (typed e)))
      | WantRead \<Rightarrow>
          (case exchange S st1 of
             (st2, q) \<Rightarrow> (case q of Inr _ \<Rightarrow> tls_handshake E S st2 | Inl e \<Rightarrow> Some (st2, Inl e)))
      | ZeroReturn \<Rightarrow> Some (st1, Inl TorTLSError)
      | EndOfFile \<Rightarrow> Some (st1, Inl TorTLSError)
      | Failed \<Rightarrow> Some (st1, Inl TorTLSError)))"

partial_function (option) sendall_from ::
  "'t tls_engine \<Rightarrow> 's sock_ops \<Rightarrow> bytes \<Rightarrow> nat \<Rightarrow> ('t, 's) tls_sock \<Rightarrow> (('t, 's) tls_sock \<times> unit res) option" where
  "sendall_from E S data offset st =
    (if \<not> offset < length data then Some (st, Inr ())
     else case run_engine (eng_write E (drop offset data)) st of (st1, r) \<Rightarrow>
     (case r of
        Finished n \<Rightarrow>
          (case tls_flush S st1 of
             (st2, q) \<Rightarrow> (case q of Inr _ \<Rightarrow> sendall_from E S data (offset + n) st2 | Inl e \<Rightarrow> Some (st2, Inl (typed e))))
      | WantRead \<Rightarrow>
          (case exchange S st1 of
             (st2, q) \<Rightarrow> (case q of Inr _ \<Rightarrow> sendall_from E S data offset st2 | Inl e \<Rightarrow> Some (st2, Inl e)))
      | ZeroReturn \<Rightarrow> Some (st1, Inl TorTLSError)
      | EndOfFile \<Rightarrow> Some (st1, Inl TorTLSError)
      | Failed \<Rightarrow> Some (st1, Inl TorTLSError)))"

definition tls_sendall ::
  "'t tls_engine \<Rightarrow> 's sock_ops \<Rightarrow> bytes \<Rightarrow> ('t, 's) tls_sock \<Rightarrow> (('t, 's) tls_sock \<times> unit res) option" where
  "tls_sendall E S data = sendall_from E S data 0"

partial_function (option) tls_recv ::
  "'t tls_engine \<Rightarrow> 's sock_ops \<Rightarrow> nat \<Rightarrow> ('t, 's) tls_sock \<Rightarrow> (('t, 's) tls_sock \<times> bytes res) option" where
  "tls_recv E S bufsize st =
    (case run_engine (eng_read E bufsize) st of (st1, r) \<Rightarrow>
     (case r of
        Finished data \<Rightarrow> Some (st1, Inr data)
      | WantRead \<Rightarrow>
          (case exchange S st1 of
             (st2, q) \<Rightarrow> (case q of Inr _ \<Rightarrow> tls_recv E S bufsize st2 | Inl e \<Rightarrow> Some (st2, Inl e)))
      | ZeroReturn \<Rightarrow> Some (st1, Inr [])
      | EndOfFile \<Rightarrow> Some (st1, Inr [])
      | Failed \<Rightarrow> Some (st1, Inl SSLError)))"

text \<open>\<open>TlsStreamSocket(context, sock, ...)\<close>, the engine fresh from \<open>wrap_bio\<close>.\<close>

definition TlsStreamSocket ::
  "'t tls_engine \<Rightarrow> 's sock_ops \<Rightarrow> 't \<Rightarrow> 's \<Rightarrow> (('t, 's) tls_sock \<times> unit res) option" where
  "TlsStreamSocket E S tls sock =
    tls_handshake E S \<lparr>ts_tls = tls, ts_incoming = [], ts_incoming_eof = False, ts_outgoing = [], ts_sock = sock\<rparr>"

definition tls_close :: "'s sock_ops \<Rightarrow> (('t, 's) tls_sock, exc, unit) op" where
  "tls_close S = on_sock (so_close S)"

section \<open>Nothing is lost\<close>

text \<open>The socket that notes what was written to it and what it returned.\<close>

record 's log_sock =
  lg_sock :: 's
  lg_written :: bytes
  lg_received :: bytes

definition logged :: "'s sock_ops \<Rightarrow> 's log_sock sock_ops" where
  "logged S =
    \<lparr>so_recv = (\<lambda>n l. case so_recv S n (lg_sock l) of
       (s, Inl e) \<Rightarrow> (l\<lparr>lg_sock := s\<rparr>, Inl e)
     | (s, Inr data) \<Rightarrow> (l\<lparr>lg_sock := s, lg_received := lg_received l @ data\<rparr>, Inr data)),
     so_sendall = (\<lambda>data l. case so_sendall S data (lg_sock l) of
       (s, Inl e) \<Rightarrow> (l\<lparr>lg_sock := s\<rparr>, Inl e)
     | (s, Inr _) \<Rightarrow> (l\<lparr>lg_sock := s, lg_written := lg_written l @ data\<rparr>, Inr ())),
     so_close = (\<lambda>l. case so_close S (lg_sock l) of (s, r) \<Rightarrow> (l\<lparr>lg_sock := s\<rparr>, r))\<rparr>"

text \<open>What the engine's documentation promises: it takes the incoming bytes in order, asks for more only while more may
come, and a write takes the first bytes of what it is given. A view tells what a state has seen so far.\<close>

record 't tls_view =
  vw_plain :: "'t \<Rightarrow> bytes"    \<comment> \<open>plaintext accepted by \<open>write\<close>\<close>
  vw_out :: "'t \<Rightarrow> bytes"      \<comment> \<open>bytes put into the outgoing BIO\<close>
  vw_in :: "'t \<Rightarrow> bytes"       \<comment> \<open>bytes taken from the incoming BIO\<close>

definition call_ok :: "'t tls_view \<Rightarrow> ('a tls_outcome \<Rightarrow> bytes) \<Rightarrow> ('t, 'a) engine_call \<Rightarrow> bool" where
  "call_ok V accepts f \<longleftrightarrow> (\<forall>t inp eof t' rest out r. f t inp eof = ((t', rest, out), r) \<longrightarrow>
     vw_out V t' = vw_out V t @ out \<and> vw_in V t' @ rest = vw_in V t @ inp
     \<and> vw_plain V t' = vw_plain V t @ accepts r \<and> (r = WantRead \<longrightarrow> \<not> eof))"

fun written_part :: "bytes \<Rightarrow> nat tls_outcome \<Rightarrow> bytes" where
  "written_part data (Finished n) = take n data"
| "written_part data _ = []"

definition engine_ok :: "'t tls_view \<Rightarrow> 't tls_engine \<Rightarrow> bool" where
  "engine_ok V E \<longleftrightarrow> call_ok V (\<lambda>_. []) (eng_handshake E) \<and> (\<forall>n. call_ok V (\<lambda>_. []) (eng_read E n))
     \<and> (\<forall>data. data \<noteq> [] \<longrightarrow> call_ok V (written_part data) (eng_write E data)
          \<and> (\<forall>t inp eof x n. eng_write E data t inp eof = (x, Finished n) \<longrightarrow> 0 < n \<and> n \<le> length data))"

text \<open>The BIOs hold exactly what is under way.\<close>

definition bios_in_step :: "'t tls_view \<Rightarrow> ('t, 's log_sock) tls_sock \<Rightarrow> bool" where
  "bios_in_step V st \<longleftrightarrow> lg_written (ts_sock st) @ ts_outgoing st = vw_out V (ts_tls st)
     \<and> lg_received (ts_sock st) = vw_in V (ts_tls st) @ ts_incoming st"

lemma run_engine_in_step:
  assumes "call_ok V acc f" "bios_in_step V st" "run_engine f st = (st', r)"
  shows "bios_in_step V st'" "vw_plain V (ts_tls st') = vw_plain V (ts_tls st) @ acc r"
    "r = WantRead \<Longrightarrow> \<not> ts_incoming_eof st'" "ts_incoming_eof st' = ts_incoming_eof st" "ts_sock st' = ts_sock st"
proof -
  obtain t rest out where f: "f (ts_tls st) (ts_incoming st) (ts_incoming_eof st) = ((t, rest, out), r)"
    "st' = st\<lparr>ts_tls := t, ts_incoming := rest, ts_outgoing := ts_outgoing st @ out\<rparr>"
    using assms(3) by (auto simp: run_engine_def split: prod.splits)
  note laws = assms(1) [unfolded call_ok_def, rule_format, OF f(1)]
  show "bios_in_step V st'" using laws assms(2) f(2) by (auto simp: bios_in_step_def append_assoc [symmetric] simp del: append_assoc)
  show "vw_plain V (ts_tls st') = vw_plain V (ts_tls st) @ acc r" "r = WantRead \<Longrightarrow> \<not> ts_incoming_eof st'"
    "ts_incoming_eof st' = ts_incoming_eof st" "ts_sock st' = ts_sock st"
    using laws f(2) by simp_all
qed

lemma flush_in_step:
  assumes "bios_in_step V st" "tls_flush (logged S) st = (st', Inr ())"
  shows "bios_in_step V st'" "ts_outgoing st' = []" "ts_tls st' = ts_tls st" "ts_incoming_eof st' = ts_incoming_eof st"
  using assms
  by (auto simp: tls_flush_def on_sock_def logged_def bios_in_step_def Let_def split: if_splits prod.splits sum.splits)

lemma feed_in_step:
  assumes "bios_in_step V st" "tls_feed (logged S) st = (st', Inr ())"
  shows "bios_in_step V st' \<and> ts_tls st' = ts_tls st \<and> ts_outgoing st' = ts_outgoing st"
  using assms
  by (auto simp: tls_feed_def on_sock_def logged_def bios_in_step_def obind_def bio_write_def
      split: if_splits prod.splits sum.splits)

lemma exchange_in_step:
  assumes "bios_in_step V st" "exchange (logged S) st = (st', Inr u)"
  shows "bios_in_step V st'" "ts_tls st' = ts_tls st" "ts_outgoing st' = []"
proof -
  obtain st1 where st1: "tls_flush (logged S) st = (st1, Inr ())" "tls_feed (logged S) st1 = (st', Inr ())"
    using assms(2) by (auto simp: exchange_def obind_Inr_iff)
  note f = flush_in_step [OF assms(1) st1(1)]
  show "bios_in_step V st'" "ts_tls st' = ts_tls st" "ts_outgoing st' = []"
    using feed_in_step [OF f(1) st1(2)] f(2,3) by simp_all
qed

lemma engine_okD:
  assumes "engine_ok V E"
  shows "call_ok V (\<lambda>_. []) (eng_handshake E)" "call_ok V (\<lambda>_. []) (eng_read E n)"
    "data \<noteq> [] \<Longrightarrow> call_ok V (written_part data) (eng_write E data)"
    "data \<noteq> [] \<Longrightarrow> eng_write E data t inp eof = (x, Finished k) \<Longrightarrow> 0 < k \<and> k \<le> length data"
  using assms by (auto simp: engine_ok_def; cases x; blast)+

lemma handshake_in_step:
  "tls_handshake E T st = Some y \<Longrightarrow> engine_ok V E \<Longrightarrow> T = logged S \<Longrightarrow> bios_in_step V st \<Longrightarrow> snd y = Inr () \<Longrightarrow>
    bios_in_step V (fst y) \<and> ts_outgoing (fst y) = [] \<and> vw_plain V (ts_tls (fst y)) = vw_plain V (ts_tls st)"
proof (induction rule: tls_handshake.raw_induct [rotated, consumes 1, case_names body])
  case (body loop E T st y)
  obtain st1 r where e: "run_engine (eng_handshake E) st = (st1, r)" by (cases "run_engine (eng_handshake E) st")
  note k = run_engine_in_step [OF engine_okD(1) [OF body(3)] body(5) e]
  show ?case
  proof (cases r)
    case (Finished u)
    obtain st2 q where f: "tls_flush (logged S) st1 = (st2, q)" by (cases "tls_flush (logged S) st1")
    then have y: "y = (st2, Inr ())" "q = Inr ()"
      using body(2,4,6) e Finished by (simp_all split: sum.splits) auto
    show ?thesis using flush_in_step [OF k(1) f [unfolded y(2)]] k(2) by (simp add: y)
  next
    case WantRead
    obtain st2 q where x: "exchange (logged S) st1 = (st2, q)" by (cases "exchange (logged S) st1")
    then have q: "q = Inr ()" "loop E (logged S) st2 = Some y"
      using body(2,4,6) e WantRead by (cases q; auto)+
    note f = exchange_in_step [OF k(1) x [unfolded q(1)]]
    show ?thesis using body(1) [OF q(2) body(3) refl f(1)] body(6) k(2) f WantRead by simp
  qed (use body e in auto)
qed

lemma sendall_in_step:
  "sendall_from E T data offset st = Some y \<Longrightarrow> engine_ok V E \<Longrightarrow> T = logged S \<Longrightarrow> bios_in_step V st \<Longrightarrow>
    offset \<le> length data \<Longrightarrow> offset < length data \<or> ts_outgoing st = [] \<Longrightarrow> snd y = Inr () \<Longrightarrow>
    bios_in_step V (fst y) \<and> ts_outgoing (fst y) = [] \<and> vw_plain V (ts_tls (fst y)) = vw_plain V (ts_tls st) @ drop offset data"
proof (induction rule: sendall_from.raw_induct [rotated, consumes 1, case_names body])
  case (body loop E T data offset st y)
  show ?case
  proof (cases "offset < length data")
    case True
    then have d: "drop offset data \<noteq> []" by simp
    obtain st1 r where e: "run_engine (eng_write E (drop offset data)) st = (st1, r)"
      by (cases "run_engine (eng_write E (drop offset data)) st")
    note k = run_engine_in_step [OF engine_okD(3) [OF body(3) d] body(5) e]
    show ?thesis
    proof (cases r)
      case (Finished n)
      then have "0 < n" "offset + n \<le> length data" 
        using e engine_okD(4) [OF body(3) d] True by (auto simp: run_engine_def split: prod.splits) (metis le_diff_conv2 add.commute less_imp_le length_drop)+
      moreover have "take n (drop offset data) @ drop (offset + n) data = drop offset data"
        by (metis append_take_drop_id drop_drop add.commute)
      moreover obtain st2 q where f: "tls_flush (logged S) st1 = (st2, q)" by (cases "tls_flush (logged S) st1")
      moreover have q: "q = Inr ()" "loop E (logged S) data (offset + n) st2 = Some y"
        using body(2,4,8) e f Finished True by (auto split: sum.splits)
      ultimately show ?thesis
        using body(1) [OF q(2) body(3) refl flush_in_step(1) [OF k(1) f [unfolded q(1)]]] k(2) body(8) Finished
          flush_in_step(2,3) [OF k(1) f [unfolded q(1)]] by simp
    next
      case WantRead
      obtain st2 q where x: "exchange (logged S) st1 = (st2, q)" by (cases "exchange (logged S) st1")
      then have q: "q = Inr ()" "loop E (logged S) data offset st2 = Some y"
        using body(2,4,8) e WantRead True by (cases q; auto)+
      note f = exchange_in_step [OF k(1) x [unfolded q(1)]]
      show ?thesis using body(1) [OF q(2) body(3) refl f(1) body(6)] body(8) k(2) f WantRead by simp
    qed (use body e True in auto)
  qed (use body in auto)
qed

lemma recv_in_step:
  "tls_recv E T n st = Some y \<Longrightarrow> engine_ok V E \<Longrightarrow> T = logged S \<Longrightarrow> bios_in_step V st \<Longrightarrow> snd y = Inr data \<Longrightarrow>
    bios_in_step V (fst y) \<and> vw_plain V (ts_tls (fst y)) = vw_plain V (ts_tls st)"
proof (induction rule: tls_recv.raw_induct [rotated, consumes 1, case_names body])
  case (body loop E T n st y)
  obtain st1 r where e: "run_engine (eng_read E n) st = (st1, r)" by (cases "run_engine (eng_read E n) st")
  note k = run_engine_in_step [OF engine_okD(2) [OF body(3)] body(5) e]
  show ?case
  proof (cases r)
    case WantRead
    obtain st2 q where x: "exchange (logged S) st1 = (st2, q)" by (cases "exchange (logged S) st1")
    then have q: "q = Inr ()" "loop E (logged S) n st2 = Some y"
      using body(2,4,6) e WantRead by (cases q; auto)+
    note f = exchange_in_step [OF k(1) x [unfolded q(1)]]
    show ?thesis using body(1) [OF q(2) body(3) refl f(1)] body(6) k(2) f WantRead by simp
  qed (use body e k in auto)
qed

section \<open>The loops end\<close>

definition sock_errors :: "'s sock_ops \<Rightarrow> exc set" where
  "sock_errors S = {e. \<exists>s n data. snd (so_recv S n s) = Inl e \<or> snd (so_sendall S data s) = Inl e}"

text \<open>The peer sends finitely much: each non-empty read is one of those left.\<close>

definition input_ends :: "('s \<Rightarrow> nat) \<Rightarrow> 's sock_ops \<Rightarrow> bool" where
  "input_ends left S \<longleftrightarrow>
     (\<forall>n s s' data. so_recv S n s = (s', Inr data) \<longrightarrow> left s' \<le> left s \<and> (data \<noteq> [] \<longrightarrow> left s' < left s))
     \<and> (\<forall>data s s'. so_sendall S data s = (s', Inr ()) \<longrightarrow> left s' \<le> left s)"

definition rank :: "('s \<Rightarrow> nat) \<Rightarrow> ('t, 's) tls_sock \<Rightarrow> nat" where
  "rank left st = 2 * left (ts_sock st) + (if ts_incoming_eof st then 0 else 1)"

lemma flush_result:
  assumes "input_ends left S" "tls_flush S st = (st', r)"
  shows "r = Inr () \<Longrightarrow> left (ts_sock st') \<le> left (ts_sock st)" "ts_incoming_eof st' = ts_incoming_eof st"
    "raises_only (sock_errors S) r"
proof -
  show "ts_incoming_eof st' = ts_incoming_eof st"
    using assms(2) by (auto simp: tls_flush_def on_sock_def Let_def split: if_splits prod.splits)
  show "r = Inr () \<Longrightarrow> left (ts_sock st') \<le> left (ts_sock st)"
    using assms by (auto simp: tls_flush_def on_sock_def Let_def input_ends_def split: if_splits prod.splits)
  show "raises_only (sock_errors S) r"
    using assms(2) unfolding raises_only_def sock_errors_def
    by (auto simp: tls_flush_def on_sock_def Let_def split: if_splits prod.splits) (metis snd_conv)
qed

lemma feed_result:
  assumes "input_ends left S" "\<not> ts_incoming_eof st" "tls_feed S st = (st', r)"
  shows "r = Inr () \<Longrightarrow> rank left st' < rank left st" "raises_only (sock_errors S) r"
proof -
  obtain s q where q: "so_recv S CHUNK (ts_sock st) = (s, q)" by (cases "so_recv S CHUNK (ts_sock st)")
  show "r = Inr () \<Longrightarrow> rank left st' < rank left st"
    using assms q by (fastforce simp: tls_feed_def on_sock_def obind_def bio_write_def input_ends_def rank_def split: if_splits sum.splits)
  show "raises_only (sock_errors S) r"
  proof (cases q)
    case (Inl e)
    then have "snd (so_recv S CHUNK (ts_sock st)) = Inl e" using q by simp
    then have "e \<in> sock_errors S" by (auto simp: sock_errors_def)
    then show ?thesis using assms(3) q Inl by (auto simp: tls_feed_def on_sock_def obind_def raises_only_def)
  next
    case (Inr data)
    then show ?thesis using assms(2,3) q
      by (auto simp: tls_feed_def on_sock_def obind_def bio_write_def raises_only_def split: if_splits)
  qed
qed

lemma exchange_result:
  assumes "input_ends left S" "\<not> ts_incoming_eof st" "exchange S st = (st', r)"
  shows "r = Inr () \<Longrightarrow> rank left st' < rank left st" "raises_only (sock_errors S) r"
proof -
  obtain st1 q where q: "tls_flush S st = (st1, q)" by (cases "tls_flush S st")
  note f = flush_result [OF assms(1) q]
  have x: "exchange S st = (case q of Inl e \<Rightarrow> (st1, Inl e) | Inr _ \<Rightarrow> tls_feed S st1)"
    using q by (simp add: exchange_def obind_def split: sum.split)
  have "\<not> ts_incoming_eof st1" using f(2) assms(2) by simp
  note g = feed_result [OF assms(1) this]
  show "r = Inr () \<Longrightarrow> rank left st' < rank left st"
    using g(1) [of st' r] f(1,2) x assms(3) by (cases q) (auto simp: rank_def split: if_splits)
  show "raises_only (sock_errors S) r"
    using g(2) [of st' r] f(3) x assms(3) by (cases q) (auto simp: raises_only_def)
qed

lemma run_engine_result:
  assumes "call_ok V acc f" "run_engine f st = (st', r)"
  shows "ts_incoming_eof st' = ts_incoming_eof st" "ts_sock st' = ts_sock st" "r = WantRead \<Longrightarrow> \<not> ts_incoming_eof st'"
    "rank left st' = rank left st"
proof -
  show e: "ts_incoming_eof st' = ts_incoming_eof st" "ts_sock st' = ts_sock st"
    using assms(2) by (auto simp: run_engine_def split: prod.splits)
  then show "rank left st' = rank left st" by (simp add: rank_def)
  show "r = WantRead \<Longrightarrow> \<not> ts_incoming_eof st'"
    using assms e(1) unfolding run_engine_def call_ok_def by (auto split: prod.splits) blast
qed

lemma typed_raises: "raises_only A (Inl e) \<Longrightarrow> raises_only (insert TorTLSError A) (Inl (typed e))"
  by (simp add: raises_only_def typed_def)

lemma raises_insert: "raises_only A (Inl e :: unit res) \<Longrightarrow> raises_only (insert x A) (Inl e)"
  by (simp add: raises_only_def)

definition returns :: "exc set \<Rightarrow> ('st \<times> 'a res) option \<Rightarrow> bool" where
  "returns errors m \<longleftrightarrow> (\<exists>st r. m = Some (st, r) \<and> raises_only errors r)"

lemma returnsI: "raises_only A r \<Longrightarrow> returns A (Some (st, r))"
  by (simp add: returns_def)

lemma handshake_returns:
  assumes "engine_ok V E" "input_ends left S"
  shows "returns (insert TorTLSError (sock_errors S)) (tls_handshake E S st)"
proof (induction "rank left st" arbitrary: st rule: less_induct)
  case less
  obtain st1 r where e: "run_engine (eng_handshake E) st = (st1, r)" by (cases "run_engine (eng_handshake E) st")
  note k = run_engine_result [OF engine_okD(1) [OF assms(1)] e]
  show ?case
  proof (cases r)
    case (Finished u)
    obtain st2 q where f: "tls_flush S st1 = (st2, q)" by (cases "tls_flush S st1")
    show ?thesis using e Finished f flush_result(3) [OF assms(2) f]
      by (subst tls_handshake.simps) (auto split: sum.split intro!: returnsI typed_raises simp: raises_intros)
  next
    case WantRead
    obtain st2 q where x: "exchange S st1 = (st2, q)" by (cases "exchange S st1")
    note x' = exchange_result [OF assms(2) k(3) [OF WantRead] x]
    show ?thesis using e WantRead x x' k(4) [of left] less
      by (subst tls_handshake.simps) (auto split: sum.split intro!: returnsI intro: raises_insert)
  qed (subst tls_handshake.simps, use e in \<open>simp add: returns_def raises_only_def\<close>)+
qed

lemma sendall_returns:
  assumes "engine_ok V E" "input_ends left S"
  shows "returns (insert TorTLSError (sock_errors S)) (sendall_from E S data offset st)"
proof (induction "(length data - offset, rank left st)" arbitrary: offset st
    rule: wf_induct_rule [OF wf_lex_prod [OF wf_less_than wf_less_than]])
  case 1
  show ?case
  proof (cases "offset < length data")
    case True
    then have d: "drop offset data \<noteq> []" by simp
    obtain st1 r where e: "run_engine (eng_write E (drop offset data)) st = (st1, r)"
      by (cases "run_engine (eng_write E (drop offset data)) st")
    note k = run_engine_result [OF engine_okD(3) [OF assms(1) d] e]
    show ?thesis
    proof (cases r)
      case (Finished n)
      then have n: "0 < n" using e engine_okD(4) [OF assms(1) d] by (auto simp: run_engine_def split: prod.splits)
      obtain st2 q where f: "tls_flush S st1 = (st2, q)" by (cases "tls_flush S st1")
      have "length data - (offset + n) < length data - offset" using True n by simp
      then have "returns (insert TorTLSError (sock_errors S)) (sendall_from E S data (offset + n) st2)" by (intro 1) simp
      then show ?thesis using e Finished f flush_result(3) [OF assms(2) f] True
        by (subst sendall_from.simps) (auto split: sum.split intro!: returnsI typed_raises simp: raises_intros)
    next
      case WantRead
      obtain st2 q where x: "exchange S st1 = (st2, q)" by (cases "exchange S st1")
      note x' = exchange_result [OF assms(2) k(3) [OF WantRead] x]
      show ?thesis using e WantRead x x' k(4) [of left] 1 True
        by (subst sendall_from.simps) (auto split: sum.split intro!: returnsI intro: raises_insert)
    qed (subst sendall_from.simps, use e True in \<open>simp add: returns_def raises_only_def\<close>)+
  qed (subst sendall_from.simps, simp add: returns_def raises_only_def)
qed

lemma recv_returns:
  assumes "engine_ok V E" "input_ends left S"
  shows "returns (insert SSLError (sock_errors S)) (tls_recv E S n st)"
proof (induction "rank left st" arbitrary: st rule: less_induct)
  case less
  obtain st1 r where e: "run_engine (eng_read E n) st = (st1, r)" by (cases "run_engine (eng_read E n) st")
  note k = run_engine_result [OF engine_okD(2) [OF assms(1)] e]
  show ?case
  proof (cases r)
    case WantRead
    obtain st2 q where x: "exchange S st1 = (st2, q)" by (cases "exchange S st1")
    note x' = exchange_result [OF assms(2) k(3) [OF WantRead] x]
    show ?thesis using e WantRead x x' k(4) [of left] less
      by (subst tls_recv.simps) (auto split: sum.split intro!: returnsI intro: raises_insert)
  qed (subst tls_recv.simps, use e in \<open>simp add: returns_def raises_only_def\<close>)+
qed

section \<open>Properties\<close>


text \<open>An engine that greets with one byte and then passes bytes through, and a socket that plays a script.\<close>

definition toy_view :: "(bytes \<times> bytes \<times> bytes) tls_view" where
  "toy_view = \<lparr>vw_plain = fst, vw_out = fst \<circ> snd, vw_in = snd \<circ> snd\<rparr>"

definition toy_engine :: "(bytes \<times> bytes \<times> bytes) tls_engine" where
  "toy_engine =
    \<lparr>eng_handshake = (\<lambda>(p, out, taken) inp eof. case inp of
       [] \<Rightarrow> (((p, out, taken), [], []), if eof then EndOfFile else WantRead)
     | b # rest \<Rightarrow> (((p, out @ [b], taken @ [b]), rest, [b]), Finished ())),
     eng_write = (\<lambda>data (p, out, taken) inp eof. (((p @ data, out @ data, taken), inp, data), Finished (length data))),
     eng_read = (\<lambda>n (p, out, taken) inp eof.
       if inp = [] then (((p, out, taken), [], []), if eof then EndOfFile else WantRead)
       else (((p, out, taken @ take n inp), drop n inp, []), Finished (take n inp)))\<rparr>"

definition toy_socket :: "bytes list sock_ops" where
  "toy_socket =
    \<lparr>so_recv = (\<lambda>n s. case s of [] \<Rightarrow> ([], Inr []) | c # rest \<Rightarrow> (rest, Inr c)),
     so_sendall = (\<lambda>data s. (s, Inr ())), so_close = (\<lambda>s. (s, Inr ()))\<rparr>"

definition toy_tls :: "((bytes \<times> bytes \<times> bytes), bytes list log_sock) tls_sock" where
  "toy_tls = \<lparr>ts_tls = ([], [], []), ts_incoming = [], ts_incoming_eof = False, ts_outgoing = [],
     ts_sock = \<lparr>lg_sock = [[1], [7, 8]], lg_written = [], lg_received = []\<rparr>\<rparr>"

lemma toy_engine_ok: "engine_ok toy_view toy_engine"
  by (auto simp: engine_ok_def call_ok_def toy_engine_def toy_view_def split: list.splits if_splits)




end
