(* ===== verification/HttpRequest.thy ===== *)
theory HttpRequest
  imports TlsSocket DirHttp Utf8 "HOL-Library.Sublist" "HOL-Library.Code_Target_Nat"
begin

text \<open>
  A prepared request on a Tor socket (\<open>perform_request\<close> of \<open>_http/connection.py\<close>), with what it uses of the standard
  library: \<open>urlsplit\<close> and the writing half of \<open>http.client.HTTPConnection\<close>. Reading the response is
  \<open>http.client\<close>'s parser, here an argument. Header names are matched as \<open>CaseInsensitiveDict\<close> does.
  \<open>urlsplit\<close> here takes what stands between brackets as it is; newer Pythons also check that it is an address.
\<close>

section \<open>URLs\<close>

record url_split =
  u_scheme :: string
  u_netloc :: string
  u_path :: string
  u_query :: string

definition is_alpha :: "char \<Rightarrow> bool" where
  "is_alpha c \<longleftrightarrow> (let n = code_of c in 65 \<le> n \<and> n \<le> 90 \<or> 97 \<le> n \<and> n \<le> 122)"

definition scheme_char :: "char \<Rightarrow> bool" where
  "scheme_char c \<longleftrightarrow> is_alpha c \<or> is_digit c \<or> c \<in> set ''+-.''"

definition urlsplit :: "string \<Rightarrow> url_split res" where
  "urlsplit url =
    (let url = filter (\<lambda>c. code_of c \<notin> {9, 10, 13}) (py_lstrip (\<lambda>c. code_of c \<le> 32) url);
         (scheme, url) = (case partition_char CHR '':'' url of (a, found, b) \<Rightarrow>
            if found \<and> a \<noteq> [] \<and> is_alpha (hd a) \<and> list_all scheme_char a then (py_lower a, b) else ('''', url));
         (netloc, url) = (if starts_with url ''//''
            then (takeWhile (\<lambda>c. c \<notin> set ''/?#'') (drop 2 url), dropWhile (\<lambda>c. c \<notin> set ''/?#'') (drop 2 url))
            else ('''', url))
     in if (CHR ''['' \<in> set netloc) \<noteq> (CHR '']'' \<in> set netloc) then Inl ValueError
        else case partition_char CHR ''#'' url of (url, _, _) \<Rightarrow>
          case partition_char CHR ''?'' url of (path, _, query) \<Rightarrow>
            Inr \<lparr>u_scheme = scheme, u_netloc = netloc, u_path = path, u_query = query\<rparr>)"

definition hostinfo :: "url_split \<Rightarrow> string \<times> string" where
  "hostinfo u =
    (let info = after_last CHR ''@'' (u_netloc u) in
     case partition_char CHR ''['' info of (_, have_open_br, bracketed) \<Rightarrow>
       if have_open_br then
         (case partition_char CHR '']'' bracketed of (hst, _, rest) \<Rightarrow>
            (hst, snd (snd (partition_char CHR '':'' rest))))
       else (case partition_char CHR '':'' info of (hst, _, port) \<Rightarrow> (hst, port)))"

text \<open>\<open>split.hostname or ""\<close>\<close>

definition url_host :: "url_split \<Rightarrow> string" where
  "url_host u =
    (case partition_char CHR ''%'' (fst (hostinfo u)) of (hst, percent, zone) \<Rightarrow>
       py_lower hst @ (if percent then CHR ''%'' # zone else []))"

definition split_port :: "url_split \<Rightarrow> int option res" where
  "split_port u =
    (let port = snd (hostinfo u) in
     if port = [] then Inr None
     else if \<not> list_all is_digit port then Inl ValueError
     else rbind (py_int port) (\<lambda>p. if 0 \<le> p \<and> p \<le> 65535 then Inr (Some p) else Inl ValueError))"

definition default_port :: "url_split \<Rightarrow> int" where
  "default_port u = (if u_scheme u = ''https'' then 443 else 80)"

text \<open>\<open>split.port or (443 if split.scheme == "https" else 80)\<close>; port 0 is falsy.\<close>

definition url_port :: "url_split \<Rightarrow> int res" where
  "url_port u = rbind (split_port u) (\<lambda>p. Inr (case p of None \<Rightarrow> default_port u | Some n \<Rightarrow> if n = 0 then default_port u else n))"

section \<open>Writing a request\<close>

text \<open>The body of a prepared request; a file or generator is the list of blocks it yields.\<close>

datatype http_body = NoBody | BytesBody bytes | StrBody string | IterBody "bytes list"

record prepared =
  rq_method :: "string option"
  rq_url :: "string option"
  rq_headers :: "(string \<times> string) list"
  rq_body :: http_body

definition or_else :: "string option \<Rightarrow> string \<Rightarrow> string" where
  "or_else x d = (case x of None \<Rightarrow> d | Some s \<Rightarrow> if s = [] then d else s)"

text \<open>\<open>putrequest\<close>: its checks, and the request line. \<open>http.client.InvalidURL\<close> is an \<open>HTTPException\<close>.\<close>

definition putrequest :: "string \<Rightarrow> string \<Rightarrow> bytes res" where
  "putrequest method path =
    (if \<not> list_all (\<lambda>c. 32 \<le> code_of c) method then Inl ValueError
     else if \<not> list_all (\<lambda>c. 32 < code_of c \<and> code_of c \<noteq> 127) path then Inl HTTPException
     else rbind (encode_ascii (method @ '' '' @ path @ '' HTTP/1.1'')) (\<lambda>line. Inr (line @ CRLF)))"

fun illegal_value :: "string \<Rightarrow> bool" where
  "illegal_value [] = False"
| "illegal_value (c # s) =
    ((code_of c = 10 \<and> (s = [] \<or> code_of (hd s) \<notin> {32, 9})
      \<or> code_of c = 13 \<and> (s = [] \<or> code_of (hd s) \<notin> {32, 9, 10})) \<or> illegal_value s)"

definition legal_name :: "string \<Rightarrow> bool" where
  "legal_name name \<longleftrightarrow> name \<noteq> [] \<and> \<not> is_ascii_space (hd name) \<and> list_all (\<lambda>c. c \<noteq> CHR '':'' \<and> code_of c \<notin> {10, 13}) name"

definition putheader :: "string \<times> string \<Rightarrow> bytes res" where
  "putheader h =
    (case h of (name, val) \<Rightarrow>
      rbind (encode_ascii name) (\<lambda>raw.
        if \<not> legal_name name then Inl ValueError
        else if illegal_value val then Inl ValueError
        else Inr (raw @ [58, 32] @ ascii val @ CRLF)))"

definition is_name :: "string \<Rightarrow> string \<times> string \<Rightarrow> bool" where
  "is_name lowered h \<longleftrightarrow> py_lower (fst h) = lowered"

text \<open>\<open>f"{len(chunk):X}"\<close>.\<close>

function hex_upper :: "nat \<Rightarrow> bytes" where
  "hex_upper n =
    (if n < 16 then [word_of_nat (if n < 10 then n + 48 else n + 55)]
     else hex_upper (n div 16) @ hex_upper (n mod 16))"
  by pat_completeness auto
termination by (relation "measure id") auto

declare hex_upper.simps [simp del]

definition host_header :: "url_split \<Rightarrow> int \<Rightarrow> string" where
  "host_header u port = (if port = default_port u then url_host u else url_host u @ '':'' @ int_str port)"

definition wire_headers :: "url_split \<Rightarrow> int \<Rightarrow> (string \<times> string) list \<Rightarrow> (string \<times> string) list" where
  "wire_headers u port headers =
    (if \<not> list_ex (is_name ''host'') headers then (''Host'', host_header u port) # headers else headers)"

definition request_path :: "url_split \<Rightarrow> string" where
  "request_path u =
    (let path = (if u_path u = [] then ''/'' else u_path u) in
     if u_query u \<noteq> [] then path @ ''?'' @ u_query u else path)"

definition is_chunked :: "(string \<times> string) list \<Rightarrow> bool" where
  "is_chunked headers \<longleftrightarrow>
    (case find (is_name ''transfer-encoding'') headers of None \<Rightarrow> False | Some h \<Rightarrow> py_lower (snd h) = ''chunked'')"

definition request_head :: "prepared \<Rightarrow> bytes res" where
  "request_head rq =
    rbind (urlsplit (or_else (rq_url rq) '''')) (\<lambda>u.
    rbind (url_port u) (\<lambda>port.
    rbind (putrequest (or_else (rq_method rq) ''GET'') (request_path u)) (\<lambda>line.
    rbind (rmap putheader (wire_headers u port (rq_headers rq))) (\<lambda>lines.
      Inr (line @ concat lines @ CRLF)))))"

definition body_blocks :: "http_body \<Rightarrow> bytes list" where
  "body_blocks b = (case b of NoBody \<Rightarrow> [] | BytesBody bs \<Rightarrow> [bs] | StrBody s \<Rightarrow> [utf8_encode s] | IterBody bss \<Rightarrow> bss)"

definition http_frame :: "bool \<Rightarrow> bytes \<Rightarrow> bytes" where
  "http_frame chunked chunk = (if chunked then hex_upper (length chunk) @ CRLF @ chunk @ CRLF else chunk)"

text \<open>What \<open>endheaders\<close> sends after the head: empty blocks are skipped, since an empty chunk would end the body.\<close>

definition body_pieces :: "bool \<Rightarrow> http_body \<Rightarrow> bytes list" where
  "body_pieces chunked b =
    (if b = NoBody then []
     else map (http_frame chunked) (filter (\<lambda>bs. bs \<noteq> []) (body_blocks b)) @ (if chunked then [[48] @ CRLF @ CRLF] else []))"

fun send_pieces :: "'s sock_ops \<Rightarrow> bytes list \<Rightarrow> ('s, exc, unit) op" where
  "send_pieces S [] st = (st, Inr ())"
| "send_pieces S (p # ps) st = obind (so_sendall S p) (\<lambda>_. send_pieces S ps) st"

definition send_request :: "'s sock_ops \<Rightarrow> prepared \<Rightarrow> ('s, exc, unit) op" where
  "send_request S rq =
    obind (olift (request_head rq)) (\<lambda>head.
      send_pieces S (head # body_pieces (is_chunked (rq_headers rq)) (rq_body rq)))"

text \<open>The errors of \<open>getresponse\<close>.\<close>

definition response_error :: "exc \<Rightarrow> exc" where
  "response_error e = (if catches [TorError] e then e else if catches [HTTPException, OSError] e then StreamError else e)"

definition perform_request :: "'s sock_ops \<Rightarrow> ('s, exc, 'r) op \<Rightarrow> prepared \<Rightarrow> ('s, exc, 'r) op" where
  "perform_request S getresponse rq =
    obind (send_request S rq) (\<lambda>_ st.
      case getresponse st of (st', Inr raw) \<Rightarrow> (st', Inr raw) | (st', Inl e) \<Rightarrow> (st', Inl (response_error e)))"

section \<open>Chunked framing\<close>

text \<open>A reader of chunked bodies, after RFC 9112 without extensions and trailers.\<close>

definition hex_of_byte :: "byte \<Rightarrow> nat option" where
  "hex_of_byte b = hex_value (char_at (unat b))"

definition hex_number :: "bytes \<Rightarrow> nat option" where
  "hex_number bs =
    (if bs = [] \<or> (\<exists>b \<in> set bs. hex_of_byte b = None) then None
     else Some (foldl (\<lambda>acc b. 16 * acc + the (hex_of_byte b)) 0 bs))"

function dechunk :: "bytes \<Rightarrow> bytes option" where
  "dechunk bs =
    (let digits = takeWhile (\<lambda>b. b \<noteq> 13) bs; rest = drop (length digits) bs in
     if take 2 rest \<noteq> CRLF then None
     else case hex_number digits of
       None \<Rightarrow> None
     | Some n \<Rightarrow>
        if n = 0 then (if drop 2 rest = CRLF then Some [] else None)
        else if take 2 (drop (n + 2) rest) \<noteq> CRLF then None
        else map_option ((@) (take n (drop 2 rest))) (dechunk (drop (n + 4) rest)))"
  by pat_completeness auto
termination
proof (relation "measure length", simp)
  fix bs :: bytes and digits rest x2
  assume "digits = takeWhile (\<lambda>b. b \<noteq> 13) bs" "rest = drop (length digits) bs" "\<not> take 2 rest \<noteq> CRLF"
  then have "rest \<noteq> []" "length rest \<le> length bs" by (auto simp: CRLF_def)
  then show "(drop (x2 + 4) rest, bs) \<in> measure length" by (cases rest) auto
qed

declare dechunk.simps [simp del]

lemma hex_digit_ok:
  "n < 16 \<Longrightarrow> hex_of_byte (word_of_nat (if n < 10 then n + 48 else n + 55)) = Some n"
  by (simp add: hex_of_byte_def hex_value_def Let_def)

lemma hex_upper_digits: "b \<in> set (hex_upper n) \<Longrightarrow> hex_of_byte b \<noteq> None"
proof (induction n rule: hex_upper.induct)
  case (1 n)
  then show ?case
    by (subst (asm) (2) hex_upper.simps) (auto simp: hex_digit_ok split: if_splits simp del: One_nat_def)
qed

lemma hex_upper_value:
  "foldl (\<lambda>acc b. 16 * acc + the (hex_of_byte b)) a (hex_upper n) = 16 ^ length (hex_upper n) * a + n"
proof (induction n arbitrary: a rule: hex_upper.induct)
  case (1 n)
  show ?case
  proof (cases "n < 16")
    case True
    then show ?thesis by (simp add: hex_upper.simps [of n] hex_digit_ok)
  next
    case False
    have "hex_upper n = hex_upper (n div 16) @ hex_upper (n mod 16)" using False by (subst hex_upper.simps) simp
    moreover have "length (hex_upper (n mod 16)) = 1" by (subst hex_upper.simps) simp
    ultimately show ?thesis using 1 [OF False] by (simp add: algebra_simps)
  qed
qed

lemma hex_upper_number: "hex_number (hex_upper n) = Some n"
proof -
  have "hex_upper n \<noteq> []" by (induction n rule: hex_upper.induct) (subst hex_upper.simps, simp)
  then show ?thesis using hex_upper_digits hex_upper_value [of 0 n] by (auto simp: hex_number_def)
qed

lemma hex_upper_no_cr: "takeWhile (\<lambda>b. b \<noteq> 13) (hex_upper n @ 13 # rest) = hex_upper n"
proof -
  have "hex_of_byte 13 = None" by (simp add: hex_of_byte_def hex_value_def Let_def)
  then have "13 \<notin> set (hex_upper n)" using hex_upper_digits by force
  then show ?thesis by (subst takeWhile_append2) auto
qed

lemma dechunk_chunk:
  "chunk \<noteq> [] \<Longrightarrow> dechunk (http_frame True chunk @ rest) = map_option ((@) chunk) (dechunk rest)"
proof -
  have "drop (length chunk + 4) (13 # 10 # chunk @ 13 # 10 # rest) = rest" by (simp add: eval_nat_numeral)
  then show "chunk \<noteq> [] \<Longrightarrow> ?thesis"
    by (subst dechunk.simps)
      (simp add: http_frame_def CRLF_def hex_upper_no_cr hex_upper_number Let_def add.commute [of _ "Suc (Suc 0)"])
qed

lemma dechunk_end: "dechunk (48 # CRLF @ CRLF) = Some []"
  by (subst dechunk.simps) (simp add: CRLF_def hex_number_def hex_of_byte_def hex_value_def Let_def)

text \<open>Framing the non-empty blocks and closing with the last chunk is undone by the reader.\<close>

lemma dechunk_body:
  "dechunk (concat (map (http_frame True) (filter (\<lambda>bs. bs \<noteq> []) blocks)) @ 48 # CRLF @ CRLF) = Some (concat blocks)"
  by (induction blocks) (simp_all add: dechunk_end dechunk_chunk)

section \<open>What reaches the server\<close>

lemma send_pieces_logged:
  "send_pieces (logged S) ps st = (st', Inr ()) \<Longrightarrow> lg_written st' = lg_written st @ concat ps"
proof (induction ps arbitrary: st)
  case (Cons p ps)
  then obtain st1 where "so_sendall (logged S) p st = (st1, Inr ())" "send_pieces (logged S) ps st1 = (st', Inr ())"
    by (auto simp: obind_Inr_iff)
  then show ?case using Cons.IH [of st1] by (auto simp: logged_def split: prod.splits sum.splits)
qed simp

definition body_bytes :: "http_body \<Rightarrow> bytes" where
  "body_bytes b = concat (body_blocks b)"

lemma body_pieces_plain: "concat (body_pieces False b) = body_bytes b"
proof -
  have "concat (filter (\<lambda>bs. bs \<noteq> []) bss) = concat bss" for bss :: "bytes list" by (induction bss) auto
  moreover have "http_frame False = (\<lambda>c. c)" by (simp add: http_frame_def fun_eq_iff)
  ultimately show ?thesis by (simp add: body_pieces_def body_bytes_def body_blocks_def split: http_body.split)
qed

lemma body_pieces_chunked: "b \<noteq> NoBody \<Longrightarrow> dechunk (concat (body_pieces True b)) = Some (body_bytes b)"
  using dechunk_body [of "body_blocks b"] by (simp add: body_pieces_def body_bytes_def)

lemma wire_headers_host:
  assumes "length (filter (is_name ''host'') headers) \<le> 1"
  shows "length (filter (is_name ''host'') (wire_headers u port headers)) = 1"
proof (cases "list_ex (is_name ''host'') headers")
  case True
  then have "filter (is_name ''host'') headers \<noteq> []" by (simp add: list_ex_iff filter_empty_conv)
  then show ?thesis using assms True by (cases "filter (is_name ''host'') headers") (auto simp: wire_headers_def)
next
  case False
  then have "filter (is_name ''host'') headers = []" by (simp add: list_ex_iff filter_empty_conv)
  moreover have "is_name ''host'' (''Host'', host_header u port)" by (simp add: is_name_def; code_simp)
  ultimately show ?thesis using False by (simp add: wire_headers_def)
qed

text \<open>C17: a request that is sent reaches the socket whole: the bytes written are the request line, one line for each
header, among them exactly one Host header and every header of the request, an empty line and the body,
which is the body's bytes, or, when the request asks for chunked encoding, framed so that a reader of chunks
gets exactly these bytes back, empty blocks included.\<close>

theorem request_is_framed:
  assumes "length (filter (is_name ''host'') (rq_headers rq)) \<le> 1"
    and "send_request (logged S) rq st = (st', Inr ())"
  shows "\<exists>u port line headers lines body.
      urlsplit (or_else (rq_url rq) '''') = Inr u \<and> url_port u = Inr port
    \<and> putrequest (or_else (rq_method rq) ''GET'') (request_path u) = Inr line
    \<and> list_all2 (\<lambda>h l. putheader h = Inr l) headers lines
    \<and> length (filter (is_name ''host'') headers) = 1 \<and> suffix (rq_headers rq) headers
    \<and> lg_written st' = lg_written st @ line @ concat lines @ CRLF @ body
    \<and> (if \<not> is_chunked (rq_headers rq) then body = body_bytes (rq_body rq)
       else rq_body rq = NoBody \<or> dechunk body = Some (body_bytes (rq_body rq)))"
proof -
  obtain head where head: "request_head rq = Inr head"
    "send_pieces (logged S) (head # body_pieces (is_chunked (rq_headers rq)) (rq_body rq)) st = (st', Inr ())"
    using assms(2) unfolding send_request_def obind_Inr_iff by auto
  then obtain u port line lines where h: "urlsplit (or_else (rq_url rq) '''') = Inr u" "url_port u = Inr port"
    "putrequest (or_else (rq_method rq) ''GET'') (request_path u) = Inr line"
    "rmap putheader (wire_headers u port (rq_headers rq)) = Inr lines" "head = line @ concat lines @ CRLF"
    by (auto simp: request_head_def)
  let ?body = "concat (body_pieces (is_chunked (rq_headers rq)) (rq_body rq))"
  have "lg_written st' = lg_written st @ line @ concat lines @ CRLF @ ?body"
    using send_pieces_logged [OF head(2)] h(5) by simp
  moreover have "suffix (rq_headers rq) (wire_headers u port (rq_headers rq))"
    by (simp add: wire_headers_def suffix_ConsI)
  moreover have "if \<not> is_chunked (rq_headers rq) then ?body = body_bytes (rq_body rq)
       else rq_body rq = NoBody \<or> dechunk ?body = Some (body_bytes (rq_body rq))"
    using body_pieces_plain body_pieces_chunked by auto
  moreover have "list_all2 (\<lambda>h l. putheader h = Inr l) (wire_headers u port (rq_headers rq)) lines"
    using h(4) by (simp add: rmap_Inr_iff)
  ultimately show ?thesis using h(1-3) wire_headers_host [OF assms(1)] by blast
qed

definition example_post :: prepared where
  "example_post = \<lparr>rq_method = Some ''POST'', rq_url = Some ''http://a.io:8080/x?y=1'',
     rq_headers = [(''Transfer-Encoding'', ''chunked'')], rq_body = IterBody [[1, 2], [], [3]]\<rparr>"

definition example_log :: "bytes list log_sock" where
  "example_log = \<lparr>lg_sock = [], lg_written = [], lg_received = []\<rparr>"

theorem request_is_framed_witness:
  "\<exists>st' head body. send_request (logged toy_socket) example_post example_log = (st', Inr ())
    \<and> lg_written st' = head @ body \<and> dechunk body = Some [1, 2, 3]"
proof -
  have one: "length (filter (is_name ''host'') (rq_headers example_post)) \<le> 1" by code_simp
  have "snd (send_request (logged toy_socket) example_post example_log) = Inr ()" by code_simp
  then obtain st' where st': "send_request (logged toy_socket) example_post example_log = (st', Inr ())"
    by (metis prod.collapse)
  have chunked: "is_chunked (rq_headers example_post)" "rq_body example_post \<noteq> NoBody"
    "body_bytes (rq_body example_post) = [1, 2, 3]" by code_simp+
  show ?thesis using request_is_framed [OF one st'] st' chunked by (auto simp flip: append_assoc)
qed

text \<open>An IPv6 host loses its brackets on the way into the Host header.\<close>

lemma ipv6_host_header:
  "rbind (urlsplit ''http://[::1]:8080/'') (\<lambda>u. rbind (url_port u) (\<lambda>port. Inr (host_header u port))) = Inr ''::1:8080''"
  by code_simp

text \<open>The errors of the response are Tor's own or a \<open>StreamError\<close>, unless they are no \<open>OSError\<close> and no \<open>HTTPException\<close>.\<close>

lemma response_error_typed: "catches [HTTPException, OSError] e \<Longrightarrow> catches [TorError] (response_error e)"
proof -
  have "catches [TorError] StreamError" by code_simp
  then show "catches [HTTPException, OSError] e \<Longrightarrow> ?thesis" by (simp add: response_error_def)
qed

end
