(* ===== verification/TorAdapter.thy ===== *)
theory TorAdapter
  imports HttpRequest ClientPool
begin

text \<open>
  The transport adapter for requests (\<open>adapter.py\<close>) and the response it builds (\<open>_http/response.py\<close>). The connector
  is a record of operations, since the code takes any; \<open>tor_connector\<close> is the one the Tor client provides.
  Reading a response, loading certificates and whether a path is a directory are arguments. A response
  remembers the stream its socket runs on.
\<close>

section \<open>Timeouts and TLS settings\<close>

datatype timeout_spec = NoTimeout | Seconds real | TimeoutTuple "real option list"

definition split_timeout :: "timeout_spec \<Rightarrow> (real option \<times> real option) res" where
  "split_timeout timeout =
    (case timeout of
       NoTimeout \<Rightarrow> Inr (None, None)
     | TimeoutTuple ts \<Rightarrow> (case ts of [connect, read] \<Rightarrow> Inr (connect, read) | _ \<Rightarrow> Inl ValueError)
     | Seconds t \<Rightarrow> Inr (Some t, Some t))"

datatype verify_spec = Verify bool | VerifyPath string
datatype cert_spec = NoCert | CertFile string | CertPair string string
datatype trust = TrustNothing | TrustDefault | TrustDirectory string | TrustFile string

record tls_config =
  tl_check_hostname :: bool
  tl_required :: bool
  tl_trust :: trust
  tl_cert :: cert_spec

text \<open>The file system as \<open>ssl\<close> sees it.\<close>

record tls_files =
  tf_isdir :: "string \<Rightarrow> bool"
  tf_load_trust :: "trust \<Rightarrow> unit res"
  tf_load_cert :: "cert_spec \<Rightarrow> unit res"

definition tls_context :: "tls_files \<Rightarrow> verify_spec \<Rightarrow> cert_spec \<Rightarrow> tls_config res" where
  "tls_context F verify cert =
    rbind (case verify of
        Verify False \<Rightarrow> Inr (False, TrustNothing)
      | VerifyPath path \<Rightarrow>
          let trust = (if tf_isdir F path then TrustDirectory path else TrustFile path)
          in rbind (tf_load_trust F trust) (\<lambda>_. Inr (True, trust))
      | Verify True \<Rightarrow> rbind (tf_load_trust F TrustDefault) (\<lambda>_. Inr (True, TrustDefault))) (\<lambda>(checked, trust).
    rbind (if cert = NoCert then Inr () else tf_load_cert F cert) (\<lambda>_.
      Inr \<lparr>tl_check_hostname = checked, tl_required = checked, tl_trust = trust, tl_cert = cert\<rparr>))"

section \<open>The adapter\<close>

datatype isolation = IsoSession | IsoHost | IsoRequest

definition isolation_policy :: "string \<Rightarrow> isolation option" where
  "isolation_policy s =
    (if s = ''session'' then Some IsoSession else if s = ''host'' then Some IsoHost
     else if s = ''request'' then Some IsoRequest else None)"

text \<open>The token is an object compared by identity: a number, \<open>fresh\<close> for \<open>object()\<close>.\<close>

record tor_adapter =
  ta_isolation :: isolation
  ta_owns_connector :: bool
  ta_token :: nat

definition TorAdapter_init :: "nat \<Rightarrow> string \<Rightarrow> bool \<Rightarrow> nat option \<Rightarrow> tor_adapter res" where
  "TorAdapter_init fresh isolation owns_connector isolation_token =
    (case isolation_policy isolation of
       None \<Rightarrow> Inl ValueError
     | Some policy \<Rightarrow>
        Inr \<lparr>ta_isolation = policy, ta_owns_connector = owns_connector,
             ta_token = (case isolation_token of Some t \<Rightarrow> t | None \<Rightarrow> fresh)\<rparr>)"

definition isolation_key :: "tor_adapter \<Rightarrow> string \<Rightarrow> iso_key option" where
  "isolation_key A hst =
    (case ta_isolation A of
       IsoSession \<Rightarrow> Some (Token (ta_token A))
     | IsoHost \<Rightarrow> Some (TokenHost (ta_token A) hst)
     | IsoRequest \<Rightarrow> None)"

record 'c connector =
  cn_connect :: "string \<Rightarrow> int \<Rightarrow> iso_key option \<Rightarrow> ('c, exc, nat \<times> nat) op"
  cn_sock :: "nat \<times> nat \<Rightarrow> 'c sock_ops"
  cn_new_identity :: "('c, exc, unit) op"
  cn_close :: "('c, exc, unit) op"

definition adapter_close :: "'c connector \<Rightarrow> tor_adapter \<Rightarrow> ('c, exc, unit) op" where
  "adapter_close N A = (if ta_owns_connector A then cn_close N else oreturn ())"

text \<open>The Tor client as a connector; a stream is its circuit's number and its own.\<close>

definition client_socket :: "prims \<Rightarrow> (nat \<Rightarrow> bytes) \<Rightarrow> client_env \<Rightarrow> nat \<times> nat \<Rightarrow> tor_client sock_ops" where
  "client_socket P urandom CE stream =
    (case stream of (i, r) \<Rightarrow>
      \<lparr>so_recv = (\<lambda>n st. on_circ i (so_recv (TorStreamSocket P urandom r (ce_wait CE (tc_tick st))) n) st),
       so_sendall = (\<lambda>data st. on_circ i (so_sendall (TorStreamSocket P urandom r (ce_wait CE (tc_tick st))) data) st),
       so_close = (\<lambda>st. on_circ i (so_close (TorStreamSocket P urandom r (ce_wait CE (tc_tick st)))) st)\<rparr>)"

definition tor_connector ::
  "prims \<Rightarrow> (nat \<Rightarrow> bytes) \<Rightarrow> client_env \<Rightarrow> dir_env \<Rightarrow> decompressors \<Rightarrow> tor_client connector" where
  "tor_connector P urandom CE E Z =
    \<lparr>cn_connect = connect_stream P urandom CE E Z, cn_sock = client_socket P urandom CE,
     cn_new_identity = new_identity, cn_close = client_close\<rparr>"

section \<open>Responses\<close>

record raw_response =
  rr_status :: int
  rr_reason :: string
  rr_headers :: "(string \<times> string) list"

record http_response =
  rp_status :: int
  rp_reason :: string
  rp_headers :: "(string \<times> string) list"
  rp_url :: string
  rp_request :: prepared
  rp_stream :: "nat \<times> nat"

text \<open>Header names are compared without case. urllib3's dictionary joins the values of a repeated header;
\<open>CaseInsensitiveDict\<close> alone keeps the last one.\<close>

fun add_header :: "string \<times> string \<Rightarrow> (string \<times> string) list \<Rightarrow> (string \<times> string) list" where
  "add_header (name, val) [] = [(name, val)]"
| "add_header (name, val) ((n, v) # hs) =
    (if py_lower n = py_lower name then (n, v @ '', '' @ val) # hs else (n, v) # add_header (name, val) hs)"

fun set_header :: "string \<times> string \<Rightarrow> (string \<times> string) list \<Rightarrow> (string \<times> string) list" where
  "set_header (name, val) [] = [(name, val)]"
| "set_header (name, val) ((n, v) # hs) =
    (if py_lower n = py_lower name then (name, val) # hs else (n, v) # set_header (name, val) hs)"

definition joined_headers :: "(string \<times> string) list \<Rightarrow> (string \<times> string) list" where
  "joined_headers hs = fold add_header hs []"

definition last_headers :: "(string \<times> string) list \<Rightarrow> (string \<times> string) list" where
  "last_headers hs = fold set_header hs []"

text \<open>The encoding and the cookies are worked out by requests from these fields.\<close>

definition build_response :: "prepared \<Rightarrow> raw_response \<Rightarrow> nat \<times> nat \<Rightarrow> http_response" where
  "build_response rq raw stream =
    \<lparr>rp_status = rr_status raw, rp_reason = rr_reason raw, rp_headers = joined_headers (rr_headers raw),
     rp_url = or_else (rq_url rq) '''', rp_request = rq, rp_stream = stream\<rparr>"

text \<open>\<open>_SocketCloser.close\<close>, which releasing the connection calls too; TLS closes the socket below.\<close>

definition close_response :: "'c connector \<Rightarrow> http_response \<Rightarrow> ('c, exc, unit) op" where
  "close_response N resp = so_close (cn_sock N (rp_stream resp))"

section \<open>Sending\<close>

record ('t, 'c) http_env =
  he_prims :: prims
  he_files :: tls_files
  he_engine :: "'t tls_engine"
  he_wrap :: "tls_config \<Rightarrow> string \<Rightarrow> 't"
  he_read :: "('c, exc, raw_response) op"
  he_read_tls :: "(('t, 'c) tls_sock, exc, raw_response) op"

text \<open>The TLS socket as a socket. Its calls return when the peer's input ends; a call that does not return has no
result to pass on.\<close>

definition tls_ops :: "'t tls_engine \<Rightarrow> 'c sock_ops \<Rightarrow> ('t, 'c) tls_sock sock_ops" where
  "tls_ops T S =
    \<lparr>so_recv = (\<lambda>n st. the (tls_recv T S n st)), so_sendall = (\<lambda>data st. the (tls_sendall T S data st)),
     so_close = tls_close S\<rparr>"

definition exchange_https ::
  "('t, 'c) http_env \<Rightarrow> 'c sock_ops \<Rightarrow> verify_spec \<Rightarrow> cert_spec \<Rightarrow> string \<Rightarrow> prepared \<Rightarrow> ('c, exc, raw_response) op" where
  "exchange_https H S verify cert hst rq c =
    (case tls_context (he_files H) verify cert of
       Inl e \<Rightarrow> (c, Inl e)
     | Inr cfg \<Rightarrow>
        (case the (TlsStreamSocket (he_engine H) S (he_wrap H cfg hst) c) of
           (ts, Inl e) \<Rightarrow> (ts_sock ts, Inl e)
         | (ts, Inr _) \<Rightarrow>
             (case perform_request (tls_ops (he_engine H) S) (he_read_tls H) rq ts of (ts', r) \<Rightarrow> (ts_sock ts', r))))"

definition exchange_http ::
  "('t, 'c) http_env \<Rightarrow> 'c sock_ops \<Rightarrow> verify_spec \<Rightarrow> cert_spec \<Rightarrow> url_split \<Rightarrow> prepared \<Rightarrow> ('c, exc, raw_response) op" where
  "exchange_http H S verify cert u rq =
    (if u_scheme u = ''https'' then exchange_https H S verify cert (url_host u) rq
     else perform_request S (he_read H) rq)"

text \<open>The checks before anything is sent: the target of the request.\<close>

definition request_target :: "prims \<Rightarrow> prepared \<Rightarrow> timeout_spec \<Rightarrow> string option list \<Rightarrow> (url_split \<times> int) res" where
  "request_target P rq timeout proxies =
    (if list_ex (\<lambda>v. case v of None \<Rightarrow> False | Some s \<Rightarrow> s \<noteq> []) proxies then Inl ProxyUnsupportedError
     else rbind (urlsplit (or_else (rq_url rq) '''')) (\<lambda>u.
          rbind (url_port u) (\<lambda>port.
          rbind (if is_onion_host (url_host u) then rbind (parse_address P (url_host u)) (\<lambda>_. Inr ()) else Inr ()) (\<lambda>_.
          rbind (split_timeout timeout) (\<lambda>_. Inr (u, port))))))"

definition adapter_send ::
  "('t, 'c) http_env \<Rightarrow> 'c connector \<Rightarrow> tor_adapter \<Rightarrow> prepared \<Rightarrow> timeout_spec \<Rightarrow> verify_spec \<Rightarrow> cert_spec \<Rightarrow>
    string option list \<Rightarrow> ('c, exc, http_response) op" where
  "adapter_send H N A rq timeout verify cert proxies =
    obind (olift (request_target (he_prims H) rq timeout proxies)) (\<lambda>(u, port).
    obind (cn_connect N (url_host u) port (isolation_key A (url_host u))) (\<lambda>stream.
    obind (exchange_http H (cn_sock N stream) verify cert u rq) (\<lambda>raw.
      oreturn (build_response rq raw stream))))"

section \<open>Properties\<close>



text \<open>When the TLS handshake or the exchange fails, the error is raised with the stream as it is: nobody closes it.\<close>

lemma failed_exchange_leaves_the_stream:
  assumes "request_target (he_prims H) rq timeout proxies = Inr (u, port)"
    and "cn_connect N (url_host u) port (isolation_key A (url_host u)) c = (c1, Inr stream)"
    and "exchange_http H (cn_sock N stream) verify cert u rq c1 = (c2, Inl e)"
  shows "adapter_send H N A rq timeout verify cert proxies c = (c2, Inl e)"
  using assms by (simp add: adapter_send_def obind_def)

text \<open>A refused request reaches neither the network nor the client.\<close>

lemma refused_request_does_nothing:
  "request_target (he_prims H) rq timeout proxies = Inl e \<Longrightarrow> adapter_send H N A rq timeout verify cert proxies c = (c, Inl e)"
  by (simp add: adapter_send_def obind_def)

end
