(* ===== verification/Sessions.thy ===== *)
theory Sessions
  imports TorAdapter
begin

text \<open>
  Sessions (\<open>sessions.py\<close>), the functional interface (\<open>api.py\<close>) and the browser-impersonating adapter (\<open>stealth.py\<close>).
  What \<open>requests.Session.send\<close> does is an argument: it gets the session's own \<open>send\<close>, to which it hands each
  redirect. \<open>follows_redirects\<close> states what its documentation says of it. The thread-local record of a
  \<open>MixedSession\<close> is the state of one thread; the fetches are logged in it. So is \<open>curl_cffi\<close>, of which
  only the arguments it is called with and whether it raises matter here.
\<close>

section \<open>Sessions\<close>

definition DEFAULT_USER_AGENT :: string where
  "DEFAULT_USER_AGENT = ''Mozilla/5.0 (Windows NT 10.0; rv:128.0) Gecko/20100101 Firefox/128.0''"

definition DEFAULT_HEADERS :: "(string \<times> string) list" where
  "DEFAULT_HEADERS =
    [(''User-Agent'', DEFAULT_USER_AGENT),
     (''Accept'', ''text/html,application/xhtml+xml,application/xml;q=0.9,*/*;q=0.8''),
     (''Accept-Language'', ''en-US,en;q=0.5''),
     (''Accept-Encoding'', ''gzip, deflate''),
     (''Connection'', ''keep-alive''),
     (''Upgrade-Insecure-Requests'', ''1'')]"

text \<open>An explicit client, or what bootstrapping one answers.\<close>

definition require_client :: "'c option \<Rightarrow> bool \<Rightarrow> 'c res \<Rightarrow> 'c res" where
  "require_client tor onion_auth bootstrapped =
    (case tor of Some c \<Rightarrow> if onion_auth then Inl ValueError else Inr c | None \<Rightarrow> bootstrapped)"

record 'c session =
  sn_trust_env :: bool
  sn_headers :: "(string \<times> string) list"
  sn_owns_client :: bool
  sn_tor :: 'c
  sn_adapter :: tor_adapter
  sn_cookies :: "(string \<times> string) list"

definition Session_init :: "nat \<Rightarrow> 'c option \<Rightarrow> bool \<Rightarrow> 'c res \<Rightarrow> string \<Rightarrow> nat option \<Rightarrow> 'c session res" where
  "Session_init fresh tor onion_auth bootstrapped isolation isolation_token =
    rbind (require_client tor onion_auth bootstrapped) (\<lambda>c.
    rbind (TorAdapter_init fresh isolation False isolation_token) (\<lambda>adapter.
      Inr \<lparr>sn_trust_env = False, sn_headers = DEFAULT_HEADERS, sn_owns_client = (tor = None), sn_tor = c,
           sn_adapter = adapter, sn_cookies = []\<rparr>))"

definition on_tor :: "('c, exc, 'a) op \<Rightarrow> ('c session, exc, 'a) op" where
  "on_tor p s = (case p (sn_tor s) of (c, r) \<Rightarrow> (s\<lparr>sn_tor := c\<rparr>, r))"

definition session_new_identity :: "'c connector \<Rightarrow> ('c session, exc, unit) op" where
  "session_new_identity N = obind (on_tor (cn_new_identity N)) (\<lambda>_ s. (s\<lparr>sn_cookies := []\<rparr>, Inr ()))"

text \<open>\<open>requests.Session.close\<close> closes the adapter of each of the two mounts.\<close>

definition session_close :: "'c connector \<Rightarrow> ('c session, exc, unit) op" where
  "session_close N s =
    (obind (on_tor (adapter_close N (sn_adapter s))) (\<lambda>_.
     obind (on_tor (adapter_close N (sn_adapter s))) (\<lambda>_.
       if sn_owns_client s then on_tor (cn_close N) else oreturn ()))) s"

text \<open>A \<open>MixedSession\<close> closes its direct adapter last; what that answers is an argument.\<close>

definition mixed_close :: "'c connector \<Rightarrow> unit res \<Rightarrow> ('c session, exc, unit) op" where
  "mixed_close N direct = obind (session_close N) (\<lambda>_. olift direct)"

section \<open>Mixed sessions\<close>

datatype route = OverTor | Direct

definition host_is_onion :: "string \<Rightarrow> bool res" where
  "host_is_onion url = rbind (urlsplit url) (\<lambda>u. Inr (is_onion_host (url_host u)))"

definition get_adapter :: "string \<Rightarrow> route res" where
  "get_adapter url = rbind (host_is_onion url) (\<lambda>onion. Inr (if onion then OverTor else Direct))"

record mixed =
  mx_active :: bool
  mx_prev_onion :: bool
  mx_log :: "(string \<times> route) list"    \<comment> \<open>the requests made, the last one first\<close>

type_synonym 'r sender = "string \<Rightarrow> (mixed, exc, 'r) op"

text \<open>\<open>MixedSession.send\<close>; \<open>base\<close> is the inherited \<open>send\<close>, which calls back the session's own: here the one at the
next depth of Python's recursion, whose limit is the fuel.\<close>

fun mixed_send :: "('r sender \<Rightarrow> 'r sender) \<Rightarrow> nat \<Rightarrow> 'r sender" where
  "mixed_send base 0 url st = (st, Inl Exception)"
| "mixed_send base (Suc n) url st =
    (case host_is_onion url of
       Inl e \<Rightarrow> (st, Inl e)
     | Inr this_onion \<Rightarrow>
        if \<not> mx_active st then
          (case base (mixed_send base n) url (st\<lparr>mx_active := True, mx_prev_onion := this_onion\<rparr>) of
             (st', r) \<Rightarrow> (st'\<lparr>mx_active := False\<rparr>, r))
        else if mx_prev_onion st \<and> \<not> this_onion then (st, Inl OnionRedirectError)
        else base (mixed_send base n) url (st\<lparr>mx_prev_onion := this_onion\<rparr>))"

section \<open>The functional interface\<close>

record 'c api_state =
  ap_client :: "'c option"
  ap_bootstraps :: nat

text \<open>\<open>boot\<close> is what the \<open>n\<close>-th bootstrap answers.\<close>

definition default_client :: "(nat \<Rightarrow> 'c res) \<Rightarrow> ('c api_state, exc, 'c) op" where
  "default_client boot s =
    (case ap_client s of
       Some c \<Rightarrow> (s, Inr c)
     | None \<Rightarrow>
        let s1 = s\<lparr>ap_bootstraps := Suc (ap_bootstraps s)\<rparr> in
        (case boot (ap_bootstraps s) of
           Inl e \<Rightarrow> (s1, Inl e)
         | Inr c \<Rightarrow> (s1\<lparr>ap_client := Some c\<rparr>, Inr c)))"

text \<open>A verb: a session of its own on the shared client, closed however the exchange ends. \<open>token\<close> is the module's.\<close>

definition api_request :: "'c connector \<Rightarrow> (nat \<Rightarrow> 'c res) \<Rightarrow> nat \<Rightarrow> nat \<Rightarrow> ('c session, exc, 'r) op \<Rightarrow> ('c api_state, exc, 'r) op" where
  "api_request N boot fresh token send s =
    (case default_client boot s of
       (s1, Inl e) \<Rightarrow> (s1, Inl e)
     | (s1, Inr c) \<Rightarrow>
        (case Session_init fresh (Some c) False (Inr c) ''host'' (Some token) of
           Inl e \<Rightarrow> (s1, Inl e)
         | Inr session \<Rightarrow>
            (case send session of (session1, r) \<Rightarrow>
               (case session_close N session1 of (session2, ended) \<Rightarrow>
                  (s1\<lparr>ap_client := Some (sn_tor session2)\<rparr>, rbind ended (\<lambda>_. r))))))"

definition api_new_identity :: "'c connector \<Rightarrow> ('c api_state, exc, unit) op" where
  "api_new_identity N s =
    (case ap_client s of
       None \<Rightarrow> (s, Inr ())
     | Some c \<Rightarrow> (case cn_new_identity N c of (c', r) \<Rightarrow> (s\<lparr>ap_client := Some c'\<rparr>, r)))"

text \<open>The client that was closed, if there was one, and the result.\<close>

definition api_close :: "'c connector \<Rightarrow> 'c api_state \<Rightarrow> 'c api_state \<times> 'c option \<times> unit res" where
  "api_close N s =
    (case ap_client s of
       None \<Rightarrow> (s, None, Inr ())
     | Some c \<Rightarrow> (case cn_close N c of (c', r) \<Rightarrow> (s\<lparr>ap_client := None\<rparr>, Some c', r)))"

definition api_head_redirects :: "bool option \<Rightarrow> bool option" where
  "api_head_redirects given = Some (case given of Some b \<Rightarrow> b | None \<Rightarrow> False)"

section \<open>The impersonating adapter\<close>

record curl_call =
  cc_method :: string
  cc_url :: string
  cc_headers :: "(string \<times> string) list"
  cc_body :: http_body
  cc_impersonate :: string
  cc_proxies :: "(string \<times> string) list"
  cc_default_headers :: bool
  cc_allow_redirects :: bool
  cc_stream :: bool
  cc_verify :: bool
  cc_timeout :: timeout_spec

record stealth =
  st_impersonate :: string
  st_proxy_url :: string
  st_owns_tor :: bool

text \<open>The call made to curl, if any: \<open>cert\<close> and \<open>proxies\<close> are taken and not used.\<close>

definition stealth_send ::
  "stealth \<Rightarrow> prepared \<Rightarrow> bool \<Rightarrow> timeout_spec \<Rightarrow> verify_spec \<Rightarrow> cert_spec \<Rightarrow> string option list \<Rightarrow> curl_call res" where
  "stealth_send A rq stream timeout verify cert proxies =
    (case verify of
       VerifyPath _ \<Rightarrow> Inl ValueError
     | Verify v \<Rightarrow>
        Inr \<lparr>cc_method = or_else (rq_method rq) ''GET'', cc_url = or_else (rq_url rq) '''', cc_headers = rq_headers rq,
             cc_body = rq_body rq, cc_impersonate = st_impersonate A,
             cc_proxies = [(''http'', st_proxy_url A), (''https'', st_proxy_url A)], cc_default_headers = True, cc_allow_redirects = False,
             cc_stream = stream, cc_verify = v, cc_timeout = timeout\<rparr>)"

record curl_response =
  cl_status :: int
  cl_reason :: "string option"
  cl_url :: "string option"
  cl_headers :: "(string \<times> string) list"             \<comment> \<open>\<open>items()\<close>\<close>
  cl_multi :: "(string \<times> string) list option"        \<comment> \<open>\<open>multi_items()\<close>, if there is one\<close>

record stealth_response =
  sr_status :: int
  sr_reason :: string
  sr_headers :: "(string \<times> string) list"
  sr_url :: string
  sr_request :: prepared

definition header_message :: "curl_response \<Rightarrow> (string \<times> string) list" where
  "header_message r = (case cl_multi r of Some pairs \<Rightarrow> pairs | None \<Rightarrow> cl_headers r)"

text \<open>\<open>_build_response\<close>: the cookies are read from the message, the headers are the dictionary of it.\<close>

definition stealth_build_response :: "prepared \<Rightarrow> curl_response \<Rightarrow> stealth_response" where
  "stealth_build_response rq r =
    \<lparr>sr_status = cl_status r, sr_reason = or_else (cl_reason r) '''', sr_headers = last_headers (header_message r),
     sr_url = or_else (cl_url r) (or_else (rq_url rq) ''''), sr_request = rq\<rparr>"

text \<open>\<open>__init__\<close>: \<open>curl\<close> is what loading curl answers, \<open>port\<close> what binding the proxy to a free port does.\<close>

definition stealth_init :: "unit res \<Rightarrow> string \<Rightarrow> 'c option \<Rightarrow> 'c res \<Rightarrow> nat res \<Rightarrow> (stealth \<times> 'c) res" where
  "stealth_init curl impersonate tor bootstrapped port =
    rbind curl (\<lambda>_.
    rbind (case tor of Some c \<Rightarrow> Inr c | None \<Rightarrow> bootstrapped) (\<lambda>c.
    rbind port (\<lambda>p.
      Inr (\<lparr>st_impersonate = impersonate, st_proxy_url = ''socks5h://127.0.0.1:'' @ dec_digits p,
            st_owns_tor = (tor = None)\<rparr>, c))))"

text \<open>\<open>_CurlRaw.stream\<close>: the blocks it yields; the response is released at the end.\<close>

definition curl_blocks :: "bool \<Rightarrow> (nat \<Rightarrow> bytes list) \<Rightarrow> bytes \<Rightarrow> nat option \<Rightarrow> bytes list" where
  "curl_blocks streaming iter_content content amt =
    (if streaming then iter_content (case amt of None \<Rightarrow> 10240 | Some n \<Rightarrow> if n = 0 then 10240 else n) else [content])"

text \<open>The steps of \<open>close\<close> with what each answers; every exception is suppressed.\<close>

datatype close_step = CloseSession | StopServer | CloseServer | CloseTor

fun run_suppressed :: "(close_step \<Rightarrow> unit res) \<Rightarrow> close_step list \<Rightarrow> close_step list \<times> unit res" where
  "run_suppressed answers [] = ([], Inr ())"
| "run_suppressed answers (step # steps) =
    (case answers step of
       Inl e \<Rightarrow> if catches [Exception] e then map_prod ((#) step) id (run_suppressed answers steps) else ([step], Inl e)
     | Inr _ \<Rightarrow> map_prod ((#) step) id (run_suppressed answers steps))"

text \<open>\<open>stealth_session\<close>: what a fresh session is set to, with the adapter mounted twice.\<close>

record 'c stealth_sess =
  ss_trust_env :: bool
  ss_headers :: "(string \<times> string) list"
  ss_adapter :: stealth
  ss_tor :: 'c

definition stealth_session :: "unit res \<Rightarrow> string \<Rightarrow> 'c option \<Rightarrow> 'c res \<Rightarrow> nat res \<Rightarrow> 'c stealth_sess res" where
  "stealth_session curl impersonate tor bootstrapped port =
    rbind (stealth_init curl impersonate tor bootstrapped port) (\<lambda>(adapter, c).
      Inr \<lparr>ss_trust_env = False, ss_headers = [], ss_adapter = adapter, ss_tor = c\<rparr>)"

definition stealth_close :: "stealth \<Rightarrow> (close_step \<Rightarrow> unit res) \<Rightarrow> close_step list \<times> unit res" where
  "stealth_close A answers =
    run_suppressed answers ([CloseSession, StopServer, CloseServer] @ (if st_owns_tor A then [CloseTor] else []))"

section \<open>Properties\<close>

subsection \<open>Redirects of a mixed session\<close>

text \<open>What a session's inherited \<open>send\<close> does with the session's own: nothing, or one more request at a time.\<close>

inductive redirected :: "'r sender \<Rightarrow> mixed \<Rightarrow> mixed \<Rightarrow> bool" for send where
  redirected_stop: "redirected send st st"
| redirected_hop: "send url st = (st1, r) \<Longrightarrow> redirected send st1 st2 \<Longrightarrow> redirected send st st2"

text \<open>The documented behaviour of \<open>requests.Session.send\<close>: it fetches the request through the adapter of its URL,
whatever comes of it, and hands the redirects it follows to the session's \<open>send\<close> one after the other.\<close>

definition follows_redirects :: "('r sender \<Rightarrow> 'r sender) \<Rightarrow> bool" where
  "follows_redirects base \<longleftrightarrow> (\<forall>send url st.
    (case get_adapter url of
       Inl e \<Rightarrow> base send url st = (st, Inl e)
     | Inr route \<Rightarrow> redirected send (st\<lparr>mx_log := (url, route) # mx_log st\<rparr>) (fst (base send url st))))"

fun leak_free :: "(string \<times> route) list \<Rightarrow> bool" where
  "leak_free ((u, a) # (v, b) # rest) \<longleftrightarrow> \<not> (a = Direct \<and> b = OverTor) \<and> leak_free ((v, b) # rest)"
| "leak_free rest \<longleftrightarrow> True"

definition chain_ok :: "mixed \<Rightarrow> bool" where
  "chain_ok st \<longleftrightarrow> mx_active st \<and> leak_free (mx_log st) \<and>
    (case mx_log st of [] \<Rightarrow> False | (_, route) # _ \<Rightarrow> mx_prev_onion st = (route = OverTor))"

lemma redirected_chain:
  assumes "redirected send st st'" "\<And>url st. chain_ok st \<Longrightarrow> chain_ok (fst (send url st))" "chain_ok st"
  shows "chain_ok st'"
  using assms(1,3)
proof (induction rule: redirected.induct)
  case (redirected_hop url st st1 r st2)
  then show ?case using assms(2) [of st url] by simp
qed simp

text \<open>A fetch that keeps the chain, followed by whatever the redirects are.\<close>

lemma base_chain:
  assumes "follows_redirects base" "\<And>url st. chain_ok st \<Longrightarrow> chain_ok (fst (send url st))"
    and "host_is_onion url = Inr onion" "chain_ok (st\<lparr>mx_log := (url, if onion then OverTor else Direct) # mx_log st\<rparr>)"
  shows "chain_ok (fst (base send url st))"
proof -
  have "get_adapter url = Inr (if onion then OverTor else Direct)" using assms(3) by (simp add: get_adapter_def)
  then have "redirected send (st\<lparr>mx_log := (url, if onion then OverTor else Direct) # mx_log st\<rparr>) (fst (base send url st))"
    using assms(1) by (auto simp: follows_redirects_def dest!: spec [of _ send] spec [of _ url] spec [of _ st])
  then show ?thesis using redirected_chain assms(2,4) by blast
qed

lemma hop_keeps_chain:
  assumes "follows_redirects base"
  shows "chain_ok st \<Longrightarrow> chain_ok (fst (mixed_send base n url st))"
proof (induction n arbitrary: url st)
  case (Suc n)
  have act: "mx_active st" using Suc.prems by (simp add: chain_ok_def)
  show ?case
  proof (cases "host_is_onion url")
    case (Inr onion)
    show ?thesis
    proof (cases "mx_prev_onion st \<and> \<not> onion")
      case False
      then have "chain_ok ((st\<lparr>mx_prev_onion := onion\<rparr>)\<lparr>mx_log := (url, if onion then OverTor else Direct) # mx_log st\<rparr>)"
        using Suc.prems by (auto simp: chain_ok_def split: list.splits)
      then show ?thesis using base_chain [OF assms Suc.IH Inr, where st = "st\<lparr>mx_prev_onion := onion\<rparr>"] Inr act False by auto
    qed (use Inr act Suc.prems in simp)
  qed (use Suc.prems in simp)
qed simp

text \<open>C15: a mixed session never leaves an onion service for the clear. Whatever the responses redirect to and however
deep the recursion goes, no request made directly follows one made to an onion service, and the record of the
thread is inactive again afterwards, whether the send returned or raised.\<close>

theorem no_direct_fetch_after_onion:
  assumes "follows_redirects base" "\<not> mx_active st" "mx_log st = []"
  shows "leak_free (mx_log (fst (mixed_send base n url st))) \<and> \<not> mx_active (fst (mixed_send base n url st))"
proof (cases n)
  case (Suc k)
  show ?thesis
  proof (cases "host_is_onion url")
    case (Inr onion)
    let ?s = "st\<lparr>mx_active := True, mx_prev_onion := onion\<rparr>"
    have "chain_ok (?s\<lparr>mx_log := (url, if onion then OverTor else Direct) # mx_log ?s\<rparr>)"
      using assms(3) by (simp add: chain_ok_def)
    then have "chain_ok (fst (base (mixed_send base k) url ?s))"
      using base_chain [OF assms(1) hop_keeps_chain [OF assms(1)] Inr, where st = ?s] by simp
    then show ?thesis using Suc Inr assms(2) by (auto simp: chain_ok_def split: prod.splits)
  qed (use Suc assms in simp)
qed (use assms in simp)

definition toy_onion_url :: string where "toy_onion_url = ''http://a.onion/''"
definition toy_clear_url :: string where "toy_clear_url = ''http://b.org/''"

text \<open>A site whose onion address redirects to the clear.\<close>

definition toy_base :: "unit sender \<Rightarrow> unit sender" where
  "toy_base send url st =
    (case get_adapter url of
       Inl e \<Rightarrow> (st, Inl e)
     | Inr route \<Rightarrow>
        let st1 = st\<lparr>mx_log := (url, route) # mx_log st\<rparr>
        in if url = toy_onion_url then send toy_clear_url st1 else (st1, Inr ()))"

lemma one_hop: "redirected send st (fst (send url st))"
  by (rule redirected_hop [OF prod.collapse [symmetric] redirected_stop])

lemma toy_base_follows: "follows_redirects toy_base"
  by (auto simp: follows_redirects_def toy_base_def Let_def split: sum.splits intro: one_hop redirected_stop)

lemma toy_urls: "get_adapter toy_onion_url = Inr OverTor" "host_is_onion toy_onion_url = Inr True"
    "host_is_onion toy_clear_url = Inr False"
  by code_simp+

text \<open>The onion service's redirect is refused: only the onion address was fetched.\<close>

theorem no_direct_fetch_after_onion_witness:
  "mixed_send toy_base 5 toy_onion_url \<lparr>mx_active = False, mx_prev_onion = False, mx_log = []\<rparr>
    = (\<lparr>mx_active = False, mx_prev_onion = True, mx_log = [(toy_onion_url, OverTor)]\<rparr>, Inl OnionRedirectError)
   \<and> leak_free (mx_log (fst (mixed_send toy_base 5 toy_onion_url \<lparr>mx_active = False, mx_prev_onion = False, mx_log = []\<rparr>)))"
proof
  show "mixed_send toy_base 5 toy_onion_url \<lparr>mx_active = False, mx_prev_onion = False, mx_log = []\<rparr>
    = (\<lparr>mx_active = False, mx_prev_onion = True, mx_log = [(toy_onion_url, OverTor)]\<rparr>, Inl OnionRedirectError)"
    by (simp add: eval_nat_numeral toy_urls toy_base_def)
  show "leak_free (mx_log (fst (mixed_send toy_base 5 toy_onion_url \<lparr>mx_active = False, mx_prev_onion = False, mx_log = []\<rparr>)))"
    using no_direct_fetch_after_onion [OF toy_base_follows] by simp
qed

subsection \<open>The shared client and the impersonating adapter\<close>

text \<open>Once a client is there, every later call gets it without another bootstrap; a failed bootstrap leaves none.\<close>

lemma bootstrapped_once:
  assumes "default_client boot s = (s1, Inr c)"
  shows "default_client boot s1 = (s1, Inr c)"
  using assms by (auto simp: default_client_def Let_def split: option.splits sum.splits)

lemma failed_bootstrap_is_retried:
  assumes "default_client boot s = (s1, Inl e)"
  shows "ap_client s1 = None" "ap_bootstraps s1 = Suc (ap_bootstraps s)"
  using assms by (auto simp: default_client_def Let_def split: option.splits sum.splits)

lemma api_close_forgets: "ap_client (fst (api_close N s)) = None"
  by (auto simp: api_close_def split: option.splits prod.splits)

text \<open>Every verb's session uses the module's token: circuits are shared between calls to one host, and the shared client
is not the session's to close.\<close>

lemma verbs_share_circuits:
  assumes "Session_init fresh (Some c) False (Inr c) ''host'' (Some token) = Inr s"
  shows "isolation_key (sn_adapter s) hst = Some (TokenHost token hst)" "session_close N s = (s, Inr ())"
  using assms
  by (auto simp: Session_init_def require_client_def TorAdapter_init_def isolation_policy_def isolation_key_def
      session_close_def adapter_close_def on_tor_def obind_def oreturn_def)

lemma request_does_not_depend_on_the_fresh_token:
  "api_request N boot fresh token send = api_request N boot fresh' token send"
proof -
  have init: "Session_init fresh (Some c) False b ''host'' (Some token) = Session_init fresh' (Some c) False b ''host'' (Some token)"
    for c :: 'a and b
    by (simp add: Session_init_def TorAdapter_init_def isolation_policy_def)
  show ?thesis unfolding api_request_def init ..
qed

text \<open>Closing attempts every step, whatever the earlier ones raise, as long as it is an \<open>Exception\<close>.\<close>

lemma stealth_close_attempts_all:
  assumes "\<And>step e. answers step = Inl e \<Longrightarrow> catches [Exception] e"
  shows "stealth_close A answers =
    ([CloseSession, StopServer, CloseServer] @ (if st_owns_tor A then [CloseTor] else []), Inr ())"
  using assms by (auto simp: stealth_close_def split: sum.splits)

text \<open>A client certificate and a proxy given with the request are ignored.\<close>

lemma stealth_ignores_cert_and_proxies:
  "stealth_send A rq stream timeout verify cert proxies = stealth_send A rq stream timeout verify NoCert []"
  by (simp add: stealth_send_def)

text \<open>Of a repeated header the impersonating adapter keeps the last value, the other one joins them.\<close>

lemma repeated_header_is_dropped:
  "last_headers [(''Vary'', ''Accept''), (''vary'', ''Cookie'')] = [(''vary'', ''Cookie'')]"
  "joined_headers [(''Vary'', ''Accept''), (''vary'', ''Cookie'')] = [(''Vary'', ''Accept, Cookie'')]"
  by code_simp+

text \<open>With a client that was bootstrapped for the session and an unknown policy, nobody holds the client: it is lost open.\<close>

lemma invalid_isolation_loses_the_client:
  assumes "isolation_policy isolation = None"
  shows "Session_init fresh None auth (Inr c) isolation token = Inl ValueError"
  using assms by (simp add: Session_init_def require_client_def TorAdapter_init_def)

end
