(* ===== verification/Cli.thy ===== *)
theory Cli
  imports Sessions
begin

text \<open>
  The command line (\<open>cli.py\<close>): the commands and the exit codes of \<open>main\<close>. Arguments are parsed by argparse, so a
  command is its parsed namespace. What the library's verbs, files and the proxy answer are arguments; an
  interrupt is an outcome of its own, since \<open>KeyboardInterrupt\<close> is no \<open>Exception\<close>. The text of an error is left out.
\<close>

datatype 'a attempt = Worked 'a | Fails exc | Interrupted

datatype command =
    GetCmd string "(string \<times> string) list" "string option" bool real
  | IpCmd real
  | SocksCmd string int

datatype cli_output = Err string | Report exc | Out bytes | Say string | ToFile string bytes

record page =
  pg_status :: int
  pg_reason :: string
  pg_headers :: "(string \<times> string) list"
  pg_content :: bytes
  pg_ok :: bool

record cli_env =
  cmd_get :: "string \<Rightarrow> (string \<times> string) list option \<Rightarrow> real \<Rightarrow> page attempt"
  cmd_json_ip :: "bytes \<Rightarrow> string attempt"
  cmd_stdout :: "bytes \<Rightarrow> unit attempt"
  cmd_write :: "string \<Rightarrow> bytes \<Rightarrow> unit attempt"
  cmd_serve :: "string \<Rightarrow> int \<Rightarrow> unit attempt"

type_synonym run = "cli_output list \<times> int attempt"

definition attempted :: "'a attempt \<Rightarrow> cli_output list \<Rightarrow> ('a \<Rightarrow> run) \<Rightarrow> run" where
  "attempted a outs f =
    (case a of Worked x \<Rightarrow> (case f x of (outs', r) \<Rightarrow> (outs @ outs', r)) | Fails e \<Rightarrow> (outs, Fails e) | Interrupted \<Rightarrow> (outs, Interrupted))"

text \<open>\<open>dict\<close> of a list of pairs.\<close>

fun dict_set :: "'a \<times> 'b \<Rightarrow> ('a \<times> 'b) list \<Rightarrow> ('a \<times> 'b) list" where
  "dict_set (k, v) [] = [(k, v)]"
| "dict_set (k, v) ((k', v') # d) = (if k' = k then (k, v) # d else (k', v') # dict_set (k, v) d)"

definition dict_of :: "('a \<times> 'b) list \<Rightarrow> ('a \<times> 'b) list" where
  "dict_of pairs = fold dict_set pairs []"

definition page_head :: "page \<Rightarrow> cli_output list" where
  "page_head r =
    Err (int_str (pg_status r) @ '' '' @ pg_reason r) # map (\<lambda>(name, val). Err (name @ '': '' @ val)) (pg_headers r) @ [Err '''']"

definition run_get :: "cli_env \<Rightarrow> string \<Rightarrow> (string \<times> string) list \<Rightarrow> string option \<Rightarrow> bool \<Rightarrow> real \<Rightarrow> run" where
  "run_get E url header out incl timeout =
    (let headers = dict_of header in
     attempted (cmd_get E url (if headers = [] then None else Some headers) timeout) [] (\<lambda>r.
       let code = Worked (if pg_ok r then 0 else 1); head = (if incl then page_head r else []) in
       case out of
         Some path \<Rightarrow>
           if path = [] then attempted (cmd_stdout E (pg_content r)) head (\<lambda>_. ([Out (pg_content r)], code))
           else attempted (cmd_write E path (pg_content r)) head (\<lambda>_. ([ToFile path (pg_content r)], code))
       | None \<Rightarrow> attempted (cmd_stdout E (pg_content r)) head (\<lambda>_. ([Out (pg_content r)], code))))"

definition run_ip :: "cli_env \<Rightarrow> real \<Rightarrow> run" where
  "run_ip E timeout =
    attempted (cmd_get E ''https://check.torproject.org/api/ip'' None timeout) [] (\<lambda>r.
    attempted (cmd_json_ip E (pg_content r)) [] (\<lambda>ip. ([Say ip], Worked 0)))"

definition run_socks :: "cli_env \<Rightarrow> string \<Rightarrow> int \<Rightarrow> run" where
  "run_socks E hst port =
    (let banner = Err (''SOCKS5 proxy on '' @ hst @ '':'' @ int_str port @ '' (bootstrapping Tor)...'') in
     case cmd_serve E hst port of
       Worked _ \<Rightarrow> ([banner], Worked 0)
     | Interrupted \<Rightarrow> ([banner, Err (char_of (10 :: nat) # ''stopped'')], Worked 0)
     | Fails e \<Rightarrow> ([banner], Fails e))"

definition run_command :: "cli_env \<Rightarrow> command \<Rightarrow> run" where
  "run_command E c =
    (case c of GetCmd url header out incl timeout \<Rightarrow> run_get E url header out incl timeout
     | IpCmd timeout \<Rightarrow> run_ip E timeout | SocksCmd hst port \<Rightarrow> run_socks E hst port)"

text \<open>\<open>main\<close>: the output and the exit code; \<open>None\<close> for an error that is not caught.\<close>

definition main :: "cli_env \<Rightarrow> command \<Rightarrow> cli_output list \<times> int option" where
  "main E c =
    (case run_command E c of (outs, r) \<Rightarrow>
      (case r of
         Worked n \<Rightarrow> (outs, Some n)
       | Interrupted \<Rightarrow> (outs @ [Err (char_of (10 :: nat) # ''interrupted'')], Some 130)
       | Fails e \<Rightarrow> if catches [Exception] e then (outs @ [Report e], Some 1) else (outs, None)))"

lemma every_error_is_an_Exception: "catches [Exception] e"
  by (cases e) (simp_all add: catches_def isa.simps)

text \<open>No error leaves \<open>main\<close>, and its exit code is 0, 1 or 130.\<close>

lemma main_always_exits: "\<exists>n \<in> {0, 1, 130}. snd (main E c) = Some n"
  by (auto simp: main_def run_command_def run_get_def run_ip_def run_socks_def attempted_def every_error_is_an_Exception Let_def
      split: attempt.split command.split prod.split option.split)

lemma attempted_Worked_iff:
  "snd (attempted a outs f) = Worked n \<longleftrightarrow> (\<exists>x. a = Worked x \<and> snd (f x) = Worked n)"
  by (cases a) (auto simp: attempted_def split: prod.split)

lemma main_zero_iff: "snd (main E c) = Some 0 \<longleftrightarrow> snd (run_command E c) = Worked 0"
  by (auto simp: main_def every_error_is_an_Exception split: prod.split attempt.split)

text \<open>\<open>get\<close> exits with 0 exactly when the page came with a good status and all of it was written where asked.\<close>

lemma get_exits_zero_when_written:
  "snd (main E (GetCmd url header out incl timeout)) = Some 0 \<longleftrightarrow>
    (\<exists>r. cmd_get E url (if dict_of header = [] then None else Some (dict_of header)) timeout = Worked r \<and> pg_ok r
      \<and> (case out of None \<Rightarrow> cmd_stdout E (pg_content r) | Some path \<Rightarrow>
           if path = [] then cmd_stdout E (pg_content r) else cmd_write E path (pg_content r)) = Worked ())"
proof (cases out)
  case None
  then show ?thesis by (auto simp: main_zero_iff run_command_def run_get_def Let_def attempted_Worked_iff)
next
  case (Some path)
  then show ?thesis by (cases "path = []") (auto simp: main_zero_iff run_command_def run_get_def Let_def attempted_Worked_iff)
qed

text \<open>A repeated \<open>-H\<close> sends the last value given for the name.\<close>

lemma dict_set_lookup: "map_of (dict_set (k, v) d) = (map_of d)(k \<mapsto> v)"
  by (induction "(k, v)" d rule: dict_set.induct) (auto simp: fun_eq_iff)

lemma last_header_wins: "map_of (dict_of hs) = map_of (rev hs)"
proof -
  have "map_of (fold dict_set hs d) = map_of d ++ map_of (rev hs)" for d
    by (induction hs arbitrary: d) (auto simp: dict_set_lookup map_add_def fun_eq_iff split: option.splits)
  then show ?thesis by (simp add: dict_of_def)
qed

end
