(* ===== verification/Spec2Isabelle.thy ===== *)
theory Spec2Isabelle
  imports Prelude Errors PyBytes PyText Codecs Base64 Utf8 Constants Transport Cells CellLaws Crypto LinkSpec Certs
    Relay RelayCrypto FlowControl Handshake StreamState Circuit CircuitTeardown CircuitFlow CircuitOnion CircuitLaws
    CircuitBuild StreamOps StreamLaws Link LinkLaws Channel ChannelLaws Receiver
    Blinding OnionAddress HsDir DirModels PathSelect Guards NetDoc DirParsers DirLaws MicrodescLaws ConsensusVerify
    ConsensusLaws Descriptor DescriptorLaws DirHttp ConsensusStore Rendezvous LiveDir LiveDirLaws LivePaths Bootstrap
    TorClient ClientPool Socks TlsSocket HttpRequest TorAdapter Sessions Cli
begin

text \<open>
  torquests, a Tor client library in Python (\<open>src/src/torquests\<close>). A client downloads a signed consensus of the
  relays through the directory layer, picks relays from it, opens a TLS link to a guard, builds circuits of
  relays over the link and carries streams over the circuits; for an onion service it computes the directories
  that hold the service's descriptor, decrypts the descriptor and meets the service at a rendezvous point.

  The model is a shallow embedding: each function of the source is a HOL definition of (nearly) its name. A
  result is an error or a value (\<open>exc + 'a\<close>, \<^theory_text>\<open>Prelude\<close> and \<^theory_text>\<open>Errors\<close>, where the exception classes and
  \<open>except\<close> clauses are); a method of an object is an operation on a record of its attributes that returns the
  new record and a result, so the changes made before a raise stay. Bytes are 8-bit words, Python integers are
  integers, text is a list of characters of the first 256 code points. Cryptographic functions, zlib, RSA and
  the network are parameters with their documented shapes as named hypotheses (\<open>prims_ok\<close>, \<open>dh_commutes\<close>,
  \<open>keys_usable\<close>); each has a concrete instance.

  Theories, bottom up:
  \<^item> Bytes, text and codecs: \<open>PyBytes\<close>, \<open>PyText\<close>, \<open>Codecs\<close> (base32), \<open>Base64\<close>, \<open>Utf8\<close>.
  \<^item> Wire formats (\<open>_proto\<close>): \<open>Constants\<close>, \<open>Cells\<close>/\<open>CellLaws\<close> (link cells), \<open>LinkSpec\<close>, \<open>Certs\<close>, \<open>Relay\<close>,
    \<open>RelayCrypto\<close> (onion layers), \<open>Handshake\<close> (ntor and hs-ntor). Their lemmas are exactness of the parsers, round
    trips and agreement of the two ends. \<open>Prelude\<close> has the interface of an item format (\<open>item_codec\<close>), which
    link specifiers, certificate extensions, certificates and addresses interpret.
  \<^item> Network (\<open>_net\<close>): \<open>Transport\<close> (a socket as a script of results), \<open>Link\<close>/\<open>LinkLaws\<close> (the link handshake:
    nothing is sent to a relay that did not prove its identity), \<open>Channel\<close>/\<open>ChannelLaws\<close>/\<open>Receiver\<close> (circuit ids,
    the receiver thread, the interface \<open>cell_sinks\<close> of what a channel delivers to, interpreted by circuits),
    \<open>FlowControl\<close>, \<open>StreamState\<close>, \<open>Circuit\<close> and its laws (\<open>CircuitTeardown\<close>, \<open>CircuitFlow\<close>: a refinement of
    abstract flow control, \<open>CircuitOnion\<close>: what relays see, \<open>CircuitLaws\<close>, \<open>CircuitBuild\<close>), \<open>StreamOps\<close>/\<open>StreamLaws\<close>.
    An operation is atomic except where the code blocks; there the steps of the other threads are an argument,
    so the theorems hold for every interleaving.
  \<^item> Directory (\<open>_dir\<close>): \<open>DirModels\<close>, \<open>PathSelect\<close> (weighted choice and disjoint paths), \<open>Guards\<close> (the guard sample),
    \<open>NetDoc\<close>/\<open>DirParsers\<close> with \<open>DirLaws\<close> and \<open>MicrodescLaws\<close>, \<open>ConsensusVerify\<close>/\<open>ConsensusLaws\<close> (a majority of
    authorities; key certificates).
  \<^item> Onion services (\<open>_onion\<close>): \<open>Blinding\<close>, \<open>OnionAddress\<close>, \<open>HsDir\<close> (the ring), \<open>Descriptor\<close>/\<open>DescriptorLaws\<close>.
  \<^item> Client (\<open>_client\<close>): \<open>DirHttp\<close> (a directory request over a stream), \<open>ConsensusStore\<close> (the cache file),
    \<open>Rendezvous\<close> (introduction over the model of circuits), \<open>LiveDir\<close> with \<open>LiveDirLaws\<close> and \<open>LivePaths\<close> (microdescriptors
    on demand, the directory tunnel, paths; the invariants of every fetch are proved in the locale
    \<open>dir_invariant\<close>), \<open>Bootstrap\<close>, \<open>TorClient\<close> (every method of the client) and \<open>ClientPool\<close> (its pool under any
    interleaving of threads, as a step relation).
  \<^item> Front ends: \<open>Socks\<close> (the SOCKS5 proxy), \<open>TlsSocket\<close> (TLS over a Tor stream), \<open>HttpRequest\<close> (a
    prepared request written to a socket), \<open>TorAdapter\<close> (the transport adapter and its isolation keys),
    \<open>Sessions\<close> (sessions, the functional interface and the browser-impersonating adapter) and \<open>Cli\<close> (the commands
    and their exit codes).

  Loops are structural recursion, or functions with a measure; the receiver and the TLS pump, which may
  wait for ever, are \<open>partial_function\<close>s whose termination on an input that ends is a theorem. The circuit-id search has the
  source's own bound as fuel.

  Not modelled: logging and exception messages; timeouts, except as the choice that a wait
  ends without its condition; the rounding of floating-point bandwidths; characters beyond code point 255.
  Parameters: hash functions, curves, ciphers and RSA; the TLS engine and \<open>http.client\<close>'s response parser;
  zlib and gzip; what \<open>requests\<close> does with a redirect; curl; argparse; the idna codec.
\<close>

end
